(* ===== verification/Prelude.thy ===== *)
theory Prelude
  imports Main "HOL-Library.AList" "HOL-Library.Multiset"
begin

text \<open>
  What every component shares: the machine types of the Go code, Go maps as association
  lists with the contract their clients rely on, the helpers of backend/common/std and the
  collections the component proofs draw on.

  A Go \<open>uuid.UUID\<close> is the number its sixteen bytes spell, most significant byte first, which
  is how \<open>bytes.Compare\<close> and Postgres order them; \<open>uuid.Nil\<close> is zero. The code only compares
  identifiers, so the bound \<open>2^128\<close> is never needed. A Go \<open>int64\<close> is an \<open>int\<close> that every
  addition, subtraction and negation of the code wraps into the range of the type
  (\<open>i64\<close>), so overflow is the code's overflow.
\<close>

section \<open>Machine types\<close>

type_synonym uuid = int
type_synonym time = int
type_synonym int64 = int

definition uuid_Nil :: uuid where
  "uuid_Nil = 0"

definition i64 :: "int \<Rightarrow> int64" where
  "i64 x = (x + 9223372036854775808) mod 18446744073709551616 - 9223372036854775808"

definition fits64 :: "int \<Rightarrow> bool" where
  "fits64 x \<longleftrightarrow> -9223372036854775808 \<le> x \<and> x < 9223372036854775808"

definition add64 :: "int64 \<Rightarrow> int64 \<Rightarrow> int64" where
  "add64 a b = i64 (a + b)"

definition sub64 :: "int64 \<Rightarrow> int64 \<Rightarrow> int64" where
  "sub64 a b = i64 (a - b)"

definition neg64 :: "int64 \<Rightarrow> int64" where
  "neg64 a = i64 (- a)"

named_theorems arith64 "the wrapping operations written out"

declare add64_def [arith64] sub64_def [arith64] neg64_def [arith64]

text \<open>Evaluation wraps only what is out of range.\<close>

lemma i64_code [code]:
  "i64 x = (if x < 9223372036854775808 \<and> - x \<le> 9223372036854775808 then x
     else (x + 9223372036854775808) mod 18446744073709551616 - 9223372036854775808)"
  by (simp add: i64_def)

lemma i64_id: "fits64 x \<Longrightarrow> i64 x = x"
  by (simp add: i64_def fits64_def)

lemma fits64_i64 [simp]: "fits64 (i64 x)"
  by (simp add: i64_def fits64_def)

lemma i64_i64 [simp]: "i64 (i64 x) = i64 x"
  by (rule i64_id) simp

lemma i64_wrap: "i64 x = i64 y \<longleftrightarrow> x mod 18446744073709551616 = y mod 18446744073709551616"
  by (simp add: i64_def mod_eq_dvd_iff)

lemma i64_mod: "i64 x mod 18446744073709551616 = x mod 18446744073709551616"
proof -
  have "i64 x = x - 18446744073709551616 * ((x + 9223372036854775808) div 18446744073709551616)"
    by (simp add: i64_def minus_mult_div_eq_mod [symmetric])
  then show ?thesis by (simp add: mod_eq_dvd_iff)
qed

lemma i64_add_left [simp]: "i64 (i64 x + y) = i64 (x + y)"
  by (simp add: i64_wrap) (metis i64_mod mod_add_left_eq)

lemma i64_add_right [simp]: "i64 (x + i64 y) = i64 (x + y)"
  using i64_add_left [of y x] by (simp add: add.commute)

lemma i64_sub_left [simp]: "i64 (i64 x - y) = i64 (x - y)"
  using i64_add_left [of x "- y"] by simp

lemma i64_sub_right [simp]: "i64 (x - i64 y) = i64 (x - y)"
  by (simp add: i64_wrap) (metis i64_mod mod_diff_right_eq)

lemma fits64_0 [simp]: "fits64 0"
  by (simp add: fits64_def)

text \<open>In range, the wrapping operations are the mathematical ones.\<close>

lemma add64_id: "fits64 (a + b) \<Longrightarrow> add64 a b = a + b"
  by (simp add: add64_def i64_id)

lemma sub64_id: "fits64 (a - b) \<Longrightarrow> sub64 a b = a - b"
  by (simp add: sub64_def i64_id)

lemma neg64_id: "fits64 (- a) \<Longrightarrow> neg64 a = - a"
  by (simp add: neg64_def i64_id)

lemma add64_sub64_cancel: "fits64 a \<Longrightarrow> add64 (sub64 a b) b = a"
  by (simp add: arith64 i64_id)

section \<open>Helpers of backend/common/std\<close>

text \<open>\<open>std.Max\<close> and \<open>std.Min\<close> take one number and a variadic tail.\<close>

fun std_Max :: "int64 \<Rightarrow> int64 list \<Rightarrow> int64" where
  "std_Max number [] = number"
| "std_Max number (value # numbers) =
     std_Max (if number < value then value else number) numbers"

fun std_Min :: "int64 \<Rightarrow> int64 list \<Rightarrow> int64" where
  "std_Min number [] = number"
| "std_Min number (value # numbers) =
     std_Min (if number > value then value else number) numbers"

lemma std_Max_singleton [simp]: "std_Max a [b] = max a b"
  by (simp add: max_def)

lemma std_Min_singleton [simp]: "std_Min a [b] = min a b"
  by (simp add: min_def)

lemma std_Max_upper: "x \<in> set (n # ns) \<Longrightarrow> x \<le> std_Max n ns"
proof (induction ns arbitrary: n x)
  case Nil
  then show ?case by simp
next
  case (Cons v ns)
  have step: "y \<le> std_Max (if n < v then v else n) ns"
    if "y \<le> (if n < v then v else n)" for y
    using that Cons.IH [of "if n < v then v else n" "if n < v then v else n"] by simp
  show ?case
    using Cons.prems Cons.IH [of x "if n < v then v else n"] step [of x] by auto
qed

declare std_Max.simps(2) [simp del] std_Min.simps(2) [simp del]

section \<open>Error results\<close>

text \<open>
  A Go function that returns \<open>(T, error)\<close> is a function into \<open>'e + 't\<close>, \<open>Inl\<close> for the
  error. \<open>foldRes\<close> is the loop \<open>for _, x := range xs { if err := f(x); err != nil { return err } }\<close>.
\<close>

fun foldRes :: "('a \<Rightarrow> 's \<Rightarrow> 'e + 's) \<Rightarrow> 'a list \<Rightarrow> 's \<Rightarrow> 'e + 's" where
  "foldRes f [] s = Inr s"
| "foldRes f (x # xs) s = (case f x s of Inl e \<Rightarrow> Inl e | Inr s' \<Rightarrow> foldRes f xs s')"

lemma foldRes_append:
  "foldRes f (xs @ ys) s = (case foldRes f xs s of Inl e \<Rightarrow> Inl e | Inr s' \<Rightarrow> foldRes f ys s')"
  by (induction xs arbitrary: s) (auto split: sum.splits)

text \<open>An invariant of the body is an invariant of the loop.\<close>

lemma foldRes_invariant:
  assumes "foldRes f xs s = Inr t" and "P s"
    and "\<And>x u v. x \<in> set xs \<Longrightarrow> P u \<Longrightarrow> f x u = Inr v \<Longrightarrow> P v"
  shows "P t"
  using assms
proof (induction xs arbitrary: s)
  case Nil
  then show ?case by simp
next
  case (Cons x xs)
  then obtain u where u: "f x s = Inr u" "foldRes f xs u = Inr t"
    by (auto split: sum.splits)
  have "P u" using Cons.prems(2,3) u(1) by auto
  then show ?case using Cons.IH [OF u(2)] Cons.prems(3) by auto
qed

lemma foldRes_total:
  assumes "\<And>x s. x \<in> set xs \<Longrightarrow> \<exists>t. f x s = Inr t"
  shows "\<exists>t. foldRes f xs s = Inr t"
  using assms
proof (induction xs arbitrary: s)
  case Nil
  then show ?case by simp
next
  case (Cons x xs)
  from Cons.prems obtain u where "f x s = Inr u" by fastforce
  then show ?case using Cons by auto
qed

section \<open>Go maps\<close>

text \<open>
  A Go map is an association list: \<open>gget\<close> is the two-value lookup, \<open>gput\<close> the assignment
  \<open>m[k] = v\<close>, \<open>gkeys\<close> the keys a \<open>range\<close> loop visits. Go leaves the order of a \<open>range\<close>
  open; a list fixes one order, and the results that reach the database are sorted first
  (\<open>sortStockCreates\<close>), which is proved to remove the dependence on it.
\<close>

type_synonym ('k, 'v) gomap = "('k \<times> 'v) list"

definition gget :: "('k, 'v) gomap \<Rightarrow> 'k \<Rightarrow> 'v option" where
  "gget m k = map_of m k"

definition gput :: "'k \<Rightarrow> 'v \<Rightarrow> ('k, 'v) gomap \<Rightarrow> ('k, 'v) gomap" where
  "gput k v m = AList.update k v m"

definition gkeys :: "('k, 'v) gomap \<Rightarrow> 'k list" where
  "gkeys m = remdups (map fst m)"

definition gmap_ok :: "('k, 'v) gomap \<Rightarrow> bool" where
  "gmap_ok m \<longleftrightarrow> distinct (map fst m)"

text \<open>The contract: what a client of a Go map may rely on.\<close>

locale go_map =
  fixes empty :: "'m"
    and lookup :: "'m \<Rightarrow> 'k \<Rightarrow> 'v option"
    and assign :: "'k \<Rightarrow> 'v \<Rightarrow> 'm \<Rightarrow> 'm"
    and keys :: "'m \<Rightarrow> 'k list"
    and wf :: "'m \<Rightarrow> bool"
  assumes lookup_empty: "lookup empty k = None"
    and lookup_assign: "lookup (assign k v m) k' = (if k' = k then Some v else lookup m k')"
    and keys_lookup: "k \<in> set (keys m) \<longleftrightarrow> lookup m k \<noteq> None"
    and keys_distinct: "wf m \<Longrightarrow> distinct (keys m)"
    and wf_empty: "wf empty"
    and wf_assign: "wf m \<Longrightarrow> wf (assign k v m)"
begin

lemma keys_assign: "set (keys (assign k v m)) = insert k (set (keys m))"
  by (auto simp: keys_lookup lookup_assign split: if_splits)

text \<open>Filling a map from a list of pairs: the last assignment to a key wins.\<close>

lemma lookup_fold_other:
  "k \<notin> f ` set xs \<Longrightarrow> lookup (fold (\<lambda>x. assign (f x) (g x)) xs m) k = lookup m k"
  by (induction xs arbitrary: m) (auto simp: lookup_assign)

lemma lookup_fold_assign:
  assumes "distinct (map f xs)"
  shows "lookup (fold (\<lambda>x. assign (f x) (g x)) xs m) k =
    (if k \<in> f ` set xs then Some (g (the_elem {x \<in> set xs. f x = k})) else lookup m k)"
  using assms
proof (induction xs arbitrary: m)
  case Nil
  then show ?case by simp
next
  case (Cons x xs)
  show ?case
  proof (cases "k = f x")
    case True
    with Cons.prems have k: "k \<notin> f ` set xs" by simp
    with True have "{y \<in> set (x # xs). f y = k} = {x}" by (auto intro: rev_image_eqI)
    with True k show ?thesis by (simp add: lookup_fold_other lookup_assign)
  next
    case False
    then have "{y \<in> set (x # xs). f y = k} = {y \<in> set xs. f y = k}" by auto
    with False Cons show ?thesis by (simp add: lookup_assign)
  qed
qed

text \<open>Whatever the keys, an entry filled from a list is an element of the list.\<close>

lemma lookup_fold_member:
  "lookup (fold (\<lambda>x. assign (f x) x) xs m) k = Some v \<Longrightarrow> lookup m k = Some v \<or> (v \<in> set xs \<and> f v = k)"
proof (induction xs arbitrary: m)
  case (Cons x xs)
  from Cons.IH [of "assign (f x) x m"] Cons.prems show ?case
    by (auto simp: lookup_assign split: if_splits)
qed simp

lemma lookup_fold_defined:
  "x \<in> set xs \<or> lookup m (f x) \<noteq> None \<Longrightarrow>
     \<exists>v. lookup (fold (\<lambda>x. assign (f x) x) xs m) (f x) = Some v"
proof (induction xs arbitrary: m)
  case (Cons y ys)
  then have "x \<in> set ys \<or> lookup (assign (f y) y m) (f x) \<noteq> None"
    by (auto simp: lookup_assign)
  from Cons.IH [OF this] show ?case by simp
qed auto

lemma wf_fold_assign: "wf m \<Longrightarrow> wf (fold (\<lambda>x. assign (f x) (g x)) xs m)"
  by (induction xs arbitrary: m) (auto intro: wf_assign)

lemma lookup_fold_assign_iff:
  assumes "distinct (map f xs)"
  shows "lookup (fold (\<lambda>x. assign (f x) (g x)) xs empty) k = Some v \<longleftrightarrow>
    (\<exists>x \<in> set xs. f x = k \<and> g x = v)"
proof -
  have "the_elem {y \<in> set xs. f y = k} = x" if "x \<in> set xs" "f x = k" for x
  proof -
    have "{y \<in> set xs. f y = k} = {x}"
      using that assms by (auto simp: distinct_map dest: inj_onD)
    then show ?thesis by simp
  qed
  then show ?thesis
    by (auto simp: lookup_fold_assign [OF assms] lookup_empty)
qed

end

lemma gget_Nil [simp]: "gget [] k = None"
  by (simp add: gget_def)

lemma gget_Cons [simp]: "gget ((k', v) # m) k = (if k = k' then Some v else gget m k)"
  by (auto simp: gget_def)

lemma gget_gput [simp]: "gget (gput k v m) k' = (if k' = k then Some v else gget m k')"
  by (simp add: gget_def gput_def update_conv')

lemma gkeys_gget: "k \<in> set (gkeys m) \<longleftrightarrow> gget m k \<noteq> None"
  by (auto simp: gkeys_def gget_def map_of_eq_None_iff)

lemma gmap_ok_Nil [simp]: "gmap_ok []"
  by (simp add: gmap_ok_def)

lemma gmap_ok_gput [simp]: "gmap_ok m \<Longrightarrow> gmap_ok (gput k v m)"
  by (simp add: gmap_ok_def gput_def distinct_update)

lemma distinct_gkeys [simp]: "distinct (gkeys m)"
  by (simp add: gkeys_def)

interpretation gm: go_map "[]" gget gput gkeys gmap_ok
  by unfold_locales (auto simp: gkeys_gget)

definition gvals :: "('k, 'v) gomap \<Rightarrow> 'v list" where
  "gvals m = map (\<lambda>k. the (gget m k)) (gkeys m)"

text \<open>A lookup that yields Go's zero value of the element type when the key is absent.\<close>

definition ggetd :: "'v \<Rightarrow> ('k, 'v) gomap \<Rightarrow> 'k \<Rightarrow> 'v" where
  "ggetd z m k = (case gget m k of Some v \<Rightarrow> v | None \<Rightarrow> z)"

lemma ggetd_gput [simp]: "ggetd z (gput k v m) k' = (if k' = k then v else ggetd z m k')"
  by (simp add: ggetd_def)

lemma ggetd_Nil [simp]: "ggetd z [] k = z"
  by (simp add: ggetd_def)

section \<open>Splitting a string\<close>

text \<open>\<open>strings.Split\<close> at a separator of one element.\<close>

fun strings_Split :: "nat \<Rightarrow> nat list \<Rightarrow> nat list list" where
  "strings_Split sep [] = [[]]"
| "strings_Split sep (b # bs) =
     (if b = sep then [] # strings_Split sep bs
      else case strings_Split sep bs of [] \<Rightarrow> [[b]] | p # ps \<Rightarrow> (b # p) # ps)"

end
