(* ===== verification/StockModel.thy ===== *)
theory StockModel
  imports Prelude
begin

text \<open>
  The data of the inventory stock service: the rows the ent schemas of
  backend/inventory/ent/schema declare, the errors of service/stock, the request context and
  the tables a transaction sees.

  A row keeps the columns the service reads or writes. Nullable foreign keys that ent scans
  into a plain \<open>uuid.UUID\<close> are \<open>uuid_Nil\<close> when NULL. \<open>deleted_at\<close> is kept as the column
  itself (\<open>None\<close> is NULL, \<open>Some 0\<close> Go's zero time), because the code tests it in two ways.
  Free-form payload columns (data, data type, order, name, layout) and the audit columns that
  no statement reads are left out.
\<close>

section \<open>Rows\<close>

record stock =
  s_tenant :: uuid
  s_repository :: uuid
  s_item :: uuid
  s_movement :: uuid
  quantity :: int64
  incoming_stock :: int64
  outgoing_stock :: int64
  own_quantity :: int64
  own_incoming_stock :: int64
  own_outgoing_stock :: int64
  version :: int64
  s_deleted_at :: "time option"

definition zero_stock :: stock where
  "zero_stock = \<lparr>s_tenant = 0, s_repository = 0, s_item = 0, s_movement = 0,
     quantity = 0, incoming_stock = 0, outgoing_stock = 0,
     own_quantity = 0, own_incoming_stock = 0, own_outgoing_stock = 0,
     version = 0, s_deleted_at = None\<rparr>"

record repository =
  r_id :: uuid
  r_tenant :: uuid
  r_parent :: uuid
  virtual_repo :: bool
  r_deleted_at :: "time option"

definition zero_repository :: repository where
  "zero_repository = \<lparr>r_id = 0, r_tenant = 0, r_parent = 0, virtual_repo = False,
     r_deleted_at = None\<rparr>"

record item =
  i_id :: uuid
  i_tenant :: uuid
  i_deleted_at :: "time option"

record item_movement =
  im_id :: uuid
  im_tenant :: uuid
  im_item :: uuid
  im_from :: uuid
  im_to :: uuid
  im_quantity :: int64
  im_executed :: bool
  im_executed_at :: "time option"
  im_handler :: string
  im_collection :: uuid
  im_position :: int64
  im_created_at :: time
  im_deleted_at :: "time option"
  im_deleted_by :: uuid

record repository_movement =
  rm_id :: uuid
  rm_tenant :: uuid
  rm_repository :: uuid
  rm_from :: uuid
  rm_to :: uuid
  rm_executed :: bool
  rm_executed_at :: "time option"
  rm_handler :: string
  rm_collection :: uuid
  rm_position :: int64
  rm_created_at :: time
  rm_deleted_at :: "time option"
  rm_deleted_by :: uuid

record collection_movement =
  cm_id :: uuid
  cm_tenant :: uuid
  cm_handler :: string
  cm_created_at :: time
  cm_deleted_at :: "time option"
  cm_deleted_by :: uuid

datatype transaction_type = TypeInto | TypeOut

record stock_transaction =
  t_tenant :: uuid
  t_item :: uuid
  t_repository :: uuid
  t_type :: transaction_type
  t_quantity :: int64

text \<open>The key of a stock group, \<open>stockKey\<close> of ancestor_loader.go.\<close>

type_synonym stock_key = "uuid \<times> uuid"

abbreviation s_key :: "stock \<Rightarrow> stock_key" where
  "s_key s \<equiv> (s_repository s, s_item s)"

section \<open>Errors\<close>

text \<open>
  The sentinels of stock.go and errors.go, the ent errors the service lets through, the
  errors it builds with a literal text, and two crashes: a recursion that never returns and a
  nil pointer. A
  wrapping \<open>fmt.Errorf("...: %w", err)\<close> keeps the error it wraps.
\<close>

datatype pg_driver = DriverPgx | DriverPq

datatype error =
    ErrNotFound
  | ErrNotSingular
  | ErrValidation
  | ErrUnauthorized
  | ErrOutOfOrderExecution
  | ErrInsufficientStock
  | ErrVirtualRepoMovement
  | ErrCreateItemMovementProcNoRows
  | ErrDeleteExecutedMovement
  | ErrStockUnderflow uuid int64
  | ErrCollectionHasMovements
  | ErrAncestorRepoNotPreloaded uuid
  | ErrRebuildRepoNotFoundInRepoMap uuid
  | ErrRebuildRepositoryNotFound uuid
  | ErrOCCConflict
  | ErrPostgres pg_driver string string string
  | ErrText string
  | FatalStackOverflow
  | FatalNilDereference

section \<open>Context and tables\<close>

text \<open>
  What a request carries: the caller, whether it is the system user, the tenants its queries
  are scoped to and the one its mutations write, the features of the context, and the two
  sources of new values (identifiers and the clock), numbered by the writes of the run.
\<close>

record ctx =
  c_user :: uuid
  c_system :: bool
  c_tenants :: "uuid list"
  c_mutationTenant :: uuid
  c_showDeleted :: bool
  c_deferredUnderflow :: bool
  c_uuid :: "nat \<Rightarrow> uuid"
  c_clock :: "nat \<Rightarrow> time"

record db =
  items :: "item list"
  repositories :: "repository list"
  stocks :: "stock list"
  item_movements :: "item_movement list"
  repository_movements :: "repository_movement list"
  collection_movements :: "collection_movement list"
  transactions :: "stock_transaction list"
  writes :: nat

text \<open>The service value: only its dialect steers the flow.\<close>

datatype db_dialect = Postgres | OtherDialect

section \<open>Deferred underflow and deletion marks\<close>

definition WithDeferredUnderflow :: "ctx \<Rightarrow> ctx" where
  "WithDeferredUnderflow c = c\<lparr>c_deferredUnderflow := True\<rparr>"

definition IsDeferredUnderflow :: "ctx \<Rightarrow> bool" where
  "IsDeferredUnderflow c = c_deferredUnderflow c"

text \<open>\<open>feature.Context(ctx, FEATURE_SHOW_DELETED)\<close>.\<close>

definition showDeletedCtx :: "ctx \<Rightarrow> ctx" where
  "showDeletedCtx c = c\<lparr>c_showDeleted := True\<rparr>"

text \<open>The SQL predicate \<open>deleted_at IS NULL\<close>, and Go's \<open>DeletedAt.IsZero()\<close>.\<close>

definition deletedAtIsNil :: "time option \<Rightarrow> bool" where
  "deletedAtIsNil d = (d = None)"

definition deletedAtIsZero :: "time option \<Rightarrow> bool" where
  "deletedAtIsZero d = (case d of None \<Rightarrow> True | Some t \<Rightarrow> t = 0)"

lemma deletedAtIsNil_IsZero: "deletedAtIsNil d \<Longrightarrow> deletedAtIsZero d"
  by (simp add: deletedAtIsNil_def deletedAtIsZero_def)

end
