(* ===== verification/EntStore.thy ===== *)
theory EntStore
  imports StockModel
begin

text \<open>
  The ent layer as the service uses it: the query filters the tenant and history mixins add
  (backend/common/ent/mixin), \<open>Only\<close> and \<open>First\<close>, the mutation hooks, the validators of the
  schemas, and the unique index of the stocks ledger. A table is the list of its rows in
  insertion order; \<open>AllPages\<close> returns every row that matches.

  The contexts modelled are those of an authenticated caller that holds the role its
  operation needs in the tenants it names: role refusals happen before any of this.
\<close>

section \<open>Query filters\<close>

definition TenantIDQueryFilter :: "ctx \<Rightarrow> uuid \<Rightarrow> bool" where
  "TenantIDQueryFilter c tenant \<longleftrightarrow> c_system c \<or> tenant \<in> set (c_tenants c)"

definition HistoryMixinQueryFilter :: "ctx \<Rightarrow> time option \<Rightarrow> bool" where
  "HistoryMixinQueryFilter c deleted \<longleftrightarrow> c_showDeleted c \<or> deletedAtIsZero deleted"

definition visible :: "ctx \<Rightarrow> uuid \<Rightarrow> time option \<Rightarrow> bool" where
  "visible c tenant deleted \<longleftrightarrow> TenantIDQueryFilter c tenant \<and> HistoryMixinQueryFilter c deleted"

fun ent_Only :: "'a list \<Rightarrow> error + 'a" where
  "ent_Only [] = Inl ErrNotFound"
| "ent_Only [x] = Inr x"
| "ent_Only (x # y # zs) = Inl ErrNotSingular"

lemma ent_Only_Inr: "ent_Only xs = Inr x \<longleftrightarrow> xs = [x]"
  by (cases xs rule: ent_Only.cases) auto

definition repository_Query :: "ctx \<Rightarrow> db \<Rightarrow> repository list" where
  "repository_Query c d = filter (\<lambda>r. visible c (r_tenant r) (r_deleted_at r)) (repositories d)"

definition stock_Query :: "ctx \<Rightarrow> db \<Rightarrow> stock list" where
  "stock_Query c d = filter (\<lambda>s. visible c (s_tenant s) (s_deleted_at s)) (stocks d)"

definition item_Query :: "ctx \<Rightarrow> db \<Rightarrow> item list" where
  "item_Query c d = filter (\<lambda>i. visible c (i_tenant i) (i_deleted_at i)) (items d)"

definition itemMovement_Query :: "ctx \<Rightarrow> db \<Rightarrow> item_movement list" where
  "itemMovement_Query c d =
     filter (\<lambda>m. visible c (im_tenant m) (im_deleted_at m)) (item_movements d)"

definition repositoryMovement_Query :: "ctx \<Rightarrow> db \<Rightarrow> repository_movement list" where
  "repositoryMovement_Query c d =
     filter (\<lambda>m. visible c (rm_tenant m) (rm_deleted_at m)) (repository_movements d)"

definition collection_Query :: "ctx \<Rightarrow> db \<Rightarrow> collection_movement list" where
  "collection_Query c d =
     filter (\<lambda>m. visible c (cm_tenant m) (cm_deleted_at m)) (collection_movements d)"

text \<open>\<open>Get\<close> is \<open>Query().Where(ID(id)).Only(ctx)\<close>.\<close>

definition repository_Get :: "ctx \<Rightarrow> db \<Rightarrow> uuid \<Rightarrow> error + repository" where
  "repository_Get c d i = ent_Only (filter (\<lambda>r. r_id r = i) (repository_Query c d))"

definition itemMovement_Get :: "ctx \<Rightarrow> db \<Rightarrow> uuid \<Rightarrow> error + item_movement" where
  "itemMovement_Get c d i = ent_Only (filter (\<lambda>m. im_id m = i) (itemMovement_Query c d))"

definition repositoryMovement_Get :: "ctx \<Rightarrow> db \<Rightarrow> uuid \<Rightarrow> error + repository_movement" where
  "repositoryMovement_Get c d i =
     ent_Only (filter (\<lambda>m. rm_id m = i) (repositoryMovement_Query c d))"

definition collection_Get :: "ctx \<Rightarrow> db \<Rightarrow> uuid \<Rightarrow> error + collection_movement" where
  "collection_Get c d i = ent_Only (filter (\<lambda>m. cm_id m = i) (collection_Query c d))"

text \<open>tenant_ownership.go: a row a movement references, named by id and tenant.\<close>

definition requireItemInTenant :: "ctx \<Rightarrow> db \<Rightarrow> uuid \<Rightarrow> uuid \<Rightarrow> error + unit" where
  "requireItemInTenant c d tenantID itemID =
     (case ent_Only (filter (\<lambda>i. i_id i = itemID \<and> i_tenant i = tenantID) (item_Query c d)) of
        Inl e \<Rightarrow> Inl e
      | Inr _ \<Rightarrow> Inr ())"

definition repositoryInTenant :: "ctx \<Rightarrow> db \<Rightarrow> uuid \<Rightarrow> uuid \<Rightarrow> error + repository" where
  "repositoryInTenant c d tenantID i =
     ent_Only (filter (\<lambda>r. r_id r = i \<and> r_tenant r = tenantID) (repository_Query c d))"

lemma repository_Get_Inr:
  "repository_Get c d i = Inr r \<Longrightarrow> r \<in> set (repositories d) \<and> r_id r = i
     \<and> visible c (r_tenant r) (r_deleted_at r)"
  by (auto simp: repository_Get_def repository_Query_def ent_Only_Inr filter_eq_Cons_iff)

lemma repositoryInTenant_Inr:
  "repositoryInTenant c d t i = Inr r \<Longrightarrow> r \<in> set (repositories d) \<and> r_id r = i \<and> r_tenant r = t"
  by (auto simp: repositoryInTenant_def repository_Query_def ent_Only_Inr filter_eq_Cons_iff)

lemma itemMovement_Get_Inr:
  "itemMovement_Get c d i = Inr m \<Longrightarrow> m \<in> set (item_movements d) \<and> im_id m = i
     \<and> visible c (im_tenant m) (im_deleted_at m)"
  by (auto simp: itemMovement_Get_def itemMovement_Query_def ent_Only_Inr filter_eq_Cons_iff)

lemma repositoryMovement_Get_Inr:
  "repositoryMovement_Get c d i = Inr m \<Longrightarrow> m \<in> set (repository_movements d) \<and> rm_id m = i
     \<and> visible c (rm_tenant m) (rm_deleted_at m)"
  by (auto simp: repositoryMovement_Get_def repositoryMovement_Query_def ent_Only_Inr
      filter_eq_Cons_iff)

section \<open>Mutations\<close>

text \<open>
  \<open>TenantIDMutationHook\<close>: the tenant a create writes. An explicit tenant must be the
  request's unless the caller is the system user; without one the request's is set.
\<close>

definition TenantIDMutationHook :: "ctx \<Rightarrow> uuid option \<Rightarrow> error + uuid" where
  "TenantIDMutationHook c explicit =
     (case explicit of
        None \<Rightarrow> Inr (c_mutationTenant c)
      | Some t \<Rightarrow>
          if c_system c then Inr t
          else if t \<noteq> c_mutationTenant c then Inl ErrUnauthorized
          else Inr (c_mutationTenant c))"

text \<open>
  The rows an update may touch: \<open>TenantIDMutationFilter\<close> and \<open>HistoryMixinMutationFilter\<close>.
  The latter ignores the show-deleted feature of the context.
\<close>

definition mutable :: "ctx \<Rightarrow> uuid \<Rightarrow> time option \<Rightarrow> bool" where
  "mutable c tenant deleted \<longleftrightarrow>
     (c_system c \<or> tenant = c_mutationTenant c) \<and> deletedAtIsZero deleted"

definition update_where :: "('a \<Rightarrow> bool) \<Rightarrow> ('a \<Rightarrow> 'a) \<Rightarrow> 'a list \<Rightarrow> error + 'a list" where
  "update_where p f rows =
     (if list_ex p rows then Inr (map (\<lambda>x. if p x then f x else x) rows) else Inl ErrNotFound)"

definition tick :: "db \<Rightarrow> db" where
  "tick d = d\<lparr>writes := Suc (writes d)\<rparr>"

text \<open>The schema validators of a stock row: \<open>Min(0)\<close> on the six counters.\<close>

definition stock_check :: "stock \<Rightarrow> bool" where
  "stock_check s \<longleftrightarrow> 0 \<le> quantity s \<and> 0 \<le> incoming_stock s \<and> 0 \<le> outgoing_stock s
     \<and> 0 \<le> own_quantity s \<and> 0 \<le> own_incoming_stock s \<and> 0 \<le> own_outgoing_stock s"

text \<open>The unique index over (tenant, repository, item, version); it spans deleted rows.\<close>

definition stockOCCUniqueIndex :: string where
  "stockOCCUniqueIndex = ''stock_tenant_id_repository_id_item_id_version''"

definition stock_index :: "stock \<Rightarrow> uuid \<times> uuid \<times> uuid \<times> int64" where
  "stock_index s = (s_tenant s, s_repository s, s_item s, version s)"

definition ledger_ok :: "stock list \<Rightarrow> bool" where
  "ledger_ok rows \<longleftrightarrow> distinct (map stock_index rows)"

text \<open>
  \<open>tx.Stock.CreateBulk(...).Save\<close>: the hooks and validators run builder by builder, then
  one INSERT writes the batch or fails on the index. An empty batch writes nothing.
\<close>

fun stock_check_all :: "ctx \<Rightarrow> stock list \<Rightarrow> error + unit" where
  "stock_check_all c [] = Inr ()"
| "stock_check_all c (s # ss) =
     (case TenantIDMutationHook c (Some (s_tenant s)) of
        Inl e \<Rightarrow> Inl e
      | Inr _ \<Rightarrow> if \<not> stock_check s then Inl ErrValidation else stock_check_all c ss)"

definition stock_unique_violation :: error where
  "stock_unique_violation =
     ErrPostgres DriverPq ''23505'' stockOCCUniqueIndex ''duplicate key value violates unique constraint''"

definition stock_CreateBulk :: "ctx \<Rightarrow> stock list \<Rightarrow> db \<Rightarrow> error + db" where
  "stock_CreateBulk c rows d =
     (case stock_check_all c rows of
        Inl e \<Rightarrow> Inl e
      | Inr _ \<Rightarrow>
          if rows = [] then Inr d
          else if ledger_ok (stocks d @ rows) then Inr (tick (d\<lparr>stocks := stocks d @ rows\<rparr>))
          else Inl stock_unique_violation)"

lemma stock_check_all_Inr:
  "stock_check_all c rows = Inr u \<longleftrightarrow>
     (\<forall>s \<in> set rows. stock_check s \<and> (c_system c \<or> s_tenant s = c_mutationTenant c))"
  by (induction rows) (auto simp: TenantIDMutationHook_def split: sum.splits if_splits)

lemma stock_CreateBulk_Inr:
  assumes "stock_CreateBulk c rows d = Inr d'"
  shows "stocks d' = stocks d @ rows" and "ledger_ok (stocks d) \<Longrightarrow> ledger_ok (stocks d')"
    and "repositories d' = repositories d" and "items d' = items d"
    and "item_movements d' = item_movements d"
    and "repository_movements d' = repository_movements d"
    and "collection_movements d' = collection_movements d"
    and "transactions d' = transactions d"
    and "\<forall>s \<in> set rows. stock_check s"
  using assms
  by (auto simp: stock_CreateBulk_def tick_def stock_check_all_Inr split: sum.splits if_splits)

text \<open>The current row of a group: the row with the highest version among the ones given.\<close>

fun latest_of :: "stock list \<Rightarrow> stock option" where
  "latest_of [] = None"
| "latest_of (s # ss) =
     (case latest_of ss of
        None \<Rightarrow> Some s
      | Some t \<Rightarrow> if version t < version s then Some s else Some t)"

lemma latest_of_None [simp]: "latest_of xs = None \<longleftrightarrow> xs = []"
  by (cases xs) (auto split: option.splits if_splits)

lemma latest_of_Some:
  "latest_of xs = Some s \<Longrightarrow> s \<in> set xs \<and> (\<forall>t \<in> set xs. version t \<le> version s)"
  by (induction xs arbitrary: s) (fastforce split: option.splits if_splits)+

lemma latest_of_exists:
  assumes "s \<in> set xs"
  shows "\<exists>t. latest_of xs = Some t \<and> version s \<le> version t"
proof (cases "latest_of xs")
  case None
  with assms show ?thesis by auto
next
  case (Some t)
  with latest_of_Some [OF Some] assms show ?thesis by blast
qed

lemma latest_of_eqI:
  assumes "s \<in> set xs" and "\<And>t. t \<in> set xs \<Longrightarrow> t = s \<or> version t < version s"
  shows "latest_of xs = Some s"
proof (cases "latest_of xs")
  case None
  with assms(1) show ?thesis by auto
next
  case (Some t)
  with latest_of_Some [OF Some] assms show ?thesis by fastforce
qed

end
