(* ===== verification/Versions.thy ===== *)
theory Versions
  imports EntStore
begin

text \<open>
  \<open>stockVersionTracker\<close> of service/stock/impl.go: the versions a transaction gives to the
  ledger rows it inserts. The two constructors meet one contract, the locale \<open>version_seed\<close>:
  the first version of a group is one above its floor, 0 without one. From it follows that
  rows versioned by the tracker never collide with the ledger it was seeded from
  (\<open>assign_ledger_ok\<close>).
\<close>

section \<open>Definitions\<close>

type_synonym tracker = "(stock_key, int64) gomap"

definition newStockVersionTracker :: "(stock_key, stock) gomap \<Rightarrow> tracker" where
  "newStockVersionTracker latest = map (\<lambda>(k, v). (k, add64 (version v) 1)) latest"

definition newStockVersionTrackerFromFloors :: "(stock_key, int64) gomap \<Rightarrow> tracker" where
  "newStockVersionTrackerFromFloors floor = map (\<lambda>(k, v). (k, add64 v 1)) floor"

definition nextFor :: "uuid \<Rightarrow> uuid \<Rightarrow> tracker \<Rightarrow> int64 \<times> tracker" where
  "nextFor repoID itemID t =
     (let v = ggetd 0 t (repoID, itemID) in (v, gput (repoID, itemID) (add64 v 1) t))"

definition seedStep :: "uuid \<times> uuid \<times> stock \<Rightarrow> tracker \<Rightarrow> tracker" where
  "seedStep e t =
     (case e of (repoID, itemID, rec) \<Rightarrow>
        let k = (repoID, itemID); candidate = add64 (version rec) 1
        in case gget t k of
             None \<Rightarrow> gput k candidate t
           | Some cur \<Rightarrow> if candidate > cur then gput k candidate t else t)"

definition nestedEntries :: "(uuid, (uuid, stock) gomap) gomap \<Rightarrow> (uuid \<times> uuid \<times> stock) list" where
  "nestedEntries stockMap =
     concat (map (\<lambda>(repoID, perItem). map (\<lambda>(itemID, rec). (repoID, itemID, rec)) perItem) stockMap)"

definition seedFromNested :: "(uuid, (uuid, stock) gomap) gomap \<Rightarrow> tracker \<Rightarrow> tracker" where
  "seedFromNested stockMap t = fold seedStep (nestedEntries stockMap) t"

text \<open>
  A run of \<open>nextFor\<close>: the loops that build a batch ask the tracker for each row in turn.
\<close>

fun assignVersions :: "stock list \<Rightarrow> tracker \<Rightarrow> stock list \<times> tracker" where
  "assignVersions [] t = ([], t)"
| "assignVersions (s # ss) t =
     (let (v, t) = nextFor (s_repository s) (s_item s) t; (ss, t) = assignVersions ss t
      in (s\<lparr>version := v\<rparr> # ss, t))"

section \<open>Freshness\<close>

text \<open>Every row of the tenant is below the version the tracker gives next to its group.\<close>

definition tracker_fresh :: "uuid \<Rightarrow> stock list \<Rightarrow> tracker \<Rightarrow> bool" where
  "tracker_fresh tn rows t \<longleftrightarrow>
     (\<forall>s \<in> set rows. s_tenant s = tn \<longrightarrow> version s < ggetd 0 t (s_key s))"

text \<open>Room for \<open>n\<close> more versions before \<open>int64\<close> wraps around.\<close>

definition tracker_room :: "nat \<Rightarrow> tracker \<Rightarrow> bool" where
  "tracker_room n t \<longleftrightarrow> (\<forall>v \<in> snd ` set t. 0 \<le> v \<and> v + int n < 9223372036854775808)"

lemma tracker_room_value:
  assumes "tracker_room (Suc n) t"
  shows "0 \<le> ggetd 0 t k" and "add64 (ggetd 0 t k) 1 = ggetd 0 t k + 1"
proof -
  have "0 \<le> ggetd 0 t k \<and> fits64 (ggetd 0 t k + 1)"
  proof (cases "gget t k")
    case None
    then show ?thesis by (simp add: ggetd_def fits64_def)
  next
    case (Some v)
    then have "v \<in> snd ` set t" by (force simp: gget_def dest: map_of_SomeD)
    with assms Some show ?thesis by (auto simp: tracker_room_def ggetd_def fits64_def)
  qed
  then show "0 \<le> ggetd 0 t k" and "add64 (ggetd 0 t k) 1 = ggetd 0 t k + 1"
    by (simp_all add: add64_id)
qed

lemma set_gput: "snd ` set (gput k v t) \<subseteq> insert v (snd ` set t)"
  by (induction t) (auto simp: gput_def)

lemma tracker_room_nextFor:
  assumes "tracker_room (Suc n) t" and "int n + 1 < 9223372036854775808"
  shows "tracker_room n (snd (nextFor r i t))"
proof -
  let ?v = "ggetd 0 t (r, i)"
  have v: "0 \<le> ?v" "add64 ?v 1 = ?v + 1" using tracker_room_value [OF assms(1)] by blast+
  have b: "?v + 1 + int n < 9223372036854775808"
  proof (cases "gget t (r, i)")
    case None
    with assms(2) show ?thesis by (simp add: ggetd_def)
  next
    case (Some w)
    then have "w \<in> snd ` set t" by (force simp: gget_def dest: map_of_SomeD)
    with assms(1) Some show ?thesis by (auto simp: tracker_room_def ggetd_def)
  qed
  have rest: "0 \<le> w \<and> w + int n < 9223372036854775808" if "w \<in> snd ` set t" for w
    using assms(1) that by (fastforce simp: tracker_room_def)
  show ?thesis
    using rest set_gput [of "(r, i)" "?v + 1" t] v b
    by (fastforce simp: tracker_room_def nextFor_def Let_def)
qed

lemma nextFor_fresh:
  assumes "tracker_fresh tn rows t" and "tracker_room (Suc n) t"
    and "s_tenant s = tn" and "nextFor (s_repository s) (s_item s) t = (v, t')"
  shows "tracker_fresh tn (rows @ [s\<lparr>version := v\<rparr>]) t'"
    and "stock_index (s\<lparr>version := v\<rparr>) \<notin> stock_index ` set rows"
  using assms tracker_room_value(2) [OF assms(2)]
  by (fastforce simp: tracker_fresh_def nextFor_def Let_def stock_index_def)+

text \<open>A whole batch keeps the unique index of the ledger.\<close>

lemma assign_fresh:
  assumes "assignVersions ss t = (ss', t')" and "tracker_fresh tn rows t"
    and "tracker_room (length ss) t" and "int (length ss) < 9223372036854775808"
    and "\<forall>s \<in> set ss. s_tenant s = tn" and "ledger_ok rows"
  shows "ledger_ok (rows @ ss') \<and> tracker_fresh tn (rows @ ss') t'"
  using assms
proof (induction ss arbitrary: t rows ss')
  case Nil
  then show ?case by simp
next
  case (Cons s ss)
  obtain v u where n: "nextFor (s_repository s) (s_item s) t = (v, u)" by fastforce
  obtain r w where a: "assignVersions ss u = (r, w)" by fastforce
  with n Cons.prems(1) have eq: "ss' = s\<lparr>version := v\<rparr> # r" "t' = w" by simp_all
  have room: "tracker_room (Suc (length ss)) t" using Cons.prems(3) by simp
  note f = nextFor_fresh [OF Cons.prems(2) room _ n]
  have "tracker_room (length ss) u"
    using tracker_room_nextFor [OF room, of "s_repository s" "s_item s"] n Cons.prems(4) by simp
  moreover have "ledger_ok (rows @ [s\<lparr>version := v\<rparr>])"
    using Cons.prems(5,6) f(2) by (auto simp: ledger_ok_def)
  ultimately show ?case
    using Cons.IH [OF a [folded eq(2)] f(1)] Cons.prems(4,5) eq(1) by simp
qed

lemma assignVersions_keys:
  "assignVersions ss t = (ss', t') \<Longrightarrow> map s_key ss' = map s_key ss \<and> map s_tenant ss' = map s_tenant ss"
  by (induction ss arbitrary: t ss') (auto simp: Let_def split: prod.splits)

section \<open>The contract of a seed\<close>

locale version_seed =
  fixes seed :: "'s \<Rightarrow> tracker"
    and floor_of :: "'s \<Rightarrow> stock_key \<Rightarrow> int64 option"
  assumes gget_seed: "gget (seed s) k = map_option (\<lambda>v. add64 v 1) (floor_of s k)"
begin

lemma first_version:
  "fst (nextFor r i (seed s)) = (case floor_of s (r, i) of None \<Rightarrow> 0 | Some v \<Rightarrow> add64 v 1)"
  by (simp add: nextFor_def Let_def ggetd_def gget_seed split: option.splits)

text \<open>A floor that bounds the versions of the tenant makes the tracker fresh.\<close>

lemma seed_fresh:
  assumes "\<And>x. x \<in> set rows \<Longrightarrow> s_tenant x = tn \<Longrightarrow>
      \<exists>v. floor_of s (s_key x) = Some v \<and> version x \<le> v \<and> fits64 (v + 1)"
  shows "tracker_fresh tn rows (seed s)"
  unfolding tracker_fresh_def
proof (intro ballI impI)
  fix x assume "x \<in> set rows" "s_tenant x = tn"
  with assms obtain v where "floor_of s (s_key x) = Some v" "version x \<le> v" "fits64 (v + 1)"
    by blast
  then show "version x < ggetd 0 (seed s) (s_key x)"
    by (simp add: ggetd_def gget_seed add64_id)
qed

lemma assign_ledger_ok:
  assumes "\<And>x. x \<in> set rows \<Longrightarrow> s_tenant x = tn \<Longrightarrow>
      \<exists>v. floor_of s (s_key x) = Some v \<and> version x \<le> v \<and> fits64 (v + 1)"
    and "assignVersions ss (seed s) = (ss', t')" and "tracker_room (length ss) (seed s)"
    and "int (length ss) < 9223372036854775808" and "\<forall>x \<in> set ss. s_tenant x = tn" and "ledger_ok rows"
  shows "ledger_ok (rows @ ss')"
  using assign_fresh [OF assms(2) seed_fresh [OF assms(1)] assms(3-6)] by blast

end

lemma map_of_map_snd: "map_of (map (\<lambda>(k, v). (k, f v)) m) k = map_option f (map_of m k)"
  by (induction m) auto

interpretation latest: version_seed newStockVersionTracker "\<lambda>m k. map_option version (gget m k)"
  by unfold_locales
    (simp add: newStockVersionTracker_def gget_def map_of_map_snd [where f = "\<lambda>v. add64 (version v) 1"]
      option.map_comp comp_def)

interpretation floors: version_seed newStockVersionTrackerFromFloors gget
  by unfold_locales (simp add: newStockVersionTrackerFromFloors_def gget_def map_of_map_snd)

text \<open>Merging rows that were read later raises the tracker, never lowers it.\<close>

lemma seedStep_mono:
  "gget t k = Some v \<Longrightarrow> \<exists>w. gget (seedStep e t) k = Some w \<and> v \<le> w"
  by (auto simp: seedStep_def Let_def split: prod.splits option.splits if_splits)

lemma seedFromNested_mono:
  "gget t k = Some v \<Longrightarrow> \<exists>w. gget (seedFromNested sm t) k = Some w \<and> v \<le> w"
proof -
  have "gget t k = Some v \<Longrightarrow> \<exists>w. gget (fold seedStep es t) k = Some w \<and> v \<le> w" for es
  proof (induction es arbitrary: t v)
    case (Cons e es)
    from seedStep_mono [OF Cons.prems] obtain w where "gget (seedStep e t) k = Some w" "v \<le> w" by blast
    with Cons.IH show ?case by fastforce
  qed simp
  then show "gget t k = Some v \<Longrightarrow> ?thesis" by (simp add: seedFromNested_def)
qed

lemma seedFromNested_above:
  assumes "(r, i, rec) \<in> set (nestedEntries sm)"
  shows "\<exists>w. gget (seedFromNested sm t) (r, i) = Some w \<and> add64 (version rec) 1 \<le> w"
proof -
  from assms obtain as bs where es: "nestedEntries sm = as @ (r, i, rec) # bs"
    by (meson split_list)
  let ?u = "seedStep (r, i, rec) (fold seedStep as t)"
  have "\<exists>w. gget ?u (r, i) = Some w \<and> add64 (version rec) 1 \<le> w"
    by (auto simp: seedStep_def Let_def split: option.splits)
  then obtain w where w: "gget ?u (r, i) = Some w" "add64 (version rec) 1 \<le> w" by blast
  have "\<exists>x. gget (fold seedStep cs u) (r, i) = Some x \<and> w \<le> x" if "gget u (r, i) = Some w" for cs u w
    using that
  proof (induction cs arbitrary: u w)
    case (Cons c cs)
    from seedStep_mono [OF Cons.prems] obtain y where "gget (seedStep c u) (r, i) = Some y" "w \<le> y" by blast
    with Cons.IH show ?case by fastforce
  qed simp
  from this [OF w(1), of bs] w(2) show ?thesis by (fastforce simp: seedFromNested_def es)
qed

end
