(* ===== verification/Repositories.thy ===== *)
theory Repositories
  imports EntStore
begin

text \<open>
  service/stock/repositories.go: the repository tree as a Go map and the lowest common
  ancestor of two repositories. A parent step leads from a repository of the map to its
  parent unless that is \<open>uuid.Nil\<close>; \<open>anc\<close> is its reflexive transitive closure.
\<close>

type_synonym repo_map = "(uuid, repository) gomap"

definition parentID :: "repo_map \<Rightarrow> uuid \<Rightarrow> uuid" where
  "parentID m r = r_parent (ggetd zero_repository m r)"

definition parent_step :: "repo_map \<Rightarrow> uuid \<Rightarrow> uuid \<Rightarrow> bool" where
  "parent_step m r p \<longleftrightarrow> parentID m r = p \<and> p \<noteq> 0"

abbreviation anc :: "repo_map \<Rightarrow> uuid \<Rightarrow> uuid \<Rightarrow> bool" where
  "anc m \<equiv> (parent_step m)\<^sup>*\<^sup>*"

lemma parentID_missing [simp]: "gget m r = None \<Longrightarrow> parentID m r = 0"
  by (simp add: parentID_def ggetd_def zero_repository_def)

lemma parent_step_gget: "parent_step m r p \<Longrightarrow> gget m r \<noteq> None"
  using parentID_missing [of m r] by (auto simp: parent_step_def)

lemma parent_step_det: "parent_step m r p \<Longrightarrow> parent_step m r q \<Longrightarrow> p = q"
  by (simp add: parent_step_def)

section \<open>lowestCommonAncestor\<close>

text \<open>
  The first loop: \<open>fromID\<close> and its ancestors, \<open>None\<close> when a node is met again. The loop
  only goes on from a node of the map that is not in the set yet, so the number of such
  nodes shrinks.
\<close>

function fromAncestors :: "repo_map \<Rightarrow> uuid list \<Rightarrow> uuid \<Rightarrow> uuid list option" where
  "fromAncestors m seen cur =
     (if cur \<in> set seen then None
      else if gget m cur = None \<or> parentID m cur = 0 then Some (cur # seen)
      else fromAncestors m (cur # seen) (parentID m cur))"
  by pat_completeness auto
termination
proof (relation "measure (\<lambda>(m, seen, cur). card (set (gkeys m) - set seen))")
  fix m seen cur
  assume "cur \<notin> set seen" and "\<not> (gget m cur = None \<or> parentID m cur = 0)"
  then have "cur \<in> set (gkeys m) - set seen"
    by (simp add: gkeys_gget)
  then have "set (gkeys m) - set (cur # seen) \<subset> set (gkeys m) - set seen"
    by auto
  then show "((m, cur # seen, parentID m cur), m, seen, cur)
      \<in> measure (\<lambda>(m, seen, cur). card (set (gkeys m) - set seen))"
    by (simp add: psubset_card_mono)
qed simp

declare fromAncestors.simps [simp del]

text \<open>The second loop: the first node on the way up from \<open>toID\<close> that is in the set.\<close>

function firstHit :: "repo_map \<Rightarrow> uuid list \<Rightarrow> uuid list \<Rightarrow> uuid \<Rightarrow> uuid" where
  "firstHit m fromAnc visited cur =
     (if cur \<in> set visited then uuid_Nil
      else if cur \<in> set fromAnc then cur
      else if gget m cur = None \<or> parentID m cur = 0 then uuid_Nil
      else firstHit m fromAnc (cur # visited) (parentID m cur))"
  by pat_completeness auto
termination
proof (relation "measure (\<lambda>(m, fromAnc, visited, cur). card (set (gkeys m) - set visited))")
  fix m fromAnc visited cur
  assume "cur \<notin> set visited" and "\<not> (gget m cur = None \<or> parentID m cur = 0)"
  then have "cur \<in> set (gkeys m) - set visited"
    by (simp add: gkeys_gget)
  then have "set (gkeys m) - set (cur # visited) \<subset> set (gkeys m) - set visited"
    by auto
  then show "((m, fromAnc, cur # visited, parentID m cur), m, fromAnc, visited, cur)
      \<in> measure (\<lambda>(m, fromAnc, visited, cur). card (set (gkeys m) - set visited))"
    by (simp add: psubset_card_mono)
qed simp

declare firstHit.simps [simp del]

definition lowestCommonAncestor :: "repo_map \<Rightarrow> uuid \<Rightarrow> uuid \<Rightarrow> uuid" where
  "lowestCommonAncestor reposMap fromID toID =
     (if fromID = toID then fromID
      else if gget reposMap fromID = None then uuid_Nil
      else if gget reposMap toID = None then uuid_Nil
      else case fromAncestors reposMap [] fromID of
             None \<Rightarrow> uuid_Nil
           | Some fromAnc \<Rightarrow> firstHit reposMap fromAnc [] toID)"

section \<open>Chains\<close>

text \<open>
  \<open>acyclic_at m r\<close>: the way up from \<open>r\<close> ends. Written with the loop's own set, so that it
  computes.
\<close>

definition acyclic_at :: "repo_map \<Rightarrow> uuid \<Rightarrow> bool" where
  "acyclic_at m r \<longleftrightarrow> fromAncestors m [] r \<noteq> None"

lemma anc_cases:
  "anc m x y \<Longrightarrow> x = y \<or> (parentID m x \<noteq> 0 \<and> gget m x \<noteq> None \<and> anc m (parentID m x) y)"
  by (erule converse_rtranclpE) (auto simp: parent_step_def)

lemma anc_parent: "parentID m x \<noteq> 0 \<Longrightarrow> anc m (parentID m x) y \<Longrightarrow> anc m x y"
  by (rule converse_rtranclp_into_rtranclp) (auto simp: parent_step_def)

text \<open>The nodes above a node form one line.\<close>

lemma anc_linear: "anc m x y \<Longrightarrow> anc m x z \<Longrightarrow> anc m y z \<or> anc m z y"
proof (induction rule: converse_rtranclp_induct)
  case base
  then show ?case by blast
next
  case (step u v)
  from step.prems show ?case
  proof (cases rule: converse_rtranclpE)
    case base
    have "anc m u y" using step.hyps by (rule converse_rtranclp_into_rtranclp)
    with base show ?thesis by simp
  next
    case (step w)
    with \<open>parent_step m u v\<close> have "w = v" by (simp add: parent_step_det)
    with step(2) \<open>anc m v z \<Longrightarrow> anc m y z \<or> anc m z y\<close> show ?thesis by simp
  qed
qed

text \<open>What the first loop collects.\<close>

lemma fromAncestors_set:
  "fromAncestors m seen cur = Some fa \<Longrightarrow> set fa = set seen \<union> {x. anc m cur x}"
proof (induction m seen cur rule: fromAncestors.induct)
  case (1 m seen cur)
  show ?case
  proof (cases "gget m cur = None \<or> parentID m cur = 0")
    case True
    with 1 have "fa = cur # seen"
      by (subst (asm) fromAncestors.simps) (simp split: if_splits)
    moreover have "{x. anc m cur x} = {cur}"
      using True by (auto dest: anc_cases)
    ultimately show ?thesis by auto
  next
    case False
    with "1.prems" have c: "cur \<notin> set seen"
      and rec: "fromAncestors m (cur # seen) (parentID m cur) = Some fa"
      by (auto simp: fromAncestors.simps [of m seen cur] split: if_splits)
    have "{x. anc m cur x} = insert cur {x. anc m (parentID m cur) x}"
      using False by (auto dest: anc_cases intro: anc_parent)
    then show ?thesis using "1.IH" [OF c False rec] by auto
  qed
qed

text \<open>The loop ends without meeting a node twice exactly when no node ahead lies on a cycle.\<close>

abbreviation on_cycle :: "repo_map \<Rightarrow> uuid \<Rightarrow> bool" where
  "on_cycle m x \<equiv> (parent_step m)\<^sup>+\<^sup>+ x x"

lemma fromAncestors_Some_acyclic:
  "fromAncestors m seen cur = Some fa \<Longrightarrow> anc m cur x \<Longrightarrow> x \<notin> set seen \<and> \<not> on_cycle m x"
proof (induction m seen cur arbitrary: x rule: fromAncestors.induct)
  case (1 m seen cur)
  from "1.prems"(1) have c: "cur \<notin> set seen"
    by (auto simp: fromAncestors.simps [of m seen cur] split: if_splits)
  show ?case
  proof (cases "gget m cur = None \<or> parentID m cur = 0")
    case True
    then have no: "\<not> parent_step m cur y" for y by (auto simp: parent_step_def)
    from "1.prems"(2) no have "x = cur" by (cases rule: converse_rtranclpE) auto
    moreover have "\<not> on_cycle m cur" using no by (auto dest: tranclpD)
    ultimately show ?thesis using c by simp
  next
    case False
    with "1.prems"(1) c have rec: "fromAncestors m (cur # seen) (parentID m cur) = Some fa"
      by (auto simp: fromAncestors.simps [of m seen cur] split: if_splits)
    note IH = "1.IH" [OF c False rec]
    have "\<not> on_cycle m cur"
    proof
      assume "on_cycle m cur"
      then obtain y where "parent_step m cur y" "anc m y cur" by (auto dest: tranclpD)
      then have "anc m (parentID m cur) cur" by (simp add: parent_step_def)
      with IH [of cur] show False by simp
    qed
    moreover from anc_cases [OF "1.prems"(2)] have "x = cur \<or> anc m (parentID m cur) x"
      by blast
    ultimately show ?thesis using c IH [of x] by fastforce
  qed
qed

lemma fromAncestors_None_cycle:
  "fromAncestors m seen cur = None \<Longrightarrow>
     (\<exists>x. anc m cur x \<and> (x \<in> set seen \<or> on_cycle m x))"
proof (induction m seen cur rule: fromAncestors.induct)
  case (1 m seen cur)
  show ?case
  proof (cases "cur \<in> set seen")
    case False
    with "1.prems" have nd: "\<not> (gget m cur = None \<or> parentID m cur = 0)"
      and rec: "fromAncestors m (cur # seen) (parentID m cur) = None"
      by (auto simp: fromAncestors.simps [of m seen cur] split: if_splits)
    then have st: "parent_step m cur (parentID m cur)" by (simp add: parent_step_def)
    from "1.IH" [OF False nd rec] obtain x where x: "anc m (parentID m cur) x"
      "x \<in> set (cur # seen) \<or> on_cycle m x" by blast
    show ?thesis
    proof (cases "x = cur")
      case True
      with st x(1) have "on_cycle m cur" by (meson rtranclp_into_tranclp2)
      then show ?thesis by blast
    next
      case False
      with x have "x \<in> set seen \<or> on_cycle m x" by simp
      moreover from st x(1) have "anc m cur x" by (rule converse_rtranclp_into_rtranclp)
      ultimately show ?thesis by blast
    qed
  qed blast
qed

lemma acyclic_at_iff: "acyclic_at m r \<longleftrightarrow> (\<forall>x. anc m r x \<longrightarrow> \<not> on_cycle m x)"
proof
  assume "acyclic_at m r"
  then show "\<forall>x. anc m r x \<longrightarrow> \<not> on_cycle m x"
    by (auto simp: acyclic_at_def dest: fromAncestors_Some_acyclic)
next
  assume "\<forall>x. anc m r x \<longrightarrow> \<not> on_cycle m x"
  then show "acyclic_at m r"
    using fromAncestors_None_cycle [of m "[]" r] by (auto simp: acyclic_at_def)
qed

lemma acyclic_at_anc: "acyclic_at m r \<Longrightarrow> anc m r x \<Longrightarrow> acyclic_at m x"
  by (auto simp: acyclic_at_iff dest: rtranclp_trans)

lemma on_cycle_forward: "anc m x y \<Longrightarrow> on_cycle m x \<Longrightarrow> on_cycle m y"
proof (induction rule: converse_rtranclp_induct)
  case base
  then show ?case .
next
  case (step u v)
  from step.prems obtain w where w: "parent_step m u w" "anc m w u"
    by (auto dest: tranclpD)
  with step.hyps(1) have "w = v" by (simp add: parent_step_det)
  with w(2) step.hyps(1) have "on_cycle m v" by (meson rtranclp_into_tranclp1)
  then show ?case by (rule step.IH)
qed

lemma anc_antisym: "acyclic_at m x \<Longrightarrow> anc m x y \<Longrightarrow> anc m y x \<Longrightarrow> x = y"
  by (auto simp: acyclic_at_iff dest!: rtranclpD intro: tranclp_trans)

section \<open>What lowestCommonAncestor returns\<close>

lemma firstHit_spec:
  assumes "firstHit m fa visited cur = a" and "a \<noteq> 0"
  shows "a \<in> set fa \<and> anc m cur a \<and> (\<forall>b \<in> set fa. anc m cur b \<longrightarrow> anc m a b)"
  using assms
proof (induction m fa visited cur rule: firstHit.induct)
  case (1 m fa visited cur)
  from "1.prems" have v: "cur \<notin> set visited"
    by (auto simp: firstHit.simps [of m fa visited cur] uuid_Nil_def split: if_splits)
  show ?case
  proof (cases "cur \<in> set fa")
    case True
    with "1.prems" v show ?thesis by (simp add: firstHit.simps [of m fa visited cur])
  next
    case False
    with "1.prems" v have nd: "\<not> (gget m cur = None \<or> parentID m cur = 0)"
      and rec: "firstHit m fa (cur # visited) (parentID m cur) = a"
      by (auto simp: firstHit.simps [of m fa visited cur] uuid_Nil_def split: if_splits)
    from "1.IH" [OF v False nd rec "1.prems"(2)] nd False show ?thesis
      by (auto dest: anc_cases intro: anc_parent)
  qed
qed

lemma firstHit_complete:
  assumes "b \<in> set fa" and "anc m cur b" and "\<not> on_cycle m b" and "0 \<notin> set fa"
    and "\<forall>x \<in> set visited. \<not> anc m cur x"
  shows "firstHit m fa visited cur \<noteq> 0"
  using assms
proof (induction m fa visited cur rule: firstHit.induct)
  case (1 m fa visited cur)
  have v: "cur \<notin> set visited" using "1.prems"(5) by blast
  show ?case
  proof (cases "cur \<in> set fa")
    case True
    with v "1.prems"(4) show ?thesis by (auto simp: firstHit.simps [of m fa visited cur])
  next
    case False
    with "1.prems"(1,2) have nd: "\<not> (gget m cur = None \<or> parentID m cur = 0)"
      and up: "anc m (parentID m cur) b"
      by (auto dest: anc_cases)
    then have st: "parent_step m cur (parentID m cur)" by (simp add: parent_step_def)
    have "\<not> anc m (parentID m cur) x" if "x \<in> set (cur # visited)" for x
    proof
      assume x: "anc m (parentID m cur) x"
      show False
      proof (cases "x = cur")
        case True
        with st x have "on_cycle m cur" by (meson rtranclp_into_tranclp2)
        with "1.prems"(2,3) on_cycle_forward show False by blast
      next
        case False
        with that x st "1.prems"(5) show False by (auto intro: converse_rtranclp_into_rtranclp)
      qed
    qed
    with "1.IH" [OF v False nd "1.prems"(1) up "1.prems"(3,4)]
    have "firstHit m fa (cur # visited) (parentID m cur) \<noteq> 0" by blast
    with v False nd show ?thesis by (auto simp: firstHit.simps [of m fa visited cur])
  qed
qed

lemma lca_spec:
  assumes "lowestCommonAncestor m f t = a" and "a \<noteq> 0"
  shows "anc m f a" and "anc m t a" and "anc m f b \<Longrightarrow> anc m t b \<Longrightarrow> anc m a b"
proof -
  have "anc m f a \<and> anc m t a \<and> (anc m f b \<longrightarrow> anc m t b \<longrightarrow> anc m a b)"
  proof (cases "f = t")
    case True
    with assms show ?thesis by (simp add: lowestCommonAncestor_def)
  next
    case False
    with assms obtain fa where fa: "fromAncestors m [] f = Some fa"
      and hit: "firstHit m fa [] t = a"
      by (auto simp: lowestCommonAncestor_def uuid_Nil_def split: if_splits option.splits)
    from firstHit_spec [OF hit assms(2)] fromAncestors_set [OF fa] show ?thesis by auto
  qed
  then show "anc m f a" and "anc m t a" and "anc m f b \<Longrightarrow> anc m t b \<Longrightarrow> anc m a b"
    by blast+
qed

lemma anc_nonzero: "anc m x y \<Longrightarrow> x \<noteq> 0 \<Longrightarrow> y \<noteq> 0"
  by (induction rule: rtranclp_induct) (auto simp: parent_step_def)

lemma lca_complete:
  assumes "acyclic_at m f" and "f \<noteq> 0" and "gget m f \<noteq> None" and "gget m t \<noteq> None"
    and "anc m f b" and "anc m t b"
  shows "lowestCommonAncestor m f t \<noteq> 0"
proof (cases "f = t")
  case True
  with assms(2) show ?thesis by (simp add: lowestCommonAncestor_def)
next
  case False
  from assms(1) obtain fa where fa: "fromAncestors m [] f = Some fa"
    by (auto simp: acyclic_at_def)
  have set: "set fa = {x. anc m f x}" using fromAncestors_set [OF fa] by simp
  have "firstHit m fa [] t \<noteq> 0"
  proof (rule firstHit_complete)
    show "b \<in> set fa" using set assms(5) by simp
    show "\<not> on_cycle m b" using assms(1,5) by (simp add: acyclic_at_iff)
    show "0 \<notin> set fa" using set anc_nonzero [OF _ assms(2)] by auto
  qed (use assms(6) in auto)
  with False assms(3,4) fa show ?thesis by (auto simp: lowestCommonAncestor_def)
qed

lemma lca_refl [simp]: "lowestCommonAncestor m f f = f"
  by (simp add: lowestCommonAncestor_def)

section \<open>The walk list\<close>

text \<open>
  The nodes the recursive walks of the executor and the simulation visit from \<open>r\<close>: up to
  the stop node, else to a root. Without enough fuel the list is not defined.
\<close>

fun walk_path :: "nat \<Rightarrow> repo_map \<Rightarrow> uuid \<Rightarrow> uuid \<Rightarrow> uuid list option" where
  "walk_path 0 m stop r = None"
| "walk_path (Suc n) m stop r =
     (if r = stop \<or> parentID m r = 0 then Some [r]
      else map_option (Cons r) (walk_path n m stop (parentID m r)))"

text \<open>Enough fuel for every walk over the map: more than the map has repositories.\<close>

definition walk_fuel :: "repo_map \<Rightarrow> nat" where
  "walk_fuel m = Suc (Suc (length m))"

lemma walk_path_hd: "walk_path n m stop r = Some p \<Longrightarrow> \<exists>q. p = r # q"
  by (cases n) (auto split: if_splits)

lemma walk_path_anc: "walk_path n m stop r = Some p \<Longrightarrow> x \<in> set p \<Longrightarrow> anc m r x"
proof (induction n arbitrary: r p)
  case (Suc n)
  show ?case
  proof (cases "r = stop \<or> parentID m r = 0")
    case True
    with Suc.prems show ?thesis by auto
  next
    case False
    with Suc.prems obtain q where q: "walk_path n m stop (parentID m r) = Some q" "p = r # q"
      by auto
    with Suc.prems(2) Suc.IH [OF q(1)] False show ?thesis by (auto intro: anc_parent)
  qed
qed simp

text \<open>The visited nodes are the ones on the way up that are not strictly above the stop node.\<close>

lemma walk_path_set:
  assumes "walk_path n m stop r = Some p" and "acyclic_at m r" and "anc m r stop"
  shows "set p = {x. anc m r x \<and> anc m x stop}" and "last p = stop"
proof -
  have "set p = {x. anc m r x \<and> anc m x stop} \<and> last p = stop"
    using assms
  proof (induction n arbitrary: r p)
    case (Suc n)
    show ?case
    proof (cases "r = stop")
      case True
      with Suc.prems have "{x. anc m r x \<and> anc m x stop} = {r}"
        by (auto dest: anc_antisym)
      moreover from True Suc.prems(1) have "p = [r]" by simp
      ultimately show ?thesis using True by simp
    next
      case False
      with Suc.prems(3) have up: "parentID m r \<noteq> 0" "anc m (parentID m r) stop"
        by (auto dest: anc_cases)
      with False Suc.prems(1) obtain q where q: "walk_path n m stop (parentID m r) = Some q"
        "p = r # q" by auto
      have acyc: "acyclic_at m (parentID m r)"
        using Suc.prems(2) up(1) anc_parent [OF up(1)] by (blast intro: acyclic_at_anc)
      have split: "{x. anc m r x \<and> anc m x stop}
          = insert r {x. anc m (parentID m r) x \<and> anc m x stop}"
        using up Suc.prems(3) by (auto dest: anc_cases intro: anc_parent)
      from q(1) have "q \<noteq> []" by (auto dest: walk_path_hd)
      with Suc.IH [OF q(1) acyc up(2)] q(2) split show ?thesis by simp
    qed
  qed simp
  then show "set p = {x. anc m r x \<and> anc m x stop}" and "last p = stop" by blast+
qed

lemma walk_path_set_root:
  assumes "walk_path n m stop r = Some p" and "\<not> anc m r stop"
  shows "set p = {x. anc m r x}" and "parentID m (last p) = 0"
proof -
  have "set p = {x. anc m r x} \<and> parentID m (last p) = 0"
    using assms
  proof (induction n arbitrary: r p)
    case (Suc n)
    then have ne: "r \<noteq> stop" by auto
    show ?case
    proof (cases "parentID m r = 0")
      case True
      with Suc.prems(1) have "p = [r]" by simp
      moreover have "{x. anc m r x} = {r}" using True by (auto dest: anc_cases)
      ultimately show ?thesis using True by simp
    next
      case False
      with ne Suc.prems(1) obtain q where q: "walk_path n m stop (parentID m r) = Some q"
        "p = r # q" by auto
      have "\<not> anc m (parentID m r) stop"
        using Suc.prems(2) anc_parent [OF False] by blast
      note IH = Suc.IH [OF q(1) this]
      have "{x. anc m r x} = insert r {x. anc m (parentID m r) x}"
        using False by (auto dest: anc_cases intro: anc_parent)
      moreover from q(1) have "q \<noteq> []" by (auto dest: walk_path_hd)
      ultimately show ?thesis using IH q(2) by simp
    qed
  qed simp
  then show "set p = {x. anc m r x}" and "parentID m (last p) = 0" by blast+
qed

lemma walk_path_distinct:
  assumes "walk_path n m stop r = Some p" and "acyclic_at m r"
  shows "distinct p"
  using assms
proof (induction n arbitrary: r p)
  case (Suc n)
  show ?case
  proof (cases "r = stop \<or> parentID m r = 0")
    case True
    with Suc.prems show ?thesis by auto
  next
    case False
    with Suc.prems obtain q where q: "walk_path n m stop (parentID m r) = Some q" "p = r # q"
      by auto
    have st: "parent_step m r (parentID m r)" using False by (simp add: parent_step_def)
    have "acyclic_at m (parentID m r)"
      using Suc.prems(2) st by (blast intro: acyclic_at_anc)
    moreover have "r \<notin> set q"
    proof
      assume "r \<in> set q"
      with q(1) have "anc m (parentID m r) r" by (rule walk_path_anc)
      with st have "on_cycle m r" by (meson rtranclp_into_tranclp2)
      with Suc.prems(2) show False by (auto simp: acyclic_at_iff)
    qed
    ultimately show ?thesis using Suc.IH [OF q(1)] q(2) by simp
  qed
qed simp

text \<open>Consecutive nodes are child and parent.\<close>

lemma walk_path_successively:
  "walk_path n m stop r = Some p \<Longrightarrow> successively (parent_step m) p"
proof (induction n arbitrary: r p)
  case (Suc n)
  show ?case
  proof (cases "r = stop \<or> parentID m r = 0")
    case True
    with Suc.prems show ?thesis by auto
  next
    case False
    with Suc.prems obtain q where q: "walk_path n m stop (parentID m r) = Some q" "p = r # q"
      by auto
    from walk_path_hd [OF q(1)] obtain q' where "q = parentID m r # q'" by blast
    with Suc.IH [OF q(1)] q(2) False show ?thesis by (simp add: parent_step_def)
  qed
qed simp

text \<open>On an acyclic chain the fuel of the model is enough.\<close>

lemma walk_path_total:
  assumes "acyclic_at m r"
  shows "\<exists>p. walk_path (walk_fuel m) m stop r = Some p"
proof -
  have "\<exists>p. walk_path n m stop r = Some p"
    if "card {x \<in> set (gkeys m). anc m r x} < n" "acyclic_at m r" for n r
    using that
  proof (induction n arbitrary: r)
    case (Suc n)
    show ?case
    proof (cases "r = stop \<or> parentID m r = 0")
      case False
      then have st: "parent_step m r (parentID m r)" by (simp add: parent_step_def)
      have "r \<notin> {x. anc m (parentID m r) x}"
        using Suc.prems(2) st by (auto simp: acyclic_at_iff intro: rtranclp_into_tranclp2)
      moreover have "r \<in> set (gkeys m)"
        using parent_step_gget [OF st] by (simp add: gkeys_gget)
      ultimately have "{x \<in> set (gkeys m). anc m (parentID m r) x}
          \<subset> {x \<in> set (gkeys m). anc m r x}"
        using False by (auto intro: anc_parent)
      then have "card {x \<in> set (gkeys m). anc m (parentID m r) x}
          < card {x \<in> set (gkeys m). anc m r x}"
        by (intro psubset_card_mono) auto
      with Suc.prems st obtain q where "walk_path n m stop (parentID m r) = Some q"
        using Suc.IH [of "parentID m r"] acyclic_at_anc by (meson less_le_trans less_Suc_eq_le r_into_rtranclp)
      with False show ?thesis by simp
    qed auto
  qed simp
  moreover have "card {x \<in> set (gkeys m). anc m r x} < walk_fuel m"
  proof -
    have "card {x \<in> set (gkeys m). anc m r x} \<le> card (set (gkeys m))"
      by (rule card_mono) auto
    also have "\<dots> \<le> length m"
      unfolding gkeys_def by (metis card_length length_map set_remdups)
    finally show ?thesis by (simp add: walk_fuel_def)
  qed
  ultimately show ?thesis using assms by blast
qed

end
