(* ===== verification/ChainWalk.thy ===== *)
theory ChainWalk
  imports Repositories
begin

text \<open>
  What the executor walk and the simulation walk of service/stock/impl.go share: a recursion
  from a repository to its parent that changes one entry per node, passes the own-stock flag
  to the first node only, and stops after the stop node or at a root. The contract is the
  locale \<open>chain_walk\<close>; both walks are interpretations of it.
\<close>

locale chain_walk =
  fixes m :: repo_map
    and stop :: uuid
    and present :: "uuid \<Rightarrow> bool"
    and visit :: "bool \<Rightarrow> uuid \<Rightarrow> 's \<Rightarrow> 's"
    and look :: "'s \<Rightarrow> uuid \<Rightarrow> 'v"
    and change :: "bool \<Rightarrow> uuid \<Rightarrow> 'v \<Rightarrow> 'v"
    and walk :: "nat \<Rightarrow> uuid \<Rightarrow> bool \<Rightarrow> 's \<Rightarrow> error + 's"
  assumes walk_0: "walk 0 r own s = Inl FatalStackOverflow"
    and walk_Suc: "walk (Suc n) r own s =
      (if \<not> present r then Inl (ErrAncestorRepoNotPreloaded r)
       else if r = stop \<or> parentID m r = 0 then Inr (visit own r s)
       else walk n (parentID m r) False (visit own r s))"
    and look_visit: "look (visit own r s) x = (if x = r then change own r (look s r) else look s x)"
    and present_map: "gget m r \<noteq> None \<Longrightarrow> present r"
begin

text \<open>A walk that returns has visited the nodes of its path, each of them loaded.\<close>

lemma walk_path_of:
  "walk n r own s = Inr s' \<Longrightarrow> \<exists>p. walk_path n m stop r = Some p \<and> (\<forall>x \<in> set p. present x)"
proof (induction n arbitrary: r own s)
  case 0
  then show ?case by (simp add: walk_0)
next
  case (Suc n)
  then have pr: "present r" by (auto simp: walk_Suc split: if_splits)
  show ?case
  proof (cases "r = stop \<or> parentID m r = 0")
    case True
    with pr show ?thesis by auto
  next
    case False
    with Suc.prems pr have "walk n (parentID m r) False (visit own r s) = Inr s'"
      by (auto simp: walk_Suc)
    from Suc.IH [OF this] pr False show ?thesis by auto
  qed
qed

lemma walk_returns:
  "walk_path n m stop r = Some p \<Longrightarrow> (\<forall>x \<in> set p. present x) \<Longrightarrow> \<exists>s'. walk n r own s = Inr s'"
proof (induction n arbitrary: r own s p)
  case (Suc n)
  then show ?case
    by (cases "r = stop \<or> parentID m r = 0") (auto simp: walk_Suc)
qed simp

text \<open>Each visited node changes once, with the own flag at the first one only.\<close>

lemma walk_look:
  "walk n r own s = Inr s' \<Longrightarrow> walk_path n m stop r = Some p \<Longrightarrow> distinct p \<Longrightarrow>
     look s' x = (if x \<in> set p then change (own \<and> x = r) x (look s x) else look s x)"
proof (induction n arbitrary: r own s p)
  case (Suc n)
  from Suc.prems(1) have pr: "present r" by (auto simp: walk_Suc split: if_splits)
  show ?case
  proof (cases "r = stop \<or> parentID m r = 0")
    case True
    with Suc.prems pr show ?thesis by (auto simp: walk_Suc look_visit)
  next
    case False
    with Suc.prems obtain q where q: "walk_path n m stop (parentID m r) = Some q" "p = r # q"
      by auto
    from Suc.prems(1) pr False have w: "walk n (parentID m r) False (visit own r s) = Inr s'"
      by (auto simp: walk_Suc)
    from Suc.prems(3) q(2) have "distinct q" "r \<notin> set q" by auto
    with Suc.IH [OF w q(1)] q(2) show ?thesis by (auto simp: look_visit)
  qed
qed simp

text \<open>On an acyclic chain whose nodes are loaded the walk returns.\<close>

lemma walk_terminates:
  assumes "acyclic_at m r" and "\<And>x. anc m r x \<Longrightarrow> present x"
  shows "\<exists>s'. walk (walk_fuel m) r own s = Inr s'"
proof -
  from walk_path_total [OF assms(1)] obtain p where p: "walk_path (walk_fuel m) m stop r = Some p"
    by blast
  with assms(2) walk_path_anc [OF p] show ?thesis by (auto intro: walk_returns)
qed

text \<open>
  A chain that never ends and never meets the stop node: no amount of fuel lets the walk
  return, so the recursion of the code overflows the stack.
\<close>

lemma walk_diverges:
  assumes "\<And>x. anc m r x \<Longrightarrow> parentID m x \<noteq> 0" and "\<not> anc m r stop"
  shows "walk n r own s = Inl FatalStackOverflow"
  using assms
proof (induction n arbitrary: r own s)
  case 0
  then show ?case by (simp add: walk_0)
next
  case (Suc n)
  have st: "parent_step m r (parentID m r)"
    using Suc.prems(1) [of r] by (simp add: parent_step_def)
  then have pr: "present r" by (intro present_map parent_step_gget)
  have ns: "r \<noteq> stop" using Suc.prems(2) by blast
  have "walk n (parentID m r) False (visit own r s) = Inl FatalStackOverflow"
  proof (rule Suc.IH)
    show "parentID m x \<noteq> 0" if "anc m (parentID m r) x" for x
      using Suc.prems(1) that st by (blast intro: converse_rtranclp_into_rtranclp)
    show "\<not> anc m (parentID m r) stop"
      using Suc.prems(2) st by (blast intro: converse_rtranclp_into_rtranclp)
  qed
  with pr ns Suc.prems(1) [of r] show ?case by (simp add: walk_Suc)
qed

end

text \<open>A node on a cycle has a parent, so a chain that runs into a cycle never ends.\<close>

lemma cycle_never_ends:
  assumes "anc m r z" and "on_cycle m z" and "anc m r x"
  shows "parentID m x \<noteq> 0"
proof -
  from anc_linear [OF assms(1,3)] consider "anc m z x" | "anc m x z" by blast
  then show ?thesis
  proof cases
    case 1
    with assms(2) have "on_cycle m x" by (simp add: on_cycle_forward)
    then show ?thesis by (auto dest!: tranclpD simp: parent_step_def)
  next
    case 2
    from 2 assms(2) have "(parent_step m)\<^sup>+\<^sup>+ x z" by (rule rtranclp_tranclp_tranclp)
    then show ?thesis by (auto dest!: tranclpD simp: parent_step_def)
  qed
qed

end
