(* ===== verification/ExecutorWalk.thy ===== *)
theory ExecutorWalk
  imports ChainWalk
begin

text \<open>
  The executor of service/stock/impl.go: \<open>applyRepositoryStockDelta\<close> and the functions that
  call it. The recursion on the parent chain takes fuel; \<open>walk_fuel\<close> is more than the number
  of repositories loaded, so running out means the chain never ends
  (\<open>exec.walk_terminates\<close>) and the Go recursion overflows its stack.
\<close>

type_synonym prior_map = "(stock_key, stock) gomap"
type_synonym exec_map = "(uuid, stock) gomap"

section \<open>Definitions\<close>

text \<open>
  The row a node starts from: its entry in the map under construction, else the loaded row,
  else the zero row.
\<close>

definition execBase :: "uuid \<Rightarrow> prior_map \<Rightarrow> exec_map \<Rightarrow> uuid \<Rightarrow> stock" where
  "execBase itemID priorStocks stockMap repositoryID =
     (case gget stockMap repositoryID of
        Some record \<Rightarrow> record
      | None \<Rightarrow> ggetd zero_stock priorStocks (repositoryID, itemID))"

text \<open>The update of one node: quantity, then the reservation it consumes, then the own part.\<close>

definition stockDelta :: "bool \<Rightarrow> bool \<Rightarrow> int64 \<Rightarrow> stock \<Rightarrow> stock" where
  "stockDelta virtual ownStock q b =
     (let q1 = add64 (quantity b) q;
          u = b\<lparr>quantity := (if virtual then 0 else q1)\<rparr>;
          u = (if q > 0
               then u\<lparr>incoming_stock := std_Max (sub64 (incoming_stock b) q) [0]\<rparr>
               else u\<lparr>outgoing_stock := std_Max (add64 (outgoing_stock b) q) [0]\<rparr>)
      in if \<not> ownStock then u
         else let o1 = std_Max (add64 (own_quantity b) q) [0];
                  u = u\<lparr>own_quantity := (if virtual then 0 else o1)\<rparr>
              in if q > 0
                 then u\<lparr>own_incoming_stock := std_Max (sub64 (own_incoming_stock b) q) [0]\<rparr>
                 else u\<lparr>own_outgoing_stock := std_Max (add64 (own_outgoing_stock b) q) [0]\<rparr>)"

fun applyRepositoryStockDelta ::
  "nat \<Rightarrow> uuid \<Rightarrow> uuid \<Rightarrow> uuid \<Rightarrow> int64 \<Rightarrow> repo_map \<Rightarrow> prior_map \<Rightarrow> exec_map \<Rightarrow> bool
     \<Rightarrow> error + exec_map"
where
  "applyRepositoryStockDelta 0 itemID repositoryID lcaID q repoMap priorStocks stockMap ownStock
     = Inl FatalStackOverflow"
| "applyRepositoryStockDelta (Suc fuel) itemID repositoryID lcaID q repoMap priorStocks stockMap
     ownStock =
     (case gget repoMap repositoryID of
        None \<Rightarrow> Inl (ErrAncestorRepoNotPreloaded repositoryID)
      | Some repo \<Rightarrow>
          (let updatedRecord = stockDelta (virtual_repo repo) ownStock q
                 (execBase itemID priorStocks stockMap repositoryID);
               stockMap = gput repositoryID updatedRecord stockMap
           in if repositoryID = lcaID \<or> r_parent repo = uuid_Nil then Inr stockMap
              else applyRepositoryStockDelta fuel itemID (r_parent repo) lcaID q repoMap
                     priorStocks stockMap False))"

text \<open>The range loop over the map reports the first negative row it meets.\<close>

fun validateStockMapNoUnderflow :: "exec_map \<Rightarrow> error + unit" where
  "validateStockMapNoUnderflow [] = Inr ()"
| "validateStockMapNoUnderflow ((repoID, rec) # rest) =
     (if quantity rec < 0 then Inl (ErrStockUnderflow repoID (quantity rec))
      else validateStockMapNoUnderflow rest)"

definition calculateRepositoryStockMap ::
  "uuid \<Rightarrow> uuid \<Rightarrow> uuid \<Rightarrow> int64 \<Rightarrow> repo_map \<Rightarrow> prior_map \<Rightarrow> exec_map \<Rightarrow> bool \<Rightarrow> error + exec_map"
where
  "calculateRepositoryStockMap itemID repositoryID lcaID q repoMap priorStocks stockMap ownStock =
     (case applyRepositoryStockDelta (walk_fuel repoMap) itemID repositoryID lcaID q repoMap
             priorStocks stockMap ownStock of
        Inl e \<Rightarrow> Inl e
      | Inr stockMap \<Rightarrow>
          (case validateStockMapNoUnderflow stockMap of
             Inl e \<Rightarrow> Inl e
           | Inr _ \<Rightarrow> Inr stockMap))"

definition applyItemMovementStockDelta ::
  "uuid \<Rightarrow> uuid \<Rightarrow> uuid \<Rightarrow> int64 \<Rightarrow> repo_map \<Rightarrow> prior_map \<Rightarrow> exec_map \<Rightarrow> bool \<Rightarrow> error + exec_map"
where
  "applyItemMovementStockDelta itemID fromID toID q repoMap priorStocks stockMap ownStock =
     (let lcaID = lowestCommonAncestor repoMap fromID toID in
      case applyRepositoryStockDelta (walk_fuel repoMap) itemID fromID lcaID (neg64 q) repoMap
             priorStocks stockMap ownStock of
        Inl e \<Rightarrow> Inl e
      | Inr stockMap \<Rightarrow>
          (case applyRepositoryStockDelta (walk_fuel repoMap) itemID toID lcaID q repoMap
                  priorStocks stockMap ownStock of
             Inl e \<Rightarrow> Inl e
           | Inr stockMap \<Rightarrow>
               (case validateStockMapNoUnderflow stockMap of
                  Inl e \<Rightarrow> Inl e
                | Inr _ \<Rightarrow> Inr stockMap)))"

section \<open>The executor is a chain walk\<close>

definition isVirtual :: "repo_map \<Rightarrow> uuid \<Rightarrow> bool" where
  "isVirtual m r = virtual_repo (ggetd zero_repository m r)"

definition execVisit ::
  "uuid \<Rightarrow> int64 \<Rightarrow> repo_map \<Rightarrow> prior_map \<Rightarrow> bool \<Rightarrow> uuid \<Rightarrow> exec_map \<Rightarrow> exec_map"
where
  "execVisit itemID q repoMap priorStocks ownStock r stockMap =
     gput r (stockDelta (isVirtual repoMap r) ownStock q (execBase itemID priorStocks stockMap r))
       stockMap"

lemma execBase_gput [simp]:
  "execBase itemID prior (gput r v sm) x = (if x = r then v else execBase itemID prior sm x)"
  by (simp add: execBase_def)

lemma execBase_Nil [simp]: "execBase itemID prior [] x = ggetd zero_stock prior (x, itemID)"
  by (simp add: execBase_def)

interpretation exec: chain_walk m lcaID "\<lambda>r. gget m r \<noteq> None"
  "execVisit itemID q m prior" "execBase itemID prior"
  "\<lambda>own r. stockDelta (isVirtual m r) own q"
  "\<lambda>n r own sm. applyRepositoryStockDelta n itemID r lcaID q m prior sm own"
  for m lcaID itemID q prior
  by unfold_locales
    (auto simp: execVisit_def isVirtual_def parentID_def ggetd_def uuid_Nil_def Let_def
      split: option.splits)

text \<open>The keys of the result are the visited nodes.\<close>

lemma exec_keys:
  "applyRepositoryStockDelta n itemID r lcaID q m prior sm own = Inr sm' \<Longrightarrow>
     walk_path n m lcaID r = Some p \<Longrightarrow>
     gget sm' x \<noteq> None \<longleftrightarrow> x \<in> set p \<or> gget sm x \<noteq> None"
proof (induction n arbitrary: r own sm p)
  case (Suc n)
  then show ?case
    by (cases "r = lcaID \<or> parentID m r = 0")
      (fastforce simp: Let_def parentID_def ggetd_def uuid_Nil_def split: option.splits if_splits)+
qed simp

lemma exec_gmap_ok:
  "applyRepositoryStockDelta n itemID r lcaID q m prior sm own = Inr sm' \<Longrightarrow> gmap_ok sm \<Longrightarrow> gmap_ok sm'"
  by (induction n arbitrary: r own sm) (auto simp: Let_def split: option.splits if_splits)

lemma validate_Inr:
  assumes "validateStockMapNoUnderflow sm = Inr u" and "gget sm r = Some rec"
  shows "0 \<le> quantity rec"
  using assms by (induction sm rule: validateStockMapNoUnderflow.induct) (auto split: if_splits)

lemma validate_total:
  assumes "\<And>r rec. (r, rec) \<in> set sm \<Longrightarrow> 0 \<le> quantity rec"
  shows "validateStockMapNoUnderflow sm = Inr ()"
  using assms by (induction sm rule: validateStockMapNoUnderflow.induct) (auto simp: not_less)

lemma validate_Inl:
  assumes "validateStockMapNoUnderflow sm = Inl e"
  shows "\<exists>r rec. (r, rec) \<in> set sm \<and> quantity rec < 0 \<and> e = ErrStockUnderflow r (quantity rec)"
  using assms
  by (induction sm rule: validateStockMapNoUnderflow.induct) (fastforce split: if_splits)+

end
