(* ===== verification/SimulateWalk.thy ===== *)
theory SimulateWalk
  imports ExecutorWalk
begin

text \<open>
  The simulation walk of service/stock/impl.go, \<open>simulateRepositoryStockMap\<close>: a pending
  movement reserves incoming and outgoing stock on the parent chains of its two ends, and a
  deleted one releases them (\<open>subtract\<close>). The maps are Go maps of Go maps, repository first.
  Lemmas: the walk is a \<open>chain_walk\<close>, it leaves every other item and every quantity alone,
  and the subtracting walk undoes the adding one.
\<close>

type_synonym nested_map = "(uuid, (uuid, stock) gomap) gomap"

section \<open>Definitions\<close>

text \<open>\<open>stockMap[repositoryID][itemID]\<close>: the zero row when either key is absent.\<close>

definition nget :: "nested_map \<Rightarrow> uuid \<Rightarrow> uuid \<Rightarrow> stock" where
  "nget sm repositoryID itemID = ggetd zero_stock (ggetd [] sm repositoryID) itemID"

definition nput :: "uuid \<Rightarrow> uuid \<Rightarrow> stock \<Rightarrow> nested_map \<Rightarrow> nested_map" where
  "nput repositoryID itemID v sm =
     gput repositoryID (gput itemID v (ggetd [] sm repositoryID)) sm"

text \<open>The update of one node; at the stop node only the own counters change.\<close>

definition simDelta :: "bool \<Rightarrow> bool \<Rightarrow> int64 \<Rightarrow> bool \<Rightarrow> stock \<Rightarrow> stock" where
  "simDelta ownStock subtract q atLca b =
     (let u = (if \<not> ownStock then b
               else if q > 0
                 then (if subtract
                       then b\<lparr>own_incoming_stock := std_Max (sub64 (own_incoming_stock b) q) [0]\<rparr>
                       else b\<lparr>own_incoming_stock := std_Max (add64 (own_incoming_stock b) q) [0]\<rparr>)
                 else (if subtract
                       then b\<lparr>own_outgoing_stock := std_Max (add64 (own_outgoing_stock b) q) [0]\<rparr>
                       else b\<lparr>own_outgoing_stock := std_Max (sub64 (own_outgoing_stock b) q) [0]\<rparr>))
      in if atLca then u
         else if q > 0
           then (if subtract
                 then u\<lparr>incoming_stock := std_Max (sub64 (incoming_stock b) q) [0]\<rparr>
                 else u\<lparr>incoming_stock := std_Max (add64 (incoming_stock b) q) [0]\<rparr>)
           else (if subtract
                 then u\<lparr>outgoing_stock := std_Max (add64 (outgoing_stock b) q) [0]\<rparr>
                 else u\<lparr>outgoing_stock := std_Max (sub64 (outgoing_stock b) q) [0]\<rparr>))"

fun simulateRepositoryStockMapWalk ::
  "nat \<Rightarrow> uuid \<Rightarrow> uuid \<Rightarrow> uuid \<Rightarrow> int64 \<Rightarrow> nested_map \<Rightarrow> repo_map \<Rightarrow> bool \<Rightarrow> bool \<Rightarrow> error + nested_map"
where
  "simulateRepositoryStockMapWalk 0 itemID repositoryID lcaID q stockMap repoMap ownStock subtract
     = Inl FatalStackOverflow"
| "simulateRepositoryStockMapWalk (Suc fuel) itemID repositoryID lcaID q stockMap repoMap ownStock
     subtract =
     (let updatedRecord = simDelta ownStock subtract q (repositoryID = lcaID)
            (nget stockMap repositoryID itemID);
          stockMap = nput repositoryID itemID updatedRecord stockMap
      in if repositoryID = lcaID \<or> parentID repoMap repositoryID = uuid_Nil then Inr stockMap
         else simulateRepositoryStockMapWalk fuel itemID (parentID repoMap repositoryID) lcaID q
                stockMap repoMap False subtract)"

definition simulateRepositoryStockMapWithMode ::
  "uuid \<Rightarrow> uuid \<Rightarrow> uuid \<Rightarrow> int64 \<Rightarrow> nested_map \<Rightarrow> repo_map \<Rightarrow> bool \<Rightarrow> bool \<Rightarrow> error + nested_map"
where
  "simulateRepositoryStockMapWithMode itemID repositoryID sourceRepositoryID q stockMap repoMap
     ownStock subtract =
     (let lcaID = lowestCommonAncestor repoMap repositoryID sourceRepositoryID in
      simulateRepositoryStockMapWalk (walk_fuel repoMap) itemID repositoryID lcaID q stockMap
        repoMap ownStock subtract)"

definition simulateRepositoryStockMap ::
  "uuid \<Rightarrow> uuid \<Rightarrow> uuid \<Rightarrow> int64 \<Rightarrow> nested_map \<Rightarrow> repo_map \<Rightarrow> bool \<Rightarrow> error + nested_map"
where
  "simulateRepositoryStockMap itemID repositoryID sourceRepositoryID q stockMap repoMap ownStock =
     simulateRepositoryStockMapWithMode itemID repositoryID sourceRepositoryID q stockMap repoMap
       ownStock False"

section \<open>Nested maps\<close>

lemma nget_nput [simp]:
  "nget (nput r i v sm) x y = (if x = r \<and> y = i then v else nget sm x y)"
  by (auto simp: nget_def nput_def)

lemma nget_Nil [simp]: "nget [] x y = zero_stock"
  by (simp add: nget_def)

section \<open>The simulation is a chain walk\<close>

interpretation sim: chain_walk m lcaID "\<lambda>_. True"
  "\<lambda>own r sm. nput r itemID (simDelta own subtract q (r = lcaID) (nget sm r itemID)) sm"
  "\<lambda>sm r. nget sm r itemID"
  "\<lambda>own r. simDelta own subtract q (r = lcaID)"
  "\<lambda>n r own sm. simulateRepositoryStockMapWalk n itemID r lcaID q sm m own subtract"
  for m lcaID itemID q subtract
  by unfold_locales (auto simp: uuid_Nil_def Let_def)

text \<open>Rows of other items stay as they are.\<close>

lemma sim_other_item:
  "simulateRepositoryStockMapWalk n itemID r lcaID q sm m own subtract = Inr sm' \<Longrightarrow> i \<noteq> itemID \<Longrightarrow>
     nget sm' x i = nget sm x i"
  by (induction n arbitrary: r own sm) (auto simp: Let_def split: if_splits)

text \<open>A reservation moves no stock and leaves the identity of the rows.\<close>

definition same_quantities :: "stock \<Rightarrow> stock \<Rightarrow> bool" where
  "same_quantities a b \<longleftrightarrow> quantity a = quantity b \<and> own_quantity a = own_quantity b
     \<and> s_repository a = s_repository b \<and> s_item a = s_item b \<and> s_tenant a = s_tenant b
     \<and> version a = version b"

lemma simDelta_same_quantities [simp]: "same_quantities (simDelta own sub q l b) b"
  by (simp add: simDelta_def same_quantities_def Let_def)

lemma same_quantities_refl [simp]: "same_quantities b b"
  by (simp add: same_quantities_def)

lemma same_quantities_trans:
  "same_quantities a b \<Longrightarrow> same_quantities b c \<Longrightarrow> same_quantities a c"
  by (simp add: same_quantities_def)

lemma sim_same_quantities:
  "simulateRepositoryStockMapWalk n itemID r lcaID q sm m own subtract = Inr sm' \<Longrightarrow>
     same_quantities (nget sm' x i) (nget sm x i)"
proof (induction n arbitrary: r own sm)
  case (Suc n)
  let ?sm = "nput r itemID (simDelta own subtract q (r = lcaID) (nget sm r itemID)) sm"
  have one: "same_quantities (nget ?sm x i) (nget sm x i)" by simp
  show ?case
  proof (cases "r = lcaID \<or> parentID m r = 0")
    case True
    with Suc.prems one show ?thesis by (auto simp: Let_def uuid_Nil_def split: if_splits)
  next
    case False
    with Suc.prems have
      "simulateRepositoryStockMapWalk n itemID (parentID m r) lcaID q ?sm m False subtract = Inr sm'"
      by (auto simp: Let_def uuid_Nil_def)
    from same_quantities_trans [OF Suc.IH [OF this] one] show ?thesis .
  qed
qed simp

text \<open>The counters a walk writes stay non-negative, whatever wraps around.\<close>

definition reservations_ok :: "stock \<Rightarrow> bool" where
  "reservations_ok b \<longleftrightarrow> 0 \<le> incoming_stock b \<and> 0 \<le> outgoing_stock b
     \<and> 0 \<le> own_incoming_stock b \<and> 0 \<le> own_outgoing_stock b"

lemma simDelta_reservations_ok: "reservations_ok b \<Longrightarrow> reservations_ok (simDelta own sub q l b)"
  by (simp add: simDelta_def reservations_ok_def Let_def)

lemma sim_reservations_ok:
  "simulateRepositoryStockMapWalk n itemID r lcaID q sm m own subtract = Inr sm' \<Longrightarrow>
     (\<And>x i. reservations_ok (nget sm x i)) \<Longrightarrow> reservations_ok (nget sm' x i)"
proof (induction n arbitrary: r own sm)
  case (Suc n)
  let ?sm = "nput r itemID (simDelta own subtract q (r = lcaID) (nget sm r itemID)) sm"
  have ok: "reservations_ok (nget ?sm y j)" for y j
    using Suc.prems(2) by (simp add: simDelta_reservations_ok)
  show ?case
  proof (cases "r = lcaID \<or> parentID m r = 0")
    case True
    with Suc.prems(1) ok show ?thesis by (auto simp: Let_def uuid_Nil_def split: if_splits)
  next
    case False
    with Suc.prems(1) have
      "simulateRepositoryStockMapWalk n itemID (parentID m r) lcaID q ?sm m False subtract = Inr sm'"
      by (auto simp: Let_def uuid_Nil_def)
    then show ?thesis using Suc.IH ok by blast
  qed
qed simp

section \<open>Undoing a reservation\<close>

text \<open>Room for a reservation of \<open>q\<close>: the counters are non-negative and do not wrap.\<close>

definition reservation_room :: "int64 \<Rightarrow> stock \<Rightarrow> bool" where
  "reservation_room q b \<longleftrightarrow> reservations_ok b
     \<and> fits64 (incoming_stock b + q) \<and> fits64 (outgoing_stock b + q)
     \<and> fits64 (own_incoming_stock b + q) \<and> fits64 (own_outgoing_stock b + q)"

lemma counter_undo:
  assumes "0 \<le> a" and "0 < q" and "fits64 (a + q)"
  shows "max (sub64 (max (add64 a q) 0) q) 0 = a"
    and "max (add64 (max (sub64 a (- q)) 0) (- q)) 0 = a"
proof -
  have a: "fits64 a" using assms by (simp add: fits64_def)
  show "max (sub64 (max (add64 a q) 0) q) 0 = a"
    using assms a by (simp add: arith64 i64_id)
  show "max (add64 (max (sub64 a (- q)) 0) (- q)) 0 = a"
    using assms a by (simp add: arith64 i64_id)
qed

lemma simDelta_undo_in:
  assumes "0 < q" and "reservation_room q b"
  shows "simDelta own True q l (simDelta own False q l b) = b"
  using assms by (simp add: simDelta_def Let_def reservation_room_def reservations_ok_def counter_undo)

lemma simDelta_undo_out:
  assumes "0 < q" and "reservation_room q b"
  shows "simDelta own True (- q) l (simDelta own False (- q) l b) = b"
  using assms by (simp add: simDelta_def Let_def reservation_room_def reservations_ok_def counter_undo)

text \<open>Incoming and outgoing updates touch different counters.\<close>

lemma simDelta_in_out_commute:
  assumes "0 < q"
  shows "simDelta own sub q l (simDelta own' sub' (- q) l' b) =
    simDelta own' sub' (- q) l' (simDelta own sub q l b)"
proof -
  have s: "(0 < q) = True" "(0 < - q) = False" using assms by auto
  show ?thesis
    unfolding simDelta_def Let_def s if_True if_False
    by (cases b; cases own; cases own'; cases l; cases l'; cases sub; cases sub'; simp)
qed

section \<open>Creating and deleting a pending movement\<close>

text \<open>The two walks of a create (\<open>subtract\<close> off) and of a delete (\<open>subtract\<close> on).\<close>

definition simulateMovement ::
  "bool \<Rightarrow> uuid \<Rightarrow> uuid \<Rightarrow> uuid \<Rightarrow> int64 \<Rightarrow> repo_map \<Rightarrow> nested_map \<Rightarrow> error + nested_map"
where
  "simulateMovement subtract itemID fromID toID q repoMap stockMap =
     (case simulateRepositoryStockMapWithMode itemID fromID toID (neg64 q) stockMap repoMap True
             subtract of
        Inl e \<Rightarrow> Inl e
      | Inr stockMap \<Rightarrow>
          simulateRepositoryStockMapWithMode itemID toID fromID q stockMap repoMap True subtract)"

lemma simulate_total:
  assumes "acyclic_at m r"
  shows "\<exists>sm'. simulateRepositoryStockMapWithMode itemID r src q sm m own subtract = Inr sm'"
  unfolding simulateRepositoryStockMapWithMode_def Let_def
  using assms by (rule sim.walk_terminates) simp

text \<open>What one of the two walks does to one row.\<close>

lemma simulate_look:
  assumes "simulateRepositoryStockMapWithMode itemID r src q sm m True subtract = Inr sm'"
    and "acyclic_at m r"
    and "walk_path (walk_fuel m) m (lowestCommonAncestor m r src) r = Some p"
  shows "nget sm' x i =
    (if i = itemID \<and> x \<in> set p
     then simDelta (x = r) subtract q (x = lowestCommonAncestor m r src) (nget sm x i)
     else nget sm x i)"
proof -
  let ?l = "lowestCommonAncestor m r src"
  from assms(1) have w: "simulateRepositoryStockMapWalk (walk_fuel m) itemID r ?l q sm m True subtract
      = Inr sm'"
    by (simp add: simulateRepositoryStockMapWithMode_def Let_def)
  show ?thesis
  proof (cases "i = itemID")
    case True
    with sim.walk_look [OF w assms(3) walk_path_distinct [OF assms(3,2)]] show ?thesis by simp
  next
    case False
    with sim_other_item [OF w] show ?thesis by simp
  qed
qed

lemma simulateMovement_undo:
  assumes "acyclic_at m f" and "acyclic_at m t" and "0 < q" and "fits64 q"
    and room: "\<And>x. reservation_room q (nget sm x itemID)"
    and create: "simulateMovement False itemID f t q m sm = Inr sm1"
    and delete: "simulateMovement True itemID f t q m sm1 = Inr sm2"
  shows "nget sm2 x i = nget sm x i"
proof -
  let ?lf = "lowestCommonAncestor m f t" and ?lt = "lowestCommonAncestor m t f"
  have n: "neg64 q = - q" using assms(3,4) by (intro neg64_id) (simp add: fits64_def)
  obtain pf where pf: "walk_path (walk_fuel m) m ?lf f = Some pf"
    using walk_path_total [OF assms(1)] by blast
  obtain pt where pt: "walk_path (walk_fuel m) m ?lt t = Some pt"
    using walk_path_total [OF assms(2)] by blast
  from create n obtain a where
    a: "simulateRepositoryStockMapWithMode itemID f t (- q) sm m True False = Inr a"
    "simulateRepositoryStockMapWithMode itemID t f q a m True False = Inr sm1"
    by (auto simp: simulateMovement_def split: sum.splits)
  from delete n obtain b where
    b: "simulateRepositoryStockMapWithMode itemID f t (- q) sm1 m True True = Inr b"
    "simulateRepositoryStockMapWithMode itemID t f q b m True True = Inr sm2"
    by (auto simp: simulateMovement_def split: sum.splits)
  note look = simulate_look [OF a(1) assms(1) pf] simulate_look [OF a(2) assms(2) pt]
    simulate_look [OF b(1) assms(1) pf] simulate_look [OF b(2) assms(2) pt]
  show ?thesis
    by (simp add: look simDelta_in_out_commute [OF assms(3), symmetric]
        simDelta_undo_in [OF assms(3) room] simDelta_undo_out [OF assms(3) room])
qed

end
