(* ===== verification/StockInsert.thy ===== *)
theory StockInsert
  imports Versions SimulateWalk "HOL-Library.Product_Lexorder"
begin

text \<open>
  How the service writes ledger rows (service/stock/impl.go and errors.go): the current row
  per repository, the rows of a simulation, their versions, the global order of a batch, the
  chunks of a large one and the translation of a unique violation into an OCC conflict; and
  the snapshot the repository movements rebase on. Lemmas: a batch written by one
  transaction on its own snapshot never conflicts, its order does not depend on the order of
  the Go maps, and the chunks partition the batch.
\<close>

section \<open>Errors\<close>

definition wrapOCCConflict :: "error \<Rightarrow> error" where
  "wrapOCCConflict err =
     (case err of
        ErrPostgres DriverPgx code constraintName message \<Rightarrow>
          if code = ''23505'' \<and> constraintName = stockOCCUniqueIndex then ErrOCCConflict else err
      | ErrPostgres DriverPq code constraintName message \<Rightarrow>
          if code = ''23505'' \<and> constraintName = stockOCCUniqueIndex then ErrOCCConflict else err
      | _ \<Rightarrow> err)"

definition wrapOCC :: "error + 'a \<Rightarrow> error + 'a" where
  "wrapOCC r = (case r of Inl e \<Rightarrow> Inl (wrapOCCConflict e) | Inr x \<Rightarrow> Inr x)"

lemma wrapOCC_Inr [simp]: "wrapOCC r = Inr x \<longleftrightarrow> r = Inr x"
  by (auto simp: wrapOCC_def split: sum.splits)

lemma wrapOCC_unique [simp]: "wrapOCCConflict stock_unique_violation = ErrOCCConflict"
  by (simp add: wrapOCCConflict_def stock_unique_violation_def)

section \<open>The order of a batch\<close>

text \<open>\<open>bytes.Compare\<close> of two identifiers and \<open>cmp.Compare\<close> of two versions.\<close>

definition ordCompare :: "'a::linorder \<Rightarrow> 'a \<Rightarrow> int" where
  "ordCompare a b = (if a < b then -1 else if b < a then 1 else 0)"

definition compareStockCreates :: "stock \<Rightarrow> stock \<Rightarrow> int" where
  "compareStockCreates a b =
     (let c = ordCompare (s_repository a) (s_repository b) in
      if c \<noteq> 0 then c
      else let c = ordCompare (s_item a) (s_item b) in
        if c \<noteq> 0 then c else ordCompare (version a) (version b))"

text \<open>
  \<open>slices.SortFunc\<close> leaves a permutation of the batch that is sorted by the comparator;
  \<open>sort_key\<close> on the key the comparator compares is one.
\<close>

definition createKey :: "stock \<Rightarrow> uuid \<times> uuid \<times> int64" where
  "createKey s = (s_repository s, s_item s, version s)"

definition sortStockCreates :: "stock list \<Rightarrow> stock list" where
  "sortStockCreates creates = sort_key createKey creates"

lemma compareStockCreates_le: "compareStockCreates a b \<le> 0 \<longleftrightarrow> createKey a \<le> createKey b"
  by (auto simp: compareStockCreates_def ordCompare_def createKey_def Let_def less_eq_prod_def)

lemma set_sortStockCreates [simp]: "set (sortStockCreates xs) = set xs"
  and mset_sortStockCreates [simp]: "mset (sortStockCreates xs) = mset xs"
  and sortStockCreates_eq_Nil [simp]: "sortStockCreates xs = [] \<longleftrightarrow> xs = []"
  by (simp_all add: sortStockCreates_def) (metis mset_sort mset_zero_iff)

lemma sortStockCreates_Nil [simp]: "sortStockCreates [] = []"
  by simp

lemma sortStockCreates_sorted: "sorted_wrt (\<lambda>a b. compareStockCreates a b \<le> 0) (sortStockCreates xs)"
proof -
  have "sorted (map createKey (sortStockCreates xs))" by (simp add: sortStockCreates_def)
  then show ?thesis by (simp add: sorted_map compareStockCreates_le)
qed

lemma sorted_batch_unique:
  assumes "mset xs = mset ys" and "distinct (map createKey xs)"
    and "sorted_wrt (\<lambda>a b. compareStockCreates a b \<le> 0) xs"
    and "sorted_wrt (\<lambda>a b. compareStockCreates a b \<le> 0) ys"
  shows "xs = ys"
proof -
  have s: "sorted (map createKey xs)" "sorted (map createKey ys)"
    using assms(3,4) by (simp_all add: compareStockCreates_le sorted_map)
  have m: "mset (map createKey xs) = mset (map createKey ys)" using assms(1) by simp
  have "map createKey xs = map createKey ys"
    using s m by (metis properties_for_sort)
  moreover have "inj_on createKey (set xs \<union> set ys)"
    using assms(1,2) by (metis distinct_map mset_eq_setD sup.idem)
  ultimately show ?thesis by (rule map_inj_on)
qed

section \<open>Chunks\<close>

definition maxStockRowsPerInsert :: int where
  "maxStockRowsPerInsert = 4500"

function chunksFrom :: "int \<Rightarrow> int \<Rightarrow> int \<Rightarrow> (int \<times> int) list" where
  "chunksFrom n maxBatch start =
     (if start < n \<and> 0 < maxBatch
      then (start, if start + maxBatch > n then n else start + maxBatch)
             # chunksFrom n maxBatch (start + maxBatch)
      else [])"
  by pat_completeness auto
termination by (relation "measure (\<lambda>(n, k, s). nat (n - s))") auto

declare chunksFrom.simps [simp del]

definition stockBulkChunkBounds :: "int \<Rightarrow> int \<Rightarrow> (int \<times> int) list" where
  "stockBulkChunkBounds n maxBatch = (if n \<le> 0 \<or> maxBatch \<le> 0 then [] else chunksFrom n maxBatch 0)"

definition goSlice :: "'a list \<Rightarrow> int \<times> int \<Rightarrow> 'a list" where
  "goSlice xs b = take (nat (snd b - fst b)) (drop (nat (fst b)) xs)"

lemma chunksFrom_concat:
  assumes "0 \<le> s" and "0 < k"
  shows "concat (map (goSlice xs) (chunksFrom (int (length xs)) k s)) = drop (nat s) xs"
  using assms
proof (induction "int (length xs)" k s rule: chunksFrom.induct)
  case (1 k s)
  show ?case
  proof (cases "s < int (length xs)")
    case True
    with 1 have IH: "concat (map (goSlice xs) (chunksFrom (int (length xs)) k (s + k)))
        = drop (nat (s + k)) xs" by simp
    let ?e = "if s + k > int (length xs) then int (length xs) else s + k"
    have "goSlice xs (s, ?e) @ drop (nat (s + k)) xs = drop (nat s) xs"
    proof (cases "s + k > int (length xs)")
      case True
      with "1.prems" show ?thesis by (simp add: goSlice_def nat_le_iff)
    next
      case False
      have "drop (nat (s + k)) xs = drop (nat k) (drop (nat s) xs)"
        using "1.prems" by (simp add: nat_add_distrib add.commute)
      moreover have "goSlice xs (s, ?e) = take (nat k) (drop (nat s) xs)"
        using False by (simp add: goSlice_def)
      ultimately show ?thesis by (metis append_take_drop_id)
    qed
    with True IH "1.prems" show ?thesis by (simp add: chunksFrom.simps [of _ k s])
  next
    case False
    with "1.prems" show ?thesis by (simp add: chunksFrom.simps [of _ k s] nat_le_iff)
  qed
qed

lemma chunksFrom_size:
  "(a, b) \<in> set (chunksFrom n k s) \<Longrightarrow> 0 \<le> s \<Longrightarrow> 0 \<le> a \<and> a < b \<and> b \<le> n \<and> b - a \<le> k"
proof (induction n k s rule: chunksFrom.induct)
  case (1 n k s)
  then show ?case
    by (subst (asm) (2) chunksFrom.simps) (auto split: if_splits)
qed

section \<open>Bulk inserts\<close>

definition stockCreateBulkChunked :: "ctx \<Rightarrow> stock list \<Rightarrow> db \<Rightarrow> error + db" where
  "stockCreateBulkChunked c creates d =
     (let creates = sortStockCreates creates in
      foldRes (\<lambda>b d. stock_CreateBulk c (goSlice creates b) d)
        (stockBulkChunkBounds (int (length creates)) maxStockRowsPerInsert) d)"

definition InsertRows :: "ctx \<Rightarrow> stock list \<Rightarrow> db \<Rightarrow> error + db" where
  "InsertRows c creates d = wrapOCC (stockCreateBulkChunked c creates d)"

lemma bulk_fold_Inr:
  "foldRes (\<lambda>b d. stock_CreateBulk c (goSlice xs b) d) bs d = Inr d' \<Longrightarrow>
     stocks d' = stocks d @ concat (map (goSlice xs) bs)
     \<and> (ledger_ok (stocks d) \<longrightarrow> ledger_ok (stocks d'))
     \<and> repositories d' = repositories d \<and> items d' = items d
     \<and> item_movements d' = item_movements d \<and> repository_movements d' = repository_movements d"
proof (induction bs arbitrary: d)
  case (Cons b bs)
  then obtain u where u: "stock_CreateBulk c (goSlice xs b) d = Inr u"
    "foldRes (\<lambda>b d. stock_CreateBulk c (goSlice xs b) d) bs u = Inr d'"
    by (auto split: sum.splits)
  from Cons.IH [OF u(2)] stock_CreateBulk_Inr [OF u(1)] show ?case by auto
qed simp

lemma stockCreateBulkChunked_Inr:
  assumes "stockCreateBulkChunked c creates d = Inr d'"
  shows "stocks d' = stocks d @ sortStockCreates creates"
    and "ledger_ok (stocks d) \<Longrightarrow> ledger_ok (stocks d')"
    and "repositories d' = repositories d" and "item_movements d' = item_movements d"
    and "repository_movements d' = repository_movements d"
proof -
  let ?xs = "sortStockCreates creates"
  have c: "concat (map (goSlice ?xs) (stockBulkChunkBounds (int (length ?xs)) maxStockRowsPerInsert)) = ?xs"
    using chunksFrom_concat [of 0 maxStockRowsPerInsert ?xs]
    by (auto simp: stockBulkChunkBounds_def maxStockRowsPerInsert_def)
  from bulk_fold_Inr [OF assms [unfolded stockCreateBulkChunked_def Let_def]] c
  show "stocks d' = stocks d @ sortStockCreates creates"
    and "ledger_ok (stocks d) \<Longrightarrow> ledger_ok (stocks d')"
    and "repositories d' = repositories d" and "item_movements d' = item_movements d"
    and "repository_movements d' = repository_movements d"
    by auto
qed

section \<open>The current rows\<close>

text \<open>
  \<open>loadLatestStockPerRepo\<close>: the visible rows of the tenant and item that no row of the table
  outdates; the \<open>NOT EXISTS\<close> subquery is neither scoped to the tenant nor to live rows.
\<close>

definition notOutdated :: "stock list \<Rightarrow> stock \<Rightarrow> bool" where
  "notOutdated rows s =
     (\<not> list_ex (\<lambda>s2. s_repository s2 = s_repository s \<and> s_item s2 = s_item s \<and> version s2 > version s) rows)"

definition loadLatestStockPerRepo ::
  "ctx \<Rightarrow> db \<Rightarrow> uuid \<Rightarrow> uuid \<Rightarrow> uuid list \<Rightarrow> (uuid, stock) gomap"
where
  "loadLatestStockPerRepo c d tenantID itemID repoIDs =
     (if repoIDs = [] then []
      else fold (\<lambda>r. gput (s_repository r) r)
        (filter (\<lambda>s. s_tenant s = tenantID \<and> s_item s = itemID \<and> s_repository s \<in> set repoIDs
                   \<and> notOutdated (stocks d) s) (stock_Query c d)) [])"

section \<open>Inserting a simulation\<close>

text \<open>
  The row of one repository: reservations from the simulation, quantities from the current
  row read just before.
\<close>

definition simulatedRow :: "uuid \<Rightarrow> uuid \<Rightarrow> uuid \<Rightarrow> nested_map \<Rightarrow> (uuid, stock) gomap \<Rightarrow> uuid \<Rightarrow> stock" where
  "simulatedRow itemID tenantID movementID stockMap latest repo =
     \<lparr>s_tenant = tenantID, s_repository = repo, s_item = itemID, s_movement = movementID,
      quantity = quantity (ggetd zero_stock latest repo),
      incoming_stock = incoming_stock (nget stockMap repo itemID),
      outgoing_stock = outgoing_stock (nget stockMap repo itemID),
      own_quantity = own_quantity (ggetd zero_stock latest repo),
      own_incoming_stock = own_incoming_stock (nget stockMap repo itemID),
      own_outgoing_stock = own_outgoing_stock (nget stockMap repo itemID),
      version = 0, s_deleted_at = None\<rparr>"

text \<open>The comparison that skips a row which repeats the current one.\<close>

definition sameCounters :: "stock \<Rightarrow> stock \<Rightarrow> bool" where
  "sameCounters prev s \<longleftrightarrow>
     quantity prev = quantity s \<and> incoming_stock prev = incoming_stock s
     \<and> outgoing_stock prev = outgoing_stock s \<and> own_quantity prev = own_quantity s
     \<and> own_incoming_stock prev = own_incoming_stock s \<and> own_outgoing_stock prev = own_outgoing_stock s"

text \<open>The loop over the map: rows that are not skipped draw a version from the tracker.\<close>

fun createsLoop ::
  "(uuid \<Rightarrow> stock) \<Rightarrow> (uuid \<Rightarrow> stock) \<Rightarrow> uuid list \<Rightarrow> tracker \<Rightarrow> stock list \<times> tracker"
where
  "createsLoop row prev [] versions = ([], versions)"
| "createsLoop row prev (repo # repos) versions =
     (let newStock = row repo in
      if sameCounters (prev repo) newStock then createsLoop row prev repos versions
      else let (v, versions) = nextFor repo (s_item newStock) versions;
               (creates, versions) = createsLoop row prev repos versions
           in (newStock\<lparr>version := v\<rparr> # creates, versions))"

definition insertStockMapWithVersions ::
  "ctx \<Rightarrow> uuid \<Rightarrow> uuid \<Rightarrow> uuid \<Rightarrow> nested_map \<Rightarrow> tracker option \<Rightarrow> db \<Rightarrow> error + (db \<times> tracker option)"
where
  "insertStockMapWithVersions c itemID tenantID movementID stockMap versions d =
     (if stockMap = [] then Inr (d, versions)
      else
        let latest = loadLatestStockPerRepo c d tenantID itemID (gkeys stockMap);
            tr = (case versions of
                None \<Rightarrow> newStockVersionTracker (map (\<lambda>(repoID, rec). ((repoID, itemID), rec)) latest)
              | Some t \<Rightarrow> seedFromNested (map (\<lambda>(repoID, rec). (repoID, [(itemID, rec)])) latest) t);
            (creates, tr) = createsLoop (simulatedRow itemID tenantID movementID stockMap latest)
              (ggetd zero_stock latest) (gkeys stockMap) tr;
            versions = (case versions of None \<Rightarrow> None | Some _ \<Rightarrow> Some tr)
        in if creates = [] then Inr (d, versions)
           else case wrapOCC (stock_CreateBulk c (sortStockCreates creates) d) of
                  Inl e \<Rightarrow> Inl e
                | Inr d \<Rightarrow> Inr (d, versions))"

definition insertStockMap ::
  "ctx \<Rightarrow> uuid \<Rightarrow> uuid \<Rightarrow> uuid \<Rightarrow> nested_map \<Rightarrow> db \<Rightarrow> error + db"
where
  "insertStockMap c itemID tenantID movementID stockMap d =
     (case insertStockMapWithVersions c itemID tenantID movementID stockMap None d of
        Inl e \<Rightarrow> Inl e
      | Inr (d, _) \<Rightarrow> Inr d)"

lemma createsLoop_assign:
  assumes "\<And>r. s_repository (row r) = r"
  shows "createsLoop row prev repos t =
    assignVersions (filter (\<lambda>s. \<not> sameCounters (prev (s_repository s)) s) (map row repos)) t"
  by (induction repos arbitrary: t) (auto simp: Let_def assms)

lemma simulatedRow_simps [simp]:
  "s_repository (simulatedRow i tn mv sm l r) = r" "s_item (simulatedRow i tn mv sm l r) = i"
  "s_tenant (simulatedRow i tn mv sm l r) = tn"
  by (simp_all add: simulatedRow_def)

section \<open>One transaction does not conflict with its own snapshot\<close>

lemma max_version_row:
  assumes "s \<in> set rows" and "P s"
  shows "\<exists>t \<in> set rows. P t \<and> (\<forall>u \<in> set rows. P u \<longrightarrow> version u \<le> version t)"
proof -
  have "finite (version ` {u \<in> set rows. P u})" by simp
  moreover have "version ` {u \<in> set rows. P u} \<noteq> {}" using assms by auto
  ultimately have "Max (version ` {u \<in> set rows. P u}) \<in> version ` {u \<in> set rows. P u}"
    by (rule Max_in)
  then obtain t where t: "t \<in> set rows" "P t" "version t = Max (version ` {u \<in> set rows. P u})"
    by auto
  have "version u \<le> version t" if "u \<in> set rows" "P u" for u
    unfolding t(3) using that by (intro Max_ge) auto
  with t show ?thesis by blast
qed

text \<open>
  The rows of one group are rows of the tenant the request sees: no other tenant has rows of
  the repository, none of them is soft-deleted.
\<close>

definition group_visible :: "ctx \<Rightarrow> uuid \<Rightarrow> db \<Rightarrow> stock_key \<Rightarrow> bool" where
  "group_visible c tn d k =
     list_all (\<lambda>s. s_key s = k \<longrightarrow> s_tenant s = tn \<and> visible c (s_tenant s) (s_deleted_at s)) (stocks d)"

lemma loadLatest_covers:
  assumes "group_visible c tn d (r, i)" and "r \<in> set repoIDs" and "s \<in> set (stocks d)" and "s_key s = (r, i)"
  shows "\<exists>rec. gget (loadLatestStockPerRepo c d tn i repoIDs) r = Some rec \<and> version s \<le> version rec"
proof -
  from max_version_row [OF assms(3), of "\<lambda>s. s_key s = (r, i)"] assms(4) obtain t where
    t: "t \<in> set (stocks d)" "s_key t = (r, i)" "\<forall>u \<in> set (stocks d). s_key u = (r, i) \<longrightarrow> version u \<le> version t"
    by blast
  let ?xs = "filter (\<lambda>s. s_tenant s = tn \<and> s_item s = i \<and> s_repository s \<in> set repoIDs
                   \<and> notOutdated (stocks d) s) (stock_Query c d)"
  have "t \<in> set ?xs"
    using assms(1,2) t by (auto simp: group_visible_def list_all_iff notOutdated_def list_ex_iff
        stock_Query_def not_less)
  from gm.lookup_fold_defined [of t ?xs "[]" s_repository] this t(2) obtain v where
    v: "gget (fold (\<lambda>r. gput (s_repository r) r) ?xs []) r = Some v" by auto
  from gm.lookup_fold_member [OF v] have "v \<in> set ?xs" "s_repository v = r" by auto
  with assms(3,4) have "version s \<le> version v"
    by (auto simp: notOutdated_def list_ex_iff stock_Query_def not_less)
  moreover from assms(2) have "repoIDs \<noteq> []" by auto
  ultimately show ?thesis using v by (simp add: loadLatestStockPerRepo_def)
qed

lemma ledger_ok_fresh:
  assumes "ledger_ok rows" and "ledger_ok (filter P rows @ new)"
    and "\<And>x y. x \<in> set rows \<Longrightarrow> \<not> P x \<Longrightarrow> y \<in> set new \<Longrightarrow> stock_index x \<noteq> stock_index y"
  shows "ledger_ok (rows @ new)"
proof -
  have "stock_index ` set rows \<inter> stock_index ` set new = {}"
    using assms(2,3) unfolding ledger_ok_def by (simp only: map_append distinct_append) fastforce
  with assms(1,2) show ?thesis by (simp add: ledger_ok_def)
qed

lemma ledger_ok_mset: "mset xs = mset ys \<Longrightarrow> ledger_ok xs = ledger_ok ys"
  unfolding ledger_ok_def by (metis mset_map mset_eq_imp_distinct_iff)

lemma ledger_ok_sorted [simp]: "ledger_ok (xs @ sortStockCreates ys) = ledger_ok (xs @ ys)"
  by (rule ledger_ok_mset) simp

lemma stock_CreateBulk_no_conflict:
  assumes "ledger_ok (stocks d @ rows)"
  shows "wrapOCC (stock_CreateBulk c rows d) \<noteq> Inl ErrOCCConflict"
proof -
  have chk: "e = ErrValidation \<or> e = ErrUnauthorized" if "stock_check_all c xs = Inl e" for xs e
    using that by (induction xs) (auto simp: TenantIDMutationHook_def split: sum.splits if_splits)
  show ?thesis
  proof (cases "stock_check_all c rows")
    case (Inl e)
    with chk [OF Inl] show ?thesis by (auto simp: wrapOCC_def stock_CreateBulk_def wrapOCCConflict_def)
  next
    case (Inr u)
    with assms show ?thesis by (simp add: wrapOCC_def stock_CreateBulk_def)
  qed
qed

text \<open>Versions that leave room for \<open>n\<close> more.\<close>

definition versions_bounded :: "nat \<Rightarrow> stock list \<Rightarrow> bool" where
  "versions_bounded n rows \<longleftrightarrow>
     list_all (\<lambda>s. 0 \<le> version s \<and> version s + 1 + int n < 9223372036854775808) rows"

lemma gmap_ok_entry: "gmap_ok m \<Longrightarrow> (k, v) \<in> set m \<Longrightarrow> gget m k = Some v"
  by (simp add: gmap_ok_def gget_def)

lemma loadLatest_member:
  assumes "gget (loadLatestStockPerRepo c d tn i repoIDs) r = Some rec"
  shows "rec \<in> set (stocks d) \<and> s_key rec = (r, i) \<and> s_tenant rec = tn"
  using assms
  by (auto simp: loadLatestStockPerRepo_def stock_Query_def split: if_splits
      dest!: gm.lookup_fold_member)

lemma loadLatest_gmap_ok [simp]: "gmap_ok (loadLatestStockPerRepo c d tn i repoIDs)"
  by (auto simp: loadLatestStockPerRepo_def intro: gm.wf_fold_assign)

definition flatLatest :: "uuid \<Rightarrow> (uuid, stock) gomap \<Rightarrow> (stock_key, stock) gomap" where
  "flatLatest itemID latest = map (\<lambda>(repoID, rec). ((repoID, itemID), rec)) latest"

lemma gget_flatLatest: "gget (flatLatest i l) (r, i) = gget l r"
  by (induction l) (auto simp: flatLatest_def gget_def)

lemma insertStockMap_no_conflict:
  assumes ok: "ledger_ok (stocks d)"
    and vis: "\<And>r. r \<in> set (gkeys sm) \<Longrightarrow> group_visible c tn d (r, i)"
    and vb: "versions_bounded (length sm) (stocks d)" and len: "int (length sm) < 9223372036854775807"
  shows "insertStockMap c i tn mv sm d \<noteq> Inl ErrOCCConflict"
proof (cases "sm = []")
  case True
  then show ?thesis by (simp add: insertStockMap_def insertStockMapWithVersions_def)
next
  case False
  let ?latest = "loadLatestStockPerRepo c d tn i (gkeys sm)"
  let ?seed = "newStockVersionTracker (flatLatest i ?latest)"
  let ?row = "simulatedRow i tn mv sm ?latest" and ?P = "\<lambda>s. s_item s = i \<and> s_repository s \<in> set (gkeys sm)"
  let ?ss = "filter (\<lambda>s. \<not> sameCounters (ggetd zero_stock ?latest (s_repository s)) s) (map ?row (gkeys sm))"
  obtain creates tr where cr: "createsLoop ?row (ggetd zero_stock ?latest) (gkeys sm) ?seed = (creates, tr)"
    by fastforce
  then have as: "assignVersions ?ss ?seed = (creates, tr)" by (simp add: createsLoop_assign)
  have lenss: "length ?ss \<le> length sm"
    by (rule order_trans [OF length_filter_le])
      (simp add: gkeys_def, metis length_map length_remdups_leq)
  have bound: "0 \<le> version s \<and> version s + 1 + int (length sm) < 9223372036854775808"
    if "s \<in> set (stocks d)" for s
    using vb that by (auto simp: versions_bounded_def list_all_iff)
  have room: "tracker_room (length ?ss) ?seed"
    unfolding tracker_room_def
  proof
    fix v assume "v \<in> snd ` set ?seed"
    then obtain r rec where "(r, rec) \<in> set ?latest" and v: "v = add64 (version rec) 1"
      by (auto simp: newStockVersionTracker_def flatLatest_def)
    then have "rec \<in> set (stocks d)" using loadLatest_member gmap_ok_entry [OF loadLatest_gmap_ok] by blast
    from bound [OF this] v lenss have "v = version rec + 1" by (simp add: add64_id fits64_def)
    with bound [OF \<open>rec \<in> set (stocks d)\<close>] lenss
    show "0 \<le> v \<and> v + int (length ?ss) < 9223372036854775808" by linarith
  qed
  have fresh: "tracker_fresh tn (filter ?P (stocks d)) ?seed"
  proof (rule latest.seed_fresh)
    fix x assume x: "x \<in> set (filter ?P (stocks d))"
    let ?r = "s_repository x"
    from x have "s_key x = (?r, i)" "?r \<in> set (gkeys sm)" by auto
    from loadLatest_covers [OF vis [OF this(2)] this(2) _ this(1)] x obtain rec where
      rec: "gget ?latest ?r = Some rec" "version x \<le> version rec" by auto
    have "fits64 (version rec + 1)"
      using bound [of rec] loadLatest_member [OF rec(1)] by (simp add: fits64_def)
    with rec x show "\<exists>v. map_option version (gget (flatLatest i ?latest) (s_key x)) = Some v
        \<and> version x \<le> v \<and> fits64 (v + 1)"
      by (auto simp: gget_flatLatest)
  qed
  have okP: "ledger_ok (filter ?P (stocks d))"
    using ok by (simp add: ledger_ok_def distinct_map_filter)
  have lenb: "int (length ?ss) < 9223372036854775808" using lenss len by linarith
  have tns: "\<forall>s \<in> set ?ss. s_tenant s = tn" by auto
  have new: "ledger_ok (filter ?P (stocks d) @ creates)"
    using assign_fresh [OF as fresh room lenb tns okP] by (rule conjunct1)
  have keys: "s_item y = i \<and> s_repository y \<in> set (gkeys sm)" if "y \<in> set creates" for y
  proof -
    from assignVersions_keys [OF as] have "set (map s_key creates) = set (map s_key ?ss)" by simp
    moreover from that have "s_key y \<in> set (map s_key creates)" by simp
    ultimately have "s_key y \<in> s_key ` set ?ss" by (simp only: list.set_map)
    then show ?thesis by auto
  qed
  have "ledger_ok (stocks d @ creates)"
    using keys by (intro ledger_ok_fresh [OF ok new]) (force simp: stock_index_def)
  then have nc: "wrapOCC (stock_CreateBulk c (sortStockCreates creates) d) \<noteq> Inl ErrOCCConflict"
    by (intro stock_CreateBulk_no_conflict) simp
  show ?thesis
    using nc False cr
    by (auto simp: insertStockMap_def insertStockMapWithVersions_def Let_def flatLatest_def [symmetric]
        split: sum.splits)
qed

section \<open>The rebase snapshot\<close>

text \<open>
  Floor: the highest version of the pair, deleted rows included. Live: the row with the
  highest version that is not deleted. The Go path reads the cross product of the
  repositories and items and reduces it; the database function looks up each pair.
\<close>

definition raiseFloor :: "stock \<Rightarrow> (stock_key, int64) gomap \<Rightarrow> (stock_key, int64) gomap" where
  "raiseFloor r floor =
     (case gget floor (s_key r) of
        None \<Rightarrow> gput (s_key r) (version r) floor
      | Some cur \<Rightarrow> if version r > cur then gput (s_key r) (version r) floor else floor)"

definition raiseLive :: "stock \<Rightarrow> (stock_key, stock) gomap \<Rightarrow> (stock_key, stock) gomap" where
  "raiseLive r live =
     (if deletedAtIsZero (s_deleted_at r)
      then case gget live (s_key r) of
             None \<Rightarrow> gput (s_key r) r live
           | Some cur \<Rightarrow> if version r > version cur then gput (s_key r) r live else live
      else live)"

definition loadStockRebaseSnapshotGo ::
  "ctx \<Rightarrow> db \<Rightarrow> uuid \<Rightarrow> stock_key list \<Rightarrow> (stock_key, int64) gomap \<times> (stock_key, stock) gomap"
where
  "loadStockRebaseSnapshotGo c d tenantID pairs =
     (let c = showDeletedCtx c;
          rows = filter (\<lambda>s. s_tenant s = tenantID \<and> s_repository s \<in> fst ` set pairs
                           \<and> s_item s \<in> snd ` set pairs) (stock_Query c d)
      in (fold raiseFloor rows [], fold raiseLive rows []))"

text \<open>The fields a database function returns of a row; the rest stay at their zero value.\<close>

definition hydratedStock :: "uuid \<Rightarrow> stock \<Rightarrow> stock" where
  "hydratedStock tenantID s =
     zero_stock\<lparr>s_tenant := tenantID, s_repository := s_repository s, s_item := s_item s,
       quantity := quantity s, incoming_stock := incoming_stock s, outgoing_stock := outgoing_stock s,
       own_quantity := own_quantity s, own_incoming_stock := own_incoming_stock s,
       own_outgoing_stock := own_outgoing_stock s, version := version s\<rparr>"

definition loadStockRebaseSnapshotViaProc ::
  "db \<Rightarrow> uuid \<Rightarrow> stock_key list \<Rightarrow> (stock_key, int64) gomap \<times> (stock_key, stock) gomap"
where
  "loadStockRebaseSnapshotViaProc d tenantID pairs =
     (let rowsOf = (\<lambda>k. filter (\<lambda>s. s_tenant s = tenantID \<and> s_key s = k) (stocks d)) in
      (fold (\<lambda>k floor. case latest_of (rowsOf k) of None \<Rightarrow> floor | Some s \<Rightarrow> gput k (version s) floor) pairs [],
       fold (\<lambda>k live. case latest_of (filter (\<lambda>s. deletedAtIsZero (s_deleted_at s)) (rowsOf k)) of
              None \<Rightarrow> live | Some s \<Rightarrow> gput k (hydratedStock tenantID s) live) pairs []))"

definition snapshotPairs :: "nested_map \<Rightarrow> stock_key list" where
  "snapshotPairs stockMap = map (\<lambda>(r, i, s). (r, i)) (nestedEntries stockMap)"

definition loadStockRebaseSnapshot ::
  "db_dialect \<Rightarrow> ctx \<Rightarrow> db \<Rightarrow> uuid \<Rightarrow> nested_map \<Rightarrow> (stock_key, int64) gomap \<times> (stock_key, stock) gomap"
where
  "loadStockRebaseSnapshot dialect c d tenantID stockMap =
     (let pairs = snapshotPairs stockMap in
      if pairs = [] then ([], [])
      else if dialect = Postgres then loadStockRebaseSnapshotViaProc d tenantID pairs
      else loadStockRebaseSnapshotGo c d tenantID pairs)"

definition rebasedStock :: "stock \<Rightarrow> stock \<Rightarrow> stock \<Rightarrow> stock" where
  "rebasedStock base walked old =
     zero_stock\<lparr>
       quantity := add64 (quantity base) (sub64 (quantity walked) (quantity old)),
       incoming_stock :=
         std_Max (add64 (incoming_stock base) (sub64 (incoming_stock walked) (incoming_stock old))) [0],
       outgoing_stock :=
         std_Max (add64 (outgoing_stock base) (sub64 (outgoing_stock walked) (outgoing_stock old))) [0],
       own_quantity := add64 (own_quantity base) (sub64 (own_quantity walked) (own_quantity old)),
       own_incoming_stock :=
         std_Max (add64 (own_incoming_stock base)
           (sub64 (own_incoming_stock walked) (own_incoming_stock old))) [0],
       own_outgoing_stock :=
         std_Max (add64 (own_outgoing_stock base)
           (sub64 (own_outgoing_stock walked) (own_outgoing_stock old))) [0]\<rparr>"

text \<open>The floor of a pair bounds every row of the pair and is the version of one.\<close>

lemma fold_raiseFloor:
  "(case gget (fold raiseFloor rows f) k of
      None \<Rightarrow> gget f k = None \<and> (\<forall>s \<in> set rows. s_key s \<noteq> k)
    | Some v \<Rightarrow> (gget f k = Some v \<or> (\<exists>s \<in> set rows. s_key s = k \<and> version s = v))
        \<and> (\<forall>w. gget f k = Some w \<longrightarrow> w \<le> v) \<and> (\<forall>s \<in> set rows. s_key s = k \<longrightarrow> version s \<le> v))"
proof (induction rows arbitrary: f)
  case Nil
  then show ?case by (simp split: option.splits)
next
  case (Cons r rows)
  show ?case
    using Cons.IH [of "raiseFloor r f"]
    by (cases "s_key r = k"; cases "gget f k")
      (fastforce simp: raiseFloor_def split: option.splits if_splits)+
qed

lemma fold_raiseLive:
  "(case gget (fold raiseLive rows f) k of
      None \<Rightarrow> gget f k = None \<and> (\<forall>s \<in> set rows. s_key s = k \<longrightarrow> \<not> deletedAtIsZero (s_deleted_at s))
    | Some v \<Rightarrow> (gget f k = Some v \<or> (v \<in> set rows \<and> s_key v = k \<and> deletedAtIsZero (s_deleted_at v)))
        \<and> (\<forall>w. gget f k = Some w \<longrightarrow> version w \<le> version v)
        \<and> (\<forall>s \<in> set rows. s_key s = k \<and> deletedAtIsZero (s_deleted_at s) \<longrightarrow> version s \<le> version v))"
proof (induction rows arbitrary: f)
  case Nil
  then show ?case by (simp split: option.splits)
next
  case (Cons r rows)
  show ?case
    using Cons.IH [of "raiseLive r f"]
    by (cases "s_key r = k"; cases "gget f k"; cases "deletedAtIsZero (s_deleted_at r)")
      (fastforce simp: raiseLive_def split: option.splits if_splits)+
qed

lemma raiseFloor_None:
  assumes "\<forall>s \<in> set rows. s_key s \<noteq> k"
  shows "gget (fold raiseFloor rows []) k = None"
proof (cases "gget (fold raiseFloor rows []) k")
  case (Some v)
  with fold_raiseFloor [where rows = rows and f = "[]" and k = k] have "\<exists>s \<in> set rows. s_key s = k" by auto
  with assms show ?thesis by blast
qed

lemma raiseFloor_Some:
  assumes "t \<in> set rows" and "s_key t = k" and "\<forall>u \<in> set rows. s_key u = k \<longrightarrow> version u \<le> version t"
  shows "gget (fold raiseFloor rows []) k = Some (version t)"
proof (cases "gget (fold raiseFloor rows []) k")
  case None
  with fold_raiseFloor [where rows = rows and f = "[]" and k = k] assms(1,2) show ?thesis by auto
next
  case (Some v)
  with fold_raiseFloor [where rows = rows and f = "[]" and k = k] have
    "\<exists>s \<in> set rows. s_key s = k \<and> version s = v" "\<forall>s \<in> set rows. s_key s = k \<longrightarrow> version s \<le> v" by auto
  with assms have "v = version t" by force
  with Some show ?thesis by simp
qed

text \<open>The loop over the pairs of the database function.\<close>

lemma fold_opt_gput:
  "gget (fold (\<lambda>k m. case h k of None \<Rightarrow> m | Some s \<Rightarrow> gput k (g s) m) ks m) k =
     (if k \<in> set ks then (case h k of None \<Rightarrow> gget m k | Some s \<Rightarrow> Some (g s)) else gget m k)"
  by (induction ks arbitrary: m) (auto split: option.splits)

lemma latest_of_version:
  assumes "latest_of xs = Some s" and "t \<in> set xs" and "\<forall>u \<in> set xs. version u \<le> version t"
  shows "version s = version t"
  using assms latest_of_Some [OF assms(1)] by (meson order_antisym)

text \<open>Both dialects see the same floor and the same live row of a requested pair.\<close>

lemma rebase_floor_agree:
  assumes k: "k \<in> set pairs" and tn: "TenantIDQueryFilter c tn"
  shows "gget (fst (loadStockRebaseSnapshotGo c d tn pairs)) k =
    gget (fst (loadStockRebaseSnapshotViaProc d tn pairs)) k"
proof -
  let ?rows = "filter (\<lambda>s. s_tenant s = tn \<and> s_repository s \<in> fst ` set pairs
      \<and> s_item s \<in> snd ` set pairs) (stock_Query (showDeletedCtx c) d)"
  let ?of = "filter (\<lambda>s. s_tenant s = tn \<and> s_key s = k) (stocks d)"
  have kk: "fst k \<in> fst ` set pairs" "snd k \<in> snd ` set pairs" using k by (rule imageI)+
  have q: "s \<in> set (stock_Query (showDeletedCtx c) d) \<and> s_tenant s = tn
      \<longleftrightarrow> s \<in> set (stocks d) \<and> s_tenant s = tn" for s
    using tn by (auto simp: stock_Query_def visible_def showDeletedCtx_def
        HistoryMixinQueryFilter_def TenantIDQueryFilter_def)
  have mem: "s \<in> set ?rows \<and> s_key s = k \<longleftrightarrow> s \<in> set ?of" for s
  proof (cases "s_key s = k")
    case True
    with kk have "s_repository s \<in> fst ` set pairs" "s_item s \<in> snd ` set pairs"
      by (metis fst_conv snd_conv)+
    with True q [of s] show ?thesis by auto
  qed simp
  show ?thesis
  proof (cases "latest_of ?of")
    case None
    then have "?of = []" by (rule latest_of_None [THEN iffD1])
    then have "gget (fold raiseFloor ?rows []) k = None"
      using mem by (intro raiseFloor_None) auto
    with None k show ?thesis
      by (simp add: loadStockRebaseSnapshotGo_def loadStockRebaseSnapshotViaProc_def Let_def fold_opt_gput)
  next
    case (Some t)
    from latest_of_Some [OF Some] have "gget (fold raiseFloor ?rows []) k = Some (version t)"
      using mem by (intro raiseFloor_Some) blast+
    with Some k show ?thesis
      by (simp add: loadStockRebaseSnapshotGo_def loadStockRebaseSnapshotViaProc_def Let_def fold_opt_gput)
  qed
qed

text \<open>Versions drawn above the floors clear the unique index, deleted rows included.\<close>

lemma rebase_floor_covers:
  assumes "k \<in> set pairs" and "TenantIDQueryFilter c tn" and "dialect = Postgres \<or> dialect = OtherDialect"
    and "s \<in> set (stocks d)" and "s_tenant s = tn" and "s_key s = k" and "pairs = snapshotPairs sm"
  shows "\<exists>v. gget (fst (loadStockRebaseSnapshot dialect c d tn sm)) k = Some v \<and> version s \<le> v"
proof -
  let ?of = "filter (\<lambda>s. s_tenant s = tn \<and> s_key s = k) (stocks d)"
  from assms(4-6) have s: "s \<in> set ?of" by simp
  from latest_of_exists [OF this] obtain t where t: "latest_of ?of = Some t"
    and le: "version s \<le> version t" by blast
  from t  have "gget (fst (loadStockRebaseSnapshotViaProc d tn pairs)) k = Some (version t)"
    using assms(1) by (simp add: loadStockRebaseSnapshotViaProc_def Let_def fold_opt_gput)
  then show ?thesis
    using le assms(1,7) rebase_floor_agree [OF assms(1,2)]
    by (auto simp: loadStockRebaseSnapshot_def Let_def)
qed

text \<open>Rebasing replays the delta of the walk on the fresh row.\<close>

lemma rebased_counter:
  assumes "fits64 (b + (w - o'))"
  shows "add64 b (sub64 w o') = b + (w - o')"
  using assms by (simp add: arith64 i64_id)

definition walked_from :: "stock \<Rightarrow> stock \<Rightarrow> stock \<Rightarrow> bool" where
  "walked_from base walked old \<longleftrightarrow>
     quantity walked = quantity old \<and> own_quantity walked = own_quantity old
     \<and> fits64 (quantity base) \<and> fits64 (own_quantity base)
     \<and> fits64 (incoming_stock base + (incoming_stock walked - incoming_stock old))
     \<and> fits64 (outgoing_stock base + (outgoing_stock walked - outgoing_stock old))
     \<and> fits64 (own_incoming_stock base + (own_incoming_stock walked - own_incoming_stock old))
     \<and> fits64 (own_outgoing_stock base + (own_outgoing_stock walked - own_outgoing_stock old))"

lemma rebasedStock_spec:
  assumes "walked_from base walked old"
  shows "quantity (rebasedStock base walked old) = quantity base"
    and "own_quantity (rebasedStock base walked old) = own_quantity base"
    and "incoming_stock (rebasedStock base walked old) =
      max (incoming_stock base + (incoming_stock walked - incoming_stock old)) 0"
    and "outgoing_stock (rebasedStock base walked old) =
      max (outgoing_stock base + (outgoing_stock walked - outgoing_stock old)) 0"
    and "own_incoming_stock (rebasedStock base walked old) =
      max (own_incoming_stock base + (own_incoming_stock walked - own_incoming_stock old)) 0"
    and "own_outgoing_stock (rebasedStock base walked old) =
      max (own_outgoing_stock base + (own_outgoing_stock walked - own_outgoing_stock old)) 0"
  using assms by (simp_all add: walked_from_def rebasedStock_def rebased_counter)

end
