(* ===== verification/Rollup.thy ===== *)
theory Rollup
  imports SimulateWalk
begin

text \<open>
  The rollup invariant of the stocks ledger, the one hack/stockfix checks with SQL: the
  quantity of a repository is its own quantity plus the quantities of its children.
  \<open>rollup_at\<close> states it of one repository, for a function that yields the current row.
  The executor keeps it (\<open>executor_rollup_at\<close>) when the moved stock lies at the source itself,
  the trees do not mix virtual and real repositories, and nothing overflows.
\<close>

section \<open>Definitions\<close>

definition childrenOf :: "repo_map \<Rightarrow> uuid \<Rightarrow> uuid list" where
  "childrenOf m r = filter (\<lambda>c. parentID m c = r) (gkeys m)"

definition rollup_at :: "repo_map \<Rightarrow> (uuid \<Rightarrow> stock) \<Rightarrow> uuid \<Rightarrow> bool" where
  "rollup_at m row r \<longleftrightarrow>
     quantity (row r) = own_quantity (row r) + sum_list (map (\<lambda>c. quantity (row c)) (childrenOf m r))"

text \<open>The maps the executor loads agree with the whole tree above the two ends.\<close>

definition loaded_above :: "repo_map \<Rightarrow> repo_map \<Rightarrow> uuid \<Rightarrow> bool" where
  "loaded_above m rm r \<longleftrightarrow>
     (\<forall>x. anc m r x \<longrightarrow> (gget rm x = None) = (gget m x = None)
        \<and> parentID rm x = parentID m x \<and> isVirtual rm x = isVirtual m x)"

text \<open>A node and its parent are both virtual or both real; virtual ones hold no stock.\<close>

definition virtual_ok :: "repo_map \<Rightarrow> (uuid \<Rightarrow> stock) \<Rightarrow> uuid \<Rightarrow> bool" where
  "virtual_ok m row x \<longleftrightarrow>
     (parentID m x \<noteq> 0 \<longrightarrow> isVirtual m (parentID m x) = isVirtual m x)
     \<and> (isVirtual m x \<longrightarrow> quantity (row x) = 0 \<and> own_quantity (row x) = 0)"

text \<open>Counters that are not negative and have room for \<open>q\<close> more.\<close>

definition quantity_room :: "int64 \<Rightarrow> stock \<Rightarrow> bool" where
  "quantity_room q b \<longleftrightarrow> 0 \<le> quantity b \<and> 0 \<le> own_quantity b
     \<and> fits64 (quantity b + q) \<and> fits64 (own_quantity b + q)"

section \<open>Counting along a path\<close>

definition ind :: "bool \<Rightarrow> int" where
  "ind b = (if b then 1 else 0)"

lemma ind_simps [simp]: "ind True = 1" "ind False = 0"
  by (simp_all add: ind_def)

lemma sum_list_children:
  "sum_list (map f (childrenOf m r)) = (\<Sum>c \<in> {c \<in> set (gkeys m). parentID m c = r}. (f c :: int))"
  by (simp add: childrenOf_def sum_list_distinct_conv_sum_set)

text \<open>The children of \<open>r\<close> on a path: its predecessor, and the last node when \<open>r\<close> is above it.\<close>

lemma path_child_count:
  assumes "successively (parent_step m) p" and "distinct p" and "p \<noteq> []"
  shows "sum_list (map (\<lambda>c. ind (parentID m c = r)) p) =
    ind (r \<in> set (tl p)) + ind (r = parentID m (last p))"
  using assms
proof (induction p)
  case Nil
  then show ?case by simp
next
  case (Cons x xs)
  show ?case
  proof (cases xs)
    case Nil
    then show ?thesis by (auto simp: ind_def)
  next
    case (Cons y ys)
    with Cons.prems have "parentID m x = y" by (simp add: parent_step_def)
    with Cons Cons.IH Cons.prems show ?thesis
      by (auto simp: ind_def)
  qed
qed

lemma path_child_sum:
  assumes p: "walk_path n m stop s = Some p" and d: "distinct p" and r: "r \<noteq> 0"
  shows "sum_list (map (\<lambda>c. ind (c \<in> set p)) (childrenOf m r)) =
    ind (r \<in> set p) - ind (r = s) + ind (r = parentID m (last p))"
proof -
  from walk_path_hd [OF p] obtain q where q: "p = s # q" by blast
  have "sum_list (map (\<lambda>c. ind (c \<in> set p)) (childrenOf m r))
      = (\<Sum>c \<in> {c \<in> set (gkeys m). parentID m c = r}. ind (c \<in> set p))"
    by (rule sum_list_children)
  also have "\<dots> = (\<Sum>c \<in> set p. ind (parentID m c = r))"
  proof -
    have k: "c \<in> set (gkeys m)" if "parentID m c = r" for c
      using that r parentID_missing [of m c] by (auto simp: gkeys_gget)
    then have eq: "{c \<in> set (gkeys m). parentID m c = r} \<inter> set p = {c \<in> set p. parentID m c = r}"
      by auto
    have "(\<Sum>c \<in> {c \<in> set (gkeys m). parentID m c = r}. ind (c \<in> set p))
        = (\<Sum>c \<in> {c \<in> set (gkeys m). parentID m c = r} \<inter> set p. 1)"
      unfolding ind_def by (rule sum.inter_restrict [symmetric]) simp
    also have "\<dots> = (\<Sum>c \<in> {c \<in> set p. parentID m c = r}. 1)" by (simp only: eq)
    also have "\<dots> = (\<Sum>c \<in> set p. ind (parentID m c = r))"
      unfolding ind_def by (rule sum.inter_filter) simp
    finally show ?thesis .
  qed
  also have "\<dots> = sum_list (map (\<lambda>c. ind (parentID m c = r)) p)"
    using d by (simp add: sum_list_distinct_conv_sum_set)
  also have "\<dots> = ind (r \<in> set (tl p)) + ind (r = parentID m (last p))"
    using walk_path_successively [OF p] d q by (intro path_child_count) auto
  finally show ?thesis using d q by (auto simp: ind_def)
qed

section \<open>What an item movement does to a row\<close>

lemma quantity_stockDelta [simp]:
  "quantity (stockDelta v own q b) = (if v then 0 else add64 (quantity b) q)"
  by (simp add: stockDelta_def Let_def)

lemma own_quantity_stockDelta [simp]:
  "own_quantity (stockDelta v own q b) =
     (if \<not> own then own_quantity b else if v then 0 else max (add64 (own_quantity b) q) 0)"
  by (simp add: stockDelta_def Let_def)

lemma applyItemMovementStockDelta_look:
  assumes ex: "applyItemMovementStockDelta itemID f t q rm prior sm True = Inr sm'"
    and ac: "acyclic_at rm f" "acyclic_at rm t"
    and pf: "walk_path (walk_fuel rm) rm (lowestCommonAncestor rm f t) f = Some pf"
    and pt: "walk_path (walk_fuel rm) rm (lowestCommonAncestor rm f t) t = Some pt"
  shows "execBase itemID prior sm' x =
    (let b = (if x \<in> set pf
              then stockDelta (isVirtual rm x) (x = f) (neg64 q) (execBase itemID prior sm x)
              else execBase itemID prior sm x)
     in if x \<in> set pt then stockDelta (isVirtual rm x) (x = t) q b else b)"
proof -
  let ?l = "lowestCommonAncestor rm f t"
  from ex obtain sm1 where
    w1: "applyRepositoryStockDelta (walk_fuel rm) itemID f ?l (neg64 q) rm prior sm True = Inr sm1"
    and w2: "applyRepositoryStockDelta (walk_fuel rm) itemID t ?l q rm prior sm1 True = Inr sm'"
    by (auto simp: applyItemMovementStockDelta_def Let_def split: sum.splits)
  from exec.walk_look [OF w1 pf walk_path_distinct [OF pf ac(1)], of x]
    exec.walk_look [OF w2 pt walk_path_distinct [OF pt ac(2)], of x]
  show ?thesis by (simp add: Let_def)
qed

lemma applyItemMovementStockDelta_validated:
  assumes "applyItemMovementStockDelta itemID f t q rm prior sm own = Inr sm'"
    and "gget sm' x = Some rec"
  shows "0 \<le> quantity rec"
  using assms
  by (auto simp: applyItemMovementStockDelta_def Let_def intro: validate_Inr split: sum.splits)

section \<open>Partial maps\<close>

lemma loaded_above_step:
  assumes "loaded_above m rm r" and "anc m r x"
  shows "(gget rm x = None) = (gget m x = None)" and "parentID rm x = parentID m x" and "isVirtual rm x = isVirtual m x"
  using assms by (simp_all add: loaded_above_def)

lemma loaded_above_up:
  assumes "loaded_above m rm r" and "anc m r x"
  shows "loaded_above m rm x"
  using assms by (auto simp: loaded_above_def intro: rtranclp_trans)

lemma loaded_above_anc:
  assumes "loaded_above m rm r"
  shows "anc rm r x \<longleftrightarrow> anc m r x"
proof
  show "anc m r x" if "anc rm r x"
    using that
  proof (induction rule: rtranclp_induct)
    case (step y z)
    with loaded_above_step(2) [OF assms step.IH] have "parent_step m y z"
      by (simp add: parent_step_def)
    with step.IH show ?case by (rule rtranclp.rtrancl_into_rtrancl)
  qed simp
  show "anc rm r x" if "anc m r x"
    using that
  proof (induction rule: rtranclp_induct)
    case (step y z)
    with loaded_above_step(2) [OF assms step.hyps(1)] have "parent_step rm y z"
      by (simp add: parent_step_def)
    with step.IH show ?case by (rule rtranclp.rtrancl_into_rtrancl)
  qed simp
qed

lemma loaded_above_acyclic:
  assumes "loaded_above m rm r" and "acyclic_at m r"
  shows "acyclic_at rm r"
  unfolding acyclic_at_iff
proof (intro allI impI)
  fix x assume "anc rm r x"
  then have x: "anc m r x" using loaded_above_anc [OF assms(1)] by simp
  show "\<not> on_cycle rm x"
  proof
    assume "on_cycle rm x"
    then obtain p where "parent_step rm x p" "anc rm p x" by (auto dest: tranclpD)
    moreover from this(1) have st: "parent_step m x p"
      using loaded_above_step(2) [OF assms(1) x] by (simp add: parent_step_def)
    moreover from st x have "anc m r p" by (meson rtranclp.rtrancl_into_rtrancl)
    ultimately have "on_cycle m x"
      using loaded_above_anc [OF loaded_above_up [OF assms(1)]] by (meson rtranclp_into_tranclp2)
    with x assms(2) show False by (simp add: acyclic_at_iff)
  qed
qed

lemma loaded_above_walk_path:
  "loaded_above m rm r \<Longrightarrow> walk_path n rm stop r = walk_path n m stop r"
proof (induction n arbitrary: r)
  case (Suc n)
  have eq: "parentID rm r = parentID m r" using loaded_above_step(2) [OF Suc.prems, of r] by simp
  show ?case
  proof (cases "r = stop \<or> parentID m r = 0")
    case False
    then have "anc m r (parentID m r)" by (auto intro: anc_parent)
    with eq Suc.IH [OF loaded_above_up [OF Suc.prems]] show ?thesis by simp
  qed (use eq in auto)
qed simp

section \<open>The executor keeps the rollup\<close>

lemma two_path_child_sum:
  assumes "loaded_above m rm f" "loaded_above m rm t" "acyclic_at rm f" "acyclic_at rm t"
    and "f \<noteq> 0" "t \<noteq> 0" "r \<noteq> 0"
    and pf: "walk_path (walk_fuel rm) rm (lowestCommonAncestor rm f t) f = Some pf"
    and pt: "walk_path (walk_fuel rm) rm (lowestCommonAncestor rm f t) t = Some pt"
  shows "sum_list (map (\<lambda>c. ind (c \<in> set pt) - ind (c \<in> set pf)) (childrenOf m r)) =
    (ind (r \<in> set pt) - ind (r = t)) - (ind (r \<in> set pf) - ind (r = f))"
proof -
  let ?l = "lowestCommonAncestor rm f t"
  have pf': "walk_path (walk_fuel rm) m ?l f = Some pf" and pt': "walk_path (walk_fuel rm) m ?l t = Some pt"
    using pf pt loaded_above_walk_path assms(1,2) by metis+
  have in_pf: "last pf \<in> set pf" and in_pt: "last pt \<in> set pt"
    using walk_path_hd [OF pf] walk_path_hd [OF pt] by auto
  have eq: "parentID rm (last pf) = parentID m (last pf)" "parentID rm (last pt) = parentID m (last pt)"
    using loaded_above_step(2) assms(1,2) walk_path_anc [OF pf' in_pf] walk_path_anc [OF pt' in_pt] by blast+
  have ends: "ind (r = parentID m (last pf)) = ind (r = parentID m (last pt))"
  proof (cases "?l = 0")
    case True
    then have "\<not> anc rm f ?l" "\<not> anc rm t ?l" using assms(5,6) anc_nonzero by auto
    with walk_path_set_root(2) [OF pf] walk_path_set_root(2) [OF pt] eq assms(7) show ?thesis by simp
  next
    case False
    have "last pf = ?l" "last pt = ?l"
      using walk_path_set(2) [OF pf assms(3) lca_spec(1) [OF refl False]]
        walk_path_set(2) [OF pt assms(4) lca_spec(2) [OF refl False]] .
    then show ?thesis by simp
  qed
  have "sum_list (map (\<lambda>c. ind (c \<in> set pt) - ind (c \<in> set pf)) (childrenOf m r)) =
      sum_list (map (\<lambda>c. ind (c \<in> set pt)) (childrenOf m r))
      - sum_list (map (\<lambda>c. ind (c \<in> set pf)) (childrenOf m r))"
    by (rule sum_list_subtractf)
  also have "\<dots> = (ind (r \<in> set pt) - ind (r = t)) - (ind (r \<in> set pf) - ind (r = f))"
    using path_child_sum [OF pf' walk_path_distinct [OF pf assms(3)] assms(7)]
      path_child_sum [OF pt' walk_path_distinct [OF pt assms(4)] assms(7)] ends by simp
  finally show ?thesis .
qed

text \<open>The change of one row, in plain integers.\<close>

lemma movement_row_change:
  assumes "0 < q" "fits64 q" "quantity_room q b"
    and "isV \<and> (x_f \<or> x_t) \<longrightarrow> quantity b = 0 \<and> own_quantity b = 0"
    and "is_f \<and> \<not> isV \<longrightarrow> q \<le> own_quantity b" and "is_f \<longrightarrow> x_f" and "is_t \<longrightarrow> x_t"
  defines "c \<equiv> (let c = (if x_f then stockDelta isV is_f (neg64 q) b else b)
     in if x_t then stockDelta isV is_t q c else c)"
  shows "quantity c = quantity b + (if isV then 0 else q * (ind x_t - ind x_f))"
    and "own_quantity c = own_quantity b + (if isV then 0 else q * (ind is_t - ind is_f))"
proof -
  have n: "neg64 q = - q" using assms(1,2) by (intro neg64_id) (simp add: fits64_def)
  have f: "fits64 (quantity b - q)" "fits64 (own_quantity b - q)" "fits64 (quantity b)"
    "fits64 (own_quantity b)"
    using assms(1-3) by (auto simp: quantity_room_def fits64_def)
  have r: "0 \<le> quantity b" "0 \<le> own_quantity b" "fits64 (quantity b + q)" "fits64 (own_quantity b + q)"
    using assms(3) by (simp_all add: quantity_room_def)
  have a: "add64 (quantity b) (- q) = quantity b - q" "add64 (quantity b) q = quantity b + q"
    "add64 (own_quantity b) (- q) = own_quantity b - q" "add64 (own_quantity b) q = own_quantity b + q"
    "add64 (quantity b - q) q = quantity b" "add64 (own_quantity b - q) q = own_quantity b"
    using f r by (simp_all add: add64_id)
  show "quantity c = quantity b + (if isV then 0 else q * (ind x_t - ind x_f))"
    using assms(4) unfolding c_def Let_def n
    by (cases x_f; cases x_t; cases isV; simp add: a)
  show "own_quantity c = own_quantity b + (if isV then 0 else q * (ind is_t - ind is_f))"
    using assms(1,4-7) r unfolding c_def Let_def n
    by (cases x_f; cases x_t; cases isV; cases is_f; cases is_t; simp add: a)
qed

text \<open>
  The rows after a movement: the written ones, else the rows before. \<open>row\<close> is the ledger, of
  which the executor loaded the part above the two ends.
\<close>

definition after_exec :: "exec_map \<Rightarrow> (uuid \<Rightarrow> stock) \<Rightarrow> uuid \<Rightarrow> stock" where
  "after_exec sm row x = (case gget sm x of Some rec \<Rightarrow> rec | None \<Rightarrow> row x)"

definition same_stock :: "stock \<Rightarrow> stock \<Rightarrow> bool" where
  "same_stock a b \<longleftrightarrow> quantity a = quantity b \<and> own_quantity a = own_quantity b"

lemma applyItemMovementStockDelta_keys:
  assumes ex: "applyItemMovementStockDelta itemID f t q rm prior [] True = Inr sm'"
    and pf: "walk_path (walk_fuel rm) rm (lowestCommonAncestor rm f t) f = Some pf"
    and pt: "walk_path (walk_fuel rm) rm (lowestCommonAncestor rm f t) t = Some pt"
  shows "gget sm' x \<noteq> None \<longleftrightarrow> x \<in> set pf \<or> x \<in> set pt"
proof -
  let ?l = "lowestCommonAncestor rm f t"
  from ex obtain sm1 where
    w1: "applyRepositoryStockDelta (walk_fuel rm) itemID f ?l (neg64 q) rm prior [] True = Inr sm1"
    and w2: "applyRepositoryStockDelta (walk_fuel rm) itemID t ?l q rm prior sm1 True = Inr sm'"
    by (auto simp: applyItemMovementStockDelta_def Let_def split: sum.splits)
  from exec_keys [OF w1 pf, of x] exec_keys [OF w2 pt, of x] show ?thesis by auto
qed

text \<open>The facts about the two paths that the proofs below share.\<close>

lemma executor_row_change:
  assumes ex: "applyItemMovementStockDelta itemID f t q rm prior [] True = Inr sm'"
    and acr: "acyclic_at rm f" "acyclic_at rm t" and q: "0 < q" "fits64 q"
    and pf: "walk_path (walk_fuel rm) rm (lowestCommonAncestor rm f t) f = Some pf"
    and pt: "walk_path (walk_fuel rm) rm (lowestCommonAncestor rm f t) t = Some pt"
    and on: "\<And>x. x \<in> set pf \<or> x \<in> set pt \<Longrightarrow> isVirtual rm x = isVirtual m x
      \<and> virtual_ok m row x \<and> quantity_room q (row x) \<and> same_stock (row x) (execBase itemID prior [] x)"
    and own: "\<not> isVirtual m f \<Longrightarrow> q \<le> own_quantity (row f)"
  shows "quantity (after_exec sm' row x) = quantity (row x)
        + (if isVirtual m x then 0 else q * (ind (x \<in> set pt) - ind (x \<in> set pf)))
      \<and> own_quantity (after_exec sm' row x) = own_quantity (row x)
        + (if isVirtual m x then 0 else q * (ind (x = t) - ind (x = f)))"
proof -
  have fpf: "f \<in> set pf" and tpt: "t \<in> set pt" using walk_path_hd [OF pf] walk_path_hd [OF pt] by auto
  note keys = applyItemMovementStockDelta_keys [OF ex pf pt]
  show ?thesis
  proof (cases "x \<in> set pf \<or> x \<in> set pt")
    case True
    let ?b = "execBase itemID prior [] x"
    note o = on [OF True]
    from keys True obtain rec where "gget sm' x = Some rec" by blast
    then have a: "after_exec sm' row x = execBase itemID prior sm' x"
      by (simp add: after_exec_def execBase_def)
    have b: "quantity ?b = quantity (row x)" "own_quantity ?b = own_quantity (row x)"
      using o by (simp_all add: same_stock_def)
    have "isVirtual m x \<and> (x \<in> set pf \<or> x \<in> set pt) \<longrightarrow> quantity ?b = 0 \<and> own_quantity ?b = 0"
      using o b by (simp add: virtual_ok_def)
    moreover have "x = f \<and> \<not> isVirtual m x \<longrightarrow> q \<le> own_quantity ?b"
      unfolding b using own by blast
    moreover have "quantity_room q ?b" using o b by (simp add: quantity_room_def)
    moreover have "x = f \<longrightarrow> x \<in> set pf" "x = t \<longrightarrow> x \<in> set pt" using fpf tpt by blast+
    moreover have "isVirtual rm x = isVirtual m x" using o by blast
    ultimately show ?thesis
      unfolding a b [symmetric] applyItemMovementStockDelta_look [OF ex acr pf pt, of x]
      by (simp only: movement_row_change [OF q] if_True if_False simp_thms)
  next
    case False
    then have "x \<noteq> f" "x \<noteq> t" using fpf tpt by auto
    moreover have "after_exec sm' row x = row x"
      using False keys by (auto simp: after_exec_def split: option.splits)
    ultimately show ?thesis using False by simp
  qed
qed

lemma executor_rollup_at:
  assumes ex: "applyItemMovementStockDelta itemID f t q rm prior [] True = Inr sm'"
    and ac: "acyclic_at m f" "acyclic_at m t"
    and ld: "loaded_above m rm f" "loaded_above m rm t"
    and nz: "f \<noteq> 0" "t \<noteq> 0" "r \<noteq> 0"
    and q: "0 < q" "fits64 q"
    and above: "\<And>x. anc m f x \<or> anc m t x \<Longrightarrow> gget rm x \<noteq> None \<Longrightarrow> virtual_ok m row x \<and> quantity_room q (row x)
      \<and> same_stock (row x) (execBase itemID prior [] x)"
    and own: "\<not> isVirtual m f \<Longrightarrow> q \<le> own_quantity (row f)"
    and inv: "rollup_at m row r"
  shows "rollup_at m (after_exec sm' row) r"
proof -
  let ?l = "lowestCommonAncestor rm f t" and ?row' = "after_exec sm' row"
  have acr: "acyclic_at rm f" "acyclic_at rm t" using loaded_above_acyclic ld ac by blast+
  obtain pf where pf: "walk_path (walk_fuel rm) rm ?l f = Some pf"
    using walk_path_total [OF acr(1)] by blast
  obtain pt where pt: "walk_path (walk_fuel rm) rm ?l t = Some pt"
    using walk_path_total [OF acr(2)] by blast
  have ancf: "anc m f x" if "x \<in> set pf" for x
    using walk_path_anc [OF pf that] loaded_above_anc [OF ld(1)] by simp
  have anct: "anc m t x" if "x \<in> set pt" for x
    using walk_path_anc [OF pt that] loaded_above_anc [OF ld(2)] by simp
  from ex obtain sm1 where
    w1: "applyRepositoryStockDelta (walk_fuel rm) itemID f ?l (neg64 q) rm prior [] True = Inr sm1"
    and w2: "applyRepositoryStockDelta (walk_fuel rm) itemID t ?l q rm prior sm1 True = Inr sm'"
    by (auto simp: applyItemMovementStockDelta_def Let_def split: sum.splits)
  have pres: "gget rm x \<noteq> None" if "x \<in> set pf \<or> x \<in> set pt" for x
    using that exec.walk_path_of [OF w1] exec.walk_path_of [OF w2] pf pt by auto
  have on: "isVirtual rm x = isVirtual m x \<and> virtual_ok m row x \<and> quantity_room q (row x)
      \<and> same_stock (row x) (execBase itemID prior [] x)"
    if "x \<in> set pf \<or> x \<in> set pt" for x
    using that above pres ancf anct loaded_above_step(3) ld by blast
  note change = executor_row_change [OF ex acr q pf pt on own]
  have homog: "isVirtual m c = isVirtual m r" if "c \<in> set (childrenOf m r)" "c \<in> set pf \<or> c \<in> set pt" for c
    using on [OF that(2)] that(1) nz(3) by (auto simp: childrenOf_def virtual_ok_def)
  let ?D = "\<lambda>c. ind (c \<in> set pt) - ind (c \<in> set pf)"
  have sums: "sum_list (map (\<lambda>c. quantity (?row' c)) (childrenOf m r)) =
      sum_list (map (\<lambda>c. quantity (row c)) (childrenOf m r))
      + (if isVirtual m r then 0 else q * sum_list (map ?D (childrenOf m r)))"
  proof -
    have "quantity (?row' c) = quantity (row c) + (if isVirtual m r then 0 else q * ?D c)"
      if "c \<in> set (childrenOf m r)" for c
    proof (cases "c \<in> set pf \<or> c \<in> set pt")
      case True
      with change [of c] homog [OF that True] show ?thesis by simp
    next
      case False
      then have "?D c = 0" by simp
      with change [of c] show ?thesis by simp
    qed
    then have "sum_list (map (\<lambda>c. quantity (?row' c)) (childrenOf m r)) =
        sum_list (map (\<lambda>c. quantity (row c) + (if isVirtual m r then 0 else q * ?D c)) (childrenOf m r))"
      by (intro arg_cong [where f = sum_list] map_cong) auto
    also have "\<dots> = sum_list (map (\<lambda>c. quantity (row c)) (childrenOf m r))
        + sum_list (map (\<lambda>c. if isVirtual m r then 0 else q * ?D c) (childrenOf m r))"
      by (rule sum_list_addf)
    finally show ?thesis by (simp add: sum_list_const_mult)
  qed
  note two = two_path_child_sum [OF ld acr nz pf pt]
  show ?thesis
    using inv change [of r] unfolding rollup_at_def sums two
    by (auto simp: algebra_simps)
qed

end
