(* ===== verification/AncestorLoader.thy ===== *)
theory AncestorLoader
  imports StockInsert Rollup
begin

text \<open>
  service/stock/ancestor_loader.go: the repositories above the seeds and the current stock
  rows at them. The recursive query is a list of levels, the seeds first; the Postgres path
  calls the database function that holds the same query. The theorem of the theory is that
  up to the depth cap the loaded map agrees with the whole tree above every seed, which is
  what the walks of the executor rely on (\<open>loaded_above\<close>).
\<close>

section \<open>Definitions\<close>

definition ancestorWalkDepthCap :: nat where
  "ancestorWalkDepthCap = 100"

definition cteRow :: "uuid \<Rightarrow> bool \<Rightarrow> repository \<Rightarrow> bool" where
  "cteRow tenantID includeDeleted r \<longleftrightarrow>
     r_tenant r = tenantID \<and> (includeDeleted \<or> deletedAtIsNil (r_deleted_at r))"

fun ancestorLevels :: "nat \<Rightarrow> uuid \<Rightarrow> bool \<Rightarrow> repository list \<Rightarrow> repository list \<Rightarrow> repository list" where
  "ancestorLevels 0 tenantID includeDeleted repos level = level"
| "ancestorLevels (Suc n) tenantID includeDeleted repos level =
     level @ ancestorLevels n tenantID includeDeleted repos
       (filter (\<lambda>r. cteRow tenantID includeDeleted r
                  \<and> list_ex (\<lambda>a. r_parent a \<noteq> uuid_Nil \<and> r_id r = r_parent a) level) repos)"

definition ancestorRows :: "db \<Rightarrow> uuid \<Rightarrow> uuid list \<Rightarrow> bool \<Rightarrow> repository list" where
  "ancestorRows d tenantID seeds includeDeleted =
     ancestorLevels ancestorWalkDepthCap tenantID includeDeleted (repositories d)
       (filter (\<lambda>r. cteRow tenantID includeDeleted r \<and> r_id r \<in> set seeds) (repositories d))"

definition loadAncestorIDs :: "db \<Rightarrow> uuid \<Rightarrow> uuid list \<Rightarrow> bool \<Rightarrow> uuid list" where
  "loadAncestorIDs d tenantID seeds includeDeleted =
     remdups (map r_id (ancestorRows d tenantID seeds includeDeleted))"

text \<open>The \<open>NOT EXISTS\<close> of this file is scoped to the tenant.\<close>

definition notOutdatedIn :: "uuid \<Rightarrow> stock list \<Rightarrow> stock \<Rightarrow> bool" where
  "notOutdatedIn tenantID rows s =
     (\<not> list_ex (\<lambda>s2. s_tenant s2 = tenantID \<and> s_repository s2 = s_repository s
                    \<and> s_item s2 = s_item s \<and> version s2 > version s) rows)"

definition loadAncestorStocksGo ::
  "ctx \<Rightarrow> db \<Rightarrow> uuid \<Rightarrow> uuid list \<Rightarrow> uuid list \<Rightarrow> bool \<Rightarrow> repo_map \<times> prior_map"
where
  "loadAncestorStocksGo c d tenantID seeds itemIDs includeDeleted =
     (if seeds = [] then ([], [])
      else let ids = loadAncestorIDs d tenantID seeds includeDeleted in
        if ids = [] then ([], [])
        else
          let repoRows = filter (\<lambda>r. r_id r \<in> set ids \<and> (includeDeleted \<or> deletedAtIsNil (r_deleted_at r)))
                (repository_Query c d);
              repos = fold (\<lambda>r. gput (r_id r) r) repoRows []
          in if itemIDs = [] then (repos, [])
             else
               let stockRows = filter (\<lambda>s. s_tenant s = tenantID \<and> s_repository s \<in> set ids
                         \<and> notOutdatedIn tenantID (stocks d) s \<and> s_item s \<in> set itemIDs
                         \<and> (includeDeleted \<or> deletedAtIsNil (s_deleted_at s)))
                     (stock_Query c d)
               in (repos, fold (\<lambda>s. gput (s_key s) s) stockRows []))"

text \<open>The database function: the rows of the query, each with its highest stock row per item.\<close>

definition hydratedRepository :: "repository \<Rightarrow> repository" where
  "hydratedRepository r =
     zero_repository\<lparr>r_id := r_id r, r_parent := r_parent r, virtual_repo := virtual_repo r\<rparr>"

definition procStockRows :: "db \<Rightarrow> uuid \<Rightarrow> uuid list \<Rightarrow> bool \<Rightarrow> uuid \<Rightarrow> stock list" where
  "procStockRows d tenantID itemIDs includeDeleted repoID =
     concat (map (\<lambda>i. case latest_of (filter (\<lambda>s. s_tenant s = tenantID \<and> s_key s = (repoID, i)
                            \<and> (includeDeleted \<or> deletedAtIsNil (s_deleted_at s))) (stocks d)) of
                        None \<Rightarrow> [] | Some s \<Rightarrow> [hydratedStock tenantID s])
       (remdups itemIDs))"

definition loadAncestorStocksViaProc ::
  "db \<Rightarrow> uuid \<Rightarrow> uuid list \<Rightarrow> uuid list \<Rightarrow> bool \<Rightarrow> repo_map \<times> prior_map"
where
  "loadAncestorStocksViaProc d tenantID seeds itemIDs includeDeleted =
     (let rows = remdups (map hydratedRepository (ancestorRows d tenantID seeds includeDeleted)) in
      (fold (\<lambda>r repos. if gget repos (r_id r) = None then gput (r_id r) r repos else repos) rows [],
       fold (\<lambda>s. gput (s_key s) s)
         (concat (map (\<lambda>r. procStockRows d tenantID itemIDs includeDeleted (r_id r)) rows)) []))"

definition loadAncestorStocks ::
  "db_dialect \<Rightarrow> ctx \<Rightarrow> db \<Rightarrow> uuid \<Rightarrow> uuid list \<Rightarrow> uuid list \<Rightarrow> bool \<Rightarrow> repo_map \<times> prior_map"
where
  "loadAncestorStocks dialect c d tenantID seeds itemIDs includeDeleted =
     (if seeds = [] then ([], [])
      else if dialect = Postgres then loadAncestorStocksViaProc d tenantID seeds itemIDs includeDeleted
      else loadAncestorStocksGo c d tenantID seeds itemIDs includeDeleted)"

definition loadItemIDsAtRepo :: "ctx \<Rightarrow> db \<Rightarrow> uuid \<Rightarrow> uuid \<Rightarrow> uuid list" where
  "loadItemIDsAtRepo c d tenantID repoID =
     map s_item (filter (\<lambda>s. s_tenant s = tenantID \<and> s_repository s = repoID
        \<and> deletedAtIsNil (s_deleted_at s) \<and> notOutdatedIn tenantID (stocks d) s) (stock_Query c d))"

definition nestStockKeyMap :: "prior_map \<Rightarrow> nested_map" where
  "nestStockKeyMap flat = fold (\<lambda>(k, v) nested. nput (fst k) (snd k) v nested) flat []"

section \<open>The whole tree\<close>

definition tenantTree :: "db \<Rightarrow> uuid \<Rightarrow> bool \<Rightarrow> repo_map" where
  "tenantTree d tenantID includeDeleted =
     map (\<lambda>r. (r_id r, r)) (filter (cteRow tenantID includeDeleted) (repositories d))"

text \<open>Repository identifiers are a primary key.\<close>

definition repo_ids_ok :: "db \<Rightarrow> bool" where
  "repo_ids_ok d \<longleftrightarrow> distinct (map r_id (repositories d)) \<and> list_all (\<lambda>r. r_id r \<noteq> 0) (repositories d)"

lemma tenantTree_gget:
  assumes "repo_ids_ok d"
  shows "gget (tenantTree d tn incl) x = Some r \<longleftrightarrow> r \<in> set (repositories d) \<and> cteRow tn incl r \<and> r_id r = x"
proof -
  have "distinct (map fst (tenantTree d tn incl))"
    using assms by (simp add: tenantTree_def repo_ids_ok_def comp_def distinct_map_filter)
  then have "gget (tenantTree d tn incl) x = Some r \<longleftrightarrow> (x, r) \<in> set (tenantTree d tn incl)"
    by (simp add: gget_def)
  then show ?thesis by (auto simp: tenantTree_def)
qed

lemma tenantTree_parent:
  assumes "repo_ids_ok d" and "r \<in> set (repositories d)" and "cteRow tn incl r"
  shows "parentID (tenantTree d tn incl) (r_id r) = r_parent r"
  using tenantTree_gget [OF assms(1), of tn incl "r_id r" r] assms(2,3)
  by (simp add: parentID_def ggetd_def)

section \<open>What the query returns\<close>

lemma ancestorLevels_rows:
  "set level \<subseteq> set (filter (cteRow tn incl) repos) \<Longrightarrow>
     set (ancestorLevels n tn incl repos level) \<subseteq> set (filter (cteRow tn incl) repos)"
proof (induction n arbitrary: level)
  case (Suc n)
  let ?next = "filter (\<lambda>r. cteRow tn incl r \<and> list_ex (\<lambda>a. r_parent a \<noteq> uuid_Nil \<and> r_id r = r_parent a) level) repos"
  have "set ?next \<subseteq> set (filter (cteRow tn incl) repos)" by auto
  from Suc.IH [OF this] Suc.prems show ?case by simp
qed simp

lemma ancestorLevels_complete:
  assumes "repo_ids_ok d"
  shows "a \<in> set level \<Longrightarrow> set level \<subseteq> set (filter (cteRow tn incl) (repositories d)) \<Longrightarrow>
    (parent_step (tenantTree d tn incl) ^^ k) (r_id a) x \<Longrightarrow> k \<le> n \<Longrightarrow>
    gget (tenantTree d tn incl) x = Some r \<Longrightarrow> r \<in> set (ancestorLevels n tn incl (repositories d) level)"
proof (induction n arbitrary: level a k)
  case 0
  then have "x = r_id a" by simp
  moreover have "gget (tenantTree d tn incl) (r_id a) = Some a"
    using 0 tenantTree_gget [OF assms] by fastforce
  ultimately show ?case using 0 by simp
next
  case (Suc n)
  show ?case
  proof (cases k)
    case 0
    with Suc.prems(3) have "x = r_id a" by simp
    moreover have "gget (tenantTree d tn incl) (r_id a) = Some a"
      using Suc.prems(1,2) tenantTree_gget [OF assms] by fastforce
    ultimately show ?thesis using Suc.prems(1,5) by simp
  next
    case (Suc j)
    let ?m = "tenantTree d tn incl"
    from Suc.prems(3) Suc obtain y where y: "parent_step ?m (r_id a) y" "(parent_step ?m ^^ j) y x"
      by (metis relpowp_Suc_D2)
    have "parentID ?m (r_id a) = r_parent a"
      using Suc.prems(1,2) by (intro tenantTree_parent [OF assms]) auto
    with y(1) have pa: "r_parent a = y" "y \<noteq> 0" by (auto simp: parent_step_def)
    have "gget ?m y \<noteq> None"
    proof (cases j)
      case 0
      with y(2) Suc.prems(5) show ?thesis by simp
    next
      case (Suc i)
      with y(2) show ?thesis by (metis relpowp_Suc_D2 parent_step_gget)
    qed
    then obtain b where b: "b \<in> set (repositories d)" "cteRow tn incl b" "r_id b = y"
      using tenantTree_gget [OF assms] by blast
    let ?next = "filter (\<lambda>r. cteRow tn incl r \<and> list_ex (\<lambda>a. r_parent a \<noteq> uuid_Nil \<and> r_id r = r_parent a) level)
        (repositories d)"
    have "\<exists>a \<in> set level. r_parent a \<noteq> 0 \<and> r_id b = r_parent a"
      using b(3) pa Suc.prems(1) by (metis (no_types))
    then have "b \<in> set ?next"
      using b(1,2) by (simp add: list_ex_iff uuid_Nil_def)
    moreover have "set ?next \<subseteq> set (filter (cteRow tn incl) (repositories d))" by auto
    ultimately have "r \<in> set (ancestorLevels n tn incl (repositories d) ?next)"
      using Suc.IH [of b ?next j] b(3) y(2) Suc.prems(4,5) Suc by simp
    then show ?thesis by simp
  qed
qed

text \<open>A walk to the root within the cap meets every ancestor, and its end makes it acyclic.\<close>

lemma walk_path_relpow:
  "walk_path n m stop r = Some p \<Longrightarrow> x \<in> set p \<Longrightarrow> \<exists>k < n. (parent_step m ^^ k) r x"
proof (induction n arbitrary: r p)
  case (Suc n)
  show ?case
  proof (cases "x = r")
    case True
    then show ?thesis by (intro exI [of _ 0]) simp
  next
    case False
    with Suc.prems have nd: "\<not> (r = stop \<or> parentID m r = 0)" by (auto split: if_splits)
    with Suc.prems obtain q where q: "walk_path n m stop (parentID m r) = Some q" "p = r # q" by auto
    with False Suc.prems(2) have "x \<in> set q" by simp
    from Suc.IH [OF q(1) this] obtain k where k: "k < n" "(parent_step m ^^ k) (parentID m r) x" by blast
    from nd have "parent_step m r (parentID m r)" by (simp add: parent_step_def)
    then have "(parent_step m ^^ Suc k) r x" using k(2) by (rule relpowp_Suc_I2)
    with k(1) show ?thesis by blast
  qed
qed simp

lemma walk_to_root_acyclic:
  assumes "walk_path n m 0 r = Some p" and "r \<noteq> 0"
  shows "acyclic_at m r"
proof -
  have ns: "\<not> anc m r 0" using anc_nonzero assms(2) by blast
  from walk_path_hd [OF assms(1)] have "last p \<in> set p" by auto
  then have up: "anc m r (last p)" using walk_path_set_root(1) [OF assms(1) ns] by simp
  have top: "parentID m (last p) = 0" using walk_path_set_root(2) [OF assms(1) ns] .
  have "\<not> on_cycle m z" if "anc m r z" for z
    using cycle_never_ends [OF that _ up] top by blast
  then show ?thesis by (simp add: acyclic_at_iff)
qed

text \<open>
  \<open>within_cap\<close>: the way from a seed to its root has at most \<open>ancestorWalkDepthCap\<close> steps.
\<close>

definition within_cap :: "repo_map \<Rightarrow> uuid \<Rightarrow> bool" where
  "within_cap m r \<longleftrightarrow> walk_path (Suc ancestorWalkDepthCap) m 0 r \<noteq> None"

lemma within_cap_acyclic: "within_cap m r \<Longrightarrow> r \<noteq> 0 \<Longrightarrow> acyclic_at m r"
  unfolding within_cap_def using walk_to_root_acyclic by blast

lemma loadAncestorIDs_complete:
  assumes ids: "repo_ids_ok d" and cap: "within_cap (tenantTree d tn incl) s"
    and s: "s \<in> set seeds" "gget (tenantTree d tn incl) s \<noteq> None"
    and x: "anc (tenantTree d tn incl) s x" "gget (tenantTree d tn incl) x = Some r"
  shows "r \<in> set (ancestorRows d tn seeds incl)"
proof -
  let ?m = "tenantTree d tn incl"
  let ?level = "filter (\<lambda>r. cteRow tn incl r \<and> r_id r \<in> set seeds) (repositories d)"
  from s(2) obtain a where a: "a \<in> set (repositories d)" "cteRow tn incl a" "r_id a = s"
    using tenantTree_gget [OF ids] by blast
  have s0: "s \<noteq> 0" using a ids by (auto simp: repo_ids_ok_def list_all_iff)
  from cap obtain p where p: "walk_path (Suc ancestorWalkDepthCap) ?m 0 s = Some p"
    by (auto simp: within_cap_def)
  have "x \<in> set p" using walk_path_set_root(1) [OF p] x(1) anc_nonzero s0 by blast
  from walk_path_relpow [OF p this] obtain k where k: "k < Suc ancestorWalkDepthCap"
    "(parent_step ?m ^^ k) s x" by blast
  have lv: "a \<in> set ?level" "set ?level \<subseteq> set (filter (cteRow tn incl) (repositories d))"
    using a s(1) by auto
  show ?thesis
    unfolding ancestorRows_def
    using ancestorLevels_complete [OF ids lv, of k x ancestorWalkDepthCap r] k a(3) x(2)
    by (simp only: less_Suc_eq_le)
qed

lemma ancestorRows_sound:
  "set (ancestorRows d tn seeds incl) \<subseteq> set (filter (cteRow tn incl) (repositories d))"
  unfolding ancestorRows_def by (rule ancestorLevels_rows) auto

text \<open>Reading a map that agrees row by row.\<close>

lemma loaded_aboveI:
  assumes "\<And>x. anc m s x \<Longrightarrow> gget m x = None \<Longrightarrow> gget rm x = None"
    and "\<And>x r. anc m s x \<Longrightarrow> gget m x = Some r \<Longrightarrow>
      \<exists>r'. gget rm x = Some r' \<and> r_parent r' = r_parent r \<and> virtual_repo r' = virtual_repo r"
  shows "loaded_above m rm s"
  unfolding loaded_above_def
proof (intro allI impI)
  fix x assume x: "anc m s x"
  show "(gget rm x = None) = (gget m x = None) \<and> parentID rm x = parentID m x \<and> isVirtual rm x = isVirtual m x"
  proof (cases "gget m x")
    case None
    with assms(1) [OF x None] show ?thesis by (simp add: parentID_def isVirtual_def ggetd_def)
  next
    case (Some r)
    with assms(2) [OF x Some] show ?thesis by (auto simp: parentID_def isVirtual_def ggetd_def)
  qed
qed

text \<open>The loop of the Postgres path keeps the first row of an identifier.\<close>

lemma fold_first:
  "gget (fold (\<lambda>r m. if gget m (f r) = None then gput (f r) r m else m) rows m) k =
     (case gget m k of Some v \<Rightarrow> Some v | None \<Rightarrow> find (\<lambda>r. f r = k) rows)"
  by (induction rows arbitrary: m) (auto split: option.splits)

lemma loaded_above_proc:
  assumes ids: "repo_ids_ok d" and cap: "within_cap (tenantTree d tn incl) s"
    and s: "s \<in> set seeds" "gget (tenantTree d tn incl) s \<noteq> None"
  shows "loaded_above (tenantTree d tn incl) (fst (loadAncestorStocksViaProc d tn seeds itemIDs incl)) s"
proof (rule loaded_aboveI)
  let ?m = "tenantTree d tn incl" and ?rows = "remdups (map hydratedRepository (ancestorRows d tn seeds incl))"
  let ?rm = "fst (loadAncestorStocksViaProc d tn seeds itemIDs incl)"
  have look: "gget ?rm x = find (\<lambda>r. r_id r = x) ?rows" for x
    using fold_first [of r_id ?rows "[]" x] by (simp add: loadAncestorStocksViaProc_def Let_def)
  have id: "r_id (hydratedRepository r) = r_id r" for r by (simp add: hydratedRepository_def)
  {
    fix x assume "anc ?m s x" and none: "gget ?m x = None"
    have "r_id r \<noteq> x" if "r \<in> set ?rows" for r
    proof -
      from that obtain a where a: "a \<in> set (ancestorRows d tn seeds incl)" "r = hydratedRepository a" by auto
      then have "gget ?m (r_id a) = Some a"
        using ancestorRows_sound tenantTree_gget [OF ids] by fastforce
      with none a(2) id show ?thesis by auto
    qed
    then show "gget ?rm x = None" unfolding look by (simp add: find_None_iff)
  next
    fix x r assume x: "anc ?m s x" "gget ?m x = Some r"
    from loadAncestorIDs_complete [OF ids cap s x] have r: "hydratedRepository r \<in> set ?rows" by auto
    have rx: "r_id r = x" using x(2) tenantTree_gget [OF ids] by blast
    with id have "r_id (hydratedRepository r) = x" by simp
    with r have "\<exists>y \<in> set ?rows. r_id y = x" by (rule bexI [rotated])
    then obtain r' where r': "find (\<lambda>r. r_id r = x) ?rows = Some r'"
      by (cases "find (\<lambda>r. r_id r = x) ?rows") (auto simp: find_None_iff)
    then have m': "r' \<in> set ?rows" "r_id r' = x" unfolding find_Some_iff by (metis nth_mem)+
    from m'(1) obtain a where a: "a \<in> set (ancestorRows d tn seeds incl)" "r' = hydratedRepository a"
      by auto
    from m'(2) a(2) id [of a] have ax: "r_id a = x" by simp
    from a(1) ancestorRows_sound [of d tn seeds incl] have "a \<in> set (repositories d)" "cteRow tn incl a" by auto
    with ax have "gget ?m x = Some a" using tenantTree_gget [OF ids] by blast
    with x(2) have "a = r" by simp
    with r' a(2) look show "\<exists>r'. gget ?rm x = Some r' \<and> r_parent r' = r_parent r \<and> virtual_repo r' = virtual_repo r"
      by (simp add: hydratedRepository_def)
  }
qed

text \<open>The ent path reads the same repositories when the request sees the tenant's rows.\<close>

lemma loaded_above_go:
  assumes ids: "repo_ids_ok d" and cap: "within_cap (tenantTree d tn incl) s"
    and s: "s \<in> set seeds" "gget (tenantTree d tn incl) s \<noteq> None"
    and vis: "TenantIDQueryFilter c tn" "incl \<longrightarrow> c_showDeleted c"
  shows "loaded_above (tenantTree d tn incl) (fst (loadAncestorStocksGo c d tn seeds itemIDs incl)) s"
proof (rule loaded_aboveI)
  let ?m = "tenantTree d tn incl" and ?ids = "loadAncestorIDs d tn seeds incl"
  let ?rm = "fst (loadAncestorStocksGo c d tn seeds itemIDs incl)"
  let ?rows = "filter (\<lambda>r. r_id r \<in> set ?ids \<and> (incl \<or> deletedAtIsNil (r_deleted_at r))) (repository_Query c d)"
  have ne: "?ids \<noteq> [] \<and> seeds \<noteq> []"
  proof -
    from s(2) obtain a where "gget ?m s = Some a" by blast
    from loadAncestorIDs_complete [OF ids cap s rtranclp.rtrancl_refl this] show ?thesis
      using s(1) by (auto simp: loadAncestorIDs_def)
  qed
  then have rm: "?rm = fold (\<lambda>r. gput (r_id r) r) ?rows []"
    by (auto simp: loadAncestorStocksGo_def Let_def)
  have inids: "x \<in> set ?ids \<Longrightarrow> \<exists>a. gget ?m x = Some a" for x
    using ancestorRows_sound [of d tn seeds incl] tenantTree_gget [OF ids]
    by (fastforce simp: loadAncestorIDs_def)
  have uniq: "a = b" if "a \<in> set (repositories d)" "b \<in> set (repositories d)" "r_id a = r_id b" for a b
    using ids that by (auto simp: repo_ids_ok_def distinct_map dest: inj_onD)
  have rows: "v \<in> set ?rows \<Longrightarrow> gget ?m (r_id v) = Some v" for v
  proof -
    assume v: "v \<in> set ?rows"
    then have "v \<in> set (repositories d)" "r_id v \<in> set ?ids" by (auto simp: repository_Query_def)
    moreover from inids [OF this(2)] obtain a where "gget ?m (r_id v) = Some a" by blast
    moreover from this have "a \<in> set (repositories d)" "r_id a = r_id v" using tenantTree_gget [OF ids] by blast+
    ultimately show ?thesis using uniq by metis
  qed
  {
    fix x assume "anc ?m s x" and none: "gget ?m x = None"
    show "gget ?rm x = None"
    proof (cases "gget ?rm x")
      case (Some v)
      with rm have "gget (fold (\<lambda>r. gput (r_id r) r) ?rows []) x = Some v" by simp
      from gm.lookup_fold_member [OF this] rows none show ?thesis by auto
    qed
  next
    fix x r assume x: "anc ?m s x" "gget ?m x = Some r"
    from loadAncestorIDs_complete [OF ids cap s x] have "r_id r \<in> set ?ids" by (simp add: loadAncestorIDs_def)
    moreover have r: "r \<in> set (repositories d)" "cteRow tn incl r" "r_id r = x"
      using x(2) tenantTree_gget [OF ids] by blast+
    moreover have "visible c (r_tenant r) (r_deleted_at r)"
      using r(2) vis by (auto simp: visible_def cteRow_def HistoryMixinQueryFilter_def dest: deletedAtIsNil_IsZero)
    ultimately have "r \<in> set ?rows" by (auto simp: repository_Query_def cteRow_def)
    from gm.lookup_fold_defined [of r ?rows "[]" r_id] this r(3) rm obtain v where v: "gget ?rm x = Some v" by auto
    with rm have "gget (fold (\<lambda>r. gput (r_id r) r) ?rows []) x = Some v" by simp
    from gm.lookup_fold_member [OF this] rows x(2) have "v = r" by auto
    with v show "\<exists>r'. gget ?rm x = Some r' \<and> r_parent r' = r_parent r \<and> virtual_repo r' = virtual_repo r"
      by simp
  }
qed

lemma loaded_above_loader:
  assumes "repo_ids_ok d" and "within_cap (tenantTree d tn incl) s"
    and "s \<in> set seeds" "gget (tenantTree d tn incl) s \<noteq> None"
    and "TenantIDQueryFilter c tn" "incl \<longrightarrow> c_showDeleted c"
  shows "loaded_above (tenantTree d tn incl) (fst (loadAncestorStocks dialect c d tn seeds itemIDs incl)) s"
proof -
  from assms(3) have "seeds \<noteq> []" by auto
  then show ?thesis
    using loaded_above_proc [OF assms(1-4)] loaded_above_go [OF assms]
    by (simp add: loadAncestorStocks_def)
qed

end
