(* ===== verification/ItemMovements.thy ===== *)
theory ItemMovements
  imports AncestorLoader
begin

text \<open>
  The item movement handlers of service/stock/impl.go: create (the Go body and the stored
  procedure the Postgres path calls), execute and delete, with the guard that orders the
  executions of a collection.

  The handlers run in one transaction at READ COMMITTED (cmd/pyck-inventory/main.go), so every
  statement sees what other requests have committed meanwhile. \<open>others n\<close> is what they commit before
  the n-th reading or writing point of a handler; it is applied to the tables with the handler's
  own writes so far.
\<close>

type_synonym others = "nat \<Rightarrow> db \<Rightarrow> db"

text \<open>A run during which no other request commits anything.\<close>

abbreviation undisturbed :: others where
  "undisturbed \<equiv> \<lambda>_ d. d"

section \<open>Inputs and the rows they create\<close>

record create_item_movement_input =
  ci_item :: uuid
  ci_from :: uuid
  ci_to :: uuid
  ci_quantity :: int64
  ci_handler :: string
  ci_collection :: uuid
  ci_position :: int64

text \<open>
  \<open>dto.ValidateUniquenessHook\<close> belongs to the resolver; its outcome is a parameter, \<open>Some e\<close>
  for an error and \<open>None\<close> when there is no hook or it accepts.
\<close>

type_synonym hook = "error option"

definition new_item_movement :: "ctx \<Rightarrow> db \<Rightarrow> uuid \<Rightarrow> create_item_movement_input \<Rightarrow> item_movement" where
  "new_item_movement c d tenantID input =
     \<lparr>im_id = c_uuid c (writes d), im_tenant = tenantID, im_item = ci_item input,
      im_from = ci_from input, im_to = ci_to input, im_quantity = ci_quantity input,
      im_executed = False, im_executed_at = None, im_handler = ci_handler input,
      im_collection = ci_collection input, im_position = ci_position input,
      im_created_at = c_clock c (writes d), im_deleted_at = None, im_deleted_by = 0\<rparr>"

text \<open>The foreign keys of the table: both repositories exist, deleted or not.\<close>

definition foreign_key_violation :: error where
  "foreign_key_violation = ErrPostgres DriverPq ''23503'' [] ''violates foreign key constraint''"

text \<open>The primary keys; Postgres checks them before the foreign keys.\<close>

definition primary_key_violation :: error where
  "primary_key_violation = ErrPostgres DriverPq ''23505'' ''pkey'' ''duplicate key value violates unique constraint''"

definition repository_exists :: "db \<Rightarrow> uuid \<Rightarrow> bool" where
  "repository_exists d i = list_ex (\<lambda>r. r_id r = i) (repositories d)"

text \<open>
  \<open>tx.ItemMovement.Create().SetInput(input).SetExecuted(false).Save(ctx)\<close>: the tenant hook,
  the validators of the schema (quantity at least 0, handler not empty) and the INSERT.
\<close>

definition itemMovement_Create ::
  "ctx \<Rightarrow> create_item_movement_input \<Rightarrow> db \<Rightarrow> error + (item_movement \<times> db)"
where
  "itemMovement_Create c input d =
     (case TenantIDMutationHook c None of
        Inl e \<Rightarrow> Inl e
      | Inr tenantID \<Rightarrow>
          if ci_quantity input < 0 \<or> ci_handler input = [] then Inl ErrValidation
          else if list_ex (\<lambda>m. im_id m = c_uuid c (writes d)) (item_movements d) then Inl primary_key_violation
          else if \<not> repository_exists d (ci_from input) \<or> \<not> repository_exists d (ci_to input)
            then Inl foreign_key_violation
          else let mv = new_item_movement c d tenantID input in
            Inr (mv, tick (d\<lparr>item_movements := item_movements d @ [mv]\<rparr>)))"

section \<open>Execution order within a collection\<close>

definition checkExecuteNextMovementByPosition :: "ctx \<Rightarrow> db \<Rightarrow> uuid \<Rightarrow> int64 \<Rightarrow> error + unit" where
  "checkExecuteNextMovementByPosition c d collectionID position =
     (if list_ex (\<lambda>m. im_collection m = collectionID \<and> im_position m < position
            \<and> deletedAtIsNil (im_deleted_at m) \<and> \<not> im_executed m) (itemMovement_Query c d)
      then Inl ErrOutOfOrderExecution
      else if list_ex (\<lambda>m. rm_collection m = collectionID \<and> rm_position m < position
            \<and> deletedAtIsNil (rm_deleted_at m) \<and> \<not> rm_executed m) (repositoryMovement_Query c d)
      then Inl ErrOutOfOrderExecution
      else Inr ())"

section \<open>CreateItemMovement\<close>

text \<open>The availability gate of a real source: \<open>First\<close> by descending version.\<close>

definition availableStock :: "ctx \<Rightarrow> db \<Rightarrow> uuid \<Rightarrow> uuid \<Rightarrow> uuid \<Rightarrow> stock option" where
  "availableStock c d tenantID fromID itemID =
     latest_of (filter (\<lambda>s. s_key s = (fromID, itemID) \<and> s_tenant s = tenantID) (stock_Query c d))"

definition effectiveStock :: "stock \<Rightarrow> int64" where
  "effectiveStock s = sub64 (add64 (quantity s) (incoming_stock s)) (outgoing_stock s)"

definition createItemMovementGuard ::
  "ctx \<Rightarrow> db \<Rightarrow> uuid \<Rightarrow> create_item_movement_input \<Rightarrow> error + unit"
where
  "createItemMovementGuard c d tenantID input =
     (case repository_Get c d (ci_from input) of
        Inl e \<Rightarrow> Inl e
      | Inr repo \<Rightarrow>
          if virtual_repo repo then
            (case repository_Get c d (ci_to input) of
               Inl e \<Rightarrow> Inl e
             | Inr toRepo \<Rightarrow> if virtual_repo toRepo then Inl ErrVirtualRepoMovement else Inr ())
          else
            (let insufficient =
                 (case availableStock c d tenantID (ci_from input) (ci_item input) of
                    None \<Rightarrow> True
                  | Some stockRecord \<Rightarrow> effectiveStock stockRecord < ci_quantity input)
             in if insufficient \<and> \<not> IsDeferredUnderflow c then Inl ErrInsufficientStock else Inr ()))"

text \<open>The body after the load: the two walks, the hook, the row and its ledger rows.\<close>

definition createItemMovementStocks ::
  "others \<Rightarrow> ctx \<Rightarrow> uuid \<Rightarrow> create_item_movement_input \<Rightarrow> hook \<Rightarrow> db \<Rightarrow> repo_map \<Rightarrow> prior_map
     \<Rightarrow> error + (item_movement \<times> db)"
where
  "createItemMovementStocks others c tenantID input hook d repositoryMap ancestorStocks =
     (case simulateRepositoryStockMap (ci_item input) (ci_from input) (ci_to input)
             (neg64 (ci_quantity input)) (nestStockKeyMap ancestorStocks) repositoryMap True of
        Inl e \<Rightarrow> Inl e
      | Inr stockMap \<Rightarrow>
          (case simulateRepositoryStockMap (ci_item input) (ci_to input) (ci_from input)
                  (ci_quantity input) stockMap repositoryMap True of
             Inl e \<Rightarrow> Inl e
           | Inr stockMap \<Rightarrow>
               (case hook of
                  Some e \<Rightarrow> Inl e
                | None \<Rightarrow>
                    (case itemMovement_Create c input (others 2 d) of
                       Inl e \<Rightarrow> Inl e
                     | Inr (movement, d) \<Rightarrow>
                         (case insertStockMap c (ci_item input) tenantID (im_id movement) stockMap (others 3 d) of
                            Inl e \<Rightarrow> Inl e
                          | Inr d \<Rightarrow> Inr (movement, d))))))"

definition createItemMovementViaGo ::
  "others \<Rightarrow> db_dialect \<Rightarrow> ctx \<Rightarrow> uuid \<Rightarrow> create_item_movement_input \<Rightarrow> hook \<Rightarrow> db \<Rightarrow> error + (item_movement \<times> db)"
where
  "createItemMovementViaGo others dialect c tenantID input hook d =
     (case createItemMovementGuard c d tenantID input of
        Inl e \<Rightarrow> Inl e
      | Inr _ \<Rightarrow>
          let d = others 1 d in
          (case loadAncestorStocks dialect c d tenantID [ci_from input, ci_to input] [ci_item input] False of
             (repositoryMap, ancestorStocks) \<Rightarrow>
               createItemMovementStocks others c tenantID input hook d repositoryMap ancestorStocks))"

section \<open>The stored procedure\<close>

text \<open>
  \<open>inventory.create_item_movement_proc\<close> (ent/migrate/migrations, the body installed last). The
  two sides of its recursive query are lists of (id, depth), lowest depth first; SQL addition
  raises on overflow instead of wrapping.
\<close>

definition procDepthCap :: nat where
  "procDepthCap = 64"

fun procSide :: "nat \<Rightarrow> nat \<Rightarrow> uuid \<Rightarrow> repository list \<Rightarrow> repository list \<Rightarrow> (uuid \<times> nat) list" where
  "procSide 0 depth tenantID repos level = map (\<lambda>r. (r_id r, depth)) level"
| "procSide (Suc n) depth tenantID repos level =
     map (\<lambda>r. (r_id r, depth)) level
     @ procSide n (Suc depth) tenantID repos
         (filter (\<lambda>r. cteRow tenantID False r
                    \<and> list_ex (\<lambda>a. r_parent a \<noteq> uuid_Nil \<and> r_id r = r_parent a) level) repos)"

definition procWalk :: "db \<Rightarrow> uuid \<Rightarrow> uuid \<Rightarrow> (uuid \<times> nat) list" where
  "procWalk d tenantID i =
     procSide procDepthCap 0 tenantID (repositories d)
       (filter (\<lambda>r. cteRow tenantID False r \<and> r_id r = i) (repositories d))"

text \<open>The shared ancestor with the least depth, by the larger of its two depths, then by the first.\<close>

definition procLess :: "(uuid \<times> nat) list \<Rightarrow> (uuid \<times> nat) list \<Rightarrow> uuid \<Rightarrow> uuid \<Rightarrow> bool" where
  "procLess F T a b =
     (let fa = the (map_of F a); ta = the (map_of T a); fb = the (map_of F b); tb = the (map_of T b)
      in max fa ta < max fb tb \<or> (max fa ta = max fb tb \<and> fa < fb))"

definition procLca :: "(uuid \<times> nat) list \<Rightarrow> (uuid \<times> nat) list \<Rightarrow> uuid option" where
  "procLca F T =
     fold (\<lambda>a best. case best of None \<Rightarrow> Some a | Some b \<Rightarrow> if procLess F T a b then Some a else best)
       (filter (\<lambda>a. map_of T a \<noteq> None) (remdups (map fst F))) None"

definition procAncestors :: "(uuid \<times> nat) list \<Rightarrow> (uuid \<times> nat) list \<Rightarrow> uuid list" where
  "procAncestors F T =
     (let ids = remdups (map fst (F @ T)) in
      case procLca F T of
        None \<Rightarrow> ids
      | Some l \<Rightarrow> filter (\<lambda>a. \<not> ((case map_of F a of None \<Rightarrow> False | Some k \<Rightarrow> k > the (map_of F l))
                               \<or> (case map_of T a of None \<Rightarrow> False | Some k \<Rightarrow> k > the (map_of T l)))) ids)"

definition procBase :: "db \<Rightarrow> uuid \<Rightarrow> stock_key \<Rightarrow> stock option" where
  "procBase d tenantID k =
     latest_of (filter (\<lambda>s. s_tenant s = tenantID \<and> s_key s = k \<and> deletedAtIsNil (s_deleted_at s)) (stocks d))"

definition procNextVersion :: "db \<Rightarrow> uuid \<Rightarrow> stock_key \<Rightarrow> int64" where
  "procNextVersion d tenantID k =
     (case latest_of (filter (\<lambda>s. s_tenant s = tenantID \<and> s_key s = k) (stocks d)) of
        None \<Rightarrow> 0 | Some s \<Rightarrow> version s + 1)"

definition procStockRow ::
  "db \<Rightarrow> uuid \<Rightarrow> create_item_movement_input \<Rightarrow> uuid \<Rightarrow> (uuid \<times> nat) list \<Rightarrow> (uuid \<times> nat) list
     \<Rightarrow> repository \<Rightarrow> stock"
where
  "procStockRow d tenantID input movementID F T r =
     (let a = r_id r; q = ci_quantity input;
          s = (case procBase d tenantID (a, ci_item input) of None \<Rightarrow> zero_stock | Some s \<Rightarrow> s);
          in_from = (map_of F a \<noteq> None); in_to = (map_of T a \<noteq> None)
      in \<lparr>s_tenant = tenantID, s_repository = a, s_item = ci_item input, s_movement = movementID,
          quantity = (if virtual_repo r then 0 else quantity s),
          incoming_stock = (if in_to \<and> \<not> in_from then max (incoming_stock s + q) 0 else incoming_stock s),
          outgoing_stock = (if in_from \<and> \<not> in_to then max (outgoing_stock s + q) 0 else outgoing_stock s),
          own_quantity = (if virtual_repo r \<and> (a = ci_from input \<or> a = ci_to input) then 0 else own_quantity s),
          own_incoming_stock =
            (if a = ci_to input then max (own_incoming_stock s + q) 0 else own_incoming_stock s),
          own_outgoing_stock =
            (if a = ci_from input then max (own_outgoing_stock s + q) 0 else own_outgoing_stock s),
          version = procNextVersion d tenantID (a, ci_item input), s_deleted_at = None\<rparr>)"

definition counters_fit :: "stock \<Rightarrow> bool" where
  "counters_fit s \<longleftrightarrow> list_all fits64 [quantity s, incoming_stock s, outgoing_stock s,
     own_quantity s, own_incoming_stock s, own_outgoing_stock s, version s]"

definition raise_exception :: "string \<Rightarrow> error" where
  "raise_exception message = ErrPostgres DriverPq ''P0001'' [] message"

definition liveRepositories :: "db \<Rightarrow> uuid \<Rightarrow> uuid \<Rightarrow> repository list" where
  "liveRepositories d tenantID i =
     filter (\<lambda>r. r_tenant r = tenantID \<and> r_id r = i \<and> deletedAtIsNil (r_deleted_at r)) (repositories d)"

definition procRows ::
  "db \<Rightarrow> uuid \<Rightarrow> create_item_movement_input \<Rightarrow> uuid \<Rightarrow> (uuid \<times> nat) list \<Rightarrow> (uuid \<times> nat) list \<Rightarrow> stock list"
where
  "procRows d tenantID input movementID F T =
     map (procStockRow d tenantID input movementID F T)
       (filter (\<lambda>r. r_tenant r = tenantID \<and> r_id r \<in> set (procAncestors F T)) (repositories d))"

text \<open>
  One round of section 4: the movement, then the rows of the snapshot \<open>d\<close> of the INSERT. The unique
  index is checked against \<open>d'\<close>, what has been committed by the time the row is written; a
  conflict rolls the round back to its savepoint.
\<close>

definition procStore :: "item_movement \<Rightarrow> stock list \<Rightarrow> db \<Rightarrow> error + db" where
  "procStore mv rows d =
     (if \<not> list_all counters_fit rows
      then Inl (ErrPostgres DriverPq ''22003'' [] ''bigint out of range'')
      else if list_ex (\<lambda>m. im_id m = im_id mv) (item_movements d) then Inl primary_key_violation
      else if \<not> ledger_ok (stocks d @ rows) then Inl stock_unique_violation
      else Inr (tick (d\<lparr>item_movements := item_movements d @ [mv], stocks := stocks d @ rows\<rparr>)))"

definition v_max_retries :: nat where
  "v_max_retries = 50"

text \<open>
  The loop of section 4. A round after a unique violation reads the ledger again, for the versions
  and for the rows; the availability gate of section 2 and the walk of section 3 are not run again.
\<close>

fun procLoop ::
  "nat \<Rightarrow> nat \<Rightarrow> others \<Rightarrow> uuid \<Rightarrow> create_item_movement_input \<Rightarrow> item_movement \<Rightarrow> (uuid \<times> nat) list
     \<Rightarrow> (uuid \<times> nat) list \<Rightarrow> db \<Rightarrow> error + db"
where
  "procLoop retries n others tenantID input mv F T d =
     (let d = others n d;
          rows = procRows d tenantID input (im_id mv) F T;
          d' = others (n + 1) d
      in case procStore mv rows d' of
           Inr d'' \<Rightarrow> Inr d''
         | Inl e \<Rightarrow>
             if e \<noteq> stock_unique_violation then Inl e
             else (case retries of
                 0 \<Rightarrow> Inl e
               | Suc retries \<Rightarrow> procLoop retries (n + 2) others tenantID input mv F T d'))"

declare procLoop.simps [simp del]

definition create_item_movement_proc ::
  "others \<Rightarrow> ctx \<Rightarrow> uuid \<Rightarrow> create_item_movement_input \<Rightarrow> db \<Rightarrow> error + (uuid \<times> db)"
where
  "create_item_movement_proc others c tenantID input d =
     (case liveRepositories d tenantID (ci_from input) of
        [] \<Rightarrow> Inl (raise_exception ''REPO_NOT_FOUND: from'')
      | fr # _ \<Rightarrow>
     (case liveRepositories d tenantID (ci_to input) of
        [] \<Rightarrow> Inl (raise_exception ''REPO_NOT_FOUND: to'')
      | to # _ \<Rightarrow>
          if virtual_repo fr \<and> virtual_repo to
          then Inl (raise_exception ''movements between virtual repositories are not allowed'')
          else
            let available = (case procBase d tenantID (ci_from input, ci_item input) of
                  None \<Rightarrow> 0
                | Some s \<Rightarrow> quantity s + incoming_stock s - outgoing_stock s)
            in if \<not> virtual_repo fr \<and> available < ci_quantity input
               then Inl (raise_exception ''STOCK_INSUFFICIENT'')
               else
                 let mv = new_item_movement c d tenantID input;
                     d = others 1 d
                 in case procLoop v_max_retries 2 others tenantID input mv
                           (procWalk d tenantID (ci_from input)) (procWalk d tenantID (ci_to input)) d of
                      Inl e \<Rightarrow> Inl e
                    | Inr d \<Rightarrow> Inr (im_id mv, d)))"

definition strContains :: "string \<Rightarrow> string \<Rightarrow> bool" where
  "strContains s sub = list_ex (\<lambda>n. take (length sub) (drop n s) = sub) [0..<Suc (length s)]"

definition error_text :: "error \<Rightarrow> string" where
  "error_text e = (case e of ErrPostgres _ _ _ message \<Rightarrow> message | ErrText t \<Rightarrow> t | _ \<Rightarrow> [])"

definition mapCreateItemMovementProcError :: "error \<Rightarrow> error" where
  "mapCreateItemMovementProcError err =
     (if strContains (error_text err) ''movements between virtual repositories are not allowed''
      then ErrVirtualRepoMovement
      else if strContains (error_text err) ''STOCK_INSUFFICIENT'' then ErrInsufficientStock
      else wrapOCCConflict err)"

text \<open>The outbox emitter is injected; its outcome is a parameter, like the hook's.\<close>

definition createItemMovementViaProc ::
  "others \<Rightarrow> ctx \<Rightarrow> uuid \<Rightarrow> create_item_movement_input \<Rightarrow> hook \<Rightarrow> hook \<Rightarrow> db \<Rightarrow> error + (item_movement \<times> db)"
where
  "createItemMovementViaProc others c tenantID input hook emitter d =
     (case hook of
        Some e \<Rightarrow> Inl e
      | None \<Rightarrow>
          (case create_item_movement_proc others c tenantID input d of
             Inl e \<Rightarrow> Inl (mapCreateItemMovementProcError e)
           | Inr (returnedID, d) \<Rightarrow>
               (case itemMovement_Get c d returnedID of
                  Inl e \<Rightarrow> Inl e
                | Inr movement \<Rightarrow>
                    (case emitter of Some e \<Rightarrow> Inl e | None \<Rightarrow> Inr (movement, d)))))"

definition CreateItemMovement ::
  "others \<Rightarrow> db_dialect \<Rightarrow> ctx \<Rightarrow> uuid \<Rightarrow> create_item_movement_input \<Rightarrow> hook \<Rightarrow> hook \<Rightarrow> db
     \<Rightarrow> error + (item_movement \<times> db)"
where
  "CreateItemMovement others dialect c tenantID input hook emitter d =
     (case requireItemInTenant c d tenantID (ci_item input) of
        Inl e \<Rightarrow> Inl e
      | Inr _ \<Rightarrow>
          let d = others 0 d in
          if dialect = Postgres \<and> \<not> IsDeferredUnderflow c
          then createItemMovementViaProc others c tenantID input hook emitter d
          else createItemMovementViaGo others dialect c tenantID input hook d)"

section \<open>ExecuteItemMovement\<close>

definition transaction_CreateBulk :: "ctx \<Rightarrow> stock_transaction list \<Rightarrow> db \<Rightarrow> error + db" where
  "transaction_CreateBulk c ts d =
     (case foldRes (\<lambda>t _. case TenantIDMutationHook c (Some (t_tenant t)) of
               Inl e \<Rightarrow> Inl e
             | Inr _ \<Rightarrow> if t_quantity t < 0 then Inl ErrValidation else Inr ()) ts () of
        Inl e \<Rightarrow> Inl e
      | Inr _ \<Rightarrow> Inr (tick (d\<lparr>transactions := transactions d @ ts\<rparr>)))"

definition executedRow :: "uuid \<Rightarrow> uuid \<Rightarrow> uuid \<Rightarrow> uuid \<Rightarrow> stock \<Rightarrow> stock" where
  "executedRow itemID tenantID movementID repoID rec =
     \<lparr>s_tenant = tenantID, s_repository = repoID, s_item = itemID, s_movement = movementID,
      quantity = quantity rec, incoming_stock = incoming_stock rec,
      outgoing_stock = outgoing_stock rec, own_quantity = own_quantity rec,
      own_incoming_stock = own_incoming_stock rec, own_outgoing_stock = own_outgoing_stock rec,
      version = 0, s_deleted_at = None\<rparr>"

text \<open>\<open>UpdateOneID(id).SetExecuted(true).SetExecutedAt(now).Save(ctx)\<close>.\<close>

definition itemMovement_SetExecuted :: "ctx \<Rightarrow> uuid \<Rightarrow> db \<Rightarrow> error + db" where
  "itemMovement_SetExecuted c i d =
     (case update_where (\<lambda>m. im_id m = i \<and> mutable c (im_tenant m) (im_deleted_at m))
             (\<lambda>m. m\<lparr>im_executed := True, im_executed_at := Some (c_clock c (writes d))\<rparr>) (item_movements d) of
        Inl e \<Rightarrow> Inl e
      | Inr rows \<Rightarrow> Inr (tick (d\<lparr>item_movements := rows\<rparr>)))"

definition movementTransactions :: "uuid \<Rightarrow> item_movement \<Rightarrow> stock_transaction list" where
  "movementTransactions tenantID m =
     [\<lparr>t_tenant = tenantID, t_item = im_item m, t_repository = im_from m, t_type = TypeOut,
       t_quantity = im_quantity m\<rparr>,
      \<lparr>t_tenant = tenantID, t_item = im_item m, t_repository = im_to m, t_type = TypeInto,
       t_quantity = im_quantity m\<rparr>]"

definition executedStockRows :: "uuid \<Rightarrow> uuid \<Rightarrow> uuid \<Rightarrow> prior_map \<Rightarrow> exec_map \<Rightarrow> stock list" where
  "executedStockRows itemID tenantID movementID priorStocks stockMap =
     sortStockCreates (fst (assignVersions
       (map (\<lambda>(repoID, rec). executedRow itemID tenantID movementID repoID rec) stockMap)
       (newStockVersionTracker priorStocks)))"

text \<open>
  The executed flag is read first; the update by id does not test it again, so what other
  requests have done to the movement meanwhile goes unnoticed, except for its deletion.
\<close>

definition ExecuteItemMovement ::
  "others \<Rightarrow> db_dialect \<Rightarrow> ctx \<Rightarrow> uuid \<Rightarrow> uuid \<Rightarrow> db \<Rightarrow> error + db"
where
  "ExecuteItemMovement others dialect c i tenantID d =
     (case itemMovement_Get c d i of
        Inl _ \<Rightarrow> Inl (ErrText ''itemMovement not found'')
      | Inr m \<Rightarrow>
          if im_executed m then Inl (ErrText ''ItemMovement is already executed'')
          else
            let d = others 0 d
            in case checkExecuteNextMovementByPosition c d (im_collection m) (im_position m) of
                 Inl e \<Rightarrow> Inl e
               | Inr _ \<Rightarrow>
            let d = others 1 d
            in case requireItemInTenant c d tenantID (im_item m) of
                 Inl e \<Rightarrow> Inl e
               | Inr _ \<Rightarrow>
            (case itemMovement_SetExecuted c i (others 2 d) of
               Inl e \<Rightarrow> Inl e
             | Inr d \<Rightarrow>
            (case transaction_CreateBulk c (movementTransactions tenantID m) (others 3 d) of
               Inl e \<Rightarrow> Inl e
             | Inr d \<Rightarrow>
            let d = others 4 d;
                (repoMap, priorStocks) = loadAncestorStocks dialect c d tenantID
                  [im_from m, im_to m] [im_item m] False
            in case applyItemMovementStockDelta (im_item m) (im_from m) (im_to m)
                      (im_quantity m) repoMap priorStocks [] True of
                 Inl e \<Rightarrow> Inl e
               | Inr stockMap \<Rightarrow>
                   wrapOCC (stock_CreateBulk c
                     (executedStockRows (im_item m) tenantID i priorStocks stockMap) (others 5 d)))))"

section \<open>DeleteItemMovement\<close>

text \<open>
  \<open>UpdateOneID(id).SetDeletedAt(now).SetDeletedBy(by).Save(ctx)\<close>; the history mixin replaces
  both values by the clock and the caller.
\<close>

definition itemMovement_SoftDelete :: "ctx \<Rightarrow> uuid \<Rightarrow> db \<Rightarrow> error + db" where
  "itemMovement_SoftDelete c i d =
     (case update_where (\<lambda>m. im_id m = i \<and> mutable c (im_tenant m) (im_deleted_at m))
             (\<lambda>m. m\<lparr>im_deleted_at := Some (c_clock c (writes d)), im_deleted_by := c_user c\<rparr>)
             (item_movements d) of
        Inl e \<Rightarrow> Inl e
      | Inr rows \<Rightarrow> Inr (tick (d\<lparr>item_movements := rows\<rparr>)))"

definition deleteItemMovementStocks ::
  "others \<Rightarrow> ctx \<Rightarrow> uuid \<Rightarrow> uuid \<Rightarrow> item_movement \<Rightarrow> db \<Rightarrow> repo_map \<Rightarrow> prior_map \<Rightarrow> error + db"
where
  "deleteItemMovementStocks others c i tenantID m d repositoryMap ancestorStocks =
     (case simulateRepositoryStockMapWithMode (im_item m) (im_from m) (im_to m)
             (neg64 (im_quantity m)) (nestStockKeyMap ancestorStocks) repositoryMap True True of
        Inl e \<Rightarrow> Inl e
      | Inr stockMap \<Rightarrow>
          (case simulateRepositoryStockMapWithMode (im_item m) (im_to m) (im_from m)
                  (im_quantity m) stockMap repositoryMap True True of
             Inl e \<Rightarrow> Inl e
           | Inr stockMap \<Rightarrow>
               (case insertStockMap c (im_item m) tenantID i stockMap (others 1 d) of
                  Inl e \<Rightarrow> Inl e
                | Inr d \<Rightarrow> itemMovement_SoftDelete c i (others 2 d))))"

text \<open>Here too the executed flag is read once, at the start.\<close>

definition DeleteItemMovement ::
  "others \<Rightarrow> db_dialect \<Rightarrow> ctx \<Rightarrow> uuid \<Rightarrow> uuid \<Rightarrow> db \<Rightarrow> error + db"
where
  "DeleteItemMovement others dialect c i tenantID d =
     (case itemMovement_Get c d i of
        Inl _ \<Rightarrow> Inl (ErrText ''itemMovement not found'')
      | Inr m \<Rightarrow>
          if im_executed m then Inl ErrDeleteExecutedMovement
          else
            let d = others 0 d
            in case loadAncestorStocks dialect c d tenantID [im_from m, im_to m] [im_item m] False of
                 (repositoryMap, ancestorStocks) \<Rightarrow>
                   deleteItemMovementStocks others c i tenantID m d repositoryMap ancestorStocks)"

section \<open>Undisturbed runs\<close>

text \<open>
  When nothing else commits, the retry loop of the stored procedure takes one round: the snapshot
  of the next one is the same.
\<close>

lemma procLoop_undisturbed:
  "procLoop retries n undisturbed tn input mv F T d = procStore mv (procRows d tn input (im_id mv) F T) d"
proof (induction retries arbitrary: n)
  case 0
  show ?case by (subst procLoop.simps) (auto simp: Let_def split: sum.splits)
next
  case (Suc retries)
  show ?case by (subst procLoop.simps) (auto simp: Let_def Suc.IH split: sum.splits)
qed

end
