(* ===== verification/ExecuteRollup.thy ===== *)
theory ExecuteRollup
  imports ItemMovements
begin

text \<open>
  \<open>ExecuteItemMovement\<close> on the tables: what it appends to the ledger, that its rows are the
  current ones afterwards, and that the rollup invariant of the ledger survives the request.
\<close>

section \<open>Running a handler\<close>

text \<open>The loader reads repositories and stocks only.\<close>

lemma loadAncestorStocks_cong:
  assumes "repositories d' = repositories d" and "stocks d' = stocks d"
  shows "loadAncestorStocks dialect c d' tn seeds is incl = loadAncestorStocks dialect c d tn seeds is incl"
  unfolding loadAncestorStocks_def loadAncestorStocksViaProc_def loadAncestorStocksGo_def
    loadAncestorIDs_def ancestorRows_def procStockRows_def repository_Query_def stock_Query_def assms
  by (rule refl)

lemma itemMovement_SetExecuted_Inr:
  assumes "itemMovement_SetExecuted c i d = Inr d'"
  shows "stocks d' = stocks d" and "repositories d' = repositories d" and "transactions d' = transactions d"
    and "item_movements d' = map (\<lambda>m. if im_id m = i \<and> mutable c (im_tenant m) (im_deleted_at m)
      then m\<lparr>im_executed := True, im_executed_at := Some (c_clock c (writes d))\<rparr> else m) (item_movements d)"
  using assms
  by (auto simp: itemMovement_SetExecuted_def update_where_def tick_def split: sum.splits if_splits)

lemma transaction_CreateBulk_Inr:
  assumes "transaction_CreateBulk c ts d = Inr d'"
  shows "stocks d' = stocks d" and "repositories d' = repositories d"
    and "item_movements d' = item_movements d" and "transactions d' = transactions d @ ts"
  using assms by (auto simp: transaction_CreateBulk_def tick_def split: sum.splits)

text \<open>The successful runs of the execute handler.\<close>

lemma ExecuteItemMovement_Inr:
  assumes "ExecuteItemMovement undisturbed dialect c i tn d = Inr d'" and "itemMovement_Get c d i = Inr m"
    and "loadAncestorStocks dialect c d tn [im_from m, im_to m] [im_item m] False = (rm, prior)"
  shows "\<not> im_executed m
    \<and> checkExecuteNextMovementByPosition c d (im_collection m) (im_position m) = Inr ()
    \<and> (\<exists>sm. applyItemMovementStockDelta (im_item m) (im_from m) (im_to m) (im_quantity m) rm prior [] True
           = Inr sm
         \<and> stocks d' = stocks d @ executedStockRows (im_item m) tn i prior sm)
    \<and> transactions d' = transactions d @ movementTransactions tn m
    \<and> repositories d' = repositories d
    \<and> item_movements d' = map (\<lambda>m. if im_id m = i \<and> mutable c (im_tenant m) (im_deleted_at m)
      then m\<lparr>im_executed := True, im_executed_at := Some (c_clock c (writes d))\<rparr> else m) (item_movements d)
    \<and> (ledger_ok (stocks d) \<longrightarrow> ledger_ok (stocks d'))"
proof -
  from assms(1,2) obtain d1 d2 where
    ne: "\<not> im_executed m" "checkExecuteNextMovementByPosition c d (im_collection m) (im_position m) = Inr ()"
    and d1: "itemMovement_SetExecuted c i d = Inr d1"
    and d2: "transaction_CreateBulk c (movementTransactions tn m) d1 = Inr d2"
    and rest: "(let (repoMap, priorStocks) = loadAncestorStocks dialect c d2 tn [im_from m, im_to m] [im_item m] False
         in case applyItemMovementStockDelta (im_item m) (im_from m) (im_to m) (im_quantity m) repoMap priorStocks [] True of
              Inl e \<Rightarrow> Inl e
            | Inr stockMap \<Rightarrow> wrapOCC (stock_CreateBulk c
                (executedStockRows (im_item m) tn i priorStocks stockMap) d2)) = Inr d'"
    by (auto simp: ExecuteItemMovement_def split: sum.splits if_splits)
  note t = itemMovement_SetExecuted_Inr [OF d1] transaction_CreateBulk_Inr [OF d2]
  have "loadAncestorStocks dialect c d2 tn [im_from m, im_to m] [im_item m] False = (rm, prior)"
    using assms(3) loadAncestorStocks_cong [of d2 d] t by simp
  with rest obtain sm where
    sm: "applyItemMovementStockDelta (im_item m) (im_from m) (im_to m) (im_quantity m) rm prior [] True = Inr sm"
    and bulk: "stock_CreateBulk c (executedStockRows (im_item m) tn i prior sm) d2 = Inr d'"
    by (auto simp: split: sum.splits)
  from stock_CreateBulk_Inr [OF bulk] t ne sm show ?thesis by auto
qed

section \<open>Versions of an executed batch\<close>

text \<open>With distinct groups every row gets the version above the one the tracker was seeded with.\<close>

lemma assignVersions_distinct:
  "distinct (map s_key ss) \<Longrightarrow>
     fst (assignVersions ss t) = map (\<lambda>s. s\<lparr>version := ggetd 0 t (s_key s)\<rparr>) ss"
proof (induction ss arbitrary: t)
  case (Cons s ss)
  let ?u = "snd (nextFor (s_repository s) (s_item s) t)"
  have "ggetd 0 ?u (s_key x) = ggetd 0 t (s_key x)" if "x \<in> set ss" for x
  proof -
    have "s_key x \<in> set (map s_key ss)" using that by simp
    moreover from Cons.prems have "s_key s \<notin> set (map s_key ss)"
      by (simp only: list.map distinct.simps simp_thms)
    ultimately have "s_key x \<noteq> s_key s" by metis
    then show ?thesis by (auto simp: nextFor_def Let_def)
  qed
  then have m: "map (\<lambda>s. s\<lparr>version := ggetd 0 ?u (s_key s)\<rparr>) ss = map (\<lambda>s. s\<lparr>version := ggetd 0 t (s_key s)\<rparr>) ss"
    by simp
  have n: "fst (nextFor (s_repository s) (s_item s) t) = ggetd 0 t (s_key s)"
    by (simp add: nextFor_def Let_def)
  have a: "fst (assignVersions (s # ss) t)
      = s\<lparr>version := fst (nextFor (s_repository s) (s_item s) t)\<rparr> # fst (assignVersions ss ?u)"
    by (simp add: Let_def case_prod_beta)
  have "fst (assignVersions ss ?u) = map (\<lambda>s. s\<lparr>version := ggetd 0 ?u (s_key s)\<rparr>) ss"
    using Cons.prems by (intro Cons.IH) simp
  then show ?case unfolding a n m by simp
qed simp

lemma executedRow_key [simp]:
  "s_repository (executedRow i tn mv x rec) = x" "s_item (executedRow i tn mv x rec) = i"
  "s_tenant (executedRow i tn mv x rec) = tn" "s_deleted_at (executedRow i tn mv x rec) = None"
  "quantity (executedRow i tn mv x rec) = quantity rec"
  "own_quantity (executedRow i tn mv x rec) = own_quantity rec"
  by (simp_all add: executedRow_def)

lemma executedStockRows_set:
  assumes "gmap_ok sm"
  shows "set (executedStockRows i tn mv prior sm) =
    (\<lambda>(x, rec). (executedRow i tn mv x rec)\<lparr>version :=
       (case gget prior (x, i) of None \<Rightarrow> 0 | Some p \<Rightarrow> add64 (version p) 1)\<rparr>) ` set sm"
proof -
  let ?ss = "map (\<lambda>(x, rec). executedRow i tn mv x rec) sm"
  have "map s_key ?ss = map (\<lambda>x. (x, i)) (map fst sm)" by (induction sm) auto
  moreover have "distinct (map (\<lambda>x. (x, i)) (map fst sm))"
    using assms unfolding gmap_ok_def by (intro distinct_map [THEN iffD2]) (auto simp: inj_on_def)
  ultimately have "distinct (map s_key ?ss)" by (simp only:)
  from assignVersions_distinct [OF this, of "newStockVersionTracker prior"] show ?thesis
    by (force simp: executedStockRows_def ggetd_def latest.gget_seed split: option.splits)
qed

lemma apply_gmap_ok:
  assumes "applyItemMovementStockDelta i f t q rm prior [] own = Inr sm"
  shows "gmap_ok sm"
  using assms
  by (auto simp: applyItemMovementStockDelta_def Let_def split: sum.splits dest!: exec_gmap_ok)

section \<open>Loaded rows are the current rows\<close>

definition currentStock :: "db \<Rightarrow> uuid \<Rightarrow> uuid \<Rightarrow> uuid \<Rightarrow> stock" where
  "currentStock d tenantID itemID x =
     (case procBase d tenantID (x, itemID) of None \<Rightarrow> zero_stock | Some s \<Rightarrow> s)"

text \<open>The ledger of an item belongs to one tenant and has no soft-deleted row.\<close>

definition ledger_live :: "uuid \<Rightarrow> uuid \<Rightarrow> stock list \<Rightarrow> bool" where
  "ledger_live tn i rows \<longleftrightarrow>
     list_all (\<lambda>s. s_item s = i \<longrightarrow> s_tenant s = tn \<and> s_deleted_at s = None) rows"

lemma ledger_ok_unique:
  assumes "ledger_ok rows" and "a \<in> set rows" and "b \<in> set rows"
    and "s_tenant a = s_tenant b" and "s_key a = s_key b" and "version a = version b"
  shows "a = b"
proof -
  have "stock_index a = stock_index b" using assms(4-6) by (simp add: stock_index_def)
  moreover have "inj_on stock_index (set rows)" using assms(1) by (simp add: ledger_ok_def distinct_map)
  ultimately show ?thesis using assms(2,3) by (meson inj_onD)
qed

lemma procBase_eqI:
  assumes "ledger_ok (stocks d)" and "ledger_live tn i (stocks d)"
    and "v \<in> set (stocks d)" and "s_key v = (x, i)"
    and "\<And>s. s \<in> set (stocks d) \<Longrightarrow> s_key s = (x, i) \<Longrightarrow> version s \<le> version v"
  shows "procBase d tn (x, i) = Some v"
  unfolding procBase_def
proof (rule latest_of_eqI)
  have v: "s_tenant v = tn" "s_deleted_at v = None"
    using assms(2-4) by (auto simp: ledger_live_def list_all_iff)
  then show "v \<in> set (filter (\<lambda>s. s_tenant s = tn \<and> s_key s = (x, i) \<and> deletedAtIsNil (s_deleted_at s)) (stocks d))"
    using assms(3,4) by (simp add: deletedAtIsNil_def)
  fix t assume "t \<in> set (filter (\<lambda>s. s_tenant s = tn \<and> s_key s = (x, i) \<and> deletedAtIsNil (s_deleted_at s)) (stocks d))"
  then have t: "t \<in> set (stocks d)" "s_tenant t = tn" "s_key t = (x, i)" by auto
  from assms(5) [OF t(1,3)] show "t = v \<or> version t < version v"
    using ledger_ok_unique [OF assms(1) t(1) assms(3)] t v assms(4) by fastforce
qed

lemma procBase_Some:
  assumes "procBase d tn k = Some s"
  shows "s \<in> set (stocks d)" and "s_tenant s = tn" and "s_key s = k" and "s_deleted_at s = None"
  using latest_of_Some [OF assms [unfolded procBase_def]] by (auto simp: deletedAtIsNil_def)

lemma procBase_max:
  assumes "ledger_live tn i (stocks d)" and "t \<in> set (stocks d)" and "s_key t = (x, i)"
  shows "\<exists>s. procBase d tn (x, i) = Some s \<and> version t \<le> version s"
  unfolding procBase_def
  using assms by (intro latest_of_exists) (auto simp: ledger_live_def list_all_iff deletedAtIsNil_def)

definition prior_agrees :: "stock option \<Rightarrow> stock option \<Rightarrow> bool" where
  "prior_agrees p s \<longleftrightarrow>
     (case s of None \<Rightarrow> p = None
      | Some s \<Rightarrow> (case p of None \<Rightarrow> False | Some p \<Rightarrow> sameCounters p s \<and> version p = version s))"

lemma hydratedStock_simps [simp]:
  "s_repository (hydratedStock tn s) = s_repository s" "s_item (hydratedStock tn s) = s_item s"
  "version (hydratedStock tn s) = version s" "sameCounters (hydratedStock tn s) s"
  by (simp_all add: hydratedStock_def sameCounters_def)

lemma prior_agrees_proc:
  assumes "gget (fst (loadAncestorStocksViaProc d tn seeds is False)) x \<noteq> None" and i: "i \<in> set is"
  shows "prior_agrees (gget (snd (loadAncestorStocksViaProc d tn seeds is False)) (x, i)) (procBase d tn (x, i))"
proof -
  let ?rows = "remdups (map hydratedRepository (ancestorRows d tn seeds False))"
  let ?L = "concat (map (\<lambda>r. procStockRows d tn is False (r_id r)) ?rows)"
  have one: "s \<in> set (procStockRows d tn is False y) \<longleftrightarrow>
      (\<exists>j \<in> set is. \<exists>b. procBase d tn (y, j) = Some b \<and> s = hydratedStock tn b)" for s y
    by (auto simp: procStockRows_def procBase_def split: option.splits) force+
  have L: "s \<in> set ?L \<longleftrightarrow> (\<exists>r \<in> set ?rows. \<exists>j \<in> set is. \<exists>b. procBase d tn (r_id r, j) = Some b \<and> s = hydratedStock tn b)" for s
    by (simp add: one)
  have look: "gget (snd (loadAncestorStocksViaProc d tn seeds is False)) (x, i) = gget (fold (\<lambda>s. gput (s_key s) s) ?L []) (x, i)"
    by (simp add: loadAncestorStocksViaProc_def Let_def)
  from assms obtain r where r: "r \<in> set ?rows" "r_id r = x"
    using fold_first [of r_id ?rows "[]" x]
    by (auto simp: loadAncestorStocksViaProc_def Let_def find_None_iff simp del: set_remdups split: option.splits)
  have member: "\<exists>b. procBase d tn (x, i) = Some b \<and> v = hydratedStock tn b"
    if v: "v \<in> set ?L" "s_key v = (x, i)" for v
  proof -
    from L [THEN iffD1, OF v(1)] obtain q :: repository and j b where
      b: "procBase d tn (r_id q, j) = Some b" "v = hydratedStock tn b" by blast
    from procBase_Some(3) [OF b(1)] b(2) v(2) have "r_id q = x" "j = i" by simp_all
    with b show ?thesis by blast
  qed
  show ?thesis
  proof (cases "procBase d tn (x, i)")
    case None
    have "gget (fold (\<lambda>s. gput (s_key s) s) ?L []) (x, i) = None"
    proof (cases "gget (fold (\<lambda>s. gput (s_key s) s) ?L []) (x, i)")
      case (Some v)
      from gm.lookup_fold_member [OF Some] have "v \<in> set ?L" "s_key v = (x, i)" by auto
      from member [OF this] None show ?thesis by simp
    qed
    with None look show ?thesis by (simp add: prior_agrees_def)
  next
    case (Some b)
    have "hydratedStock tn b \<in> set ?L" unfolding L using r Some i by blast
    moreover have "s_key (hydratedStock tn b) = (x, i)" using procBase_Some(3) [OF Some] by simp
    ultimately obtain v where v: "gget (fold (\<lambda>s. gput (s_key s) s) ?L []) (x, i) = Some v"
      using gm.lookup_fold_defined [of "hydratedStock tn b" ?L "[]" s_key] by auto
    from gm.lookup_fold_member [OF v] have "v \<in> set ?L" "s_key v = (x, i)" by auto
    from member [OF this] Some have "v = hydratedStock tn b" by simp
    with Some look v show ?thesis by (simp add: prior_agrees_def)
  qed
qed

lemma prior_agrees_go:
  assumes ok: "ledger_ok (stocks d)" "ledger_live tn i (stocks d)" and tn: "TenantIDQueryFilter c tn"
    and x: "gget (fst (loadAncestorStocksGo c d tn seeds is False)) x \<noteq> None" and i: "i \<in> set is"
  shows "prior_agrees (gget (snd (loadAncestorStocksGo c d tn seeds is False)) (x, i)) (procBase d tn (x, i))"
proof -
  let ?ids = "loadAncestorIDs d tn seeds False"
  let ?repos = "filter (\<lambda>r. r_id r \<in> set ?ids \<and> (False \<or> deletedAtIsNil (r_deleted_at r))) (repository_Query c d)"
  let ?L = "filter (\<lambda>s. s_tenant s = tn \<and> s_repository s \<in> set ?ids \<and> notOutdatedIn tn (stocks d) s
      \<and> s_item s \<in> set is \<and> (False \<or> deletedAtIsNil (s_deleted_at s))) (stock_Query c d)"
  have ne: "?ids \<noteq> [] \<and> seeds \<noteq> []" using x by (auto simp: loadAncestorStocksGo_def Let_def split: if_splits)
  with i have look: "loadAncestorStocksGo c d tn seeds is False =
      (fold (\<lambda>r. gput (r_id r) r) ?repos [], fold (\<lambda>s. gput (s_key s) s) ?L [])"
    by (auto simp: loadAncestorStocksGo_def Let_def)
  from x obtain r where "gget (fold (\<lambda>r. gput (r_id r) r) ?repos []) x = Some r" by (auto simp: look)
  from gm.lookup_fold_member [OF this] have xid: "x \<in> set ?ids" by auto
  have base: "procBase d tn (x, i) = Some v" if v: "v \<in> set ?L" "s_key v = (x, i)" for v
  proof (rule procBase_eqI [OF ok])
    show "v \<in> set (stocks d)" "s_key v = (x, i)" using v by (auto simp: stock_Query_def)
    fix s assume s: "s \<in> set (stocks d)" "s_key s = (x, i)"
    then have "s_tenant s = tn" using ok(2) by (auto simp: ledger_live_def list_all_iff)
    with v s show "version s \<le> version v" by (auto simp: notOutdatedIn_def list_ex_iff not_less)
  qed
  show ?thesis
  proof (cases "procBase d tn (x, i)")
    case None
    have "gget (fold (\<lambda>s. gput (s_key s) s) ?L []) (x, i) = None"
    proof (cases "gget (fold (\<lambda>s. gput (s_key s) s) ?L []) (x, i)")
      case (Some v)
      from gm.lookup_fold_member [OF Some] have "v \<in> set ?L" "s_key v = (x, i)" by auto
      from base [OF this] None show ?thesis by simp
    qed
    with None look show ?thesis by (simp add: prior_agrees_def)
  next
    case (Some b)
    note b = procBase_Some [OF Some]
    have "notOutdatedIn tn (stocks d) b"
    proof -
      have "\<not> version s2 > version b" if "s2 \<in> set (stocks d)" "s_key s2 = s_key b" for s2
        using procBase_max [OF ok(2) that(1), of x] that(2) b(3) Some by auto
      then show ?thesis by (auto simp: notOutdatedIn_def list_ex_iff)
    qed
    moreover have "visible c (s_tenant b) (s_deleted_at b)"
      using tn b by (simp add: visible_def HistoryMixinQueryFilter_def deletedAtIsZero_def)
    ultimately have "b \<in> set ?L"
      using b xid i by (auto simp: stock_Query_def deletedAtIsNil_def)
    from gm.lookup_fold_defined [of b ?L "[]" s_key] this b(3) obtain v where
      v: "gget (fold (\<lambda>s. gput (s_key s) s) ?L []) (x, i) = Some v" by auto
    from gm.lookup_fold_member [OF v] base have "procBase d tn (x, i) = Some v" by auto
    with v look show ?thesis by (simp add: prior_agrees_def sameCounters_def)
  qed
qed

lemma prior_agrees_loader:
  assumes "ledger_ok (stocks d)" "ledger_live tn i (stocks d)" "TenantIDQueryFilter c tn"
    and "gget (fst (loadAncestorStocks dialect c d tn seeds is False)) x \<noteq> None" and "i \<in> set is"
  shows "prior_agrees (gget (snd (loadAncestorStocks dialect c d tn seeds is False)) (x, i)) (procBase d tn (x, i))"
  using assms prior_agrees_proc prior_agrees_go [OF assms(1-3)]
  by (auto simp: loadAncestorStocks_def split: if_splits)


section \<open>The rows after the request\<close>

text \<open>
  Rows appended one per group, each above every row of its group, are the current rows; the
  other groups keep theirs.
\<close>

lemma currentStock_append:
  assumes new: "stocks d' = stocks d @ rows"
    and n: "n \<in> set rows" "s_key n = (x, i)" "s_tenant n = tn" "s_deleted_at n = None"
    and one: "\<And>s. s \<in> set rows \<Longrightarrow> s_key s = (x, i) \<Longrightarrow> s = n"
    and above: "\<And>s. s \<in> set (stocks d) \<Longrightarrow> s_tenant s = tn \<Longrightarrow> s_key s = (x, i) \<Longrightarrow> version s < version n"
  shows "currentStock d' tn i x = n"
proof -
  have "procBase d' tn (x, i) = Some n"
    unfolding procBase_def new
  proof (rule latest_of_eqI)
    show "n \<in> set (filter (\<lambda>s. s_tenant s = tn \<and> s_key s = (x, i) \<and> deletedAtIsNil (s_deleted_at s)) (stocks d @ rows))"
      using n by (simp add: deletedAtIsNil_def)
    fix t assume "t \<in> set (filter (\<lambda>s. s_tenant s = tn \<and> s_key s = (x, i) \<and> deletedAtIsNil (s_deleted_at s)) (stocks d @ rows))"
    then show "t = n \<or> version t < version n" using one above by auto
  qed
  then show ?thesis by (simp add: currentStock_def)
qed

lemma currentStock_other:
  assumes new: "stocks d' = stocks d @ rows" and none: "\<And>s. s \<in> set rows \<Longrightarrow> s_key s \<noteq> (x, i)"
  shows "currentStock d' tn i x = currentStock d tn i x"
proof -
  have "filter (\<lambda>s. s_tenant s = tn \<and> s_key s = (x, i) \<and> deletedAtIsNil (s_deleted_at s)) rows = []"
    using none by (auto simp: filter_empty_conv)
  then show ?thesis unfolding currentStock_def procBase_def new filter_append by (simp only: append_Nil2)
qed

text \<open>The current rows after an execution are the rows the walks computed.\<close>

lemma executed_currentStock:
  assumes new: "stocks d' = stocks d @ executedStockRows i tn mv prior sm" and sm: "gmap_ok sm"
    and agree: "\<And>x. gget sm x \<noteq> None \<Longrightarrow> prior_agrees (gget prior (x, i)) (procBase d tn (x, i))"
    and live: "ledger_live tn i (stocks d)" and vb: "versions_bounded 0 (stocks d)"
  shows "same_stock (currentStock d' tn i x) (after_exec sm (currentStock d tn i) x)"
proof (cases "gget sm x")
  case None
  have "s_key s \<noteq> (x, i)" if "s \<in> set (executedStockRows i tn mv prior sm)" for s
  proof -
    from that obtain y rec where "(y, rec) \<in> set sm" "s_repository s = y"
      by (auto simp: executedStockRows_set [OF sm])
    with gmap_ok_entry [OF sm] None show ?thesis by auto
  qed
  from currentStock_other [OF new this] None show ?thesis by (simp add: same_stock_def after_exec_def)
next
  case (Some rec)
  let ?v = "case gget prior (x, i) of None \<Rightarrow> 0 | Some p \<Rightarrow> add64 (version p) 1"
  let ?n = "(executedRow i tn mv x rec)\<lparr>version := ?v\<rparr>"
  have mem: "(x, rec) \<in> set sm" using Some by (simp add: gget_def map_of_SomeD)
  have "currentStock d' tn i x = ?n"
  proof (rule currentStock_append [OF new])
    show "?n \<in> set (executedStockRows i tn mv prior sm)"
      unfolding executedStockRows_set [OF sm] using mem by force
    show "s_key ?n = (x, i)" "s_tenant ?n = tn" "s_deleted_at ?n = None" by simp_all
    show "s = ?n" if "s \<in> set (executedStockRows i tn mv prior sm)" "s_key s = (x, i)" for s
    proof -
      from that(1) obtain y rec' where y: "(y, rec') \<in> set sm"
        "s = (executedRow i tn mv y rec')\<lparr>version :=
           (case gget prior (y, i) of None \<Rightarrow> 0 | Some p \<Rightarrow> add64 (version p) 1)\<rparr>"
        by (auto simp: executedStockRows_set [OF sm])
      with that(2) have "y = x" by simp
      moreover from this y(1) gmap_ok_entry [OF sm] Some have "rec' = rec" by auto
      ultimately show ?thesis using y(2) by simp
    qed
    show "version s < version ?n" if s: "s \<in> set (stocks d)" "s_key s = (x, i)" for s
    proof -
      from procBase_max [OF live s] obtain b where b: "procBase d tn (x, i) = Some b" "version s \<le> version b"
        by blast
      from procBase_Some(1) [OF b(1)] vb have "fits64 (version b + 1)"
        by (auto simp: versions_bounded_def list_all_iff fits64_def)
      moreover from agree [of x] Some b(1) obtain p where "gget prior (x, i) = Some p" "version p = version b"
        by (auto simp: prior_agrees_def split: option.splits)
      ultimately show ?thesis using b(2) by (simp add: add64_id)
    qed
  qed
  with Some show ?thesis by (simp add: same_stock_def after_exec_def)
qed

section \<open>The rollup survives an execution\<close>

lemma rollup_at_cong:
  assumes "\<And>x. same_stock (a x) (b x)"
  shows "rollup_at m a r = rollup_at m b r"
proof -
  have "quantity (a x) = quantity (b x)" "own_quantity (a x) = own_quantity (b x)" for x
    using assms by (simp_all add: same_stock_def)
  then show ?thesis by (simp add: rollup_at_def)
qed

lemma exec_keys_loaded:
  assumes ex: "applyItemMovementStockDelta i f t q rm prior [] True = Inr sm" and "gget sm x \<noteq> None"
  shows "gget rm x \<noteq> None"
proof -
  let ?l = "lowestCommonAncestor rm f t"
  from ex obtain sm1 where
    w1: "applyRepositoryStockDelta (walk_fuel rm) i f ?l (neg64 q) rm prior [] True = Inr sm1"
    and w2: "applyRepositoryStockDelta (walk_fuel rm) i t ?l q rm prior sm1 True = Inr sm"
    by (auto simp: applyItemMovementStockDelta_def Let_def split: sum.splits)
  from exec.walk_path_of [OF w1] exec.walk_path_of [OF w2] obtain pf pt where
    p: "walk_path (walk_fuel rm) rm ?l f = Some pf" "\<forall>x \<in> set pf. gget rm x \<noteq> None"
    "walk_path (walk_fuel rm) rm ?l t = Some pt" "\<forall>x \<in> set pt. gget rm x \<noteq> None" by blast
  with applyItemMovementStockDelta_keys [OF ex p(1,3), of x] assms(2) show ?thesis by blast
qed

lemma prior_same_stock:
  assumes "prior_agrees (gget prior (x, i)) (procBase d tn (x, i))"
  shows "same_stock (currentStock d tn i x) (execBase i prior [] x)"
  using assms
  by (auto simp: prior_agrees_def same_stock_def currentStock_def ggetd_def sameCounters_def zero_stock_def
      split: option.splits)

text \<open>What the proof assumes of the trees and the ledger; every part of it computes.\<close>

definition tree_ready :: "repo_map \<Rightarrow> uuid \<Rightarrow> bool" where
  "tree_ready m r \<longleftrightarrow> gget m r \<noteq> None \<and> within_cap m r"

definition ledger_ready :: "db \<Rightarrow> uuid \<Rightarrow> uuid \<Rightarrow> bool" where
  "ledger_ready d tn i \<longleftrightarrow> repo_ids_ok d \<and> ledger_ok (stocks d) \<and> ledger_live tn i (stocks d)
     \<and> versions_bounded 0 (stocks d)"

definition rollup_ready :: "repo_map \<Rightarrow> (uuid \<Rightarrow> stock) \<Rightarrow> int64 \<Rightarrow> bool" where
  "rollup_ready m row q \<longleftrightarrow> list_all (\<lambda>x. virtual_ok m row x \<and> quantity_room q (row x)) (gkeys m)"

definition rollup_ok :: "repo_map \<Rightarrow> (uuid \<Rightarrow> stock) \<Rightarrow> bool" where
  "rollup_ok m row \<longleftrightarrow> list_all (rollup_at m row) (gkeys m)"

lemma ExecuteItemMovement_keeps_rollup:
  assumes run: "ExecuteItemMovement undisturbed dialect c mv tn d = Inr d'" and get: "itemMovement_Get c d mv = Inr m"
    and vis: "TenantIDQueryFilter c tn" and led: "ledger_ready d tn (im_item m)"
    and trees: "tree_ready (tenantTree d tn False) (im_from m)" "tree_ready (tenantTree d tn False) (im_to m)"
    and q: "0 < im_quantity m" "fits64 (im_quantity m)"
    and ready: "rollup_ready (tenantTree d tn False) (currentStock d tn (im_item m)) (im_quantity m)"
    and own: "\<not> isVirtual (tenantTree d tn False) (im_from m) \<Longrightarrow>
      im_quantity m \<le> own_quantity (currentStock d tn (im_item m) (im_from m))"
    and inv: "rollup_ok (tenantTree d tn False) (currentStock d tn (im_item m))"
  shows "rollup_ok (tenantTree d' tn False) (currentStock d' tn (im_item m))"
proof -
  let ?t = "tenantTree d tn False" and ?i = "im_item m" and ?f = "im_from m" and ?to = "im_to m"
  let ?row = "currentStock d tn ?i"
  obtain rm prior where ld: "loadAncestorStocks dialect c d tn [?f, ?to] [?i] False = (rm, prior)" by fastforce
  from ExecuteItemMovement_Inr [OF run get ld] obtain sm where
    sm: "applyItemMovementStockDelta ?i ?f ?to (im_quantity m) rm prior [] True = Inr sm"
    and new: "stocks d' = stocks d @ executedStockRows ?i tn mv prior sm"
    and repos: "repositories d' = repositories d" by blast
  have ids: "repo_ids_ok d" and ok: "ledger_ok (stocks d)" "ledger_live tn ?i (stocks d)"
    "versions_bounded 0 (stocks d)" using led by (simp_all add: ledger_ready_def)
  have tree: "tenantTree d' tn False = ?t" by (simp add: tenantTree_def repos)
  have present: "x \<noteq> 0" if "gget ?t x \<noteq> None" for x
    using that tenantTree_gget [OF ids] ids by (fastforce simp: repo_ids_ok_def list_all_iff)
  have above: "loaded_above ?t rm ?f" "loaded_above ?t rm ?to"
    using loaded_above_loader [OF ids, of tn False _ "[?f, ?to]" c dialect "[?i]"] trees vis ld
    by (auto simp: tree_ready_def)
  have acyc: "acyclic_at ?t ?f" "acyclic_at ?t ?to"
    using trees present within_cap_acyclic by (simp_all add: tree_ready_def)
  have agree: "prior_agrees (gget prior (x, ?i)) (procBase d tn (x, ?i))" if "gget rm x \<noteq> None" for x
    using prior_agrees_loader [OF ok(1,2) vis, of dialect "[?f, ?to]" "[?i]" x] that ld by simp
  have "rollup_at ?t (after_exec sm ?row) r" if r: "r \<in> set (gkeys ?t)" for r
  proof (rule executor_rollup_at [OF sm acyc above])
    show "?f \<noteq> 0" "?to \<noteq> 0" "r \<noteq> 0" using trees r present by (auto simp: tree_ready_def gkeys_gget)
    show "rollup_at ?t ?row r" using inv r by (simp add: rollup_ok_def list_all_iff)
    fix x assume x: "anc ?t ?f x \<or> anc ?t ?to x" "gget rm x \<noteq> None"
    then have "gget ?t x \<noteq> None"
      using loaded_above_step(1) [OF above(1), of x] loaded_above_step(1) [OF above(2), of x] by auto
    then have "virtual_ok ?t ?row x \<and> quantity_room (im_quantity m) (?row x)"
      using ready by (auto simp: rollup_ready_def list_all_iff gkeys_gget)
    with prior_same_stock [OF agree [OF x(2)]]
    show "virtual_ok ?t ?row x \<and> quantity_room (im_quantity m) (?row x)
        \<and> same_stock (?row x) (execBase ?i prior [] x)" by blast
  qed (use q own in auto)
  moreover have "same_stock (currentStock d' tn ?i x) (after_exec sm ?row x)" for x
    using executed_currentStock [OF new apply_gmap_ok [OF sm] _ ok(2,3)] agree exec_keys_loaded [OF sm] by blast
  ultimately show ?thesis
    using rollup_at_cong [of "currentStock d' tn ?i" "after_exec sm ?row" ?t]
    by (simp add: rollup_ok_def list_all_iff tree)
qed

end
