(* ===== verification/RepositoryMovements.thy ===== *)
theory RepositoryMovements
  imports ExecuteRollup
begin

text \<open>
  The repository movement handlers of service/stock/impl.go: a repository moves to another
  parent with everything it holds. Create and delete read their stock baseline first and
  write later; in between, other transactions may commit (READ COMMITTED). \<open>env\<close> is what they
  commit before the rebase snapshot is read, \<open>env'\<close> what they commit between the snapshot
  and the INSERT; both are the identity when nothing interferes.
\<close>

section \<open>Rows\<close>

record create_repository_movement_input =
  cr_repository :: uuid
  cr_from :: "uuid option"
  cr_to :: uuid
  cr_handler :: string
  cr_collection :: uuid
  cr_position :: int64

definition new_repository_movement ::
  "ctx \<Rightarrow> db \<Rightarrow> uuid \<Rightarrow> create_repository_movement_input \<Rightarrow> repository_movement"
where
  "new_repository_movement c d tenantID input =
     \<lparr>rm_id = c_uuid c (writes d), rm_tenant = tenantID, rm_repository = cr_repository input,
      rm_from = (case cr_from input of None \<Rightarrow> 0 | Some f \<Rightarrow> f), rm_to = cr_to input,
      rm_executed = False, rm_executed_at = None, rm_handler = cr_handler input,
      rm_collection = cr_collection input, rm_position = cr_position input,
      rm_created_at = c_clock c (writes d), rm_deleted_at = None, rm_deleted_by = 0\<rparr>"

definition repositoryMovement_Create ::
  "ctx \<Rightarrow> create_repository_movement_input \<Rightarrow> db \<Rightarrow> error + (repository_movement \<times> db)"
where
  "repositoryMovement_Create c input d =
     (case TenantIDMutationHook c None of
        Inl e \<Rightarrow> Inl e
      | Inr tenantID \<Rightarrow>
          if cr_handler input = [] then Inl ErrValidation
          else if list_ex (\<lambda>m. rm_id m = c_uuid c (writes d)) (repository_movements d) then Inl primary_key_violation
          else if \<not> repository_exists d (cr_repository input) \<or> \<not> repository_exists d (cr_to input)
            \<or> (case cr_from input of None \<Rightarrow> False | Some f \<Rightarrow> \<not> repository_exists d f)
            then Inl foreign_key_violation
          else let mv = new_repository_movement c d tenantID input in
            Inr (mv, tick (d\<lparr>repository_movements := repository_movements d @ [mv]\<rparr>)))"

definition repositoryMovement_Update ::
  "ctx \<Rightarrow> uuid \<Rightarrow> (repository_movement \<Rightarrow> repository_movement) \<Rightarrow> db \<Rightarrow> error + db"
where
  "repositoryMovement_Update c i f d =
     (case update_where (\<lambda>m. rm_id m = i \<and> mutable c (rm_tenant m) (rm_deleted_at m)) f (repository_movements d) of
        Inl e \<Rightarrow> Inl e
      | Inr rows \<Rightarrow> Inr (tick (d\<lparr>repository_movements := rows\<rparr>)))"

definition repository_SetParent :: "ctx \<Rightarrow> uuid \<Rightarrow> uuid \<Rightarrow> db \<Rightarrow> error + db" where
  "repository_SetParent c i parent d =
     (case update_where (\<lambda>r. r_id r = i \<and> mutable c (r_tenant r) (r_deleted_at r))
             (\<lambda>r. r\<lparr>r_parent := parent\<rparr>) (repositories d) of
        Inl e \<Rightarrow> Inl e
      | Inr rows \<Rightarrow> Inr (tick (d\<lparr>repositories := rows\<rparr>)))"

section \<open>The fan-out\<close>

text \<open>One row per entry that is kept: the walk's delta on the live row, a version above the floor.\<close>

definition rebasedRowAt ::
  "uuid \<Rightarrow> uuid \<Rightarrow> (stock_key, stock) gomap \<Rightarrow> prior_map \<Rightarrow> uuid \<Rightarrow> uuid \<Rightarrow> stock \<Rightarrow> stock"
where
  "rebasedRowAt tenantID movementID live old repoID itemID walked =
     (rebasedStock (ggetd zero_stock live (repoID, itemID)) walked (ggetd zero_stock old (repoID, itemID)))
       \<lparr>s_tenant := tenantID, s_repository := repoID, s_item := itemID, s_movement := movementID\<rparr>"

definition rebasedRow ::
  "uuid \<Rightarrow> uuid \<Rightarrow> (stock_key, stock) gomap \<Rightarrow> prior_map \<Rightarrow> uuid \<times> uuid \<times> stock \<Rightarrow> stock"
where
  "rebasedRow tenantID movementID live old e =
     (case e of (repoID, itemID, walked) \<Rightarrow> rebasedRowAt tenantID movementID live old repoID itemID walked)"

definition insertRebased ::
  "ctx \<Rightarrow> uuid \<Rightarrow> uuid \<Rightarrow> (uuid \<Rightarrow> bool) \<Rightarrow> nested_map \<Rightarrow> prior_map \<Rightarrow> db
     \<Rightarrow> (stock_key, int64) gomap \<Rightarrow> (stock_key, stock) gomap \<Rightarrow> error + db"
where
  "insertRebased c tenantID movementID keepItem stockMap ancestorStocks d rebaseFloor rebaseLive =
     wrapOCC (stock_CreateBulk c (sortStockCreates (fst (assignVersions
       (map (rebasedRow tenantID movementID rebaseLive ancestorStocks)
         (filter (\<lambda>(_, itemID, _). keepItem itemID) (nestedEntries stockMap)))
       (newStockVersionTrackerFromFloors rebaseFloor)))) d)"

definition rebaseFanout ::
  "db_dialect \<Rightarrow> ctx \<Rightarrow> uuid \<Rightarrow> uuid \<Rightarrow> (uuid \<Rightarrow> bool) \<Rightarrow> nested_map \<Rightarrow> prior_map \<Rightarrow> (db \<Rightarrow> db) \<Rightarrow> db \<Rightarrow> error + db"
where
  "rebaseFanout dialect c tenantID movementID keepItem stockMap ancestorStocks env' d =
     (case loadStockRebaseSnapshot dialect c d tenantID stockMap of
        (rebaseFloor, rebaseLive) \<Rightarrow>
          insertRebased c tenantID movementID keepItem stockMap ancestorStocks (env' d) rebaseFloor rebaseLive)"

section \<open>CreateRepositoryMovement\<close>

definition firstByCreatedAtDesc :: "repository_movement list \<Rightarrow> repository_movement option" where
  "firstByCreatedAtDesc rows =
     fold (\<lambda>r best. case best of None \<Rightarrow> Some r
                    | Some b \<Rightarrow> if rm_created_at b < rm_created_at r then Some r else best) rows None"

definition lastRepoMovement :: "ctx \<Rightarrow> db \<Rightarrow> uuid \<Rightarrow> repository_movement option" where
  "lastRepoMovement c d repositoryID =
     firstByCreatedAtDesc (filter (\<lambda>m. rm_repository m = repositoryID \<and> \<not> rm_executed m)
       (repositoryMovement_Query c d))"

definition resolveFromID ::
  "ctx \<Rightarrow> db \<Rightarrow> create_repository_movement_input \<Rightarrow> repository \<Rightarrow> error + uuid"
where
  "resolveFromID c d input fromRepo =
     (let expectedFromID = (case lastRepoMovement c d (cr_repository input) of
            Some m \<Rightarrow> rm_to m | None \<Rightarrow> r_id fromRepo)
      in case cr_from input of
           Some f \<Rightarrow> if f \<noteq> uuid_Nil
             then (if f \<noteq> expectedFromID then Inl (ErrText ''wrong FromID'') else Inr f)
             else Inr expectedFromID
         | None \<Rightarrow> Inr expectedFromID)"

text \<open>The walks of one item the moving repository holds; \<open>subtract\<close> for the deletion.\<close>

definition simulateRepositoryItem ::
  "bool \<Rightarrow> uuid \<Rightarrow> uuid \<Rightarrow> repo_map \<Rightarrow> uuid \<times> int64 \<Rightarrow> nested_map \<Rightarrow> error + nested_map"
where
  "simulateRepositoryItem subtract fromID toID repositoryMap e stockMap =
     (case e of (itemID, q) \<Rightarrow>
        (case simulateRepositoryStockMapWithMode itemID fromID toID (neg64 q) stockMap repositoryMap False subtract of
           Inl e \<Rightarrow> Inl e
         | Inr stockMap \<Rightarrow>
             simulateRepositoryStockMapWithMode itemID toID fromID q stockMap repositoryMap False subtract))"

definition itemQuantities :: "(uuid, stock) gomap \<Rightarrow> (uuid \<times> int64) list" where
  "itemQuantities perItem = map (\<lambda>(itemID, rec). (itemID, quantity rec)) perItem"

text \<open>The fan-out keeps the items the moving repository itself holds.\<close>

definition createRepositoryMovementFanout ::
  "db_dialect \<Rightarrow> ctx \<Rightarrow> uuid \<Rightarrow> uuid \<Rightarrow> (db \<Rightarrow> db) \<Rightarrow> (db \<Rightarrow> db) \<Rightarrow> nested_map \<Rightarrow> prior_map
     \<Rightarrow> repository_movement \<Rightarrow> db \<Rightarrow> error + (repository_movement \<times> db)"
where
  "createRepositoryMovementFanout dialect c tenantID repositoryID env env' stockMap ancestorStocks movement d =
     (case rebaseFanout dialect c tenantID (rm_id movement)
             (\<lambda>itemID. itemID \<in> set (gkeys (ggetd [] stockMap repositoryID)))
             stockMap ancestorStocks env' (env d) of
        Inl e \<Rightarrow> Inl e
      | Inr d \<Rightarrow> Inr (movement, d))"

text \<open>The body after the load: the walks of every item held, the hook, the row and the fan-out.\<close>

definition createRepositoryMovementStocks ::
  "db_dialect \<Rightarrow> ctx \<Rightarrow> uuid \<Rightarrow> create_repository_movement_input \<Rightarrow> uuid \<Rightarrow> hook \<Rightarrow> (db \<Rightarrow> db) \<Rightarrow> (db \<Rightarrow> db)
     \<Rightarrow> db \<Rightarrow> repo_map \<Rightarrow> prior_map \<Rightarrow> error + (repository_movement \<times> db)"
where
  "createRepositoryMovementStocks dialect c tenantID input fromID hook env env' d repositoryMap ancestorStocks =
     (case foldRes (simulateRepositoryItem False fromID (cr_to input) repositoryMap)
             (itemQuantities (ggetd [] (nestStockKeyMap ancestorStocks) (cr_repository input)))
             (nestStockKeyMap ancestorStocks) of
        Inl e \<Rightarrow> Inl e
      | Inr stockMap \<Rightarrow>
          (case hook of
             Some e \<Rightarrow> Inl e
           | None \<Rightarrow>
               (case repositoryMovement_Create c input d of
                  Inl e \<Rightarrow> Inl e
                | Inr (movement, d) \<Rightarrow>
                    createRepositoryMovementFanout dialect c tenantID (cr_repository input) env env'
                      stockMap ancestorStocks movement d)))"

definition CreateRepositoryMovement ::
  "db_dialect \<Rightarrow> ctx \<Rightarrow> uuid \<Rightarrow> create_repository_movement_input \<Rightarrow> hook \<Rightarrow> (db \<Rightarrow> db) \<Rightarrow> (db \<Rightarrow> db) \<Rightarrow> db
     \<Rightarrow> error + (repository_movement \<times> db)"
where
  "CreateRepositoryMovement dialect c tenantID input hook env env' d =
     (case repository_Get c d (cr_repository input) of
        Inl e \<Rightarrow> Inl e
      | Inr repo \<Rightarrow>
     (case repository_Get c d (r_parent repo) of
        Inl e \<Rightarrow> Inl e
      | Inr fromRepo \<Rightarrow>
     (case repositoryInTenant c d tenantID (cr_to input) of
        Inl e \<Rightarrow> Inl e
      | Inr toRepo \<Rightarrow>
          if virtual_repo fromRepo \<and> virtual_repo toRepo then Inl ErrVirtualRepoMovement
          else case resolveFromID c d input fromRepo of
            Inl e \<Rightarrow> Inl e
          | Inr fromID \<Rightarrow>
              (case loadAncestorStocks dialect c d tenantID [cr_repository input, fromID, cr_to input]
                      (loadItemIDsAtRepo c d tenantID (cr_repository input)) False of
                 (repositoryMap, ancestorStocks) \<Rightarrow>
                   createRepositoryMovementStocks dialect c tenantID (input\<lparr>cr_from := Some fromID\<rparr>) fromID
                     hook env env' d repositoryMap ancestorStocks))))"

section \<open>ExecuteRepositoryMovement\<close>

text \<open>The rows of one item, collected before any is written.\<close>

definition executeRepositoryItem ::
  "uuid \<Rightarrow> uuid \<Rightarrow> uuid \<Rightarrow> uuid \<Rightarrow> repo_map \<Rightarrow> prior_map \<Rightarrow> uuid \<times> int64 \<Rightarrow> stock list \<Rightarrow> error + stock list"
where
  "executeRepositoryItem tenantID movementID fromID toID repoMap priorStocks e rows =
     (case e of (itemID, q) \<Rightarrow>
        (case applyItemMovementStockDelta itemID fromID toID q repoMap priorStocks [] False of
           Inl e \<Rightarrow> Inl e
         | Inr stockMap \<Rightarrow>
             Inr (rows @ map (\<lambda>(repoID, rec). executedRow itemID tenantID movementID repoID rec) stockMap)))"

text \<open>
  The result of the \<open>executed\<close> update is not checked: an update that finds no row leaves a nil
  movement behind, which is dereferenced when a stock row is built.
\<close>

definition executeRepositoryMovementStocks ::
  "others \<Rightarrow> ctx \<Rightarrow> uuid \<Rightarrow> uuid \<Rightarrow> repository_movement \<Rightarrow> uuid \<Rightarrow> bool \<Rightarrow> db \<Rightarrow> repo_map \<Rightarrow> prior_map \<Rightarrow> error + db"
where
  "executeRepositoryMovementStocks others c i tenantID m fromID updateFailed d repoMap priorStocks =
     (case foldRes (executeRepositoryItem tenantID i fromID (rm_to m) repoMap priorStocks)
             (itemQuantities (ggetd [] (nestStockKeyMap priorStocks) (rm_repository m))) [] of
        Inl e \<Rightarrow> Inl e
      | Inr rows \<Rightarrow>
          if rows \<noteq> [] \<and> updateFailed then Inl FatalNilDereference
          else case wrapOCC (stock_CreateBulk c (sortStockCreates
                     (fst (assignVersions rows (newStockVersionTracker priorStocks)))) (others 5 d)) of
                 Inl e \<Rightarrow> Inl e
               | Inr d \<Rightarrow> repository_SetParent c (rm_repository m) (rm_to m) (others 6 d))"

definition executeRepositoryMovementUpdated ::
  "others \<Rightarrow> db_dialect \<Rightarrow> ctx \<Rightarrow> uuid \<Rightarrow> uuid \<Rightarrow> repository_movement \<Rightarrow> bool \<Rightarrow> db \<Rightarrow> error + db"
where
  "executeRepositoryMovementUpdated others dialect c i tenantID m updateFailed d =
     (case repository_Get c (others 3 d) (rm_repository m) of
        Inl _ \<Rightarrow> Inl (ErrText ''repository not found'')
      | Inr repoToBeMoved \<Rightarrow>
          let fromID = (if rm_from m = uuid_Nil then r_id repoToBeMoved else rm_from m);
              d = others 4 (others 3 d) in
          (case loadAncestorStocks dialect c d tenantID [rm_repository m, fromID, rm_to m]
                  (loadItemIDsAtRepo c d tenantID (rm_repository m)) False of
             (repoMap, priorStocks) \<Rightarrow>
               executeRepositoryMovementStocks others c i tenantID m fromID updateFailed d repoMap priorStocks))"

definition ExecuteRepositoryMovement ::
  "others \<Rightarrow> db_dialect \<Rightarrow> ctx \<Rightarrow> uuid \<Rightarrow> uuid \<Rightarrow> db \<Rightarrow> error + db"
where
  "ExecuteRepositoryMovement others dialect c i tenantID d =
     (case repositoryMovement_Get c d i of
        Inl _ \<Rightarrow> Inl (ErrText ''repositoryMovement not found'')
      | Inr m \<Rightarrow>
          if rm_executed m then Inl (ErrText ''RepositoryMovement is already executed'')
          else
            let d = others 0 d
            in case checkExecuteNextMovementByPosition c d (rm_collection m) (rm_position m) of
                 Inl e \<Rightarrow> Inl e
               | Inr _ \<Rightarrow>
            let d = others 1 d
            in case repositoryInTenant c d tenantID (rm_to m) of
                 Inl e \<Rightarrow> Inl e
               | Inr _ \<Rightarrow>
            let d = others 2 d
            in case repositoryMovement_Update c i
                  (\<lambda>m. m\<lparr>rm_executed := True, rm_executed_at := Some (c_clock c (writes d))\<rparr>) d of
                 Inl _ \<Rightarrow> executeRepositoryMovementUpdated others dialect c i tenantID m True d
               | Inr d \<Rightarrow> executeRepositoryMovementUpdated others dialect c i tenantID m False d)"

section \<open>DeleteRepositoryMovement\<close>

definition originalQuantities :: "ctx \<Rightarrow> db \<Rightarrow> uuid \<Rightarrow> uuid \<Rightarrow> (uuid, int64) gomap" where
  "originalQuantities c d movementID repositoryID =
     fold (\<lambda>s. gput (s_item s) (quantity s))
       (filter (\<lambda>s. s_movement s = movementID \<and> s_repository s = repositoryID) (stock_Query c d)) []"

definition deleteRepositoryMovementStocks ::
  "db_dialect \<Rightarrow> ctx \<Rightarrow> uuid \<Rightarrow> uuid \<Rightarrow> repository_movement \<Rightarrow> (db \<Rightarrow> db) \<Rightarrow> (db \<Rightarrow> db) \<Rightarrow> db
     \<Rightarrow> repo_map \<Rightarrow> prior_map \<Rightarrow> error + db"
where
  "deleteRepositoryMovementStocks dialect c i tenantID m env env' d repositoryMap ancestorStocks =
     (case foldRes (simulateRepositoryItem True (rm_from m) (rm_to m) repositoryMap)
             (originalQuantities c d i (rm_repository m)) (nestStockKeyMap ancestorStocks) of
        Inl e \<Rightarrow> Inl e
      | Inr stockMap \<Rightarrow>
          (case rebaseFanout dialect c tenantID i (\<lambda>_. True) stockMap ancestorStocks env' (env d) of
             Inl e \<Rightarrow> Inl e
           | Inr d \<Rightarrow> repositoryMovement_Update c i
               (\<lambda>m. m\<lparr>rm_deleted_at := Some (c_clock c (writes d)), rm_deleted_by := c_user c\<rparr>) d))"

definition DeleteRepositoryMovement ::
  "db_dialect \<Rightarrow> ctx \<Rightarrow> uuid \<Rightarrow> uuid \<Rightarrow> (db \<Rightarrow> db) \<Rightarrow> (db \<Rightarrow> db) \<Rightarrow> db \<Rightarrow> error + db"
where
  "DeleteRepositoryMovement dialect c i tenantID env env' d =
     (case repositoryMovement_Get c d i of
        Inl _ \<Rightarrow> Inl (ErrText ''repositoryMovement not found'')
      | Inr m \<Rightarrow>
          if rm_executed m then Inl ErrDeleteExecutedMovement
          else (case loadAncestorStocks dialect c d tenantID [rm_repository m, rm_from m, rm_to m]
                       (gkeys (originalQuantities c d i (rm_repository m))) False of
             (repositoryMap, ancestorStocks) \<Rightarrow>
               deleteRepositoryMovementStocks dialect c i tenantID m env env' d repositoryMap ancestorStocks))"

end
