(* ===== verification/Collections.thy ===== *)
theory Collections
  imports RepositoryMovements
begin

text \<open>
  Collection movements: \<open>CreateCollectionMovement\<close>, the source of a repository position,
  \<open>DeleteCollection\<close> (service/stock/impl.go) and the deferred consistency check
  (deferred_underflow.go). Lemmas: what the validation has checked of every position, and what
  the consistency check says of every row; CollectionProperties has the theorems.
\<close>

section \<open>Inputs\<close>

record collection_position =
  cp_handler :: string
  cp_from :: uuid
  cp_to :: uuid
  cp_item :: "uuid option"
  cp_quantity :: "int64 option"
  cp_repository :: "uuid option"

record create_collection_input =
  cc_id :: uuid
  cc_handler :: "string option"
  cc_positions :: "collection_position list"
  cc_tenant :: uuid

datatype movement_type = ItemMovementType | RepositoryMovementType

type_synonym collection_output = "(uuid \<times> movement_type) list"

section \<open>Deferred consistency check\<close>

fun checkEffective :: "uuid list \<Rightarrow> prior_map \<Rightarrow> error + unit" where
  "checkEffective sourceSet [] = Inr ()"
| "checkEffective sourceSet ((key, rec) # rest) =
     (if fst key \<notin> set sourceSet then checkEffective sourceSet rest
      else if effectiveStock rec < 0 then Inl (ErrStockUnderflow (fst key) (effectiveStock rec))
      else checkEffective sourceSet rest)"

definition consistencyCheckSourceRows ::
  "db_dialect \<Rightarrow> ctx \<Rightarrow> db \<Rightarrow> uuid \<Rightarrow> uuid list \<Rightarrow> uuid list \<Rightarrow> error + unit"
where
  "consistencyCheckSourceRows dialect c d tenantID repoIDs itemIDs =
     (if repoIDs = [] then Inr ()
      else checkEffective repoIDs (snd (loadAncestorStocks dialect c d tenantID repoIDs itemIDs False)))"

section \<open>CreateCollectionMovement\<close>

text \<open>The checks of one position, before anything is written; they fill the repository map.\<close>

definition validatePosition :: "ctx \<Rightarrow> db \<Rightarrow> collection_position \<Rightarrow> repo_map \<Rightarrow> error + repo_map" where
  "validatePosition c d p repositoryMap =
     (case repository_Get c d (cp_from p) of
        Inl e \<Rightarrow> Inl e
      | Inr fromRepo \<Rightarrow>
     (case repository_Get c d (cp_to p) of
        Inl e \<Rightarrow> Inl e
      | Inr toRepo \<Rightarrow>
          let repositoryMap = gput (r_id toRepo) toRepo (gput (r_id fromRepo) fromRepo repositoryMap) in
          if virtual_repo fromRepo \<and> virtual_repo toRepo
          then Inl (ErrText ''movements between virtual repositories are not allowed'')
          else if (cp_repository p = None \<and> cp_item p = None) \<or> (cp_repository p \<noteq> None \<and> cp_item p \<noteq> None)
          then Inl (ErrText ''repositoryID or itemID should be sent'')
          else if (cp_item p \<noteq> None \<and> (case cp_quantity p of None \<Rightarrow> True | Some q \<Rightarrow> q \<le> 0))
            \<or> (cp_repository p \<noteq> None \<and> cp_quantity p \<noteq> None)
          then Inl (ErrText ''invalid quantity'')
          else case cp_repository p of
            None \<Rightarrow> Inr repositoryMap
          | Some r \<Rightarrow>
              (case repository_Get c d r of
                 Inl e \<Rightarrow> Inl e
               | Inr repo \<Rightarrow> Inr (gput (r_id repo) repo repositoryMap))))"

definition collection_Create :: "ctx \<Rightarrow> create_collection_input \<Rightarrow> db \<Rightarrow> error + db" where
  "collection_Create c dto d =
     (case TenantIDMutationHook c (Some (cc_tenant dto)) of
        Inl e \<Rightarrow> Inl e
      | Inr tenantID \<Rightarrow>
          if list_ex (\<lambda>m. cm_id m = cc_id dto) (collection_movements d) then Inl primary_key_violation
          else Inr (tick (d\<lparr>collection_movements := collection_movements d @
            [\<lparr>cm_id = cc_id dto, cm_tenant = tenantID,
              cm_handler = (case cc_handler dto of None \<Rightarrow> [] | Some h \<Rightarrow> h),
              cm_created_at = c_clock c (writes d), cm_deleted_at = None, cm_deleted_by = 0\<rparr>]\<rparr>)))"

fun lastTargetBefore :: "uuid \<Rightarrow> collection_position list \<Rightarrow> uuid \<Rightarrow> uuid" where
  "lastTargetBefore repositoryID [] fromID = fromID"
| "lastTargetBefore repositoryID (p # ps) fromID =
     lastTargetBefore repositoryID ps (if cp_repository p = Some repositoryID then cp_to p else fromID)"

definition resolveCollectionRepositoryFromID ::
  "ctx \<Rightarrow> db \<Rightarrow> collection_position list \<Rightarrow> nat \<Rightarrow> uuid \<Rightarrow> repo_map \<Rightarrow> uuid"
where
  "resolveCollectionRepositoryFromID c d positions idx repositoryID repositoryMap =
     (let fromID = lastTargetBefore repositoryID (take idx positions) uuid_Nil in
      if fromID \<noteq> uuid_Nil then fromID
      else case lastRepoMovement c d repositoryID of
        Some m \<Rightarrow> rm_to m
      | None \<Rightarrow> parentID repositoryMap repositoryID)"

record collection_run =
  run_db :: db
  run_sources :: "uuid list"
  run_items :: "uuid list"
  run_output :: collection_output

definition positionItemInput :: "create_collection_input \<Rightarrow> nat \<Rightarrow> collection_position \<Rightarrow> uuid \<Rightarrow> create_item_movement_input" where
  "positionItemInput dto idx p itemID =
     \<lparr>ci_item = itemID, ci_from = cp_from p, ci_to = cp_to p,
      ci_quantity = (case cp_quantity p of None \<Rightarrow> 0 | Some q \<Rightarrow> q), ci_handler = cp_handler p,
      ci_collection = cc_id dto, ci_position = int idx\<rparr>"

definition positionRepositoryInput ::
  "create_collection_input \<Rightarrow> nat \<Rightarrow> collection_position \<Rightarrow> uuid \<Rightarrow> uuid \<Rightarrow> create_repository_movement_input"
where
  "positionRepositoryInput dto idx p repositoryID fromID =
     \<lparr>cr_repository = repositoryID, cr_from = Some fromID, cr_to = cp_to p, cr_handler = cp_handler p,
      cr_collection = cc_id dto, cr_position = int idx\<rparr>"

text \<open>A real source is remembered for the consistency check at the end.\<close>

definition itemPositionRun ::
  "repo_map \<Rightarrow> collection_position \<Rightarrow> uuid \<Rightarrow> collection_run \<Rightarrow> item_movement \<Rightarrow> db \<Rightarrow> collection_run"
where
  "itemPositionRun repositoryMap p itemID run mv d =
     (if virtual_repo (ggetd zero_repository repositoryMap (cp_from p))
      then run\<lparr>run_db := d, run_output := run_output run @ [(im_id mv, ItemMovementType)]\<rparr>
      else run\<lparr>run_db := d, run_output := run_output run @ [(im_id mv, ItemMovementType)],
               run_sources := List.insert (cp_from p) (run_sources run),
               run_items := List.insert itemID (run_items run)\<rparr>)"

definition createItemPosition ::
  "others \<Rightarrow> db_dialect \<Rightarrow> ctx \<Rightarrow> create_collection_input \<Rightarrow> repo_map \<Rightarrow> nat \<Rightarrow> collection_position \<Rightarrow> uuid
     \<Rightarrow> collection_run \<Rightarrow> error + collection_run"
where
  "createItemPosition others dialect c dto repositoryMap idx p itemID run =
     (case CreateItemMovement others dialect c (cc_tenant dto) (positionItemInput dto idx p itemID) None None (run_db run) of
        Inl e \<Rightarrow> Inl e
      | Inr (mv, d) \<Rightarrow> Inr (itemPositionRun repositoryMap p itemID run mv d))"

definition createRepositoryPosition ::
  "db_dialect \<Rightarrow> ctx \<Rightarrow> create_collection_input \<Rightarrow> (db \<Rightarrow> db) \<Rightarrow> (db \<Rightarrow> db) \<Rightarrow> nat \<Rightarrow> collection_position
     \<Rightarrow> uuid \<Rightarrow> uuid \<Rightarrow> collection_run \<Rightarrow> error + collection_run"
where
  "createRepositoryPosition dialect c dto env env' idx p repositoryID fromID run =
     (if cp_from p \<noteq> uuid_Nil \<and> cp_from p \<noteq> fromID then Inl (ErrText ''wrong FromID'')
      else case CreateRepositoryMovement dialect c (cc_tenant dto)
                  (positionRepositoryInput dto idx p repositoryID fromID) None env env' (run_db run) of
             Inl e \<Rightarrow> Inl e
           | Inr (mv, d) \<Rightarrow>
               Inr (run\<lparr>run_db := d, run_output := run_output run @ [(rm_id mv, RepositoryMovementType)]\<rparr>))"

definition createPositionAt ::
  "db_dialect \<Rightarrow> ctx \<Rightarrow> create_collection_input \<Rightarrow> repo_map \<Rightarrow> (nat \<Rightarrow> db \<Rightarrow> db) \<Rightarrow> (nat \<Rightarrow> db \<Rightarrow> db)
     \<Rightarrow> nat \<Rightarrow> collection_position \<Rightarrow> collection_run \<Rightarrow> error + collection_run"
where
  "createPositionAt dialect c dto repositoryMap env env' idx p run =
     (case cp_item p of
        Some itemID \<Rightarrow> createItemPosition (\<lambda>_. env idx) dialect c dto repositoryMap idx p itemID run
      | None \<Rightarrow>
          (case cp_repository p of
             None \<Rightarrow> Inr run
           | Some repositoryID \<Rightarrow>
               createRepositoryPosition dialect c dto (env idx) (env' idx) idx p repositoryID
                 (resolveCollectionRepositoryFromID c (run_db run) (cc_positions dto) idx repositoryID repositoryMap)
                 run))"

definition createPosition ::
  "db_dialect \<Rightarrow> ctx \<Rightarrow> create_collection_input \<Rightarrow> repo_map \<Rightarrow> (nat \<Rightarrow> db \<Rightarrow> db) \<Rightarrow> (nat \<Rightarrow> db \<Rightarrow> db)
     \<Rightarrow> nat \<times> collection_position \<Rightarrow> collection_run \<Rightarrow> error + collection_run"
where
  "createPosition dialect c dto repositoryMap env env' ip run =
     createPositionAt dialect c dto repositoryMap env env' (fst ip) (snd ip) run"

lemmas createPosition_defs = createPosition_def createPositionAt_def createItemPosition_def
  createRepositoryPosition_def itemPositionRun_def

definition CreateCollectionMovement ::
  "db_dialect \<Rightarrow> ctx \<Rightarrow> create_collection_input \<Rightarrow> hook \<Rightarrow> (nat \<Rightarrow> db \<Rightarrow> db) \<Rightarrow> (nat \<Rightarrow> db \<Rightarrow> db) \<Rightarrow> db
     \<Rightarrow> error + (collection_output \<times> db)"
where
  "CreateCollectionMovement dialect c dto hook env env' d =
     (case foldRes (validatePosition c d) (cc_positions dto) [] of
        Inl e \<Rightarrow> Inl e
      | Inr repositoryMap \<Rightarrow>
     (case hook of
        Some e \<Rightarrow> Inl e
      | None \<Rightarrow>
     (case collection_Create c dto d of
        Inl e \<Rightarrow> Inl e
      | Inr d \<Rightarrow>
     (case foldRes (createPosition dialect (WithDeferredUnderflow c) dto repositoryMap env env')
             (enumerate 0 (cc_positions dto))
             \<lparr>run_db = d, run_sources = [], run_items = [], run_output = []\<rparr> of
        Inl e \<Rightarrow> Inl e
      | Inr run \<Rightarrow>
          if run_sources run = [] then Inr (run_output run, run_db run)
          else case consistencyCheckSourceRows dialect c (run_db run) (cc_tenant dto) (run_sources run) (run_items run) of
                 Inl e \<Rightarrow> Inl e
               | Inr _ \<Rightarrow> Inr (run_output run, run_db run)))))"

section \<open>DeleteCollection\<close>

definition collection_SoftDelete :: "ctx \<Rightarrow> uuid \<Rightarrow> db \<Rightarrow> error + db" where
  "collection_SoftDelete c i d =
     (case update_where (\<lambda>m. cm_id m = i \<and> mutable c (cm_tenant m) (cm_deleted_at m))
             (\<lambda>m. m\<lparr>cm_deleted_at := Some (c_clock c (writes d)), cm_deleted_by := c_user c\<rparr>)
             (collection_movements d) of
        Inl e \<Rightarrow> Inl e
      | Inr rows \<Rightarrow> Inr (tick (d\<lparr>collection_movements := rows\<rparr>)))"

definition DeleteCollection :: "ctx \<Rightarrow> uuid \<Rightarrow> db \<Rightarrow> error + db" where
  "DeleteCollection c i d =
     (case collection_Get c d i of
        Inl _ \<Rightarrow> Inl (ErrText ''inventoryCollection not found'')
      | Inr _ \<Rightarrow>
          if list_ex (\<lambda>m. im_collection m = i \<and> deletedAtIsNil (im_deleted_at m)) (itemMovement_Query c d)
          then Inl ErrCollectionHasMovements
          else if list_ex (\<lambda>m. rm_collection m = i \<and> deletedAtIsNil (rm_deleted_at m)) (repositoryMovement_Query c d)
          then Inl ErrCollectionHasMovements
          else collection_SoftDelete c i d)"

section \<open>Lemmas\<close>

lemma checkEffective_Inr:
  "checkEffective sources rows = Inr u \<Longrightarrow> (k, rec) \<in> set rows \<Longrightarrow> fst k \<in> set sources \<Longrightarrow> 0 \<le> effectiveStock rec"
  by (induction sources rows rule: checkEffective.induct) (auto split: if_splits)

lemma checkEffective_Inl:
  "checkEffective sources rows = Inl e \<Longrightarrow>
     \<exists>k rec. (k, rec) \<in> set rows \<and> fst k \<in> set sources \<and> effectiveStock rec < 0
       \<and> e = ErrStockUnderflow (fst k) (effectiveStock rec)"
  by (induction sources rows rule: checkEffective.induct) (fastforce split: if_splits)+

text \<open>A valid position names an item with a positive quantity or a repository without one.\<close>

definition position_ok :: "collection_position \<Rightarrow> bool" where
  "position_ok p \<longleftrightarrow>
     (case cp_item p of
        Some _ \<Rightarrow> cp_repository p = None \<and> (case cp_quantity p of None \<Rightarrow> False | Some q \<Rightarrow> 0 < q)
      | None \<Rightarrow> cp_repository p \<noteq> None \<and> cp_quantity p = None)"

lemma validatePosition_Inr:
  assumes "validatePosition c d p m = Inr m'"
  shows "position_ok p"
  using assms
  by (auto simp: validatePosition_def position_ok_def Let_def split: sum.splits if_splits option.splits)

lemma validate_all_Inr:
  "foldRes (validatePosition c d) ps m = Inr m' \<Longrightarrow> p \<in> set ps \<Longrightarrow> position_ok p"
  by (induction ps arbitrary: m) (auto split: sum.splits dest: validatePosition_Inr)

lemma validate_all_from:
  "foldRes (validatePosition c d) ps m = Inr m' \<Longrightarrow> p \<in> set ps \<Longrightarrow>
     (\<exists>f t. repository_Get c d (cp_from p) = Inr f \<and> repository_Get c d (cp_to p) = Inr t
        \<and> \<not> (virtual_repo f \<and> virtual_repo t))"
proof (induction ps arbitrary: m)
  case (Cons q ps)
  from Cons.prems(1) obtain u where u: "validatePosition c d q m = Inr u" "foldRes (validatePosition c d) ps u = Inr m'"
    by (auto split: sum.splits)
  show ?case
  proof (cases "p = q")
    case True
    with u(1) show ?thesis by (auto simp: validatePosition_def Let_def split: sum.splits if_splits)
  next
    case False
    with Cons.IH [OF u(2)] Cons.prems(2) show ?thesis by simp
  qed
qed simp

end
