(* ===== verification/Rebuild.thy ===== *)
theory Rebuild
  imports Collections
begin

text \<open>
  \<open>RebuildStockTable\<close> of service/stock/impl.go: the ledger of a tenant is dropped, the
  repository tree is rewound and every movement event is replayed in order. The event kinds
  are a \<open>linorder\<close> by their \<open>iota\<close> values, so that the closure handed to \<open>sort.Slice\<close> reads as in
  the code; RebuildProperties has the theorems.
\<close>

section \<open>Reading whole tables\<close>

definition GetRepositoriesDetails :: "ctx \<Rightarrow> db \<Rightarrow> repo_map" where
  "GetRepositoriesDetails c d = fold (\<lambda>r. gput (r_id r) r) (repository_Query c d) []"

definition GetCurrentRepositoriesStock :: "ctx \<Rightarrow> db \<Rightarrow> uuid list \<Rightarrow> nested_map" where
  "GetCurrentRepositoriesStock c d repositoryIDs =
     fold (\<lambda>r. nput (s_repository r) (s_item r) r)
       (filter (\<lambda>s. s_repository s \<in> set repositoryIDs
                  \<and> notOutdated (filter (\<lambda>s2. s_repository s2 \<in> set repositoryIDs) (stocks d)) s)
         (stock_Query c d)) []"

fun getRepositoriesParentsDetails :: "nat \<Rightarrow> uuid \<Rightarrow> repo_map \<Rightarrow> repo_map \<Rightarrow> error + repo_map" where
  "getRepositoriesParentsDetails 0 repositoryID reposMap parentsMap = Inl FatalStackOverflow"
| "getRepositoriesParentsDetails (Suc fuel) repositoryID reposMap parentsMap =
     (case gget reposMap repositoryID of
        None \<Rightarrow> Inr parentsMap
      | Some v \<Rightarrow>
          let parentsMap = gput repositoryID v parentsMap in
          if r_parent v = uuid_Nil then Inr parentsMap
          else getRepositoriesParentsDetails fuel (r_parent v) reposMap parentsMap)"

definition rebuildMapKeys :: "(uuid, 'v) gomap \<Rightarrow> uuid list" where
  "rebuildMapKeys m = gkeys m"

section \<open>sort.Slice\<close>

text \<open>
  A sort by the closure the caller hands over. The library's algorithm is another one and not
  stable; \<open>sort_Slice_unique\<close> in RebuildProperties shows when that makes no difference.
\<close>

fun insertSlice :: "('a \<Rightarrow> 'a \<Rightarrow> bool) \<Rightarrow> 'a \<Rightarrow> 'a list \<Rightarrow> 'a list" where
  "insertSlice before x [] = [x]"
| "insertSlice before x (y # ys) = (if before y x then y # insertSlice before x ys else x # y # ys)"

definition sort_Slice :: "('a \<Rightarrow> 'a \<Rightarrow> bool) \<Rightarrow> 'a list \<Rightarrow> 'a list" where
  "sort_Slice before xs = foldr (insertSlice before) xs []"

section \<open>Events\<close>

datatype rebuildEventKind =
    rebuildPendingItem | rebuildExecuteItem | rebuildDeleteItem
  | rebuildPendingRepo | rebuildExecuteRepo | rebuildDeleteRepo

text \<open>The values \<open>iota\<close> gives the constants; events compare by them.\<close>

fun kindIndex :: "rebuildEventKind \<Rightarrow> nat" where
  "kindIndex rebuildPendingItem = 0"
| "kindIndex rebuildExecuteItem = 1"
| "kindIndex rebuildDeleteItem = 2"
| "kindIndex rebuildPendingRepo = 3"
| "kindIndex rebuildExecuteRepo = 4"
| "kindIndex rebuildDeleteRepo = 5"

lemma kindIndex_inj: "kindIndex a = kindIndex b \<Longrightarrow> a = b"
  by (cases a; cases b) simp_all

instantiation rebuildEventKind :: linorder
begin

definition less_eq_rebuildEventKind :: "rebuildEventKind \<Rightarrow> rebuildEventKind \<Rightarrow> bool" where
  "less_eq_rebuildEventKind a b \<longleftrightarrow> kindIndex a \<le> kindIndex b"

definition less_rebuildEventKind :: "rebuildEventKind \<Rightarrow> rebuildEventKind \<Rightarrow> bool" where
  "less_rebuildEventKind a b \<longleftrightarrow> kindIndex a < kindIndex b"

instance
  by intro_classes (auto simp: less_eq_rebuildEventKind_def less_rebuildEventKind_def dest: kindIndex_inj)

end

record rebuildEvent =
  ev_timestamp :: time
  ev_kind :: rebuildEventKind
  ev_itemMov :: "item_movement option"
  ev_repoMov :: "repository_movement option"

definition rebuildEventID :: "rebuildEvent \<Rightarrow> uuid" where
  "rebuildEventID e =
     (case ev_itemMov e of Some m \<Rightarrow> im_id m
      | None \<Rightarrow> (case ev_repoMov e of Some m \<Rightarrow> rm_id m | None \<Rightarrow> uuid_Nil))"

definition rebuildCmpUUID :: "uuid \<Rightarrow> uuid \<Rightarrow> int" where
  "rebuildCmpUUID a b = ordCompare a b"

definition itemEvent :: "item_movement \<Rightarrow> time \<Rightarrow> rebuildEventKind \<Rightarrow> rebuildEvent" where
  "itemEvent m t k = \<lparr>ev_timestamp = t, ev_kind = k, ev_itemMov = Some m, ev_repoMov = None\<rparr>"

definition repoEvent :: "repository_movement \<Rightarrow> time \<Rightarrow> rebuildEventKind \<Rightarrow> rebuildEvent" where
  "repoEvent m t k = \<lparr>ev_timestamp = t, ev_kind = k, ev_itemMov = None, ev_repoMov = Some m\<rparr>"

text \<open>A deleted movement is released even when it carries an execution time.\<close>

definition itemMovementEvents :: "item_movement \<Rightarrow> rebuildEvent list" where
  "itemMovementEvents m =
     (if \<not> deletedAtIsZero (im_deleted_at m)
      then [itemEvent m (im_created_at m) rebuildPendingItem,
            itemEvent m (the (im_deleted_at m)) rebuildDeleteItem]
      else case im_executed_at m of
        Some t \<Rightarrow> [itemEvent m (im_created_at m) rebuildPendingItem, itemEvent m t rebuildExecuteItem]
      | None \<Rightarrow> [itemEvent m (im_created_at m) rebuildPendingItem])"

definition repositoryMovementEvents :: "repository_movement \<Rightarrow> rebuildEvent list" where
  "repositoryMovementEvents m =
     (if \<not> deletedAtIsZero (rm_deleted_at m)
      then [repoEvent m (rm_created_at m) rebuildPendingRepo,
            repoEvent m (the (rm_deleted_at m)) rebuildDeleteRepo]
      else case rm_executed_at m of
        Some t \<Rightarrow> [repoEvent m (rm_created_at m) rebuildPendingRepo, repoEvent m t rebuildExecuteRepo]
      | None \<Rightarrow> [repoEvent m (rm_created_at m) rebuildPendingRepo])"

text \<open>The \<open>less\<close> function \<open>sort.Slice\<close> is called with.\<close>

definition eventLess :: "rebuildEvent \<Rightarrow> rebuildEvent \<Rightarrow> bool" where
  "eventLess a b =
     (if ev_timestamp a \<noteq> ev_timestamp b then ev_timestamp a < ev_timestamp b
      else if ev_kind a \<noteq> ev_kind b then ev_kind a < ev_kind b
      else rebuildCmpUUID (rebuildEventID a) (rebuildEventID b) < 0)"

definition rebuildEvents :: "item_movement list \<Rightarrow> repository_movement list \<Rightarrow> rebuildEvent list" where
  "rebuildEvents allItemMovs allRepoMovs =
     sort_Slice eventLess (concat (map itemMovementEvents allItemMovs) @ concat (map repositoryMovementEvents allRepoMovs))"

section \<open>Replaying one event\<close>

text \<open>The current stock of the repositories above the seeds.\<close>

definition rebuildBaseline :: "ctx \<Rightarrow> db \<Rightarrow> repo_map \<Rightarrow> uuid list \<Rightarrow> error + nested_map" where
  "rebuildBaseline c d repositoryMap seeds =
     (case foldRes (\<lambda>r parentsMap. getRepositoriesParentsDetails (walk_fuel repositoryMap) r repositoryMap parentsMap) seeds [] of
        Inl e \<Rightarrow> Inl e
      | Inr parentsMap \<Rightarrow>
          let repoIDs = rebuildMapKeys parentsMap in
          Inr (if repoIDs = [] then [] else GetCurrentRepositoriesStock c d repoIDs))"

definition rebuildRow :: "uuid \<Rightarrow> uuid \<Rightarrow> uuid \<times> uuid \<times> stock \<Rightarrow> stock" where
  "rebuildRow tenantID movementID e =
     (case e of (repoID, itemID, rec) \<Rightarrow> executedRow itemID tenantID movementID repoID rec)"

definition rebuildInsertNestedStockMap :: "ctx \<Rightarrow> uuid \<Rightarrow> uuid \<Rightarrow> nested_map \<Rightarrow> db \<Rightarrow> error + db" where
  "rebuildInsertNestedStockMap c tenantID movementID stockMap d =
     (let versions = seedFromNested stockMap (newStockVersionTracker []);
          (creates, _) = assignVersions (map (rebuildRow tenantID movementID) (nestedEntries stockMap)) versions
      in stockCreateBulkChunked c creates d)"

definition replayPendingItem :: "ctx \<Rightarrow> uuid \<Rightarrow> item_movement \<Rightarrow> db \<Rightarrow> error + db" where
  "replayPendingItem c tenantID mov d =
     (let repositoryMap = GetRepositoriesDetails (showDeletedCtx c) d in
      case rebuildBaseline c d repositoryMap [im_from mov, im_to mov] of
        Inl e \<Rightarrow> Inl e
      | Inr stockMap \<Rightarrow>
          (case simulateMovement False (im_item mov) (im_from mov) (im_to mov) (im_quantity mov) repositoryMap stockMap of
             Inl e \<Rightarrow> Inl e
           | Inr stockMap \<Rightarrow> insertStockMap c (im_item mov) tenantID (im_id mov) stockMap d))"

definition replayDeleteItem :: "ctx \<Rightarrow> uuid \<Rightarrow> item_movement \<Rightarrow> db \<Rightarrow> error + db" where
  "replayDeleteItem c tenantID mov d =
     (let repositoryMap = GetRepositoriesDetails (showDeletedCtx c) d in
      case rebuildBaseline c d repositoryMap [im_from mov, im_to mov] of
        Inl e \<Rightarrow> Inl e
      | Inr stockMap \<Rightarrow>
          (case simulateMovement True (im_item mov) (im_from mov) (im_to mov) (im_quantity mov) repositoryMap stockMap of
             Inl e \<Rightarrow> Inl e
           | Inr stockMap \<Rightarrow> insertStockMap c (im_item mov) tenantID (im_id mov) stockMap d))"

definition replayExecuteItem :: "db_dialect \<Rightarrow> ctx \<Rightarrow> uuid \<Rightarrow> item_movement \<Rightarrow> db \<Rightarrow> error + db" where
  "replayExecuteItem dialect c tenantID mov d =
     (let (repoMap, priorStocks) = loadAncestorStocks dialect (showDeletedCtx c) d tenantID
            [im_from mov, im_to mov] [im_item mov] True
      in case applyItemMovementStockDelta (im_item mov) (im_from mov) (im_to mov) (im_quantity mov)
                repoMap priorStocks [] True of
           Inl e \<Rightarrow> Inl e
         | Inr stockMap \<Rightarrow>
             stockCreateBulkChunked c (fst (assignVersions
               (map (\<lambda>(repoID, rec). executedRow (im_item mov) tenantID (im_id mov) repoID rec) stockMap)
               (newStockVersionTracker priorStocks))) d)"

definition rebuildFromID :: "repo_map \<Rightarrow> repository_movement \<Rightarrow> error + uuid" where
  "rebuildFromID repositoryMap mov =
     (if rm_from mov \<noteq> uuid_Nil then Inr (rm_from mov)
      else case gget repositoryMap (rm_repository mov) of
        None \<Rightarrow> Inl (ErrRebuildRepositoryNotFound (rm_repository mov))
      | Some r \<Rightarrow> Inr (r_parent r))"

definition replayPendingRepo :: "ctx \<Rightarrow> uuid \<Rightarrow> repository_movement \<Rightarrow> db \<Rightarrow> error + db" where
  "replayPendingRepo c tenantID mov d =
     (let repositoryMap = GetRepositoriesDetails (showDeletedCtx c) d in
      case rebuildFromID repositoryMap mov of
        Inl e \<Rightarrow> Inl e
      | Inr fromID \<Rightarrow>
          (case rebuildBaseline c d repositoryMap [rm_repository mov, rm_to mov, fromID] of
             Inl e \<Rightarrow> Inl e
           | Inr stockMap \<Rightarrow>
               (case foldRes (simulateRepositoryItem False fromID (rm_to mov) repositoryMap)
                       (itemQuantities (ggetd [] stockMap (rm_repository mov))) stockMap of
                  Inl e \<Rightarrow> Inl e
                | Inr stockMap \<Rightarrow> rebuildInsertNestedStockMap c tenantID (rm_id mov) stockMap d)))"

definition rebuildRepositoryItem ::
  "uuid \<Rightarrow> uuid \<Rightarrow> uuid \<Rightarrow> uuid \<Rightarrow> repo_map \<Rightarrow> prior_map \<Rightarrow> uuid \<times> int64 \<Rightarrow> stock list \<Rightarrow> error + stock list"
where
  "rebuildRepositoryItem tenantID movementID fromID toID repoMap priorStocks e rows =
     (case e of (itemID, q) \<Rightarrow>
        let lcaID = lowestCommonAncestor repoMap fromID toID in
        (case calculateRepositoryStockMap itemID fromID lcaID (neg64 q) repoMap priorStocks [] False of
           Inl e \<Rightarrow> Inl e
         | Inr perItemMap \<Rightarrow>
             (case calculateRepositoryStockMap itemID toID lcaID q repoMap priorStocks perItemMap False of
                Inl e \<Rightarrow> Inl e
              | Inr perItemMap \<Rightarrow>
                  Inr (rows @ map (\<lambda>(repoID, rec). executedRow itemID tenantID movementID repoID rec) perItemMap))))"

definition replayExecuteRepo :: "db_dialect \<Rightarrow> ctx \<Rightarrow> uuid \<Rightarrow> repository_movement \<Rightarrow> db \<Rightarrow> error + db" where
  "replayExecuteRepo dialect c tenantID mov d =
     (let fromID = (if rm_from mov = uuid_Nil then rm_repository mov else rm_from mov);
          repoStockMap = ggetd [] (GetCurrentRepositoriesStock c d [rm_repository mov]) (rm_repository mov);
          (repoMap, priorStocks) = loadAncestorStocks dialect (showDeletedCtx c) d tenantID
            [fromID, rm_to mov] (gkeys repoStockMap) True
      in case foldRes (rebuildRepositoryItem tenantID (rm_id mov) fromID (rm_to mov) repoMap priorStocks)
                (itemQuantities repoStockMap) [] of
           Inl e \<Rightarrow> Inl e
         | Inr rows \<Rightarrow>
             (case stockCreateBulkChunked c (fst (assignVersions rows (newStockVersionTracker priorStocks))) d of
                Inl e \<Rightarrow> Inl e
              | Inr d \<Rightarrow> repository_SetParent c (rm_repository mov) (rm_to mov) d))"

definition replayDeleteRepo :: "ctx \<Rightarrow> uuid \<Rightarrow> repository_movement \<Rightarrow> db \<Rightarrow> error + db" where
  "replayDeleteRepo c tenantID mov d =
     (let repositoryMap = GetRepositoriesDetails (showDeletedCtx c) d in
      case rebuildFromID repositoryMap mov of
        Inl e \<Rightarrow> Inl e
      | Inr fromID \<Rightarrow>
          (case rebuildBaseline c d repositoryMap [rm_repository mov, rm_to mov] of
             Inl e \<Rightarrow> Inl e
           | Inr stockMap \<Rightarrow>
               let originalRows = filter (\<lambda>s. s_movement s = rm_id mov \<and> s_repository s = rm_repository mov) (stock_Query c d) in
               (case foldRes (simulateRepositoryItem True fromID (rm_to mov) repositoryMap)
                       (map (\<lambda>row. (s_item row, quantity row)) originalRows) stockMap of
                  Inl e \<Rightarrow> Inl e
                | Inr stockMap \<Rightarrow> rebuildInsertNestedStockMap c tenantID (rm_id mov) stockMap d)))"

definition replayRebuildEvent :: "db_dialect \<Rightarrow> ctx \<Rightarrow> uuid \<Rightarrow> rebuildEvent \<Rightarrow> db \<Rightarrow> error + db" where
  "replayRebuildEvent dialect c tenantID evt d =
     (case (ev_kind evt, ev_itemMov evt, ev_repoMov evt) of
        (rebuildPendingItem, Some mov, _) \<Rightarrow> replayPendingItem c tenantID mov d
      | (rebuildExecuteItem, Some mov, _) \<Rightarrow> replayExecuteItem dialect c tenantID mov d
      | (rebuildDeleteItem, Some mov, _) \<Rightarrow> replayDeleteItem c tenantID mov d
      | (rebuildPendingRepo, _, Some mov) \<Rightarrow> replayPendingRepo c tenantID mov d
      | (rebuildExecuteRepo, _, Some mov) \<Rightarrow> replayExecuteRepo dialect c tenantID mov d
      | (rebuildDeleteRepo, _, Some mov) \<Rightarrow> replayDeleteRepo c tenantID mov d
      | _ \<Rightarrow> Inl FatalNilDereference)"

section \<open>RebuildStockTable\<close>

text \<open>The bulk delete goes through the mutation filters like any other mutation.\<close>

definition stock_DeleteTenant :: "ctx \<Rightarrow> uuid \<Rightarrow> db \<Rightarrow> db" where
  "stock_DeleteTenant c tenantID d =
     tick (d\<lparr>stocks := filter (\<lambda>s. \<not> (s_tenant s = tenantID \<and> mutable c (s_tenant s) (s_deleted_at s))) (stocks d)\<rparr>)"

definition executedLess :: "repository_movement \<Rightarrow> repository_movement \<Rightarrow> bool" where
  "executedLess a b =
     (let ti = the (rm_executed_at a); tj = the (rm_executed_at b) in
      if ti \<noteq> tj then ti < tj else rebuildCmpUUID (rm_id a) (rm_id b) < 0)"

definition executedRepoMovements :: "repository_movement list \<Rightarrow> repository_movement list" where
  "executedRepoMovements movs =
     sort_Slice executedLess
       (filter (\<lambda>m. rm_executed_at m \<noteq> None \<and> deletedAtIsZero (rm_deleted_at m)) movs)"

definition rewindRepositoryMovement :: "ctx \<Rightarrow> repository_movement \<Rightarrow> db \<Rightarrow> error + db" where
  "rewindRepositoryMovement c mov d =
     (case update_where (\<lambda>r. r_id r = rm_repository mov \<and> mutable c (r_tenant r) (r_deleted_at r))
             (\<lambda>r. if rm_from mov \<noteq> uuid_Nil then r\<lparr>r_parent := rm_from mov\<rparr> else r) (repositories d) of
        Inl e \<Rightarrow> Inl e
      | Inr rows \<Rightarrow> Inr (tick (d\<lparr>repositories := rows\<rparr>)))"

text \<open>
  Other requests may commit between the statements: before the movements are loaded, and before
  each event is replayed.
\<close>

definition RebuildStockTable :: "others \<Rightarrow> db_dialect \<Rightarrow> ctx \<Rightarrow> uuid \<Rightarrow> db \<Rightarrow> error + db" where
  "RebuildStockTable others dialect c tenantID d =
     (let d = others 0 (stock_DeleteTenant c tenantID d);
          sc = showDeletedCtx c;
          allRepoMovs = sort_key (\<lambda>m. (rm_created_at m, rm_id m))
            (filter (\<lambda>m. rm_tenant m = tenantID) (repositoryMovement_Query sc d));
          repoMap = GetRepositoriesDetails sc d
      in case foldRes (\<lambda>m _. if gget repoMap (rm_repository m) = None
                  then Inl (ErrRebuildRepoNotFoundInRepoMap (rm_repository m)) else Inr ()) allRepoMovs () of
           Inl e \<Rightarrow> Inl e
         | Inr _ \<Rightarrow>
             (case foldRes (rewindRepositoryMovement sc) (rev (executedRepoMovements allRepoMovs)) d of
                Inl e \<Rightarrow> Inl e
              | Inr d \<Rightarrow>
                  let d = others 1 d;
                      allItemMovs = sort_key (\<lambda>m. (im_created_at m, im_id m))
                        (filter (\<lambda>m. im_tenant m = tenantID) (itemMovement_Query sc d))
                  in foldRes (\<lambda>(n, evt) d. replayRebuildEvent dialect c tenantID evt (others n d))
                       (enumerate 2 (rebuildEvents allItemMovs allRepoMovs)) d))"

end
