(* ===== verification/Lifecycle.thy ===== *)
theory Lifecycle
  imports Rebuild
begin

text \<open>
  The service as a state machine. A step is one successful request; while its handler runs other
  requests may commit between its statements. Locale \<open>service\<close> collects what a relation must
  satisfy at every primitive write for all handlers to keep it; it is interpreted with the ledger
  relation and with the movement relations, so each handler is walked through once. In every
  reachable state the unique index of the ledger holds, no row with a negative counter is ever
  committed, the ledger of a tenant that is not rebuilt only grows, and no movement vanishes,
  changes its terms, is taken back from execution or comes back from deletion.
\<close>

section \<open>What every write keeps\<close>

definition nonneg_rows :: "stock list \<Rightarrow> bool" where
  "nonneg_rows rows \<longleftrightarrow> list_all stock_check rows"

text \<open>The ledger outside the tenants \<open>T\<close>, which may be rebuilt.\<close>

definition ledger_outside :: "uuid set \<Rightarrow> db \<Rightarrow> stock list" where
  "ledger_outside T d = filter (\<lambda>s. s_tenant s \<notin> T) (stocks d)"

definition ledger_step :: "uuid set \<Rightarrow> db \<Rightarrow> db \<Rightarrow> bool" where
  "ledger_step T d d' \<longleftrightarrow> (\<exists>rows. ledger_outside T d' = ledger_outside T d @ rows)
     \<and> (ledger_ok (stocks d) \<longrightarrow> ledger_ok (stocks d'))
     \<and> (nonneg_rows (stocks d) \<longrightarrow> nonneg_rows (stocks d'))"

lemma ledger_step_same: "stocks d' = stocks d \<Longrightarrow> ledger_step T d d'"
  by (simp add: ledger_step_def ledger_outside_def)

lemma ledger_step_trans: "ledger_step T a b \<Longrightarrow> ledger_step T b c \<Longrightarrow> ledger_step T a c"
  by (auto simp: ledger_step_def)

lemma ledger_step_bulk: "stock_CreateBulk c rows d = Inr d' \<Longrightarrow> ledger_step T d d'"
  using stock_CreateBulk_Inr [of c rows d d']
  by (auto simp: ledger_step_def ledger_outside_def nonneg_rows_def list_all_iff)

lemma ledger_step_delete: "tn \<in> T \<Longrightarrow> ledger_step T d (stock_DeleteTenant c tn d)"
proof -
  assume "tn \<in> T"
  then have "ledger_outside T (stock_DeleteTenant c tn d) = ledger_outside T d"
    unfolding ledger_outside_def by (auto simp: stock_DeleteTenant_def tick_def intro: filter_cong)
  then show ?thesis
    by (auto simp: ledger_step_def stock_DeleteTenant_def tick_def ledger_ok_def nonneg_rows_def
        list_all_iff distinct_map_filter)
qed

text \<open>Nothing but the ledger and the write counter changes.\<close>

definition only_stocks :: "db \<Rightarrow> db \<Rightarrow> bool" where
  "only_stocks d d' \<longleftrightarrow> d' = d\<lparr>stocks := stocks d', writes := writes d'\<rparr>"

text \<open>
  The contract of a relation kept by a routine that only inserts ledger rows. \<open>C\<close> says which
  contexts may act for which tenant; the two features the service switches on keep it.
\<close>

locale stock_writer =
  fixes C :: "ctx \<Rightarrow> uuid \<Rightarrow> bool" and R :: "db \<Rightarrow> db \<Rightarrow> bool"
  assumes R_refl: "R d d"
    and R_trans: "R d d1 \<Longrightarrow> R d1 d2 \<Longrightarrow> R d d2"
    and C_deferred: "C c tn \<Longrightarrow> C (WithDeferredUnderflow c) tn"
    and R_bulk: "C c tn \<Longrightarrow> stock_CreateBulk c rows d = Inr d' \<Longrightarrow> R d d'"
begin

lemma R_loop:
  assumes run: "\<And>x d d'. run x d = Inr d' \<Longrightarrow> R d d'" and "foldRes run xs d = Inr d'"
  shows "R d d'"
  using assms(2) by (induction xs arbitrary: d) (auto split: sum.splits intro: R_refl R_trans [OF run])

lemma R_chunked: "C c tn \<Longrightarrow> stockCreateBulkChunked c creates d = Inr d' \<Longrightarrow> R d d'"
  by (auto simp: stockCreateBulkChunked_def Let_def intro: R_loop R_bulk)

lemma R_insertWithVersions:
  "C c t \<Longrightarrow> insertStockMapWithVersions c i tn mv sm versions d = Inr (d', v') \<Longrightarrow> R d d'"
  by (auto simp: insertStockMapWithVersions_def Let_def case_prod_beta
      intro: R_bulk R_refl split: if_splits sum.splits)

lemma R_insert: "C c t \<Longrightarrow> insertStockMap c i tn mv sm d = Inr d' \<Longrightarrow> R d d'"
  by (auto simp: insertStockMap_def intro: R_insertWithVersions split: sum.splits prod.splits)

lemma R_fanout:
  assumes "C c t" and "rebaseFanout dialect c tn mv keep sm old env' d = Inr d'" and "R d (env' d)"
  shows "R d d'"
  using assms(2,3) by (auto simp: rebaseFanout_def insertRebased_def case_prod_beta dest!: R_bulk [OF assms(1)] intro: R_trans)

end

abbreviation any_ctx :: "ctx \<Rightarrow> uuid \<Rightarrow> bool" where
  "any_ctx \<equiv> \<lambda>_ _. True"

interpretation ledger: stock_writer any_ctx "ledger_step T" for T
  by unfold_locales (auto simp: ledger_step_same intro: ledger_step_trans ledger_step_bulk)

interpretation ledger_only: stock_writer any_ctx only_stocks
proof
  show "only_stocks d d1 \<Longrightarrow> only_stocks d1 d2 \<Longrightarrow> only_stocks d d2" for d d1 d2
    by (cases d; cases d1; cases d2) (simp add: only_stocks_def)
  show "stock_CreateBulk c rows d = Inr d' \<Longrightarrow> only_stocks d d'" for c rows d d'
    by (auto simp: stock_CreateBulk_def only_stocks_def tick_def split: sum.splits if_splits)
qed (simp add: only_stocks_def)

lemmas only_stocks_insert = ledger_only.R_insert [OF TrueI]

section \<open>The handlers\<close>

text \<open>
  The contract of a relation kept by every write the handlers make; \<open>B\<close> says whose ledgers may be
  rebuilt. The rows of the stored procedure come from a snapshot \<open>d\<close> other requests may have moved on.
\<close>

locale service = stock_writer C R for C R +
  fixes B :: "uuid \<Rightarrow> bool"
  assumes C_shown: "C c tn \<Longrightarrow> C (showDeletedCtx c) tn"
    and R_transactions: "C c tn \<Longrightarrow> transaction_CreateBulk c ts d = Inr d' \<Longrightarrow> R d d'"
    and R_create: "C c tn \<Longrightarrow> itemMovement_Create c input d = Inr (m, d') \<Longrightarrow> R d d'"
    and R_store: "\<lbrakk>C c tn; im_tenant mv = tn; R d d1; procStore mv (procRows d tn input (im_id mv) F T) d1 = Inr d'\<rbrakk>
                   \<Longrightarrow> R d d'"
    and R_execute: "C c tn \<Longrightarrow> itemMovement_SetExecuted c i d = Inr d' \<Longrightarrow> R d d'"
    and R_delete: "C c tn \<Longrightarrow> itemMovement_SoftDelete c i d = Inr d' \<Longrightarrow> R d d'"
    and R_repositoryCreate: "C c tn \<Longrightarrow> repositoryMovement_Create c input' d = Inr (mv', d') \<Longrightarrow> R d d'"
    and R_repositoryExecute:
      "C c tn \<Longrightarrow> repositoryMovement_Update c i (\<lambda>m. m\<lparr>rm_executed := True, rm_executed_at := t\<rparr>) d = Inr d' \<Longrightarrow> R d d'"
    and R_repositoryDelete:
      "C c tn \<Longrightarrow> repositoryMovement_Update c i (\<lambda>m. m\<lparr>rm_deleted_at := t, rm_deleted_by := u\<rparr>) d = Inr d' \<Longrightarrow> R d d'"
    and R_parent: "C c tn \<Longrightarrow> repository_SetParent c i p d = Inr d' \<Longrightarrow> R d d'"
    and R_collectionCreate: "C c (cc_tenant dto) \<Longrightarrow> collection_Create c dto d = Inr d' \<Longrightarrow> R d d'"
    and R_collectionDelete: "C c tn \<Longrightarrow> collection_SoftDelete c i d = Inr d' \<Longrightarrow> R d d'"
    and R_deleteStocks: "C c tn \<Longrightarrow> B tn \<Longrightarrow> R d (stock_DeleteTenant c tn d)"
    and R_rewind: "C c tn \<Longrightarrow> rewindRepositoryMovement c mov d = Inr d' \<Longrightarrow> R d d'"
begin

text \<open>Other requests before a step of the handler.\<close>

lemma R_others_once: "(\<And>n x. R x (others n x)) \<Longrightarrow> R (others n d) d' \<Longrightarrow> R d d'"
  by (rule R_trans [of d "others n d"])

lemma R_others_twice:
  assumes "\<And>n x. R x (others n x)" and "R (others n (others k d)) d1" and "R d1 d'"
  shows "R d d'"
proof -
  note o = R_others_once [of others, OF assms(1)]
  show ?thesis by (rule R_trans [OF o [OF o [OF assms(2)]] assms(3)])
qed

lemma R_others_thrice:
  assumes "\<And>n x. R x (others n x)" and "R (others i (others j (others k d))) d'"
  shows "R d d'"
proof -
  note o = R_others_once [of others, OF assms(1)]
  show ?thesis by (rule o [OF o [OF o [OF assms(2)]]])
qed

lemma R_createGo:
  assumes c: "C c t" and run: "createItemMovementViaGo others dialect c tn input hook d = Inr (m, d')"
    and env: "\<And>n x. R x (others n x)"
  shows "R d d'"
proof -
  from run obtain d1 i sm where "itemMovement_Create c input (others 2 (others 1 d)) = Inr (m, d1)"
    and "insertStockMap c i tn (im_id m) sm (others 3 d1) = Inr d'"
    by (auto simp: createItemMovementViaGo_def createItemMovementStocks_def case_prod_beta Let_def
        split: sum.splits option.splits)
  from R_create [OF c this(1)] R_insert [OF c this(2)] show ?thesis
    by (rule R_others_twice [of others, OF env _ R_others_once [of others, OF env]])
qed

lemma R_procLoop:
  assumes c: "C c tn" and mv: "im_tenant mv = tn" and env: "\<And>n x. R x (others n x)"
  shows "procLoop retries n others tn input mv F T d = Inr d' \<Longrightarrow> R d d'"
proof (induction retries arbitrary: n d)
  case 0
  then have "procStore mv (procRows (others n d) tn input (im_id mv) F T) (others (n + 1) (others n d)) = Inr d'"
    by (subst (asm) procLoop.simps) (auto simp: Let_def split: sum.splits if_splits)
  from R_store [OF c mv env this] show ?case by (rule R_trans [OF env])
next
  case (Suc retries)
  let ?d = "others (n + 1) (others n d)"
  from Suc.prems consider
      "procStore mv (procRows (others n d) tn input (im_id mv) F T) ?d = Inr d'"
    | "procLoop retries (n + 2) others tn input mv F T ?d = Inr d'"
    by (subst (asm) procLoop.simps) (auto simp: Let_def split: sum.splits if_splits)
  then show ?case
  proof cases
    case 1
    from R_store [OF c mv env this] show ?thesis by (rule R_trans [OF env])
  next
    case 2
    from Suc.IH [OF this] show ?thesis by (rule R_others_once [of others, OF env R_others_once [of others, OF env]])
  qed
qed

lemma R_proc:
  assumes c: "C c tn" and run: "create_item_movement_proc others c tn input d = Inr (i, d')"
    and env: "\<And>n x. R x (others n x)"
  shows "R d d'"
proof -
  let ?mv = "new_item_movement c d tn input"
  from run obtain F T where "procLoop v_max_retries 2 others tn input ?mv F T (others 1 d) = Inr d'"
    by (auto simp: create_item_movement_proc_def Let_def split: list.splits sum.splits if_splits)
  note loop = R_procLoop [OF c _ env this]
  show ?thesis by (rule R_others_once [of others, OF env loop]) (simp add: new_item_movement_def)
qed

lemma R_CreateItemMovement:
  assumes c: "C c tn" and run: "CreateItemMovement others dialect c tn input hook emitter d = Inr (m, d')"
    and env: "\<And>n x. R x (others n x)"
  shows "R d d'"
proof -
  have "R (others 0 d) d'"
    using run by (auto simp: CreateItemMovement_def createItemMovementViaProc_def Let_def
        intro: R_createGo [OF c _ env] R_proc [OF c _ env] split: sum.splits option.splits if_splits)
  then show ?thesis by (rule R_trans [OF env])
qed

lemma R_ExecuteItemMovement:
  assumes c: "C c t" and run: "ExecuteItemMovement others dialect c i tn d = Inr d'"
    and env: "\<And>n x. R x (others n x)"
  shows "R d d'"
proof -
  from run obtain d1 d2 ts rows where
    "itemMovement_SetExecuted c i (others 2 (others 1 (others 0 d))) = Inr d1"
    and "transaction_CreateBulk c ts (others 3 d1) = Inr d2"
    and "stock_CreateBulk c rows (others 5 (others 4 d2)) = Inr d'"
    by (auto simp: ExecuteItemMovement_def Let_def case_prod_beta split: sum.splits if_splits)
  note w = R_execute [OF c this(1)] R_transactions [OF c this(2)] R_bulk [OF c this(3)]
  have "R d1 d'" by (rule R_trans [OF R_others_once [of others, OF env w(2)] R_others_once [of others, OF env R_others_once [of others, OF env w(3)]]])
  with w(1) have "R (others 2 (others 1 (others 0 d))) d'" by (rule R_trans)
  then show ?thesis by (rule R_others_thrice [of others, OF env])
qed

lemma R_DeleteItemMovement:
  assumes c: "C c t" and run: "DeleteItemMovement others dialect c i tn d = Inr d'"
    and env: "\<And>n x. R x (others n x)"
  shows "R d d'"
proof -
  from run obtain k sm d1 where "insertStockMap c k tn i sm (others 1 (others 0 d)) = Inr d1"
    and "itemMovement_SoftDelete c i (others 2 d1) = Inr d'"
    by (auto simp: DeleteItemMovement_def deleteItemMovementStocks_def case_prod_beta Let_def
        split: sum.splits if_splits)
  from R_insert [OF c this(1)] R_delete [OF c this(2)] show ?thesis
    by (rule R_others_twice [of others, OF env _ R_others_once [of others, OF env]])
qed

lemma R_CreateRepositoryMovement:
  assumes c: "C c t" and run: "CreateRepositoryMovement dialect c tn input hook env env' d = Inr (m, d')"
    and env: "\<And>x. R x (env x)" "\<And>x. R x (env' x)"
  shows "R d d'"
proof -
  have chain: "R d d'"
    if "repositoryMovement_Create c input' d = Inr (mv, d1)"
      "rebaseFanout dialect c tn i keep sm old env' (env d1) = Inr d'" for input' mv d1 i keep sm old
    by (rule R_trans [OF R_repositoryCreate [OF c that(1)] R_trans [OF env(1) R_fanout [OF c that(2) env(2)]]])
  from run show ?thesis
    unfolding CreateRepositoryMovement_def createRepositoryMovementStocks_def
      createRepositoryMovementFanout_def case_prod_beta
    by (auto split: sum.splits option.splits if_splits intro: chain)
qed

lemma R_DeleteRepositoryMovement:
  assumes c: "C c u" and run: "DeleteRepositoryMovement dialect c i tn env env' d = Inr d'"
    and env: "\<And>x. R x (env x)" "\<And>x. R x (env' x)"
  shows "R d d'"
proof -
  have chain: "R d d'"
    if "rebaseFanout dialect c tn i keep sm old env' (env d) = Inr d1"
      "repositoryMovement_Update c i (\<lambda>m. m\<lparr>rm_deleted_at := t, rm_deleted_by := u\<rparr>) d1 = Inr d'"
    for d1 keep sm old t u
    by (rule R_trans [OF env(1) R_trans [OF R_fanout [OF c that(1) env(2)] R_repositoryDelete [OF c that(2)]]])
  from run show ?thesis
    unfolding DeleteRepositoryMovement_def deleteRepositoryMovementStocks_def case_prod_beta
    by (auto split: sum.splits option.splits if_splits intro: chain)
qed

lemma R_executeUpdated:
  assumes c: "C c t" and run: "executeRepositoryMovementUpdated others dialect c i tn m failed d = Inr d'"
    and env: "\<And>n x. R x (others n x)"
  shows "R d d'"
proof -
  from run obtain rows d1 k p where "stock_CreateBulk c rows (others 5 (others 4 (others 3 d))) = Inr d1"
    and "repository_SetParent c k p (others 6 d1) = Inr d'"
    by (auto simp: executeRepositoryMovementUpdated_def executeRepositoryMovementStocks_def Let_def case_prod_beta
        split: sum.splits if_splits)
  note w = R_bulk [OF c this(1)] R_parent [OF c this(2)]
  have "R (others 5 (others 4 (others 3 d))) d'" by (rule R_trans [OF w(1) R_others_once [of others, OF env w(2)]])
  then show ?thesis by (rule R_others_thrice [of others, OF env])
qed

lemma R_ExecuteRepositoryMovement:
  assumes c: "C c t" and run: "ExecuteRepositoryMovement others dialect c i tn d = Inr d'"
    and env: "\<And>n x. R x (others n x)"
  shows "R d d'"
proof -
  let ?d = "others 2 (others 1 (others 0 d))"
  have "R ?d d'"
    using run by (auto simp: ExecuteRepositoryMovement_def Let_def
        intro: R_executeUpdated [OF c _ env] R_trans [OF R_repositoryExecute [OF c] R_executeUpdated [OF c _ env]]
        split: sum.splits if_splits)
  then show ?thesis by (rule R_others_thrice [of others, OF env])
qed

lemma R_createPosition:
  assumes c: "C c (cc_tenant dto)" and run: "createPosition dialect c dto repoMap env env' ip run = Inr run'"
    and env: "\<And>n x. R x (env n x)" "\<And>n x. R x (env' n x)"
  shows "R (run_db run) (run_db run')"
  using run unfolding createPosition_defs
  by (auto split: prod.splits option.splits sum.splits if_splits
      intro: R_refl R_CreateItemMovement [OF c _ env(1)] R_CreateRepositoryMovement [OF c _ env])

lemma R_CreateCollectionMovement:
  assumes c: "C c (cc_tenant dto)" and run: "CreateCollectionMovement dialect c dto hook env env' d = Inr (out, d')"
    and env: "\<And>n x. R x (env n x)" "\<And>n x. R x (env' n x)"
  shows "R d d'"
proof -
  note c' = C_deferred [OF c]
  have positions: "R (run_db run) (run_db run')"
    if "foldRes (createPosition dialect (WithDeferredUnderflow c) dto repoMap env env') ips run = Inr run'" for repoMap ips run run'
    using that by (induction ips arbitrary: run)
      (auto split: sum.splits intro: R_refl R_trans [OF R_createPosition [OF c' _ env]])
  have "R d (run_db run')"
    if "collection_Create c dto d = Inr d1"
      "foldRes (createPosition dialect (WithDeferredUnderflow c) dto repoMap env env') ips run = Inr run'" "run_db run = d1"
    for d1 repoMap ips run run'
    using R_trans [OF R_collectionCreate [OF c that(1)]] positions [OF that(2)] that(3) by simp
  with run show ?thesis
    unfolding CreateCollectionMovement_def
    by (auto split: sum.splits option.splits if_splits)
qed

lemma R_DeleteCollection: "C c t \<Longrightarrow> DeleteCollection c i d = Inr d' \<Longrightarrow> R d d'"
  by (auto simp: DeleteCollection_def intro: R_collectionDelete split: sum.splits if_splits)

text \<open>The rebuild writes the ledger of its tenant, and the parents of the moved repositories.\<close>

lemma R_replayItem:
  assumes c: "C c t"
  shows "replayPendingItem c tn mov d = Inr d' \<Longrightarrow> R d d'"
    and "replayDeleteItem c tn mov d = Inr d' \<Longrightarrow> R d d'"
    and "replayExecuteItem dialect c tn mov d = Inr d' \<Longrightarrow> R d d'"
  by (auto simp: replayPendingItem_def replayDeleteItem_def replayExecuteItem_def Let_def case_prod_beta
      dest: R_insert [OF c] R_chunked [OF c] split: sum.splits)

lemma R_replayRepo:
  assumes c: "C c t"
  shows "replayPendingRepo c tn mov' d = Inr d' \<Longrightarrow> R d d'"
    and "replayDeleteRepo c tn mov' d = Inr d' \<Longrightarrow> R d d'"
    and "replayExecuteRepo dialect c tn mov' d = Inr d' \<Longrightarrow> R d d'"
proof -
  have nested: "rebuildInsertNestedStockMap c tn mv sm d = Inr d' \<Longrightarrow> R d d'" for mv sm
    by (auto simp: rebuildInsertNestedStockMap_def Let_def case_prod_beta dest: R_chunked [OF c])
  then show "replayPendingRepo c tn mov' d = Inr d' \<Longrightarrow> R d d'"
    and "replayDeleteRepo c tn mov' d = Inr d' \<Longrightarrow> R d d'"
    by (auto simp: replayPendingRepo_def replayDeleteRepo_def Let_def split: sum.splits)
  show "R d d'" if run: "replayExecuteRepo dialect c tn mov' d = Inr d'"
  proof -
    from run obtain rows d1 where "stockCreateBulkChunked c rows d = Inr d1"
      and "repository_SetParent c (rm_repository mov') (rm_to mov') d1 = Inr d'"
      by (auto simp: replayExecuteRepo_def Let_def case_prod_beta split: sum.splits)
    from R_chunked [OF c this(1)] R_parent [OF c this(2)] show ?thesis by (rule R_trans)
  qed
qed

lemma R_replay:
  assumes "C c t" and "replayRebuildEvent dialect c tn evt d = Inr d'"
  shows "R d d'"
  using assms(2) R_replayItem [OF assms(1)] R_replayRepo [OF assms(1)]
  by (auto simp: replayRebuildEvent_def split: rebuildEventKind.splits option.splits)

lemma R_RebuildStockTable:
  assumes c: "C c tn" and b: "B tn" and run: "RebuildStockTable others dialect c tn d = Inr d'"
    and env: "\<And>n x. R x (others n x)"
  shows "R d d'"
proof -
  let ?d = "others 0 (stock_DeleteTenant c tn d)"
  from run obtain movs d1 evts where
    rewind: "foldRes (rewindRepositoryMovement (showDeletedCtx c)) movs ?d = Inr d1"
    and replay: "foldRes (\<lambda>(n, evt) d. replayRebuildEvent dialect c tn evt (others n d)) evts (others 1 d1) = Inr d'"
    by (auto simp: RebuildStockTable_def Let_def split: sum.splits)
  have "R ?d d1" by (rule R_loop [OF R_rewind [OF C_shown [OF c]] rewind])
  moreover have "R (others 1 d1) d'"
    by (rule R_loop [OF _ replay]) (auto intro: R_trans [OF env R_replay [OF c]])
  ultimately have "R ?d d'" by (rule R_trans [OF _ R_others_once [of others, OF env]])
  then have "R (stock_DeleteTenant c tn d) d'" by (rule R_others_once [of others, OF env])
  with R_deleteStocks [OF c b] show ?thesis by (rule R_trans)
qed

end

section \<open>Requests and reachable states\<close>

text \<open>
  One successful request of a caller \<open>C\<close> allows, rebuilding only ledgers \<open>B\<close> allows. Between the
  statements of a handler, \<open>others\<close>, \<open>env\<close> and \<open>env'\<close> map a state to any state later requests of
  such callers can lead to.
\<close>

inductive request_by :: "(ctx \<Rightarrow> uuid \<Rightarrow> bool) \<Rightarrow> (uuid \<Rightarrow> bool) \<Rightarrow> db_dialect \<Rightarrow> db \<Rightarrow> db \<Rightarrow> bool"
  for C B dialect where
  create_item:
    "\<lbrakk>C c tn; CreateItemMovement others dialect c tn input hook emitter d = Inr (m, d');
      \<forall>n x. (request_by C B dialect)\<^sup>*\<^sup>* x (others n x)\<rbrakk> \<Longrightarrow> request_by C B dialect d d'"
| execute_item:
    "\<lbrakk>C c tn; ExecuteItemMovement others dialect c i tn d = Inr d';
      \<forall>n x. (request_by C B dialect)\<^sup>*\<^sup>* x (others n x)\<rbrakk> \<Longrightarrow> request_by C B dialect d d'"
| delete_item:
    "\<lbrakk>C c tn; DeleteItemMovement others dialect c i tn d = Inr d';
      \<forall>n x. (request_by C B dialect)\<^sup>*\<^sup>* x (others n x)\<rbrakk> \<Longrightarrow> request_by C B dialect d d'"
| create_repository:
    "\<lbrakk>C c tn; CreateRepositoryMovement dialect c tn input' hook env env' d = Inr (mv, d');
      \<forall>x. (request_by C B dialect)\<^sup>*\<^sup>* x (env x); \<forall>x. (request_by C B dialect)\<^sup>*\<^sup>* x (env' x)\<rbrakk> \<Longrightarrow> request_by C B dialect d d'"
| execute_repository:
    "\<lbrakk>C c tn; ExecuteRepositoryMovement others dialect c i tn d = Inr d';
      \<forall>n x. (request_by C B dialect)\<^sup>*\<^sup>* x (others n x)\<rbrakk> \<Longrightarrow> request_by C B dialect d d'"
| delete_repository:
    "\<lbrakk>C c tn; DeleteRepositoryMovement dialect c i tn env env' d = Inr d';
      \<forall>x. (request_by C B dialect)\<^sup>*\<^sup>* x (env x); \<forall>x. (request_by C B dialect)\<^sup>*\<^sup>* x (env' x)\<rbrakk> \<Longrightarrow> request_by C B dialect d d'"
| create_collection:
    "\<lbrakk>C c (cc_tenant dto); CreateCollectionMovement dialect c dto hook envs envs' d = Inr (out, d');
      \<forall>n x. (request_by C B dialect)\<^sup>*\<^sup>* x (envs n x); \<forall>n x. (request_by C B dialect)\<^sup>*\<^sup>* x (envs' n x)\<rbrakk>
     \<Longrightarrow> request_by C B dialect d d'"
| delete_collection: "\<lbrakk>C c tn; DeleteCollection c i d = Inr d'\<rbrakk> \<Longrightarrow> request_by C B dialect d d'"
| rebuild:
    "\<lbrakk>C c tn; B tn; RebuildStockTable others dialect c tn d = Inr d';
      \<forall>n x. (request_by C B dialect)\<^sup>*\<^sup>* x (others n x)\<rbrakk> \<Longrightarrow> request_by C B dialect d d'"

text \<open>A request of any caller, who may rebuild any ledger.\<close>

abbreviation any_tenant :: "uuid \<Rightarrow> bool" where
  "any_tenant \<equiv> \<lambda>_. True"

abbreviation request :: "db_dialect \<Rightarrow> db \<Rightarrow> db \<Rightarrow> bool" where
  "request \<equiv> request_by any_ctx any_tenant"

lemmas request_execute_item = request_by.execute_item [where C = any_ctx and B = any_tenant, OF TrueI]
  and request_delete_item = request_by.delete_item [where C = any_ctx and B = any_tenant, OF TrueI]
  and request_create_repository = request_by.create_repository [where C = any_ctx and B = any_tenant, OF TrueI]
  and request_execute_repository = request_by.execute_repository [where C = any_ctx and B = any_tenant, OF TrueI]
  and request_delete_repository = request_by.delete_repository [where C = any_ctx and B = any_tenant, OF TrueI]

context service
begin

lemma R_star:
  assumes "(\<lambda>a b. request_by C B dialect a b \<and> R a b)\<^sup>*\<^sup>* x y"
  shows "R x y"
  using assms by induction (auto intro: R_refl R_trans)

lemma R_env:
  assumes "\<forall>x. (\<lambda>a b. request_by C B dialect a b \<and> R a b)\<^sup>*\<^sup>* x (env x)"
  shows "R x (env x)"
  using assms by (blast intro: R_star)

lemma R_others:
  assumes "\<forall>n x. (\<lambda>a b. request_by C B dialect a b \<and> R a b)\<^sup>*\<^sup>* x (others n x)"
  shows "R x (others n x)"
  using assms by (blast intro: R_star)

lemma R_request: "request_by C B dialect d d' \<Longrightarrow> R d d'"
proof (induction rule: request_by.induct)
  case (create_item c tn others input hook emitter d m d')
  show ?case by (rule R_CreateItemMovement [OF create_item(1,2) R_others [OF create_item(3)]])
next
  case (execute_item c tn others i d d')
  show ?case by (rule R_ExecuteItemMovement [OF execute_item(1,2) R_others [OF execute_item(3)]])
next
  case (delete_item c tn others i d d')
  show ?case by (rule R_DeleteItemMovement [OF delete_item(1,2) R_others [OF delete_item(3)]])
next
  case (create_repository c tn input' hook env env' d mv d')
  then show ?case by (blast intro: R_CreateRepositoryMovement R_env)
next
  case (execute_repository c tn others i d d')
  show ?case by (rule R_ExecuteRepositoryMovement [OF execute_repository(1,2) R_others [OF execute_repository(3)]])
next
  case (delete_repository c tn i env env' d d')
  then show ?case by (blast intro: R_DeleteRepositoryMovement R_env)
next
  case (create_collection c dto hook envs envs' d out d')
  show ?case
    by (rule R_CreateCollectionMovement [OF create_collection(1,2)])
      (use create_collection(3,4) in \<open>blast intro: R_star\<close>)+
next
  case (rebuild c tn others d d')
  show ?case by (rule R_RebuildStockTable [OF rebuild(1,2,3) R_others [OF rebuild(4)]])
qed (blast intro: R_DeleteCollection)

lemma R_requests: "(request_by C B dialect)\<^sup>*\<^sup>* d d' \<Longrightarrow> R d d'"
  by (induction rule: rtranclp_induct) (auto intro: R_refl R_trans R_request)

end

section \<open>The ledger in reachable states\<close>

lemma procStockRow_check:
  assumes "nonneg_rows (stocks d)"
  shows "stock_check (procStockRow d tn input mv F T r)"
proof -
  have "stock_check (case procBase d tn k of None \<Rightarrow> zero_stock | Some s \<Rightarrow> s)" for k
    using assms procBase_Some(1) [of d tn k]
    by (auto simp: nonneg_rows_def list_all_iff zero_stock_def stock_check_def split: option.splits)
  from this [of "(r_id r, ci_item input)"] show ?thesis
    by (auto simp: procStockRow_def Let_def stock_check_def)
qed

lemma procStore_Inr:
  assumes "procStore mv rows d = Inr d'"
  shows "\<forall>m \<in> set (item_movements d). im_id m \<noteq> im_id mv"
    and "item_movements d' = item_movements d @ [mv]" and "stocks d' = stocks d @ rows" and "ledger_ok (stocks d')"
    and "items d' = items d" and "repositories d' = repositories d" and "repository_movements d' = repository_movements d"
    and "collection_movements d' = collection_movements d" and "transactions d' = transactions d"
  using assms by (auto simp: procStore_def tick_def list_ex_iff split: if_splits)

text \<open>The last round of the loop stored the movement.\<close>

lemma procLoop_stored:
  "procLoop retries n others tn input mv F T d = Inr d' \<Longrightarrow> \<exists>d1 rows. procStore mv rows d1 = Inr d'"
proof (induction retries arbitrary: n d)
  case 0
  then show ?case by (subst (asm) procLoop.simps) (auto simp: Let_def split: sum.splits if_splits)
next
  case (Suc retries)
  then show ?case by (subst (asm) procLoop.simps) (auto simp: Let_def split: sum.splits if_splits)
qed

lemma create_item_movement_proc_stored:
  assumes "create_item_movement_proc others c tn input d = Inr (i, d')"
  shows "new_item_movement c d tn input \<in> set (item_movements d') \<and> im_id (new_item_movement c d tn input) = i"
proof -
  from assms obtain F T where
    "procLoop v_max_retries 2 others tn input (new_item_movement c d tn input) F T (others 1 d) = Inr d'"
    and "i = im_id (new_item_movement c d tn input)"
    by (auto simp: create_item_movement_proc_def Let_def split: list.splits sum.splits if_splits)
  with procLoop_stored [OF this(1)] show ?thesis by (auto dest: procStore_Inr(2))
qed

lemma store_ledger_step:
  assumes step: "ledger_step U d d1" and run: "procStore mv (procRows d tn input (im_id mv) F T) d1 = Inr d'"
  shows "ledger_step U d d'"
proof -
  note inr = procStore_Inr(3,4) [OF run]
  have "nonneg_rows (procRows d tn input (im_id mv) F T)" if "nonneg_rows (stocks d)"
    using procStockRow_check [OF that] by (auto simp: procRows_def nonneg_rows_def list_all_iff)
  with step inr show ?thesis
    by (auto simp: ledger_step_def ledger_outside_def nonneg_rows_def)
qed

lemma write_stocks:
  shows "transaction_CreateBulk c ts d = Inr d' \<Longrightarrow> stocks d' = stocks d"
    and "itemMovement_Create c input d = Inr (m, d') \<Longrightarrow> stocks d' = stocks d"
    and "itemMovement_SetExecuted c i d = Inr d' \<Longrightarrow> stocks d' = stocks d"
    and "itemMovement_SoftDelete c i d = Inr d' \<Longrightarrow> stocks d' = stocks d"
    and "repositoryMovement_Create c input' d = Inr (mv, d') \<Longrightarrow> stocks d' = stocks d"
    and "repositoryMovement_Update c i f d = Inr d' \<Longrightarrow> stocks d' = stocks d"
    and "repository_SetParent c i p d = Inr d' \<Longrightarrow> stocks d' = stocks d"
    and "collection_Create c dto d = Inr d' \<Longrightarrow> stocks d' = stocks d"
    and "collection_SoftDelete c i d = Inr d' \<Longrightarrow> stocks d' = stocks d"
    and "rewindRepositoryMovement c mov d = Inr d' \<Longrightarrow> stocks d' = stocks d"
  by (auto simp: transaction_CreateBulk_def itemMovement_Create_def itemMovement_SetExecuted_def
      itemMovement_SoftDelete_def repositoryMovement_Create_def repositoryMovement_Update_def
      repository_SetParent_def collection_Create_def collection_SoftDelete_def
      rewindRepositoryMovement_def tick_def Let_def
      split: sum.splits if_splits)

interpretation ledger: service any_ctx "ledger_step T" "\<lambda>tn. tn \<in> T" for T
  by unfold_locales
    (blast intro: ledger_step_same ledger_step_delete store_ledger_step write_stocks)+

section \<open>Item movements in reachable states\<close>

text \<open>
  The identifiers are distinct. That a movement is not both executed and deleted is no invariant:
  both handlers read the executed flag before other requests commit (\<open>executed_and_deleted\<close> in
  HandlerProperties).
\<close>

definition movements_ok :: "item_movement list \<Rightarrow> bool" where
  "movements_ok ms \<longleftrightarrow> distinct (map im_id ms)"

text \<open>What later requests keep of a movement: its terms, its execution, and all of it once deleted.\<close>

definition movement_kept :: "item_movement \<Rightarrow> item_movement \<Rightarrow> bool" where
  "movement_kept m m' \<longleftrightarrow> im_id m' = im_id m \<and> im_tenant m' = im_tenant m \<and> im_item m' = im_item m
     \<and> im_from m' = im_from m \<and> im_to m' = im_to m \<and> im_quantity m' = im_quantity m
     \<and> im_collection m' = im_collection m \<and> im_position m' = im_position m
     \<and> (im_executed m \<longrightarrow> im_executed m')
     \<and> (\<not> deletedAtIsZero (im_deleted_at m) \<longrightarrow> m' = m)"

definition movements_step :: "db \<Rightarrow> db \<Rightarrow> bool" where
  "movements_step d d' \<longleftrightarrow> (movements_ok (item_movements d) \<longrightarrow> movements_ok (item_movements d'))
     \<and> (\<forall>m \<in> set (item_movements d). \<exists>m' \<in> set (item_movements d'). movement_kept m m')"

lemma movement_kept_refl [simp]: "movement_kept m m"
  by (simp add: movement_kept_def)

lemma movement_kept_trans: "movement_kept a b \<Longrightarrow> movement_kept b c \<Longrightarrow> movement_kept a c"
  by (auto simp: movement_kept_def)

lemma movements_step_same: "item_movements d' = item_movements d \<Longrightarrow> movements_step d d'"
  by (auto simp: movements_step_def intro: movement_kept_refl)

lemma movements_step_trans: "movements_step a b \<Longrightarrow> movements_step b c \<Longrightarrow> movements_step a c"
  unfolding movements_step_def by (meson movement_kept_trans)

lemma movements_step_new:
  assumes "item_movements d' = item_movements d @ [m]"
    and "\<forall>x \<in> set (item_movements d). im_id x \<noteq> im_id m"
  shows "movements_step d d'"
  using assms by (auto simp: movements_step_def movements_ok_def intro: movement_kept_refl)

text \<open>An update must keep the identifiers and the terms.\<close>

lemma movements_step_update:
  assumes "update_where p f (item_movements d) = Inr ms" and "item_movements d' = ms"
    and kept: "\<And>m. m \<in> set (item_movements d) \<Longrightarrow> p m \<Longrightarrow> movement_kept m (f m)"
  shows "movements_step d d'"
proof -
  let ?g = "\<lambda>m. if p m then f m else m"
  have ms: "item_movements d' = map ?g (item_movements d)"
    using assms(1,2) by (auto simp: update_where_def split: if_splits)
  have g: "movement_kept m (?g m)" if "m \<in> set (item_movements d)" for m
    using kept that by simp
  have "map im_id (item_movements d') = map im_id (item_movements d)"
    using g by (auto simp: ms movement_kept_def)
  moreover have "\<forall>m \<in> set (item_movements d). \<exists>m' \<in> set (item_movements d'). movement_kept m m'"
  proof
    fix m assume m: "m \<in> set (item_movements d)"
    then have "?g m \<in> set (item_movements d')" by (simp add: ms)
    with g [OF m] show "\<exists>m' \<in> set (item_movements d'). movement_kept m m'" by blast
  qed
  ultimately show ?thesis by (simp add: movements_step_def movements_ok_def)
qed

lemma itemMovement_Create_Inr:
  assumes "itemMovement_Create c input d = Inr (m, d')"
  shows "item_movements d' = item_movements d @ [m]"
    and "\<forall>x \<in> set (item_movements d). im_id x \<noteq> im_id m"
  using assms
  by (auto simp: itemMovement_Create_def Let_def tick_def new_item_movement_def list_ex_iff
      split: sum.splits if_splits)

lemma SetExecuted_movements_step:
  assumes "itemMovement_SetExecuted c i d = Inr d'"
  shows "movements_step d d'"
proof -
  from assms obtain ms where
    "update_where (\<lambda>m. im_id m = i \<and> mutable c (im_tenant m) (im_deleted_at m))
       (\<lambda>m. m\<lparr>im_executed := True, im_executed_at := Some (c_clock c (writes d))\<rparr>) (item_movements d) = Inr ms"
    and "item_movements d' = ms"
    by (auto simp: itemMovement_SetExecuted_def tick_def split: sum.splits)
  then show ?thesis
    by (rule movements_step_update) (auto simp: movement_kept_def mutable_def)
qed

text \<open>With distinct identifiers, the movement the guard has read is the one the update finds.\<close>

lemma itemMovement_Get_unique:
  assumes "itemMovement_Get c d i = Inr m" and "movements_ok (item_movements d)"
    and "x \<in> set (item_movements d)" and "im_id x = i"
  shows "x = m"
  using itemMovement_Get_Inr [OF assms(1)] assms(2-4)
  by (auto simp: movements_ok_def distinct_map inj_on_def)

lemma SoftDelete_movements_step:
  assumes run: "itemMovement_SoftDelete c i d = Inr d'"
  shows "movements_step d d'"
proof -
  from run obtain ms where
    "update_where (\<lambda>m. im_id m = i \<and> mutable c (im_tenant m) (im_deleted_at m))
       (\<lambda>m. m\<lparr>im_deleted_at := Some (c_clock c (writes d)), im_deleted_by := c_user c\<rparr>) (item_movements d) = Inr ms"
    and "item_movements d' = ms"
    by (auto simp: itemMovement_SoftDelete_def tick_def split: sum.splits)
  then show ?thesis
    by (rule movements_step_update) (auto simp: movement_kept_def mutable_def)
qed

lemma store_movements_step:
  assumes "movements_step d d1" and "procStore mv rows d1 = Inr d'"
  shows "movements_step d d'"
  using movements_step_trans [OF assms(1) movements_step_new] procStore_Inr(1,2) [OF assms(2)] by blast

lemma write_item_movements:
  shows "stock_CreateBulk c rows d = Inr d' \<Longrightarrow> item_movements d' = item_movements d"
    and "transaction_CreateBulk c ts d = Inr d' \<Longrightarrow> item_movements d' = item_movements d"
    and "repositoryMovement_Create c input' d = Inr (mv, d') \<Longrightarrow> item_movements d' = item_movements d"
    and "repositoryMovement_Update c i f d = Inr d' \<Longrightarrow> item_movements d' = item_movements d"
    and "repository_SetParent c i p d = Inr d' \<Longrightarrow> item_movements d' = item_movements d"
    and "collection_Create c dto d = Inr d' \<Longrightarrow> item_movements d' = item_movements d"
    and "collection_SoftDelete c i d = Inr d' \<Longrightarrow> item_movements d' = item_movements d"
    and "item_movements (stock_DeleteTenant c tn d) = item_movements d"
    and "rewindRepositoryMovement c mov d = Inr d' \<Longrightarrow> item_movements d' = item_movements d"
  by (auto simp: stock_CreateBulk_def transaction_CreateBulk_def repositoryMovement_Create_def
      repositoryMovement_Update_def repository_SetParent_def collection_Create_def
      collection_SoftDelete_def stock_DeleteTenant_def rewindRepositoryMovement_def tick_def Let_def split: sum.splits if_splits)

lemma only_stocks_item_movements: "only_stocks d d' \<Longrightarrow> item_movements d' = item_movements d"
  unfolding only_stocks_def by (metis db.ext_inject db.surjective db.update_convs(3) db.update_convs(8))

interpretation movements: service any_ctx movements_step any_tenant
proof
  show "movements_step d d" for d by (simp add: movements_step_same)
  show "movements_step d d1 \<Longrightarrow> movements_step d1 d2 \<Longrightarrow> movements_step d d2" for d d1 d2
    by (rule movements_step_trans)
  show "itemMovement_Create c input d = Inr (m, d') \<Longrightarrow> movements_step d d'" for c input d m d'
    by (rule movements_step_new) (rule itemMovement_Create_Inr, assumption)+
qed (blast intro: movements_step_same write_item_movements SetExecuted_movements_step
  SoftDelete_movements_step store_movements_step)+

section \<open>Repository movements in reachable states\<close>

text \<open>The same relation for repository movements.\<close>

definition repo_movements_ok :: "repository_movement list \<Rightarrow> bool" where
  "repo_movements_ok ms \<longleftrightarrow> distinct (map rm_id ms)"

definition repo_movement_kept :: "repository_movement \<Rightarrow> repository_movement \<Rightarrow> bool" where
  "repo_movement_kept m m' \<longleftrightarrow> rm_id m' = rm_id m \<and> rm_tenant m' = rm_tenant m
     \<and> rm_repository m' = rm_repository m \<and> rm_from m' = rm_from m \<and> rm_to m' = rm_to m
     \<and> rm_collection m' = rm_collection m \<and> rm_position m' = rm_position m
     \<and> (rm_executed m \<longrightarrow> rm_executed m')
     \<and> (\<not> deletedAtIsZero (rm_deleted_at m) \<longrightarrow> m' = m)"

definition repo_movements_step :: "db \<Rightarrow> db \<Rightarrow> bool" where
  "repo_movements_step d d' \<longleftrightarrow>
     (repo_movements_ok (repository_movements d) \<longrightarrow> repo_movements_ok (repository_movements d'))
     \<and> (\<forall>m \<in> set (repository_movements d). \<exists>m' \<in> set (repository_movements d'). repo_movement_kept m m')"

lemma repo_movement_kept_refl [simp]: "repo_movement_kept m m"
  by (simp add: repo_movement_kept_def)

lemma repo_movement_kept_trans: "repo_movement_kept a b \<Longrightarrow> repo_movement_kept b c \<Longrightarrow> repo_movement_kept a c"
  by (auto simp: repo_movement_kept_def)

lemma repo_movements_step_same:
  "repository_movements d' = repository_movements d \<Longrightarrow> repo_movements_step d d'"
  by (auto simp: repo_movements_step_def intro: repo_movement_kept_refl)

lemma repo_movements_step_trans:
  "repo_movements_step a b \<Longrightarrow> repo_movements_step b c \<Longrightarrow> repo_movements_step a c"
  unfolding repo_movements_step_def by (meson repo_movement_kept_trans)

lemma repo_movements_step_update:
  assumes "repositoryMovement_Update c i f d = Inr d'"
    and kept: "\<And>m. deletedAtIsZero (rm_deleted_at m) \<Longrightarrow> repo_movement_kept m (f m)"
  shows "repo_movements_step d d'"
proof -
  let ?p = "\<lambda>m. rm_id m = i \<and> mutable c (rm_tenant m) (rm_deleted_at m)"
  let ?g = "\<lambda>m. if ?p m then f m else m"
  from assms(1) have ms: "repository_movements d' = map ?g (repository_movements d)"
    by (auto simp: repositoryMovement_Update_def update_where_def tick_def split: sum.splits if_splits)
  have g: "repo_movement_kept m (?g m)" for m
    using kept [of m] by (auto simp: mutable_def)
  then have "map rm_id (repository_movements d') = map rm_id (repository_movements d)"
    by (simp add: ms repo_movement_kept_def)
  moreover have "\<forall>m \<in> set (repository_movements d). \<exists>m' \<in> set (repository_movements d'). repo_movement_kept m m'"
  proof
    fix m assume "m \<in> set (repository_movements d)"
    then have "?g m \<in> set (repository_movements d')" by (simp add: ms)
    with g [of m] show "\<exists>m' \<in> set (repository_movements d'). repo_movement_kept m m'" by blast
  qed
  ultimately show ?thesis by (simp add: repo_movements_step_def repo_movements_ok_def)
qed

lemma repositoryMovement_Create_Inr:
  assumes "repositoryMovement_Create c input d = Inr (mv, d')"
  shows "repository_movements d' = repository_movements d @ [mv]"
    and "\<forall>x \<in> set (repository_movements d). rm_id x \<noteq> rm_id mv"
  using assms
  by (auto simp: repositoryMovement_Create_def Let_def tick_def new_repository_movement_def list_ex_iff
      split: sum.splits if_splits)

lemma repo_movements_step_new:
  assumes "repositoryMovement_Create c input d = Inr (mv, d')"
  shows "repo_movements_step d d'"
  using repositoryMovement_Create_Inr [OF assms]
  by (auto simp: repo_movements_step_def repo_movements_ok_def intro: repo_movement_kept_refl)

lemma write_repository_movements:
  shows "stock_CreateBulk c rows d = Inr d' \<Longrightarrow> repository_movements d' = repository_movements d"
    and "transaction_CreateBulk c ts d = Inr d' \<Longrightarrow> repository_movements d' = repository_movements d"
    and "itemMovement_Create c input d = Inr (m, d') \<Longrightarrow> repository_movements d' = repository_movements d"
    and "procStore im rows d = Inr d' \<Longrightarrow> repository_movements d' = repository_movements d"
    and "repository_movements (stock_DeleteTenant c tn d) = repository_movements d"
    and "rewindRepositoryMovement c mov d = Inr d' \<Longrightarrow> repository_movements d' = repository_movements d"
    and "itemMovement_SetExecuted c i d = Inr d' \<Longrightarrow> repository_movements d' = repository_movements d"
    and "itemMovement_SoftDelete c i d = Inr d' \<Longrightarrow> repository_movements d' = repository_movements d"
    and "repository_SetParent c i p d = Inr d' \<Longrightarrow> repository_movements d' = repository_movements d"
    and "collection_Create c dto d = Inr d' \<Longrightarrow> repository_movements d' = repository_movements d"
    and "collection_SoftDelete c i d = Inr d' \<Longrightarrow> repository_movements d' = repository_movements d"
  by (auto simp: stock_CreateBulk_def transaction_CreateBulk_def itemMovement_Create_def
      itemMovement_SetExecuted_def itemMovement_SoftDelete_def procStore_def
      stock_DeleteTenant_def rewindRepositoryMovement_def repository_SetParent_def collection_Create_def collection_SoftDelete_def tick_def Let_def
      split: sum.splits list.splits if_splits)

lemma store_repo_movements_step:
  "\<lbrakk>repo_movements_step d d1; procStore mv rows d1 = Inr d'\<rbrakk> \<Longrightarrow> repo_movements_step d d'"
  by (blast intro: repo_movements_step_trans repo_movements_step_same write_repository_movements)

interpretation repo_movements: service any_ctx repo_movements_step any_tenant
proof
  show "repo_movements_step d d" for d by (simp add: repo_movements_step_same)
  show "repo_movements_step d d1 \<Longrightarrow> repo_movements_step d1 d2 \<Longrightarrow> repo_movements_step d d2" for d d1 d2
    by (rule repo_movements_step_trans)
  show "repositoryMovement_Update c i (\<lambda>m. m\<lparr>rm_executed := True, rm_executed_at := t\<rparr>) d = Inr d'
      \<Longrightarrow> repo_movements_step d d'" for c i t d d'
    by (erule repo_movements_step_update) (simp add: repo_movement_kept_def)
  show "repositoryMovement_Update c i (\<lambda>m. m\<lparr>rm_deleted_at := t, rm_deleted_by := u\<rparr>) d = Inr d'
      \<Longrightarrow> repo_movements_step d d'" for c i t u d d'
    by (erule repo_movements_step_update) (simp add: repo_movement_kept_def)
qed (blast intro: repo_movements_step_same repo_movements_step_new write_repository_movements
  store_repo_movements_step)+

end
