(* ===== verification/Examples.thy ===== *)
theory Examples
  imports Lifecycle
begin

text \<open>
  A small warehouse the witnesses evaluate: one tenant, a root 10 with the shelves 11 and 12,
  a bin 13 on shelf 11, and a virtual supplier 20. Item 5 lies in bin 13 (six pieces)
  and on shelf 12 (three pieces); movement 500 is to take two pieces from the bin to the shelf.
\<close>

definition exCtx :: ctx where
  "exCtx = \<lparr>c_user = 7, c_system = False, c_tenants = [1], c_mutationTenant = 1, c_showDeleted = False,
     c_deferredUnderflow = False, c_uuid = (\<lambda>n. of_nat (1000 + n)), c_clock = (\<lambda>n. 100 + int n)\<rparr>"

definition exRepo :: "uuid \<Rightarrow> uuid \<Rightarrow> bool \<Rightarrow> repository" where
  "exRepo i p v = \<lparr>r_id = i, r_tenant = 1, r_parent = p, virtual_repo = v, r_deleted_at = None\<rparr>"

definition exRow :: "uuid \<Rightarrow> int64 \<Rightarrow> int64 \<Rightarrow> int64 \<Rightarrow> stock" where
  "exRow r q own v = \<lparr>s_tenant = 1, s_repository = r, s_item = 5, s_movement = 0, quantity = q,
     incoming_stock = 0, outgoing_stock = 0, own_quantity = own, own_incoming_stock = 0,
     own_outgoing_stock = 0, version = v, s_deleted_at = None\<rparr>"

definition exMovement :: item_movement where
  "exMovement = \<lparr>im_id = 500, im_tenant = 1, im_item = 5, im_from = 13, im_to = 12, im_quantity = 2,
     im_executed = False, im_executed_at = None, im_handler = ''ops'', im_collection = 0, im_position = 0,
     im_created_at = 50, im_deleted_at = None, im_deleted_by = 0\<rparr>"

definition exDb :: db where
  "exDb = \<lparr>items = [\<lparr>i_id = 5, i_tenant = 1, i_deleted_at = None\<rparr>],
     repositories = [exRepo 10 0 False, exRepo 11 10 False, exRepo 12 10 False, exRepo 13 11 False, exRepo 20 0 True],
     stocks = [exRow 10 9 0 0, exRow 11 6 0 0, exRow 12 3 3 0, exRow 13 6 6 1],
     item_movements = [exMovement], repository_movements = [], collection_movements = [],
     transactions = [], writes = 0\<rparr>"

abbreviation exTree :: repo_map where
  "exTree \<equiv> tenantTree exDb 1 False"

text \<open>Two repositories that are each other's parent, and a third below them.\<close>

definition exCycle :: repo_map where
  "exCycle = [(30, exRepo 30 31 False), (31, exRepo 31 30 False), (32, exRepo 32 31 False), (40, exRepo 40 0 False)]"

text \<open>The loaded part of the ledger for an item movement from bin 13 to shelf 12.\<close>

definition exPrior :: prior_map where
  "exPrior = snd (loadAncestorStocks OtherDialect exCtx exDb 1 [13, 12] [5] False)"

definition exNested :: nested_map where
  "exNested = nestStockKeyMap exPrior"

lemma exNested_room: "reservation_room 2 (nget exNested x 5)"
proof -
  have dom: "\<forall>x \<in> set (gkeys exNested). reservation_room 2 (nget exNested x 5)" "reservation_room 2 zero_stock"
    by code_simp+
  show ?thesis
  proof (cases "x \<in> set (gkeys exNested)")
    case False
    then have "nget exNested x 5 = zero_stock" by (simp add: nget_def gkeys_gget ggetd_def gget_def)
    with dom(2) show ?thesis by simp
  qed (use dom(1) in blast)
qed

end
