(* ===== verification/TreeProperties.thy ===== *)
theory TreeProperties
  imports Examples
begin

text \<open>
  Properties of the tree walks: the lowest common ancestor, the executor and the simulation.
  A chain is the list of nodes a walk visits, from one end up to the common ancestor or, when
  there is none, up to the root.
\<close>

definition lca_chain :: "repo_map \<Rightarrow> uuid \<Rightarrow> uuid \<Rightarrow> uuid \<Rightarrow> uuid list" where
  "lca_chain m f t r = the (walk_path (walk_fuel m) m (lowestCommonAncestor m f t) r)"

lemma lca_chain_path:
  "acyclic_at m r \<Longrightarrow> walk_path (walk_fuel m) m (lowestCommonAncestor m f t) r = Some (lca_chain m f t r)"
  unfolding lca_chain_def using walk_path_total by fastforce

section \<open>Lowest common ancestor\<close>

text \<open>
  C26: what lowestCommonAncestor returns, when it is not uuid.Nil, is an ancestor of both
  repositories (reflexively), and every common ancestor is an ancestor of it. For two loaded
  repositories with no cycle above the first, it is uuid.Nil exactly when they share no
  ancestor.
\<close>
theorem lca_is_least:
  "(lowestCommonAncestor m f t \<noteq> uuid_Nil \<longrightarrow>
      anc m f (lowestCommonAncestor m f t) \<and> anc m t (lowestCommonAncestor m f t)
      \<and> (\<forall>b. anc m f b \<and> anc m t b \<longrightarrow> anc m (lowestCommonAncestor m f t) b))
   \<and> (acyclic_at m f \<and> f \<noteq> uuid_Nil \<and> gget m f \<noteq> None \<and> gget m t \<noteq> None \<longrightarrow>
      (lowestCommonAncestor m f t = uuid_Nil \<longleftrightarrow> \<not> (\<exists>b. anc m f b \<and> anc m t b)))"
  using lca_spec lca_complete unfolding uuid_Nil_def by metis

theorem lca_is_least_witness:
  "anc exTree 13 10 \<and> anc exTree 12 10 \<and> \<not> (\<exists>b. anc exTree 13 b \<and> anc exTree 20 b)"
proof -
  have "lowestCommonAncestor exTree 13 12 = 10" "(10::uuid) \<noteq> uuid_Nil" "acyclic_at exTree 13" "(13::uuid) \<noteq> uuid_Nil"
    "gget exTree 13 \<noteq> None" "gget exTree 20 \<noteq> None" "lowestCommonAncestor exTree 13 20 = uuid_Nil" by code_simp+
  with lca_is_least [of exTree 13 12] lca_is_least [of exTree 13 20] show ?thesis by simp
qed

section \<open>The executor\<close>

text \<open>The row an executed movement leaves at a node, from the row that was loaded.\<close>

definition moved_row :: "repo_map \<Rightarrow> prior_map \<Rightarrow> uuid \<Rightarrow> uuid \<Rightarrow> uuid \<Rightarrow> int64 \<Rightarrow> uuid \<Rightarrow> stock" where
  "moved_row m prior itemID f t q x =
     (let b = ggetd zero_stock prior (x, itemID);
          b = (if x \<in> set (lca_chain m f t f) then stockDelta (isVirtual m x) (x = f) (neg64 q) b else b)
      in if x \<in> set (lca_chain m f t t) then stockDelta (isVirtual m x) (x = t) q b else b)"

text \<open>
  C6: applyItemMovementStockDelta writes exactly one row for each repository on the two chains
  up to the common ancestor and none elsewhere; a row on both chains (the common ancestor)
  carries both deltas, and the own counters change at the two ends only.
\<close>
theorem executor_rows:
  assumes "applyItemMovementStockDelta itemID f t q m prior [] True = Inr sm"
    and "acyclic_at m f" and "acyclic_at m t"
  shows "gget sm x = (if x \<in> set (lca_chain m f t f) \<union> set (lca_chain m f t t)
    then Some (moved_row m prior itemID f t q x) else None)"
proof -
  note p = lca_chain_path [OF assms(2), of f t] lca_chain_path [OF assms(3), of f t]
  from applyItemMovementStockDelta_look [OF assms p, of x] applyItemMovementStockDelta_keys [OF assms(1) p, of x]
  show ?thesis
    by (auto simp: moved_row_def execBase_def [of itemID prior sm x] Let_def split: option.splits)
qed

theorem executor_rows_witness:
  "\<exists>sm. applyItemMovementStockDelta 5 13 12 2 exTree exPrior [] True = Inr sm \<and>
     gget sm 11 = Some (moved_row exTree exPrior 5 13 12 2 11) \<and> gget sm 20 = None"
proof -
  have "case applyItemMovementStockDelta 5 13 12 2 exTree exPrior [] True of Inl _ \<Rightarrow> False | Inr _ \<Rightarrow> True"
    by code_simp
  then obtain sm where sm: "applyItemMovementStockDelta 5 13 12 2 exTree exPrior [] True = Inr sm"
    by (auto split: sum.splits)
  have "acyclic_at exTree 13" "acyclic_at exTree 12" by code_simp+
  note rows = executor_rows [OF sm this]
  have "(11::uuid) \<in> set (lca_chain exTree 13 12 13) \<union> set (lca_chain exTree 13 12 12)"
    "(20::uuid) \<notin> set (lca_chain exTree 13 12 13) \<union> set (lca_chain exTree 13 12 12)" by code_simp+
  with sm rows [of 11] rows [of 20] show ?thesis by simp
qed

text \<open>
  C7: the underflow guard. When applyItemMovementStockDelta succeeds, no row it hands to the
  INSERT has a negative quantity; when the two chains are loaded and acyclic it always
  returns, and it fails only with the underflow of a row that the deltas make negative.
\<close>
theorem executor_guard:
  assumes "acyclic_at m f" and "acyclic_at m t"
    and "\<And>x. anc m f x \<or> anc m t x \<Longrightarrow> gget m x \<noteq> None"
  shows "case applyItemMovementStockDelta itemID f t q m prior sm0 ownStock of
      Inr sm \<Rightarrow> (\<forall>x rec. gget sm x = Some rec \<longrightarrow> 0 \<le> quantity rec)
    | Inl e \<Rightarrow> (\<exists>r n. e = ErrStockUnderflow r n \<and> n < 0)"
proof -
  let ?l = "lowestCommonAncestor m f t"
  obtain sm1 where w1: "applyRepositoryStockDelta (walk_fuel m) itemID f ?l (neg64 q) m prior sm0 ownStock = Inr sm1"
    using exec.walk_terminates [OF assms(1)] assms(3) by blast
  obtain sm2 where w2: "applyRepositoryStockDelta (walk_fuel m) itemID t ?l q m prior sm1 ownStock = Inr sm2"
    using exec.walk_terminates [OF assms(2)] assms(3) by blast
  show ?thesis
    using validate_Inr [of sm2] validate_Inl [of sm2]
    by (auto simp: applyItemMovementStockDelta_def Let_def w1 w2 split: sum.splits)
qed

theorem executor_guard_witness:
  "applyItemMovementStockDelta 5 13 12 7 exTree exPrior [] True = Inl (ErrStockUnderflow 13 (-1))
   \<and> (\<exists>r n. ErrStockUnderflow 13 (-1) = ErrStockUnderflow r n \<and> n < 0)"
proof -
  have u: "applyItemMovementStockDelta 5 13 12 7 exTree exPrior [] True = Inl (ErrStockUnderflow 13 (-1))"
    by code_simp
  have ac: "acyclic_at exTree 13" "acyclic_at exTree 12" by code_simp+
  have "gget exTree x \<noteq> None" if "anc exTree 13 x \<or> anc exTree 12 x" for x
  proof -
    have s: "fromAncestors exTree [] 13 = Some [10, 11, 13]" "fromAncestors exTree [] 12 = Some [10, 12]"
      by code_simp+
    from fromAncestors_set [OF s(1)] fromAncestors_set [OF s(2)] that have "x \<in> {10, 11, 12, 13}" by auto
    moreover have "\<forall>x \<in> set [10, 11, 12, 13]. gget exTree x \<noteq> None" by code_simp
    ultimately show ?thesis by auto
  qed
  from executor_guard [OF ac this, of 5 7 exPrior "[]" True] u show ?thesis by simp
qed

text \<open>
  The recursion of applyRepositoryStockDelta on a parent chain that runs into a cycle away
  from the stop node never returns: with any amount of fuel it is still running. The
  repository handlers do not exclude such chains.
\<close>
theorem executor_diverges_on_cycle:
  assumes "anc m r z" and "on_cycle m z" and "\<not> anc m r lcaID"
  shows "applyRepositoryStockDelta n itemID r lcaID q m prior sm ownStock = Inl FatalStackOverflow"
  by (rule exec.walk_diverges [OF cycle_never_ends [OF assms(1,2)] assms(3)])

theorem executor_diverges_on_cycle_witness:
  "\<forall>n. applyRepositoryStockDelta n 5 32 (lowestCommonAncestor exCycle 32 40) 1 exCycle [] [] True = Inl FatalStackOverflow"
proof
  have st: "parent_step exCycle 32 31" "parent_step exCycle 31 30" "parent_step exCycle 30 31"
    by (code_simp, code_simp, code_simp)
  have l: "lowestCommonAncestor exCycle 32 40 = 0" by code_simp
  show "applyRepositoryStockDelta n 5 32 (lowestCommonAncestor exCycle 32 40) 1 exCycle [] [] True = Inl FatalStackOverflow" for n
  proof (rule executor_diverges_on_cycle)
    show "anc exCycle 32 31" using st(1) by (rule r_into_rtranclp)
    show "on_cycle exCycle 31" using st(2,3) by (rule tranclp.trancl_into_trancl [OF tranclp.r_into_trancl])
    show "\<not> anc exCycle 32 (lowestCommonAncestor exCycle 32 40)"
      unfolding l using anc_nonzero [of exCycle 32 0] by auto
  qed
qed

section \<open>The simulation\<close>

text \<open>The reserving walks in plain integers.\<close>

lemma simDelta_in:
  assumes "0 < q" and "0 \<le> incoming_stock b" and "fits64 (incoming_stock b + q)"
    and "0 \<le> own_incoming_stock b" and "fits64 (own_incoming_stock b + q)"
  shows "simDelta own False q l b = b\<lparr>incoming_stock := incoming_stock b + (if l then 0 else q),
    own_incoming_stock := own_incoming_stock b + (if own then q else 0)\<rparr>"
proof -
  have "max (add64 (incoming_stock b) q) 0 = incoming_stock b + q"
    "max (add64 (own_incoming_stock b) q) 0 = own_incoming_stock b + q"
    using assms by (simp_all add: arith64 i64_id)
  with assms(1) show ?thesis by (cases b; cases l; cases own) (simp_all add: simDelta_def Let_def)
qed

lemma simDelta_out:
  assumes "0 < q" and "0 \<le> outgoing_stock b" and "fits64 (outgoing_stock b + q)"
    and "0 \<le> own_outgoing_stock b" and "fits64 (own_outgoing_stock b + q)"
  shows "simDelta own False (- q) l b = b\<lparr>outgoing_stock := outgoing_stock b + (if l then 0 else q),
    own_outgoing_stock := own_outgoing_stock b + (if own then q else 0)\<rparr>"
proof -
  have "max (sub64 (outgoing_stock b) (- q)) 0 = outgoing_stock b + q"
    "max (sub64 (own_outgoing_stock b) (- q)) 0 = own_outgoing_stock b + q"
    using assms by (simp_all add: arith64 i64_id)
  with assms(1) show ?thesis by (cases b; cases l; cases own) (simp_all add: simDelta_def Let_def)
qed

lemma reserve_row:
  assumes "0 < q" and "reservation_room q b" and "is_f \<Longrightarrow> x_f" and "is_t \<Longrightarrow> x_t"
  shows "(let a = (if x_f then simDelta is_f False (- q) lf b else b)
      in if x_t then simDelta is_t False q lt a else a) =
    b\<lparr>incoming_stock := incoming_stock b + (if x_t \<and> \<not> lt then q else 0),
      outgoing_stock := outgoing_stock b + (if x_f \<and> \<not> lf then q else 0),
      own_incoming_stock := own_incoming_stock b + (if is_t then q else 0),
      own_outgoing_stock := own_outgoing_stock b + (if is_f then q else 0)\<rparr>"
proof -
  note room = assms(2) [unfolded reservation_room_def reservations_ok_def]
  define a where "a = (if x_f then simDelta is_f False (- q) lf b else b)"
  have a: "a = b\<lparr>outgoing_stock := outgoing_stock b + (if x_f \<and> \<not> lf then q else 0),
      own_outgoing_stock := own_outgoing_stock b + (if is_f then q else 0)\<rparr>"
    using simDelta_out [OF assms(1), of b is_f lf] room assms(3) by (cases b; cases x_f) (auto simp: a_def)
  have "(if x_t then simDelta is_t False q lt a else a) =
      a\<lparr>incoming_stock := incoming_stock a + (if x_t \<and> \<not> lt then q else 0),
        own_incoming_stock := own_incoming_stock a + (if is_t then q else 0)\<rparr>"
    using simDelta_in [OF assms(1), of a is_t lt] room assms(4) unfolding a by (cases b; cases x_t) auto
  then show ?thesis unfolding Let_def a_def [symmetric] unfolding a by simp
qed

text \<open>
  C9: the reservations of a new item movement. With room in the counters, the two simulation
  walks add the quantity to the incoming stock of the nodes on the target's chain below the
  common ancestor and to the outgoing stock on the source's chain, and to the own counters of
  the two ends; quantities, other items and all other repositories are left alone.
\<close>
theorem simulation_reserves:
  assumes "acyclic_at m f" and "acyclic_at m t" and "0 < q" and "fits64 q"
    and "\<And>x. reservation_room q (nget sm x itemID)"
    and "simulateMovement False itemID f t q m sm = Inr sm'"
  shows "nget sm' x i = (if i \<noteq> itemID then nget sm x i else
    let b = nget sm x i;
        out = x \<in> set (lca_chain m f t f) \<and> x \<noteq> lowestCommonAncestor m f t;
        inn = x \<in> set (lca_chain m t f t) \<and> x \<noteq> lowestCommonAncestor m t f
    in b\<lparr>incoming_stock := incoming_stock b + (if inn then q else 0),
         outgoing_stock := outgoing_stock b + (if out then q else 0),
         own_incoming_stock := own_incoming_stock b + (if x = t then q else 0),
         own_outgoing_stock := own_outgoing_stock b + (if x = f then q else 0)\<rparr>)"
proof -
  have n: "neg64 q = - q" using assms(3,4) by (intro neg64_id) (simp add: fits64_def)
  note p = lca_chain_path [OF assms(1), of f t] lca_chain_path [OF assms(2), of t f]
  have ends: "f \<in> set (lca_chain m f t f)" "t \<in> set (lca_chain m t f t)"
    using walk_path_hd [OF p(1)] walk_path_hd [OF p(2)] by auto
  from assms(6) n obtain a where
    a: "simulateRepositoryStockMapWithMode itemID f t (- q) sm m True False = Inr a"
    "simulateRepositoryStockMapWithMode itemID t f q a m True False = Inr sm'"
    by (auto simp: simulateMovement_def split: sum.splits)
  note look = simulate_look [OF a(1) assms(1) p(1)] simulate_look [OF a(2) assms(2) p(2)]
  show ?thesis
  proof (cases "i = itemID")
    case True
    have "nget sm' x i = (let a = (if x \<in> set (lca_chain m f t f)
          then simDelta (x = f) False (- q) (x = lowestCommonAncestor m f t) (nget sm x itemID) else nget sm x itemID)
        in if x \<in> set (lca_chain m t f t) then simDelta (x = t) False q (x = lowestCommonAncestor m t f) a else a)"
      by (simp add: look True Let_def)
    also have "\<dots> = (nget sm x itemID)\<lparr>
        incoming_stock := incoming_stock (nget sm x itemID) + (if x \<in> set (lca_chain m t f t) \<and> x \<noteq> lowestCommonAncestor m t f then q else 0),
        outgoing_stock := outgoing_stock (nget sm x itemID) + (if x \<in> set (lca_chain m f t f) \<and> x \<noteq> lowestCommonAncestor m f t then q else 0),
        own_incoming_stock := own_incoming_stock (nget sm x itemID) + (if x = t then q else 0),
        own_outgoing_stock := own_outgoing_stock (nget sm x itemID) + (if x = f then q else 0)\<rparr>"
      by (rule reserve_row [OF assms(3,5)]) (use ends in auto)
    finally show ?thesis unfolding Let_def True by simp
  qed (simp add: look)
qed

theorem simulation_reserves_witness:
  "\<exists>sm'. simulateMovement False 5 13 12 2 exTree exNested = Inr sm' \<and>
     outgoing_stock (nget sm' 11 5) = 2 \<and> incoming_stock (nget sm' 12 5) = 2 \<and> outgoing_stock (nget sm' 10 5) = 0"
proof -
  have "case simulateMovement False 5 13 12 2 exTree exNested of Inl _ \<Rightarrow> False | Inr _ \<Rightarrow> True" by code_simp
  then obtain sm' where sm: "simulateMovement False 5 13 12 2 exTree exNested = Inr sm'"
    by (auto split: sum.splits)
  have ac: "acyclic_at exTree 13" "acyclic_at exTree 12" by code_simp+
  have f: "fits64 2" by code_simp
  note res = simulation_reserves [OF ac _ f exNested_room sm]
  have c: "lca_chain exTree 13 12 13 = [13, 11, 10]" "lca_chain exTree 12 13 12 = [12, 10]"
    "lowestCommonAncestor exTree 13 12 = 10" "lowestCommonAncestor exTree 12 13 = 10"
    "outgoing_stock (nget exNested 11 5) = 0" "incoming_stock (nget exNested 12 5) = 0" "outgoing_stock (nget exNested 10 5) = 0"
    by code_simp+
  from sm res show ?thesis by (simp add: Let_def c)
qed

text \<open>
  C10: deleting a pending movement gives back exactly what creating it reserved. On acyclic
  chains, for a positive quantity with room in the counters, the subtracting walks undo the
  adding walks: every row of every item is what it was.
\<close>
theorem delete_undoes_create:
  assumes "acyclic_at m f" and "acyclic_at m t" and "0 < q" and "fits64 q"
    and "\<And>x. reservation_room q (nget sm x itemID)"
  shows "\<exists>sm1 sm2. simulateMovement False itemID f t q m sm = Inr sm1
    \<and> simulateMovement True itemID f t q m sm1 = Inr sm2 \<and> (\<forall>x i. nget sm2 x i = nget sm x i)"
proof -
  have total: "\<exists>sm'. simulateMovement sub itemID f t q m sm = Inr sm'" for sub sm
  proof -
    obtain a where "simulateRepositoryStockMapWithMode itemID f t (neg64 q) sm m True sub = Inr a"
      using simulate_total [OF assms(1)] by blast
    moreover obtain b where "simulateRepositoryStockMapWithMode itemID t f q a m True sub = Inr b"
      using simulate_total [OF assms(2)] by blast
    ultimately show ?thesis by (simp add: simulateMovement_def)
  qed
  from total obtain sm1 sm2 where
    "simulateMovement False itemID f t q m sm = Inr sm1" "simulateMovement True itemID f t q m sm1 = Inr sm2" by metis
  with simulateMovement_undo [OF assms] show ?thesis by blast
qed

theorem delete_undoes_create_witness:
  "\<exists>sm1 sm2. simulateMovement False 5 13 12 2 exTree exNested = Inr sm1
    \<and> simulateMovement True 5 13 12 2 exTree sm1 = Inr sm2 \<and> (\<forall>x i. nget sm2 x i = nget exNested x i)"
proof (rule delete_undoes_create)
  show "acyclic_at exTree 13" "acyclic_at exTree 12" "fits64 2" by code_simp+
  show "reservation_room 2 (nget exNested x 5)" for x by (rule exNested_room)
qed simp

end
