(* ===== verification/LedgerProperties.thy ===== *)
theory LedgerProperties
  imports Examples
begin

text \<open>
  Properties of the ledger writes: versions and the unique index, the rebase snapshot of the
  repository movements, the order and the chunks of a batch, and OCC conflicts.
\<close>

section \<open>One transaction on its own snapshot\<close>

text \<open>
  InsertStockMap, which versions the rows of a simulation above the rows it has just
  read, never reports an OCC conflict when nothing is written in between, provided the groups
  it writes have no soft-deleted row and none of another tenant.
\<close>
theorem insert_never_conflicts:
  assumes "ledger_ok (stocks d)" and "\<And>r. r \<in> set (gkeys sm) \<Longrightarrow> group_visible c tn d (r, i)"
    and "versions_bounded (length sm) (stocks d)" and "int (length sm) < 9223372036854775807"
  shows "insertStockMap c i tn mv sm d \<noteq> Inl ErrOCCConflict"
  using assms by (rule insertStockMap_no_conflict)

theorem insert_never_conflicts_witness: "insertStockMap exCtx 5 1 500 exNested exDb \<noteq> Inl ErrOCCConflict"
proof (rule insert_never_conflicts)
  show "ledger_ok (stocks exDb)" by code_simp
  have "\<forall>r \<in> set (gkeys exNested). group_visible exCtx 1 exDb (r, 5)" by code_simp
  then show "group_visible exCtx 1 exDb (r, 5)" if "r \<in> set (gkeys exNested)" for r using that by blast
  show "versions_bounded (length exNested) (stocks exDb)" by code_simp
  show "int (length exNested) < 9223372036854775807" by code_simp
qed

section \<open>The rebase snapshot\<close>

lemma fold_raiseFloor_gmap_ok: "gmap_ok f \<Longrightarrow> gmap_ok (fold raiseFloor rows f)"
  by (induction rows arbitrary: f) (auto simp: raiseFloor_def split: option.splits)

lemma fold_opt_gmap_ok:
  "gmap_ok m \<Longrightarrow> gmap_ok (fold (\<lambda>k m. case h k of None \<Rightarrow> m | Some s \<Rightarrow> gput k (g s) m) ks m)"
  by (induction ks arbitrary: m) (auto split: option.splits)

lemma floor_version:
  assumes "(k, v) \<in> set (fst (loadStockRebaseSnapshot dialect c d tn sm))"
  shows "\<exists>s \<in> set (stocks d). s_key s = k \<and> version s = v"
proof -
  let ?pairs = "snapshotPairs sm" and ?c = "showDeletedCtx c"
  let ?rows = "filter (\<lambda>s. s_tenant s = tn \<and> s_repository s \<in> fst ` set ?pairs \<and> s_item s \<in> snd ` set ?pairs)
    (stock_Query ?c d)"
  let ?of = "\<lambda>k. latest_of (filter (\<lambda>s. s_tenant s = tn \<and> s_key s = k) (stocks d))"
  from assms have "?pairs \<noteq> []" by (auto simp: loadStockRebaseSnapshot_def Let_def split: if_splits)
  with assms consider
      (proc) "(k, v) \<in> set (fold (\<lambda>k floor. case ?of k of None \<Rightarrow> floor | Some s \<Rightarrow> gput k (version s) floor) ?pairs [])"
    | (go) "(k, v) \<in> set (fold raiseFloor ?rows [])"
    by (auto simp: loadStockRebaseSnapshot_def loadStockRebaseSnapshotViaProc_def loadStockRebaseSnapshotGo_def
        Let_def split: if_splits)
  then show ?thesis
  proof cases
    case proc
    from gmap_ok_entry [OF fold_opt_gmap_ok proc] have
      "gget (fold (\<lambda>k floor. case ?of k of None \<Rightarrow> floor | Some s \<Rightarrow> gput k (version s) floor) ?pairs []) k = Some v"
      by simp
    then obtain s where "?of k = Some s" "version s = v"
      unfolding fold_opt_gput by (auto split: if_splits option.splits)
    with latest_of_Some [OF this(1)] show ?thesis by auto
  next
    case go
    from gmap_ok_entry [OF fold_raiseFloor_gmap_ok go] have "gget (fold raiseFloor ?rows []) k = Some v" by simp
    with fold_raiseFloor [where rows = ?rows and f = "[]" and k = k] show ?thesis
      by (auto simp: stock_Query_def)
  qed
qed

lemma rebasedRow_simps [simp]:
  "s_repository (rebasedRow tn mv live old (r, i, w)) = r" "s_item (rebasedRow tn mv live old (r, i, w)) = i"
  "s_tenant (rebasedRow tn mv live old (r, i, w)) = tn"
  by (simp_all add: rebasedRow_def rebasedRowAt_def)

text \<open>
  C12: the fan-out of a repository movement takes its version floor from the deleted rows
  too. When nothing is written between its snapshot and its INSERT, it never reports an OCC
  conflict, on either database path, whatever other requests had written since the handler
  read its baseline and whatever rows are soft-deleted.
\<close>
theorem fanout_never_conflicts:
  assumes "ledger_ok (stocks d)" and "TenantIDQueryFilter c tn"
    and "versions_bounded (length (nestedEntries sm)) (stocks d)" and "int (length (nestedEntries sm)) < 9223372036854775807"
  shows "rebaseFanout dialect c tn mv keep sm old (\<lambda>d. d) d \<noteq> Inl ErrOCCConflict"
proof -
  let ?P = "\<lambda>s. s_tenant s = tn \<and> s_key s \<in> set (snapshotPairs sm)"
  obtain fl live where fl: "loadStockRebaseSnapshot dialect c d tn sm = (fl, live)" by fastforce
  let ?es = "filter (\<lambda>(_, itemID, _). keep itemID) (nestedEntries sm)"
  let ?ss = "map (rebasedRow tn mv live old) ?es"
  obtain rows t where as: "assignVersions ?ss (newStockVersionTrackerFromFloors fl) = (rows, t)" by fastforce
  have len: "length ?ss \<le> length (nestedEntries sm)" by simp
  have bound: "0 \<le> version s \<and> version s + 1 + int (length (nestedEntries sm)) < 9223372036854775808"
    if "s \<in> set (stocks d)" for s
    using assms(3) that by (auto simp: versions_bounded_def list_all_iff)
  have flv: "0 \<le> v \<and> v + 1 + int (length (nestedEntries sm)) < 9223372036854775808" if "(k, v) \<in> set fl" for k v
    using floor_version [of k v dialect c d tn sm] fl that bound by auto
  have cover: "\<exists>v. gget fl (s_key x) = Some v \<and> version x \<le> v \<and> fits64 (v + 1)"
    if "x \<in> set (filter ?P (stocks d))" "s_tenant x = tn" for x
  proof -
    from that rebase_floor_covers [OF _ assms(2), of "s_key x" "snapshotPairs sm" dialect x d sm] fl
    obtain v where v: "gget fl (s_key x) = Some v" "version x \<le> v" by (cases dialect) auto
    then have "(s_key x, v) \<in> set fl" by (simp add: gget_def map_of_SomeD)
    with flv v show ?thesis by (fastforce simp: fits64_def)
  qed
  have room: "tracker_room (length ?ss) (newStockVersionTrackerFromFloors fl)"
  proof -
    have "0 \<le> w \<and> w + int (length ?ss) < 9223372036854775808"
      if "w \<in> snd ` set (newStockVersionTrackerFromFloors fl)" for w
    proof -
      from that obtain k v where kv: "(k, v) \<in> set fl" "w = add64 v 1"
        by (auto simp: newStockVersionTrackerFromFloors_def)
      from flv [OF kv(1)] len have "w = v + 1" by (simp add: kv(2) add64_id fits64_def)
      with flv [OF kv(1)] len show ?thesis by linarith
    qed
    then show ?thesis by (simp add: tracker_room_def)
  qed
  have tns: "\<forall>x \<in> set ?ss. s_tenant x = tn" by (auto simp: rebasedRow_def rebasedRowAt_def)
  have lenb: "int (length ?ss) < 9223372036854775808" using len assms(4) by linarith
  have okP: "ledger_ok (filter ?P (stocks d))" using assms(1) by (simp add: ledger_ok_def distinct_map_filter)
  note new = floors.assign_ledger_ok [OF cover as room lenb tns okP]
  have keys: "s_tenant y = tn \<and> s_key y \<in> set (snapshotPairs sm)" if y: "y \<in> set rows" for y
  proof -
    from assignVersions_keys [OF as] have a: "set (map s_key rows) = set (map s_key ?ss)"
      "set (map s_tenant rows) = set (map s_tenant ?ss)" by metis+
    from y have "s_key y \<in> set (map s_key rows)" "s_tenant y \<in> set (map s_tenant rows)" by simp_all
    then have "s_key y \<in> set (map s_key ?ss)" "s_tenant y \<in> set (map s_tenant ?ss)" unfolding a by blast+
    then show ?thesis by (auto simp: snapshotPairs_def rebasedRow_def rebasedRowAt_def image_iff split: prod.splits)
  qed
  have "ledger_ok (stocks d @ rows)"
  proof (rule ledger_ok_fresh [OF assms(1) new])
    fix x y assume x: "\<not> (s_tenant x = tn \<and> s_key x \<in> set (snapshotPairs sm))" and y: "y \<in> set rows"
    show "stock_index x \<noteq> stock_index y"
    proof
      assume "stock_index x = stock_index y"
      then have "s_tenant x = s_tenant y" "s_key x = s_key y" by (simp_all add: stock_index_def)
      with keys [OF y] x show False by metis
    qed
  qed
  then have "wrapOCC (stock_CreateBulk c (sortStockCreates rows) d) \<noteq> Inl ErrOCCConflict"
    by (intro stock_CreateBulk_no_conflict) simp
  then show ?thesis by (simp add: rebaseFanout_def insertRebased_def fl as)
qed

theorem fanout_never_conflicts_witness:
  "rebaseFanout OtherDialect exCtx 1 600 (\<lambda>_. True) exNested exPrior (\<lambda>d. d) exDb \<noteq> Inl ErrOCCConflict"
  by (rule fanout_never_conflicts) (code_simp+)

text \<open>
  Rebasing replays the walk's delta on the row committed in the meantime: the counters
  move by what the walk added or released, clamped at zero, and the quantities are those of
  the fresh row, not of the stale baseline.
\<close>
theorem rebased_replays_delta:
  assumes "walked_from base walked old"
  shows "quantity (rebasedStock base walked old) = quantity base
    \<and> own_quantity (rebasedStock base walked old) = own_quantity base
    \<and> incoming_stock (rebasedStock base walked old) = max (incoming_stock base + (incoming_stock walked - incoming_stock old)) 0
    \<and> outgoing_stock (rebasedStock base walked old) = max (outgoing_stock base + (outgoing_stock walked - outgoing_stock old)) 0
    \<and> own_incoming_stock (rebasedStock base walked old) =
        max (own_incoming_stock base + (own_incoming_stock walked - own_incoming_stock old)) 0
    \<and> own_outgoing_stock (rebasedStock base walked old) =
        max (own_outgoing_stock base + (own_outgoing_stock walked - own_outgoing_stock old)) 0"
  using rebasedStock_spec [OF assms] by blast

theorem rebased_replays_delta_witness:
  "outgoing_stock (rebasedStock ((exRow 13 8 8 2)\<lparr>outgoing_stock := 3\<rparr>) ((exRow 13 6 6 1)\<lparr>outgoing_stock := 2\<rparr>) (exRow 13 6 6 1)) = 5"
proof -
  have "walked_from ((exRow 13 8 8 2)\<lparr>outgoing_stock := 3\<rparr>) ((exRow 13 6 6 1)\<lparr>outgoing_stock := 2\<rparr>) (exRow 13 6 6 1)"
    by code_simp
  from rebased_replays_delta [OF this] show ?thesis by (simp add: exRow_def)
qed

section \<open>Order and chunks\<close>

text \<open>
  The order of a batch does not depend on the order in which the Go maps were iterated:
  two batches with the same rows and no two rows of one key and version are written in the
  same order, sorted by (repository, item, version), so every transaction takes its locks in
  one global order.
\<close>
theorem batch_order_unique:
  assumes "mset xs = mset ys" and "distinct (map createKey xs)"
  shows "sortStockCreates xs = sortStockCreates ys
    \<and> sorted_wrt (\<lambda>a b. compareStockCreates a b \<le> 0) (sortStockCreates xs) \<and> mset (sortStockCreates xs) = mset xs"
proof -
  have "distinct (map createKey (sortStockCreates xs))"
    using assms(2) by (metis mset_sortStockCreates mset_eq_imp_distinct_iff mset_map)
  with assms(1) have "sortStockCreates xs = sortStockCreates ys"
    by (intro sorted_batch_unique sortStockCreates_sorted) simp_all
  then show ?thesis using sortStockCreates_sorted mset_sortStockCreates by blast
qed

theorem batch_order_unique_witness:
  "sortStockCreates [exRow 12 1 1 0, exRow 11 2 2 5] = sortStockCreates [exRow 11 2 2 5, exRow 12 1 1 0]"
proof -
  have "mset [exRow 12 1 1 0, exRow 11 2 2 5] = mset [exRow 11 2 2 5, exRow 12 1 1 0]" by simp
  moreover have "distinct (map createKey [exRow 12 1 1 0, exRow 11 2 2 5])" by code_simp
  ultimately show ?thesis using batch_order_unique by blast
qed

text \<open>
  A large INSERT is cut into consecutive slices that together are the batch; no slice is
  empty and none has more than 4500 rows, so that with the 14 columns of a stock row no
  statement passes the 65535 parameters of the Postgres protocol.
\<close>
theorem chunks_partition:
  shows "concat (map (goSlice xs) (stockBulkChunkBounds (int (length xs)) maxStockRowsPerInsert)) = xs
    \<and> list_all (\<lambda>(a, b). 0 \<le> a \<and> a < b \<and> b \<le> int (length xs) \<and> 14 * (b - a) \<le> 65535)
        (stockBulkChunkBounds (int (length xs)) maxStockRowsPerInsert)"
proof -
  have "concat (map (goSlice xs) (stockBulkChunkBounds (int (length xs)) maxStockRowsPerInsert)) = xs"
    using chunksFrom_concat [of 0 maxStockRowsPerInsert xs]
    by (auto simp: stockBulkChunkBounds_def maxStockRowsPerInsert_def)
  moreover have "0 \<le> a \<and> a < b \<and> b \<le> int (length xs) \<and> 14 * (b - a) \<le> 65535"
    if "(a, b) \<in> set (stockBulkChunkBounds (int (length xs)) maxStockRowsPerInsert)" for a b
    using that chunksFrom_size [of a b "int (length xs)" maxStockRowsPerInsert 0]
    by (auto simp: stockBulkChunkBounds_def maxStockRowsPerInsert_def split: if_splits)
  ultimately show ?thesis by (auto simp: list_all_iff)
qed

section \<open>OCC conflicts\<close>

text \<open>
  A violation of the unique index of the ledger becomes the OCC conflict the callers retry
  on whichever driver reports it; an error of another SQL state, constraint or kind is passed
  through unchanged.
\<close>
theorem occ_translation:
  shows "wrapOCCConflict e =
    (if \<exists>driver message. e = ErrPostgres driver ''23505'' stockOCCUniqueIndex message then ErrOCCConflict else e)"
proof (cases e)
  case (ErrPostgres driver code cname message)
  then show ?thesis by (cases driver) (auto simp: wrapOCCConflict_def)
qed (auto simp: wrapOCCConflict_def)

end
