(* ===== verification/HandlerProperties.thy ===== *)
theory HandlerProperties
  imports Examples
begin

text \<open>
  Properties of the request handlers: what a movement needs to be created and executed, what a
  successful request has done to the tables, and which requests are refused.
\<close>

section \<open>Creating an item movement\<close>

lemma availableStock_current:
  assumes "ledger_live tn i (stocks d)" and "TenantIDQueryFilter c tn"
  shows "availableStock c d tn x i = procBase d tn (x, i)"
proof -
  have "filter (\<lambda>s. s_key s = (x, i) \<and> s_tenant s = tn) (stock_Query c d) =
      filter (\<lambda>s. s_tenant s = tn \<and> s_key s = (x, i) \<and> deletedAtIsNil (s_deleted_at s)) (stocks d)"
    unfolding stock_Query_def filter_filter
    by (rule filter_cong) (use assms in \<open>auto simp: ledger_live_def list_all_iff visible_def
      HistoryMixinQueryFilter_def deletedAtIsNil_def deletedAtIsZero_def\<close>)
  then show ?thesis by (simp add: availableStock_def procBase_def)
qed

definition effective_fits :: "stock \<Rightarrow> bool" where
  "effective_fits s \<longleftrightarrow> fits64 (quantity s + incoming_stock s)
     \<and> fits64 (quantity s + incoming_stock s - outgoing_stock s)"

lemma effectiveStock_fits:
  "effective_fits s \<Longrightarrow> effectiveStock s = quantity s + incoming_stock s - outgoing_stock s"
  by (simp add: effective_fits_def effectiveStock_def arith64 i64_id)

text \<open>A live repository of the tenant is what every lookup of its identifier returns.\<close>

lemma live_repository:
  assumes "repo_ids_ok d" and "TenantIDQueryFilter c tn" and "r \<in> set (repositories d)"
    and "r_tenant r = tn" and "r_deleted_at r = None"
  shows "repository_Get c d (r_id r) = Inr r" and "liveRepositories d tn (r_id r) = [r]"
    and "repositoryInTenant c d tn (r_id r) = Inr r"
proof -
  have uniq: "filter P (repositories d) = [r]" if "P r" "\<And>x. P x \<Longrightarrow> r_id x = r_id r" for P
  proof -
    from assms(3) obtain as bs where s: "repositories d = as @ r # bs" by (meson split_list)
    with assms(1) have "\<forall>x \<in> set as \<union> set bs. r_id x \<noteq> r_id r"
      by (simp add: repo_ids_ok_def) (metis UnE image_eqI)
    then have "\<forall>x \<in> set as \<union> set bs. \<not> P x" using that(2) by blast
    then have "filter P as = []" "filter P bs = []" by (auto simp: filter_empty_conv)
    with that(1) s show ?thesis by simp
  qed
  have v: "visible c (r_tenant r) (r_deleted_at r)"
    using assms(2,4,5) by (simp add: visible_def HistoryMixinQueryFilter_def deletedAtIsZero_def)
  show "repository_Get c d (r_id r) = Inr r"
    unfolding repository_Get_def repository_Query_def ent_Only_Inr filter_filter
    by (rule uniq) (use v in auto)
  show "liveRepositories d tn (r_id r) = [r]"
    unfolding liveRepositories_def using assms(4,5) by (intro uniq) (auto simp: deletedAtIsNil_def)
  show "repositoryInTenant c d tn (r_id r) = Inr r"
    unfolding repositoryInTenant_def repository_Query_def ent_Only_Inr filter_filter
    by (rule uniq) (use v assms(4) in auto)
qed

text \<open>
  C17: outside a collection, an item movement from a real source is created only if the source had the
  stock when the availability gate read the ledger: on both database paths, whatever other requests
  commit while the handler runs and however often the stored procedure retries its INSERT, a
  successful CreateItemMovement means that its quantity is at most quantity + incoming -
  outgoing of the source's current row in the state \<open>others 0 d\<close> the gate saw. The gate is not run
  again afterwards: \<open>retry_overdraws\<close> below shows what that admits.
\<close>
theorem create_needs_stock:
  assumes "CreateItemMovement others dialect c tn input hook emitter d = Inr (m, d')" and "\<not> IsDeferredUnderflow c"
    and "others 0 d = seen" and "repo_ids_ok seen" and "TenantIDQueryFilter c tn"
    and "ledger_live tn (ci_item input) (stocks seen)"
    and "r \<in> set (repositories seen)" "r_id r = ci_from input" "r_tenant r = tn" "r_deleted_at r = None"
    and "\<not> virtual_repo r" and "effective_fits (currentStock seen tn (ci_item input) (ci_from input))"
    and "0 < ci_quantity input"
  shows "ci_quantity input \<le> quantity (currentStock seen tn (ci_item input) (ci_from input))
    + incoming_stock (currentStock seen tn (ci_item input) (ci_from input))
    - outgoing_stock (currentStock seen tn (ci_item input) (ci_from input))"
proof -
  note live = live_repository [OF assms(4,5,7,9,10), unfolded assms(8)]
  note cur = currentStock_def [of seen tn "ci_item input" "ci_from input"]
  show ?thesis
  proof (cases "dialect = Postgres")
    case True
    from assms(1-3) True obtain i e where "create_item_movement_proc others c tn input seen = Inr (i, e)"
      by (auto simp: CreateItemMovement_def createItemMovementViaProc_def Let_def split: sum.splits option.splits)
    with live(2) assms(11) show ?thesis
      by (auto simp: create_item_movement_proc_def cur Let_def zero_stock_def split: list.splits if_splits option.splits)
  next
    case False
    with assms(1,3) obtain u where "createItemMovementGuard c seen tn input = Inr u"
      by (auto simp: CreateItemMovement_def createItemMovementViaGo_def Let_def split: sum.splits)
    with live(1) assms(2,11) availableStock_current [OF assms(6,5), of "ci_from input"] obtain s where
      s: "procBase seen tn (ci_from input, ci_item input) = Some s" "ci_quantity input \<le> effectiveStock s"
      by (auto simp: createItemMovementGuard_def Let_def split: option.splits if_splits)
    with assms(12) show ?thesis by (simp add: cur effectiveStock_fits)
  qed
qed

definition exInput :: create_item_movement_input where
  "exInput = \<lparr>ci_item = 5, ci_from = 13, ci_to = 12, ci_quantity = 4, ci_handler = ''ops'', ci_collection = 0, ci_position = 0\<rparr>"

definition succeeds :: "error + 'a \<Rightarrow> bool" where
  "succeeds r = (case r of Inl _ \<Rightarrow> False | Inr _ \<Rightarrow> True)"

lemma succeedsE: "succeeds r \<Longrightarrow> (\<And>x. r = Inr x \<Longrightarrow> P) \<Longrightarrow> P"
  by (auto simp: succeeds_def split: sum.splits)

text \<open>Another request that commits at point \<open>k\<close> of a handler, if it succeeds.\<close>

definition exMeanwhile :: "nat \<Rightarrow> (db \<Rightarrow> error + db) \<Rightarrow> others" where
  "exMeanwhile k run n d = (if n = k then (case run d of Inl _ \<Rightarrow> d | Inr d' \<Rightarrow> d') else d)"

text \<open>A second caller, with identifiers of its own, who wants the same four pieces.\<close>

definition exOther :: ctx where
  "exOther = exCtx\<lparr>c_user := 8, c_uuid := (\<lambda>n. of_nat (2000 + n))\<rparr>"

definition exCompetes :: "db \<Rightarrow> error + db" where
  "exCompetes d = (case CreateItemMovement undisturbed Postgres exOther 1 exInput None None d of
     Inl e \<Rightarrow> Inl e | Inr (_, d') \<Rightarrow> Inr d')"

text \<open>
  The competitor commits while the procedure's first INSERT waits: the unique index refuses it, and the
  second round reads the ledger again. Both movements are created, and the source with six
  pieces has eight reserved.
\<close>
theorem retry_overdraws:
  "case CreateItemMovement (exMeanwhile 3 exCompetes) Postgres exCtx 1 exInput None None exDb of
     Inl _ \<Rightarrow> False
   | Inr (_, d) \<Rightarrow> length (item_movements d) = 3
       \<and> quantity (currentStock d 1 5 13) = 6 \<and> outgoing_stock (currentStock d 1 5 13) = 8"
  by code_simp

theorem create_needs_stock_witness:
  "quantity (currentStock exDb 1 5 13) + incoming_stock (currentStock exDb 1 5 13) - outgoing_stock (currentStock exDb 1 5 13) \<ge> 4"
proof -
  have "succeeds (CreateItemMovement (exMeanwhile 3 exCompetes) Postgres exCtx 1 exInput None None exDb)" by code_simp
  then obtain m d' where run: "CreateItemMovement (exMeanwhile 3 exCompetes) Postgres exCtx 1 exInput None None exDb = Inr (m, d')"
    by (metis succeedsE surj_pair)
  have h: "\<not> IsDeferredUnderflow exCtx" "exMeanwhile 3 exCompetes 0 exDb = exDb" "repo_ids_ok exDb" "TenantIDQueryFilter exCtx 1"
    "ledger_live 1 (ci_item exInput) (stocks exDb)" "exRepo 13 11 False \<in> set (repositories exDb)"
    "r_id (exRepo 13 11 False) = ci_from exInput" "r_tenant (exRepo 13 11 False) = 1"
    "r_deleted_at (exRepo 13 11 False) = None" "\<not> virtual_repo (exRepo 13 11 False)"
    "effective_fits (currentStock exDb 1 (ci_item exInput) (ci_from exInput))" "0 < ci_quantity exInput"
    by (simp add: exMeanwhile_def | code_simp)+
  from create_needs_stock [OF run h] show ?thesis by (simp add: exInput_def)
qed

text \<open>
  A movement between two virtual repositories is refused with ErrVirtualRepoMovement, on
  the Go path and by the error the database function raises, and nothing is written.
\<close>
theorem create_rejects_virtual:
  assumes "requireItemInTenant c d tn (ci_item input) = Inr ()"
    and "repo_ids_ok d" and "TenantIDQueryFilter c tn"
    and "f \<in> set (repositories d)" "r_id f = ci_from input" "r_tenant f = tn" "r_deleted_at f = None" "virtual_repo f"
    and "t \<in> set (repositories d)" "r_id t = ci_to input" "r_tenant t = tn" "r_deleted_at t = None" "virtual_repo t"
  shows "CreateItemMovement undisturbed dialect c tn input None emitter d = Inl ErrVirtualRepoMovement"
proof -
  note lf = live_repository [OF assms(2-4,6,7), unfolded assms(5)]
  note lt = live_repository [OF assms(2,3,9,11,12), unfolded assms(10)]
  have "mapCreateItemMovementProcError (raise_exception ''movements between virtual repositories are not allowed'')
      = ErrVirtualRepoMovement" by code_simp
  then show ?thesis
    using assms(1,8,13) lf lt
    by (simp add: CreateItemMovement_def createItemMovementViaProc_def create_item_movement_proc_def
        createItemMovementViaGo_def createItemMovementGuard_def)
qed

theorem create_rejects_virtual_witness:
  "CreateItemMovement undisturbed Postgres exCtx 1 (exInput\<lparr>ci_from := 20, ci_to := 20\<rparr>) None None exDb = Inl ErrVirtualRepoMovement"
  by (rule create_rejects_virtual [where f = "exRepo 20 0 True" and t = "exRepo 20 0 True"]) (code_simp+)

text \<open>
  The database function does not run the validators of the schema. On Postgres a movement
  with a negative quantity is stored, which the Go path refuses, and it erases reservations
  of others: with an outgoing reservation of 4 pending, a movement of -4 leaves none.
\<close>
theorem proc_accepts_negative:
  shows "CreateItemMovement undisturbed OtherDialect exCtx 1 (exInput\<lparr>ci_quantity := -4\<rparr>) None None exDb = Inl ErrValidation
    \<and> (case CreateItemMovement undisturbed Postgres exCtx 1 exInput None None exDb of
         Inl _ \<Rightarrow> False
       | Inr (_, d) \<Rightarrow> outgoing_stock (currentStock d 1 5 13) = 4
           \<and> (case CreateItemMovement undisturbed Postgres exCtx 1 (exInput\<lparr>ci_quantity := -4\<rparr>) None None d of
                Inl _ \<Rightarrow> False
              | Inr (_, d') \<Rightarrow> outgoing_stock (currentStock d' 1 5 13) = 0 \<and> length (item_movements d') = 3))"
  by code_simp

section \<open>Executing and deleting an item movement\<close>

lemma filter_map_same:
  "(\<And>x. x \<in> set xs \<Longrightarrow> P (f x) = P x) \<Longrightarrow> filter P (map f xs) = map f (filter P xs)"
  by (induction xs) auto

text \<open>The movement the caller finds after a successful execution.\<close>

lemma executed_Get:
  assumes "ExecuteItemMovement undisturbed dialect c i tn d = Inr d'" and "movements_ok (item_movements d)"
  shows "\<exists>m. itemMovement_Get c d' i = Inr m \<and> im_executed m"
proof -
  from assms(1) obtain m where m: "itemMovement_Get c d i = Inr m"
    by (auto simp: ExecuteItemMovement_def split: sum.splits)
  obtain rm prior where ld: "loadAncestorStocks dialect c d tn [im_from m, im_to m] [im_item m] False = (rm, prior)"
    by fastforce
  let ?p = "\<lambda>m. im_id m = i \<and> mutable c (im_tenant m) (im_deleted_at m)"
  let ?g = "\<lambda>m. if ?p m then m\<lparr>im_executed := True, im_executed_at := Some (c_clock c (writes d))\<rparr> else m"
  from ExecuteItemMovement_Inr [OF assms(1) m ld] have eq: "item_movements d' = map ?g (item_movements d)" by blast
  from assms(1) m obtain d1 where "itemMovement_SetExecuted c i d = Inr d1"
    by (auto simp: ExecuteItemMovement_def split: sum.splits if_splits)
  then obtain x where x: "x \<in> set (item_movements d)" "?p x"
    by (auto simp: itemMovement_SetExecuted_def update_where_def list_ex_iff split: sum.splits if_splits)
  with itemMovement_Get_unique [OF m assms(2)] have p: "?p m" by metis
  have "filter (\<lambda>m. im_id m = i) (itemMovement_Query c d') = map ?g (filter (\<lambda>m. im_id m = i) (itemMovement_Query c d))"
    unfolding itemMovement_Query_def eq filter_filter by (rule filter_map_same) simp
  also have "\<dots> = [?g m]" using m by (simp add: itemMovement_Get_def ent_Only_Inr)
  finally show ?thesis using p by (simp add: itemMovement_Get_def)
qed

text \<open>
  After a movement has been executed, a request that begins then and is overlapped by whatever others can
  neither execute it again nor delete it, whatever tenant and database path it names.
\<close>
theorem execution_final:
  assumes "ExecuteItemMovement undisturbed dialect c i tn d = Inr d'" and "movements_ok (item_movements d)"
  shows "ExecuteItemMovement others dialect' c i tn' d' = Inl (ErrText ''ItemMovement is already executed'')
    \<and> DeleteItemMovement others dialect' c i tn' d' = Inl ErrDeleteExecutedMovement"
  using executed_Get [OF assms] by (auto simp: ExecuteItemMovement_def DeleteItemMovement_def)

theorem execution_final_witness:
  "\<exists>d'. ExecuteItemMovement undisturbed Postgres exCtx 500 1 exDb = Inr d'
    \<and> DeleteItemMovement undisturbed OtherDialect exCtx 500 1 d' = Inl ErrDeleteExecutedMovement"
proof -
  have "succeeds (ExecuteItemMovement undisturbed Postgres exCtx 500 1 exDb)" by code_simp
  then obtain d' where run: "ExecuteItemMovement undisturbed Postgres exCtx 500 1 exDb = Inr d'" by (rule succeedsE)
  have "movements_ok (item_movements exDb)" by code_simp
  from execution_final [OF run this] run show ?thesis by blast
qed

lemma deleted_Get:
  assumes "DeleteItemMovement undisturbed dialect c i tn d = Inr d'" and "movements_ok (item_movements d)"
    and "\<not> c_showDeleted c" and "\<And>n. c_clock c n \<noteq> 0"
  shows "itemMovement_Get c d' i = Inl ErrNotFound"
proof -
  from assms(1) obtain m where m: "itemMovement_Get c d i = Inr m"
    by (auto simp: DeleteItemMovement_def split: sum.splits)
  from assms(1) m obtain sm d1 where d1: "insertStockMap c (im_item m) tn i sm d = Inr d1"
    and u: "itemMovement_SoftDelete c i d1 = Inr d'"
    by (auto simp: DeleteItemMovement_def deleteItemMovementStocks_def case_prod_beta split: sum.splits if_splits)
  have same: "item_movements d1 = item_movements d"
    by (rule only_stocks_item_movements [OF only_stocks_insert [OF d1]])
  let ?p = "\<lambda>m. im_id m = i \<and> mutable c (im_tenant m) (im_deleted_at m)"
  let ?g = "\<lambda>m. if ?p m then m\<lparr>im_deleted_at := Some (c_clock c (writes d1)), im_deleted_by := c_user c\<rparr> else m"
  from u have eq: "item_movements d' = map ?g (item_movements d)" and "list_ex ?p (item_movements d)"
    by (auto simp: itemMovement_SoftDelete_def update_where_def tick_def same split: sum.splits if_splits)
  then obtain x where x: "x \<in> set (item_movements d)" "?p x" by (auto simp: list_ex_iff)
  with itemMovement_Get_unique [OF m assms(2)] have p: "?p m" by metis
  have hidden: "\<not> (im_id (?g y) = i \<and> visible c (im_tenant (?g y)) (im_deleted_at (?g y)))" if y: "y \<in> set (item_movements d)" for y
  proof (cases "im_id y = i")
    case True
    with itemMovement_Get_unique [OF m assms(2) y] have "y = m" by simp
    with p have g: "?g y = m\<lparr>im_deleted_at := Some (c_clock c (writes d1)), im_deleted_by := c_user c\<rparr>" by simp
    have "\<not> visible c (im_tenant (?g y)) (im_deleted_at (?g y))"
      unfolding g using assms(3,4) by (simp add: visible_def HistoryMixinQueryFilter_def deletedAtIsZero_def)
    then show ?thesis by blast
  qed simp
  have "\<forall>x \<in> set (item_movements d'). \<not> (im_id x = i \<and> visible c (im_tenant x) (im_deleted_at x))"
  proof
    fix x assume "x \<in> set (item_movements d')"
    then have "x \<in> ?g ` set (item_movements d)" unfolding eq list.set_map .
    then obtain y where y: "x = ?g y" "y \<in> set (item_movements d)" by (rule imageE)
    from hidden [OF y(2)] show "\<not> (im_id x = i \<and> visible c (im_tenant x) (im_deleted_at x))"
      unfolding y(1) .
  qed
  then have "filter (\<lambda>m. im_id m = i) (itemMovement_Query c d') = []"
    unfolding itemMovement_Query_def filter_filter filter_empty_conv by blast
  then show ?thesis by (simp add: itemMovement_Get_def)
qed

text \<open>
  Nor can a movement whose deletion has been committed be executed or deleted by a request that
  begins then.
\<close>
theorem deletion_final:
  assumes "DeleteItemMovement undisturbed dialect c i tn d = Inr d'" and "movements_ok (item_movements d)"
    and "\<not> c_showDeleted c" and "\<And>n. c_clock c n \<noteq> 0"
  shows "ExecuteItemMovement others dialect' c i tn' d' = Inl (ErrText ''itemMovement not found'')
    \<and> DeleteItemMovement others dialect' c i tn' d' = Inl (ErrText ''itemMovement not found'')"
  using deleted_Get [OF assms] by (simp add: ExecuteItemMovement_def DeleteItemMovement_def)

theorem deletion_final_witness:
  "\<exists>d'. DeleteItemMovement undisturbed OtherDialect exCtx 500 1 exDb = Inr d'
    \<and> ExecuteItemMovement undisturbed OtherDialect exCtx 500 1 d' = Inl (ErrText ''itemMovement not found'')"
proof -
  have "succeeds (DeleteItemMovement undisturbed OtherDialect exCtx 500 1 exDb)" by code_simp
  then obtain d' where run: "DeleteItemMovement undisturbed OtherDialect exCtx 500 1 exDb = Inr d'" by (rule succeedsE)
  have h: "movements_ok (item_movements exDb)" "\<not> c_showDeleted exCtx" by code_simp+
  have "c_clock exCtx n \<noteq> 0" for n by (simp add: exCtx_def)
  from deletion_final [OF run h this] run show ?thesis by blast
qed

section \<open>Overlapping requests\<close>

definition exExecutes :: "db \<Rightarrow> error + db" where
  "exExecutes d = ExecuteItemMovement undisturbed Postgres exOther 500 1 d"

lemma exMeanwhile_request: "(request Postgres)\<^sup>*\<^sup>* x (exMeanwhile k exExecutes n x)"
proof (cases "exExecutes x")
  case (Inr d')
  then have "ExecuteItemMovement undisturbed Postgres exOther 500 1 x = Inr d'" by (simp add: exExecutes_def)
  from request_execute_item [OF this] Inr show ?thesis by (auto simp: exMeanwhile_def)
qed (simp add: exMeanwhile_def)

text \<open>
  Both handlers read the executed flag once. When another request executes movement 500 right
  after that, a second execution moves its two pieces again, and a deletion leaves it executed
  and deleted.
\<close>
theorem executed_twice:
  "\<exists>d'. request Postgres exDb d' \<and> length (transactions d') = 4 \<and> quantity (currentStock d' 1 5 13) = 2"
proof -
  let ?run = "ExecuteItemMovement (exMeanwhile 0 exExecutes) Postgres exCtx 500 1 exDb"
  have "case ?run of Inl _ \<Rightarrow> False
    | Inr d' \<Rightarrow> length (transactions d') = 4 \<and> quantity (currentStock d' 1 5 13) = 2" by code_simp
  then obtain d' where d': "?run = Inr d'" "length (transactions d') = 4" "quantity (currentStock d' 1 5 13) = 2"
    by (auto split: sum.splits)
  have "request Postgres exDb d'"
    by (rule request_execute_item [OF d'(1)]) (intro allI exMeanwhile_request)
  with d'(2,3) show ?thesis by blast
qed

theorem executed_and_deleted:
  "\<exists>d'. request Postgres exDb d' \<and> (\<exists>m \<in> set (item_movements d'). im_executed m \<and> im_deleted_at m \<noteq> None)"
proof -
  let ?run = "DeleteItemMovement (exMeanwhile 0 exExecutes) Postgres exCtx 500 1 exDb"
  have "case ?run of Inl _ \<Rightarrow> False
    | Inr d' \<Rightarrow> list_ex (\<lambda>m. im_executed m \<and> im_deleted_at m \<noteq> None) (item_movements d')" by code_simp
  then obtain d' where d': "?run = Inr d'" "list_ex (\<lambda>m. im_executed m \<and> im_deleted_at m \<noteq> None) (item_movements d')"
    by (auto split: sum.splits)
  have "request Postgres exDb d'"
    by (rule request_delete_item [OF d'(1)]) (intro allI exMeanwhile_request)
  with d'(2) show ?thesis by (auto simp: list_ex_iff)
qed

section \<open>Positions\<close>

text \<open>
  The movements of a collection run in the order of their positions: while a visible
  movement of the collection with a lower position is neither executed nor deleted, executing
  a later item movement or repository movement is refused with ErrOutOfOrderExecution.
\<close>
theorem execution_order:
  assumes "e \<in> set (itemMovement_Query c d) \<and> im_collection e = col \<and> im_position e < pos
      \<and> im_deleted_at e = None \<and> \<not> im_executed e
    \<or> re \<in> set (repositoryMovement_Query c d) \<and> rm_collection re = col \<and> rm_position re < pos
      \<and> rm_deleted_at re = None \<and> \<not> rm_executed re"
  shows "(\<forall>i m. itemMovement_Get c d i = Inr m \<and> \<not> im_executed m \<and> im_collection m = col \<and> im_position m = pos
        \<longrightarrow> ExecuteItemMovement undisturbed dialect c i tn d = Inl ErrOutOfOrderExecution)
    \<and> (\<forall>i rm. repositoryMovement_Get c d i = Inr rm \<and> \<not> rm_executed rm \<and> rm_collection rm = col \<and> rm_position rm = pos
        \<longrightarrow> ExecuteRepositoryMovement undisturbed dialect c i tn d = Inl ErrOutOfOrderExecution)"
proof -
  have "checkExecuteNextMovementByPosition c d col pos = Inl ErrOutOfOrderExecution"
    using assms by (auto simp: checkExecuteNextMovementByPosition_def list_ex_iff deletedAtIsNil_def)
  then show ?thesis by (auto simp: ExecuteItemMovement_def ExecuteRepositoryMovement_def)
qed

theorem execution_order_witness:
  "ExecuteItemMovement undisturbed Postgres exCtx 502 1 (exDb\<lparr>item_movements := [exMovement\<lparr>im_collection := 9\<rparr>,
     exMovement\<lparr>im_id := 502, im_collection := 9, im_position := 1\<rparr>]\<rparr>) = Inl ErrOutOfOrderExecution"
proof -
  let ?d = "exDb\<lparr>item_movements := [exMovement\<lparr>im_collection := 9\<rparr>,
     exMovement\<lparr>im_id := 502, im_collection := 9, im_position := 1\<rparr>]\<rparr>"
  let ?e = "exMovement\<lparr>im_collection := 9\<rparr>" and ?m = "exMovement\<lparr>im_id := 502, im_collection := 9, im_position := 1\<rparr>"
  have "?e \<in> set (itemMovement_Query exCtx ?d) \<and> im_collection ?e = 9 \<and> im_position ?e < 1
      \<and> im_deleted_at ?e = None \<and> \<not> im_executed ?e" by code_simp
  note o = execution_order [OF disjI1 [OF this]]
  have "itemMovement_Get exCtx ?d 502 = Inr ?m" "\<not> im_executed ?m" "im_collection ?m = 9" "im_position ?m = 1"
    by code_simp+
  with o show ?thesis by blast
qed

end
