(* ===== verification/CollectionProperties.thy ===== *)
theory CollectionProperties
  imports Examples
begin

text \<open>
  Properties of the collections: what a successful create has checked and created, position by
  position, and what the deferred consistency check guarantees.
\<close>

section \<open>What the two create handlers leave behind\<close>

definition movement_of_input :: "create_item_movement_input \<Rightarrow> item_movement \<Rightarrow> bool" where
  "movement_of_input input m \<longleftrightarrow> im_item m = ci_item input \<and> im_from m = ci_from input
     \<and> im_to m = ci_to input \<and> im_quantity m = ci_quantity input
     \<and> im_collection m = ci_collection input \<and> im_position m = ci_position input"

lemma new_item_movement_of_input: "movement_of_input input (new_item_movement c d tn input)"
  by (simp add: movement_of_input_def new_item_movement_def)

lemma new_movement_done:
  "movement_of_input input m \<Longrightarrow> movement_kept m m' \<Longrightarrow> movement_of_input input m'"
  by (simp add: movement_of_input_def movement_kept_def)

text \<open>Other requests may have touched the new movement before the handler is done.\<close>

lemma CreateItemMovement_keeps:
  assumes run: "CreateItemMovement others dialect c tn input hook emitter d = Inr (m, d')"
    and env: "\<And>n x. movements_step x (others n x)"
  shows "\<exists>m' \<in> set (item_movements d'). im_id m' = im_id m \<and> movement_of_input input m'"
proof (cases "dialect = Postgres \<and> \<not> IsDeferredUnderflow c")
  case True
  with run obtain i d0 where p: "create_item_movement_proc others c tn input d0 = Inr (i, d')"
    and get: "itemMovement_Get c d' i = Inr m"
    by (auto simp: CreateItemMovement_def createItemMovementViaProc_def Let_def split: sum.splits option.splits)
  from create_item_movement_proc_stored [OF p] obtain mv where
    mv: "mv \<in> set (item_movements d')" "im_id mv = i" "mv = new_item_movement c d0 tn input" by blast
  with itemMovement_Get_Inr [OF get] show ?thesis by (metis new_item_movement_of_input)
next
  case False
  with run obtain sm d0 d1 where mv: "itemMovement_Create c input d0 = Inr (m, d1)"
    and ins: "insertStockMap c (ci_item input) tn (im_id m) sm (others 3 d1) = Inr d'"
    by (auto simp: CreateItemMovement_def createItemMovementViaGo_def createItemMovementStocks_def
        case_prod_beta Let_def split: sum.splits option.splits)
  from mv obtain t where m: "m = new_item_movement c d0 t input"
    by (auto simp: itemMovement_Create_def Let_def tick_def split: sum.splits if_splits)
  have "movements_step (others 3 d1) d'" by (rule movements.R_insert [OF TrueI ins])
  with env have "movements_step d1 d'" by (rule movements_step_trans)
  moreover have "m \<in> set (item_movements d1)" using itemMovement_Create_Inr(1) [OF mv] by simp
  ultimately obtain m' where "m' \<in> set (item_movements d')" "movement_kept m m'"
    by (auto simp: movements_step_def)
  moreover have "movement_of_input input m" unfolding m by (rule new_item_movement_of_input)
  ultimately show ?thesis using new_movement_done by (metis movement_kept_def)
qed

text \<open>Other requests may have touched the new repository movement before the handler is done.\<close>

lemma CreateRepositoryMovement_keeps:
  assumes run: "CreateRepositoryMovement dialect c tn input hook env env' d = Inr (mv, d')"
    and env: "\<And>x. repo_movements_step x (env x)" "\<And>x. repo_movements_step x (env' x)"
  shows "rm_repository mv = cr_repository input \<and> rm_to mv = cr_to input
    \<and> (\<exists>m \<in> set (repository_movements d'). repo_movement_kept mv m)"
proof -
  from run obtain fromID repoMap old where
    "createRepositoryMovementStocks dialect c tn (input\<lparr>cr_from := Some fromID\<rparr>) fromID hook env env' d repoMap old = Inr (mv, d')"
    unfolding CreateRepositoryMovement_def case_prod_beta by (auto split: sum.splits if_splits)
  then obtain keep sm d1 where
    mv: "repositoryMovement_Create c (input\<lparr>cr_from := Some fromID\<rparr>) d = Inr (mv, d1)"
    and fan: "rebaseFanout dialect c tn (rm_id mv) keep sm old env' (env d1) = Inr d'"
    by (simp add: createRepositoryMovementStocks_def createRepositoryMovementFanout_def split: sum.splits option.splits prod.splits)
  have "repo_movements_step (env d1) d'" by (rule repo_movements.R_fanout [OF TrueI fan env(2)])
  with env(1) have "repo_movements_step d1 d'" by (rule repo_movements_step_trans)
  moreover from mv have "mv \<in> set (repository_movements d1)" by (auto dest: repositoryMovement_Create_Inr(1))
  ultimately have "\<exists>m \<in> set (repository_movements d'). repo_movement_kept mv m" by (auto simp: repo_movements_step_def)
  moreover from mv have "rm_repository mv = cr_repository input \<and> rm_to mv = cr_to input"
    by (auto simp: repositoryMovement_Create_def new_repository_movement_def Let_def split: sum.splits if_splits)
  ultimately show ?thesis by blast
qed

section \<open>Position by position\<close>

definition position_done :: "db \<Rightarrow> collection_position \<Rightarrow> uuid \<times> movement_type \<Rightarrow> bool" where
  "position_done d p out \<longleftrightarrow>
     (case cp_item p of
        Some i \<Rightarrow> snd out = ItemMovementType
          \<and> (\<exists>m \<in> set (item_movements d). im_id m = fst out \<and> im_item m = i \<and> im_from m = cp_from p
               \<and> im_to m = cp_to p \<and> Some (im_quantity m) = cp_quantity p)
      | None \<Rightarrow> snd out = RepositoryMovementType
          \<and> (\<exists>m \<in> set (repository_movements d). rm_id m = fst out \<and> Some (rm_repository m) = cp_repository p
               \<and> rm_to m = cp_to p))"

lemma position_done_mono:
  assumes "position_done d p out" and "movements_step d d'" and "repo_movements_step d d'"
  shows "position_done d' p out"
proof (cases "cp_item p")
  case None
  with assms(1) obtain m where m: "m \<in> set (repository_movements d)" "rm_id m = fst out"
    "Some (rm_repository m) = cp_repository p" "rm_to m = cp_to p" "snd out = RepositoryMovementType"
    by (auto simp: position_done_def)
  from m(1) assms(3) obtain m' where "m' \<in> set (repository_movements d')" "repo_movement_kept m m'"
    by (auto simp: repo_movements_step_def)
  with m None show ?thesis by (auto simp: position_done_def repo_movement_kept_def)
next
  case (Some i)
  with assms(1) obtain m where m: "m \<in> set (item_movements d)" "im_id m = fst out" "im_item m = i"
    "im_from m = cp_from p" "im_to m = cp_to p" "Some (im_quantity m) = cp_quantity p" "snd out = ItemMovementType"
    by (auto simp: position_done_def)
  from m(1) assms(2) obtain m' where "m' \<in> set (item_movements d')" "movement_kept m m'"
    by (auto simp: movements_step_def)
  with m Some show ?thesis by (auto simp: position_done_def movement_kept_def)
qed

lemma createPosition_done:
  assumes run: "createPosition dialect c dto repoMap env env' (n, p) run = Inr run'" and "position_ok p"
    and env: "\<And>n x. repo_movements_step x (env n x)" "\<And>n x. repo_movements_step x (env' n x)"
    and env_items: "\<And>n x. movements_step x (env n x)"
  shows "\<exists>out. run_output run' = run_output run @ [out] \<and> position_done (run_db run') p out"
proof (cases "cp_item p")
  case (Some i)
  with run obtain mv d1 where
    c: "CreateItemMovement (\<lambda>_. env n) dialect c (cc_tenant dto) (positionItemInput dto n p i) None None (run_db run) = Inr (mv, d1)"
    and out: "run_output run' = run_output run @ [(im_id mv, ItemMovementType)]" "run_db run' = d1"
    by (auto simp: createPosition_defs split: sum.splits if_splits)
  from CreateItemMovement_keeps [OF c env_items] Some assms(2) have "position_done d1 p (im_id mv, ItemMovementType)"
    by (auto simp: position_done_def movement_of_input_def positionItemInput_def position_ok_def split: option.splits)
  with out show ?thesis by blast
next
  case None
  with assms(2) obtain r where r: "cp_repository p = Some r" by (auto simp: position_ok_def)
  with None run obtain fromID mv d1 where
    c: "CreateRepositoryMovement dialect c (cc_tenant dto) (positionRepositoryInput dto n p r fromID) None
          (env n) (env' n) (run_db run) = Inr (mv, d1)"
    and out: "run_output run' = run_output run @ [(rm_id mv, RepositoryMovementType)]" "run_db run' = d1"
    by (auto simp: createPosition_defs split: sum.splits if_splits)
  from CreateRepositoryMovement_keeps [OF c env] r None have "position_done d1 p (rm_id mv, RepositoryMovementType)"
    by (auto simp: position_done_def repo_movement_kept_def positionRepositoryInput_def)
  with out show ?thesis by blast
qed

lemma createPositions_done:
  assumes "foldRes (createPosition dialect c dto repoMap env env') (enumerate n ps) run = Inr run'"
    and "\<forall>p \<in> set ps. position_ok p"
    and "\<And>n x. repo_movements_step x (env n x)" "\<And>n x. repo_movements_step x (env' n x)"
    and "\<And>n x. movements_step x (env n x)" "\<And>n x. movements_step x (env' n x)"
  shows "\<exists>outs. run_output run' = run_output run @ outs \<and> list_all2 (position_done (run_db run')) ps outs
    \<and> movements_step (run_db run) (run_db run') \<and> repo_movements_step (run_db run) (run_db run')"
  using assms(1,2)
proof (induction ps arbitrary: n run)
  case Nil
  then show ?case by (auto intro: movements_step_same repo_movements_step_same)
next
  case (Cons p ps)
  from Cons.prems(1) obtain run1 where one: "createPosition dialect c dto repoMap env env' (n, p) run = Inr run1"
    and rest: "foldRes (createPosition dialect c dto repoMap env env') (enumerate (Suc n) ps) run1 = Inr run'"
    by (auto split: sum.splits)
  from createPosition_done [OF one _ assms(3,4,5)] Cons.prems(2) obtain out where
    out: "run_output run1 = run_output run @ [out]" "position_done (run_db run1) p out" by auto
  from Cons.IH [OF rest] Cons.prems(2) obtain outs where
    outs: "run_output run' = run_output run1 @ outs" "list_all2 (position_done (run_db run')) ps outs"
    and steps: "movements_step (run_db run1) (run_db run')" "repo_movements_step (run_db run1) (run_db run')" by auto
  have first: "movements_step (run_db run) (run_db run1)" "repo_movements_step (run_db run) (run_db run1)"
    by (rule movements.R_createPosition [OF TrueI one assms(5,6)]) (rule repo_movements.R_createPosition [OF TrueI one assms(3,4)])
  show ?case
    using out outs position_done_mono [OF out(2) steps] movements_step_trans [OF first(1) steps(1)]
      repo_movements_step_trans [OF first(2) steps(2)] by auto
qed

text \<open>The three stages of a collection that succeeds.\<close>

lemma CreateCollectionMovement_stages:
  assumes "CreateCollectionMovement dialect c dto hook env env' d = Inr (outs, d')"
  obtains repositoryMap d1 run where
    "foldRes (validatePosition c d) (cc_positions dto) [] = Inr repositoryMap"
    and "collection_Create c dto d = Inr d1"
    and "foldRes (createPosition dialect (WithDeferredUnderflow c) dto repositoryMap env env')
           (enumerate 0 (cc_positions dto)) \<lparr>run_db = d1, run_sources = [], run_items = [], run_output = []\<rparr> = Inr run"
    and "outs = run_output run" and "d' = run_db run"
    and "run_sources run = [] \<or>
           consistencyCheckSourceRows dialect c d' (cc_tenant dto) (run_sources run) (run_items run) = Inr ()"
  using assms unfolding CreateCollectionMovement_def
  by (auto split: sum.splits option.splits if_splits)

section \<open>Real sources\<close>

lemma createPosition_sources:
  assumes "createPosition dialect c dto repoMap env env' (n, p) run = Inr run'"
  shows "set (run_sources run) \<subseteq> set (run_sources run') \<and> set (run_items run) \<subseteq> set (run_items run')
    \<and> (\<forall>i. cp_item p = Some i \<longrightarrow> \<not> virtual_repo (ggetd zero_repository repoMap (cp_from p)) \<longrightarrow>
          cp_from p \<in> set (run_sources run') \<and> i \<in> set (run_items run'))"
  using assms by (auto simp: createPosition_defs split: option.splits sum.splits if_splits)

lemma createPositions_sources:
  assumes "foldRes (createPosition dialect c dto repoMap env env') (enumerate n ps) run = Inr run'"
  shows "set (run_sources run) \<subseteq> set (run_sources run') \<and> set (run_items run) \<subseteq> set (run_items run')
    \<and> (\<forall>p \<in> set ps. \<forall>i. cp_item p = Some i \<longrightarrow> \<not> virtual_repo (ggetd zero_repository repoMap (cp_from p)) \<longrightarrow>
          cp_from p \<in> set (run_sources run') \<and> i \<in> set (run_items run'))"
  using assms
proof (induction ps arbitrary: n run)
  case (Cons p ps)
  from Cons.prems obtain run1 where one: "createPosition dialect c dto repoMap env env' (n, p) run = Inr run1"
    and rest: "foldRes (createPosition dialect c dto repoMap env env') (enumerate (Suc n) ps) run1 = Inr run'"
    by (auto split: sum.splits)
  show ?case using createPosition_sources [OF one] Cons.IH [OF rest] by (simp, blast)
qed simp

text \<open>The repository map of the validation holds what \<open>Get\<close> returns, every source included.\<close>

definition fetched :: "ctx \<Rightarrow> db \<Rightarrow> repo_map \<Rightarrow> bool" where
  "fetched c d m \<longleftrightarrow> (\<forall>k v. gget m k = Some v \<longrightarrow> repository_Get c d k = Inr v)"

lemma fetched_gput: "fetched c d m \<Longrightarrow> repository_Get c d i = Inr r \<Longrightarrow> fetched c d (gput (r_id r) r m)"
  by (auto simp: fetched_def dest: repository_Get_Inr)

lemma validatePosition_fetched:
  assumes "validatePosition c d p m = Inr m'" and "fetched c d m"
  shows "fetched c d m' \<and> gget m' (cp_from p) \<noteq> None \<and> (\<forall>k. gget m k \<noteq> None \<longrightarrow> gget m' k \<noteq> None)"
proof -
  from assms(1) obtain f t where ft: "repository_Get c d (cp_from p) = Inr f" "repository_Get c d (cp_to p) = Inr t"
    and m': "m' = gput (r_id t) t (gput (r_id f) f m) \<or>
      (\<exists>i r. repository_Get c d i = Inr r \<and> m' = gput (r_id r) r (gput (r_id t) t (gput (r_id f) f m)))"
    by (auto simp: validatePosition_def Let_def split: sum.splits if_splits option.splits)
  have "fetched c d (gput (r_id t) t (gput (r_id f) f m))" by (rule fetched_gput [OF fetched_gput [OF assms(2) ft(1)] ft(2)])
  moreover have "r_id f = cp_from p" using repository_Get_Inr [OF ft(1)] by simp
  ultimately show ?thesis using m' by (auto intro: fetched_gput)
qed

lemma validate_all_fetched:
  "foldRes (validatePosition c d) ps m = Inr m' \<Longrightarrow> fetched c d m \<Longrightarrow>
     fetched c d m' \<and> (\<forall>p \<in> set ps. gget m' (cp_from p) \<noteq> None) \<and> (\<forall>k. gget m k \<noteq> None \<longrightarrow> gget m' k \<noteq> None)"
proof (induction ps arbitrary: m)
  case (Cons p ps)
  then obtain u where u: "validatePosition c d p m = Inr u" "foldRes (validatePosition c d) ps u = Inr m'"
    by (auto split: sum.splits)
  from validatePosition_fetched [OF u(1) Cons.prems(2)] Cons.IH [OF u(2)] show ?case by simp
qed simp

text \<open>The check reads the current rows of the sources it is given.\<close>

lemma consistency_current:
  assumes "consistencyCheckSourceRows dialect c d tn sources is = Inr u" and "x \<in> set sources" "i \<in> set is"
    and "ledger_ok (stocks d)" "ledger_live tn i (stocks d)" "TenantIDQueryFilter c tn" "repo_ids_ok d"
    and "tree_ready (tenantTree d tn False) x"
  shows "0 \<le> effectiveStock (currentStock d tn i x)"
proof -
  let ?L = "loadAncestorStocks dialect c d tn sources is False"
  from assms(1,2) have check: "checkEffective sources (snd ?L) = Inr u"
    by (auto simp: consistencyCheckSourceRows_def split: if_splits)
  have "loaded_above (tenantTree d tn False) (fst ?L) x"
    by (rule loaded_above_loader [OF assms(7)]) (use assms(2,6,8) in \<open>auto simp: tree_ready_def\<close>)
  then have "gget (fst ?L) x \<noteq> None"
    using assms(8) by (auto simp: loaded_above_def tree_ready_def)
  from prior_agrees_loader [OF assms(4-6) this assms(3)]
  have agree: "prior_agrees (gget (snd ?L) (x, i)) (procBase d tn (x, i))" .
  show ?thesis
  proof (cases "procBase d tn (x, i)")
    case None
    then show ?thesis by (simp add: currentStock_def effectiveStock_def zero_stock_def arith64 i64_id)
  next
    case (Some b)
    with agree obtain a where a: "gget (snd ?L) (x, i) = Some a" "sameCounters a b"
      by (auto simp: prior_agrees_def split: option.splits)
    then have "((x, i), a) \<in> set (snd ?L)" by (simp add: gget_def map_of_SomeD)
    from checkEffective_Inr [OF check this] assms(2) have "0 \<le> effectiveStock a" by simp
    with a(2) Some show ?thesis by (simp add: currentStock_def effectiveStock_def sameCounters_def)
  qed
qed

section \<open>Properties\<close>

definition exPositions :: "collection_position list" where
  "exPositions =
     [\<lparr>cp_handler = ''ops'', cp_from = 13, cp_to = 12, cp_item = Some 5, cp_quantity = Some 2, cp_repository = None\<rparr>,
      \<lparr>cp_handler = ''ops'', cp_from = 11, cp_to = 12, cp_item = None, cp_quantity = None, cp_repository = Some 13\<rparr>]"

definition exCollection :: create_collection_input where
  "exCollection = \<lparr>cc_id = 900, cc_handler = None, cc_positions = exPositions, cc_tenant = 1\<rparr>"

definition exCollectionRun :: "error + (collection_output \<times> db)" where
  "exCollectionRun = CreateCollectionMovement Postgres exCtx exCollection None undisturbed undisturbed exDb"

definition exCollectionDb :: db where
  "exCollectionDb = snd (projr exCollectionRun)"

lemma exCollectionRun_Inr:
  "CreateCollectionMovement Postgres exCtx exCollection None undisturbed undisturbed exDb
     = Inr (fst (projr exCollectionRun), exCollectionDb)"
proof -
  have "\<not> isl exCollectionRun" by code_simp
  then show ?thesis by (cases exCollectionRun) (simp_all add: exCollectionDb_def flip: exCollectionRun_def)
qed

text \<open>
  A successful CreateCollectionMovement has created, in the order of the positions, one
  movement of the right kind and with the right terms per position, and its output names
  them; the invalid combinations of item, repository and quantity never get this far. Other
  requests may run inside the positions.
\<close>
theorem collection_created:
  assumes "CreateCollectionMovement dialect c dto hook env env' d = Inr (outs, d')"
    and "\<And>n x. (request dialect)\<^sup>*\<^sup>* x (env n x)" "\<And>n x. (request dialect)\<^sup>*\<^sup>* x (env' n x)"
  shows "list_all2 (position_done d') (cc_positions dto) outs \<and> list_all position_ok (cc_positions dto)"
proof -
  obtain m d1 run where
    v: "foldRes (validatePosition c d) (cc_positions dto) [] = Inr m"
    and r: "foldRes (createPosition dialect (WithDeferredUnderflow c) dto m env env') (enumerate 0 (cc_positions dto))
         \<lparr>run_db = d1, run_sources = [], run_items = [], run_output = []\<rparr> = Inr run"
    and out: "outs = run_output run" "d' = run_db run"
    by (rule CreateCollectionMovement_stages [OF assms(1)])
  have ok: "\<forall>p \<in> set (cc_positions dto). position_ok p" using validate_all_Inr [OF v] by blast
  from createPositions_done [OF r ok] assms(2,3) out show ?thesis
    using repo_movements.R_requests movements.R_requests ok by (fastforce simp: list_all_iff)
qed

theorem collection_created_witness:
  "list_all2 (position_done exCollectionDb) exPositions (fst (projr exCollectionRun))"
  using collection_created [OF exCollectionRun_Inr] by (simp add: exCollection_def)

text \<open>
  C25: a successful CreateCollectionMovement leaves no real source of an item position
  overdrawn: although the positions are created without their own availability gate, the
  current row of every such source ends with quantity + incoming - outgoing at least zero.
\<close>
theorem collection_not_overdrawn:
  assumes "CreateCollectionMovement dialect c dto hook env env' d = Inr (outs, d')"
    and "p \<in> set (cc_positions dto)" "cp_item p = Some i"
    and "repository_Get c d (cp_from p) = Inr r" "\<not> virtual_repo r"
    and "ledger_ok (stocks d')" "ledger_live (cc_tenant dto) i (stocks d')"
    and "TenantIDQueryFilter c (cc_tenant dto)" "repo_ids_ok d'"
    and "tree_ready (tenantTree d' (cc_tenant dto) False) (cp_from p)"
  shows "0 \<le> effectiveStock (currentStock d' (cc_tenant dto) i (cp_from p))"
proof -
  obtain m d1 run where
    v: "foldRes (validatePosition c d) (cc_positions dto) [] = Inr m"
    and run: "foldRes (createPosition dialect (WithDeferredUnderflow c) dto m env env') (enumerate 0 (cc_positions dto))
         \<lparr>run_db = d1, run_sources = [], run_items = [], run_output = []\<rparr> = Inr run"
    and chk: "run_sources run = [] \<or>
       consistencyCheckSourceRows dialect c d' (cc_tenant dto) (run_sources run) (run_items run) = Inr ()"
    by (rule CreateCollectionMovement_stages [OF assms(1)])
  have "fetched c d m \<and> gget m (cp_from p) \<noteq> None"
    using validate_all_fetched [OF v] assms(2) by (simp add: fetched_def)
  with assms(4,5) have "\<not> virtual_repo (ggetd zero_repository m (cp_from p))"
    by (auto simp: fetched_def ggetd_def)
  with createPositions_sources [OF run] assms(2,3)
  have src: "cp_from p \<in> set (run_sources run)" "i \<in> set (run_items run)" by blast+
  with chk have "consistencyCheckSourceRows dialect c d' (cc_tenant dto) (run_sources run) (run_items run) = Inr ()"
    by auto
  from consistency_current [OF this src assms(6-10)] show ?thesis .
qed

theorem collection_not_overdrawn_witness:
  "0 \<le> effectiveStock (currentStock exCollectionDb 1 5 13)"
proof -
  let ?p = "hd exPositions"
  have "?p \<in> set (cc_positions exCollection)" "cp_item ?p = Some 5"
    "repository_Get exCtx exDb (cp_from ?p) = Inr (exRepo 13 11 False)" "\<not> virtual_repo (exRepo 13 11 False)"
    "ledger_ok (stocks exCollectionDb)" "ledger_live (cc_tenant exCollection) 5 (stocks exCollectionDb)"
    "TenantIDQueryFilter exCtx (cc_tenant exCollection)" "repo_ids_ok exCollectionDb"
    "tree_ready (tenantTree exCollectionDb (cc_tenant exCollection) False) (cp_from ?p)"
    by code_simp+
  from collection_not_overdrawn [OF exCollectionRun_Inr this] show ?thesis
    by (simp add: exPositions_def exCollection_def)
qed

end
