(* ===== verification/TreeChanges.thy ===== *)
theory TreeChanges
  imports RepositoryMovements
begin

text \<open>
  What a change of one repository does to the tree of its tenant: a new parent, a new
  repository, a deletion.
\<close>

section \<open>A new parent\<close>

definition set_parent :: "ctx \<Rightarrow> uuid \<Rightarrow> uuid \<Rightarrow> repository \<Rightarrow> repository" where
  "set_parent c i parent r =
     (if r_id r = i \<and> mutable c (r_tenant r) (r_deleted_at r) then r\<lparr>r_parent := parent\<rparr> else r)"

lemma set_parent_simps [simp]:
  "r_id (set_parent c i p r) = r_id r" "r_tenant (set_parent c i p r) = r_tenant r"
  "r_deleted_at (set_parent c i p r) = r_deleted_at r" "virtual_repo (set_parent c i p r) = virtual_repo r"
  by (simp_all add: set_parent_def)

lemma tenantTree_set_parent:
  assumes "repositories d' = map (set_parent c i p) (repositories d)"
  shows "gget (tenantTree d' tn incl) x = map_option (set_parent c i p) (gget (tenantTree d tn incl) x)"
proof -
  have "cteRow tn incl \<circ> set_parent c i p = cteRow tn incl" by (simp add: fun_eq_iff cteRow_def)
  then have "filter (cteRow tn incl) (repositories d') = map (set_parent c i p) (filter (cteRow tn incl) (repositories d))"
    by (simp add: assms filter_map)
  then have "tenantTree d' tn incl = map (\<lambda>(k, r). (k, set_parent c i p r)) (tenantTree d tn incl)"
    by (simp add: tenantTree_def comp_def)
  then show ?thesis by (simp add: gget_def map_of_map)
qed

text \<open>Two maps that differ in the parent of one repository.\<close>

definition differ_at :: "repo_map \<Rightarrow> repo_map \<Rightarrow> uuid \<Rightarrow> bool" where
  "differ_at m m' r \<longleftrightarrow> (\<forall>x. x \<noteq> r \<longrightarrow> parentID m' x = parentID m x)"

lemma differ_at_sym: "differ_at m m' r \<Longrightarrow> differ_at m' m r"
  by (simp add: differ_at_def)

lemma differ_at_step: "differ_at m m' r \<Longrightarrow> x \<noteq> r \<Longrightarrow> parent_step m x y \<Longrightarrow> parent_step m' x y"
  by (simp add: differ_at_def parent_step_def)

lemma differ_at_anc:
  assumes "differ_at m m' r"
  shows "anc m x r \<longleftrightarrow> anc m' x r"
proof -
  have one: "anc n' x r" if "differ_at n n' r" "anc n x r" for n n'
    using that(2)
  proof (induction rule: converse_rtranclp_induct)
    case (step u v)
    then show ?case
      using differ_at_step [OF that(1)] by (cases "u = r") (auto intro: converse_rtranclp_into_rtranclp)
  qed simp
  from one [OF assms] one [OF differ_at_sym [OF assms]] show ?thesis by blast
qed

lemma differ_at_tranclp:
  assumes "differ_at m m' r" and "(parent_step m)\<^sup>+\<^sup>+ x y" and "\<not> anc m x r"
  shows "(parent_step m')\<^sup>+\<^sup>+ x y"
  using assms(2,3)
proof (induction rule: converse_tranclp_induct)
  case (base u)
  then show ?case using differ_at_step [OF assms(1), of u] by auto
next
  case (step u v)
  then have "u \<noteq> r" "\<not> anc m v r" by (auto intro: converse_rtranclp_into_rtranclp)
  with step differ_at_step [OF assms(1)] show ?case by (meson tranclp_into_tranclp2)
qed

text \<open>Hanging a repository below another closes a cycle only if that one lies below it.\<close>

lemma reparent_acyclic:
  assumes "\<And>x. acyclic_at m x" and "differ_at m m' r" and "parentID m' r = p" "p \<noteq> 0"
  shows "(\<forall>x. acyclic_at m' x) \<longleftrightarrow> \<not> anc m p r"
proof
  assume acyc: "\<forall>x. acyclic_at m' x"
  show "\<not> anc m p r"
  proof
    assume "anc m p r"
    then have "anc m' p r" using differ_at_anc [OF assms(2)] by blast
    moreover have "parent_step m' r p" using assms(3,4) by (simp add: parent_step_def)
    ultimately have "on_cycle m' p" by (rule rtranclp_into_tranclp1)
    with acyc show False by (auto simp: acyclic_at_iff)
  qed
next
  assume below: "\<not> anc m p r"
  have "\<not> on_cycle m' x" for x
  proof
    assume cyc: "on_cycle m' x"
    show False
    proof (cases "anc m' x r")
      case True
      with cyc have "on_cycle m' r" using on_cycle_forward by blast
      then obtain y where "parent_step m' r y" "anc m' y r" by (meson tranclpD)
      moreover from this(1) have "y = p" using assms(3) by (simp add: parent_step_def)
      ultimately show False using below differ_at_anc [OF assms(2)] by blast
    next
      case False
      with cyc have "on_cycle m x"
        by (blast intro: differ_at_tranclp [OF differ_at_sym [OF assms(2)]])
      with assms(1) [of x] show False by (auto simp: acyclic_at_iff)
    qed
  qed
  then show "\<forall>x. acyclic_at m' x" by (simp add: acyclic_at_iff)
qed

section \<open>A new repository, a deletion\<close>

text \<open>Fewer steps, fewer cycles.\<close>

lemma acyclic_fewer_steps:
  assumes "\<And>x. acyclic_at m x" and "\<And>x y. parent_step m' x y \<Longrightarrow> parent_step m x y"
  shows "acyclic_at m' x"
proof -
  have up: "(parent_step m)\<^sup>+\<^sup>+ u v" if "(parent_step m')\<^sup>+\<^sup>+ u v" for u v
    using that
  proof (induction rule: tranclp_induct)
    case (base y)
    then show ?case using assms(2) by blast
  next
    case (step y z)
    then show ?case using assms(2) by (meson tranclp.trancl_into_trancl)
  qed
  then have "on_cycle m z" if "on_cycle m' z" for z using that by blast
  moreover have "\<not> on_cycle m z" for z
    using assms(1) [of z] by (auto simp: acyclic_at_iff)
  ultimately show ?thesis by (auto simp: acyclic_at_iff)
qed

text \<open>A new repository below a loaded one: nothing lies below it yet.\<close>

lemma acyclic_new:
  assumes "\<And>x. acyclic_at m x" and "differ_at m m' r" and "p = parentID m' r" and "p \<noteq> r"
    and "\<And>x. parentID m x \<noteq> r"
  shows "acyclic_at m' x"
proof (cases "p = 0")
  case True
  have "parent_step m u v" if "parent_step m' u v" for u v
    using that True assms(2,3) by (cases "u = r") (auto simp: parent_step_def differ_at_def)
  then show ?thesis by (rule acyclic_fewer_steps [OF assms(1)])
next
  case False
  have "u = r" if "anc m u r" for u
    using that by (cases rule: rtranclp.cases) (use assms(5) in \<open>auto simp: parent_step_def\<close>)
  then have "\<not> anc m p r" using assms(4) by blast
  with reparent_acyclic [OF assms(1,2) assms(3) [symmetric] False] show ?thesis by blast
qed

end
