(* ===== verification/ReparentProperties.thy ===== *)
theory ReparentProperties
  imports Examples TreeChanges
begin

text \<open>
  Properties of the repository movements: what executing one does to the tree, when the tree
  stays free of cycles, and what the interleaving of two requests can leave behind.
\<close>

section \<open>The tables after an execution\<close>

lemma repository_SetParent_Inr:
  assumes "repository_SetParent c i p d = Inr d'"
  shows "repositories d' = map (set_parent c i p) (repositories d)"
    and "repository_movements d' = repository_movements d" "item_movements d' = item_movements d"
    and "stocks d' = stocks d"
  using assms by (auto simp: repository_SetParent_def update_where_def tick_def set_parent_def
      split: sum.splits if_splits)

lemma repositoryMovement_Update_Inr:
  assumes "repositoryMovement_Update c i f d = Inr d'"
  shows "repository_movements d' = map (\<lambda>m. if rm_id m = i \<and> mutable c (rm_tenant m) (rm_deleted_at m) then f m else m)
           (repository_movements d)"
    and "repositories d' = repositories d" "item_movements d' = item_movements d" "stocks d' = stocks d"
  using assms by (auto simp: repositoryMovement_Update_def update_where_def tick_def split: sum.splits if_splits)

lemma executeRepositoryMovementUpdated_Inr:
  assumes "executeRepositoryMovementUpdated undisturbed dialect c i tn m failed d = Inr d'"
  shows "repositories d' = map (set_parent c (rm_repository m) (rm_to m)) (repositories d)
    \<and> repository_movements d' = repository_movements d \<and> item_movements d' = item_movements d
    \<and> (\<exists>rows. stocks d' = stocks d @ rows \<and> list_all stock_check rows)"
proof -
  from assms obtain f repoMap old where
    "executeRepositoryMovementStocks undisturbed c i tn m f failed d repoMap old = Inr d'"
    unfolding executeRepositoryMovementUpdated_def case_prod_beta Let_def by (auto split: sum.splits)
  then obtain rows d1 where bulk: "stock_CreateBulk c rows d = Inr d1"
    and par: "repository_SetParent c (rm_repository m) (rm_to m) d1 = Inr d'"
    by (auto simp: executeRepositoryMovementStocks_def split: sum.splits if_splits)
  from stock_CreateBulk_Inr [OF bulk] repository_SetParent_Inr [OF par] show ?thesis
    by (auto simp: list_all_iff)
qed

lemma ExecuteRepositoryMovement_Inr:
  assumes "ExecuteRepositoryMovement undisturbed dialect c i tn d = Inr d'" and "repositoryMovement_Get c d i = Inr m"
  shows "repositories d' = map (set_parent c (rm_repository m) (rm_to m)) (repositories d)
    \<and> item_movements d' = item_movements d \<and> (\<exists>rows. stocks d' = stocks d @ rows \<and> list_all stock_check rows)
    \<and> (mutable c (rm_tenant m) (rm_deleted_at m) \<longrightarrow>
         (\<exists>m' \<in> set (repository_movements d'). rm_id m' = i \<and> rm_executed m' \<and> rm_to m' = rm_to m))"
proof -
  note m = repositoryMovement_Get_Inr [OF assms(2)]
  let ?f = "\<lambda>m. m\<lparr>rm_executed := True, rm_executed_at := Some (c_clock c (writes d))\<rparr>"
  show ?thesis
  proof (cases "repositoryMovement_Update c i ?f d")
    case (Inl e)
    then have "\<not> mutable c (rm_tenant m) (rm_deleted_at m)"
      using m by (auto simp: repositoryMovement_Update_def update_where_def list_ex_iff split: if_splits)
    moreover from Inl assms have "executeRepositoryMovementUpdated undisturbed dialect c i tn m True d = Inr d'"
      by (auto simp: ExecuteRepositoryMovement_def split: sum.splits if_splits)
    ultimately show ?thesis using executeRepositoryMovementUpdated_Inr by blast
  next
    case (Inr d1)
    with assms have "executeRepositoryMovementUpdated undisturbed dialect c i tn m False d1 = Inr d'"
      by (auto simp: ExecuteRepositoryMovement_def split: sum.splits if_splits)
    note ex = executeRepositoryMovementUpdated_Inr [OF this] and up = repositoryMovement_Update_Inr [OF Inr]
    have "?f m \<in> set (repository_movements d1)" if "mutable c (rm_tenant m) (rm_deleted_at m)"
      unfolding up(1) using m that by (auto simp: image_iff)
    then have "mutable c (rm_tenant m) (rm_deleted_at m) \<longrightarrow>
        (\<exists>m' \<in> set (repository_movements d'). rm_id m' = i \<and> rm_executed m' \<and> rm_to m' = rm_to m)"
      using ex m by (intro impI bexI [of _ "?f m"]) simp_all
    with ex up show ?thesis by simp
  qed
qed

section \<open>Properties\<close>

text \<open>Movement 600 hangs shelf 11 below its own bin 13.\<close>

definition exReparent :: repository_movement where
  "exReparent = \<lparr>rm_id = 600, rm_tenant = 1, rm_repository = 11, rm_from = 10, rm_to = 13, rm_executed = False,
     rm_executed_at = None, rm_handler = ''ops'', rm_collection = 0, rm_position = 0, rm_created_at = 60,
     rm_deleted_at = None, rm_deleted_by = 0\<rparr>"

definition exReparentInput :: create_repository_movement_input where
  "exReparentInput = \<lparr>cr_repository = 11, cr_from = None, cr_to = 13, cr_handler = ''ops'', cr_collection = 0, cr_position = 0\<rparr>"

definition alone :: "db \<Rightarrow> db" where
  "alone d = d"

definition exCreated :: "error + (repository_movement \<times> db)" where
  "exCreated = CreateRepositoryMovement Postgres exCtx 1 exReparentInput None alone alone exDb"

definition exCreatedDb :: db where
  "exCreatedDb = snd (projr exCreated)"

definition exMoved :: "error + db" where
  "exMoved = ExecuteRepositoryMovement undisturbed Postgres exCtx (rm_id (fst (projr exCreated))) 1 exCreatedDb"

definition exMovedDb :: db where
  "exMovedDb = projr exMoved"

lemma exCreated_Inr:
  "CreateRepositoryMovement Postgres exCtx 1 exReparentInput None alone alone exDb
     = Inr (fst (projr exCreated), exCreatedDb)"
proof -
  have "\<not> isl exCreated" by code_simp
  then show ?thesis by (cases exCreated) (simp_all add: exCreatedDb_def flip: exCreated_def)
qed

lemma exMoved_Inr: "ExecuteRepositoryMovement undisturbed Postgres exCtx (rm_id (fst (projr exCreated))) 1 exCreatedDb = Inr exMovedDb"
proof -
  have "\<not> isl exMoved" by code_simp
  then show ?thesis by (cases exMoved) (simp_all add: exMovedDb_def flip: exMoved_def)
qed

lemma exCreated_request: "request Postgres exDb exCreatedDb"
  by (rule request_create_repository [OF exCreated_Inr]) (simp_all add: alone_def)

lemma exMoved_request: "request Postgres exCreatedDb exMovedDb"
  by (rule request_execute_repository [OF exMoved_Inr]) simp

text \<open>
  In every reachable state no repository movement has vanished, the identifiers are
  distinct, its repository, ends and place in a collection are what they were, an executed one
  stays executed and a deleted one is frozen.
\<close>
theorem reachable_repository_movements:
  assumes "(request dialect)\<^sup>*\<^sup>* d d'" and "repo_movements_ok (repository_movements d)"
  shows "repo_movements_ok (repository_movements d')
    \<and> (\<forall>m \<in> set (repository_movements d). \<exists>m' \<in> set (repository_movements d'). repo_movement_kept m m')"
  using repo_movements.R_requests [OF assms(1)] assms(2) by (simp add: repo_movements_step_def)

theorem reachable_repository_movements_witness:
  "\<exists>m' \<in> set (repository_movements exMovedDb). repo_movement_kept (hd (repository_movements exCreatedDb)) m'"
proof -
  have "repo_movements_ok (repository_movements exCreatedDb)" "repository_movements exCreatedDb \<noteq> []" by code_simp+
  with reachable_repository_movements [OF r_into_rtranclp [of "request Postgres", OF exMoved_request]]
  show ?thesis by simp
qed

text \<open>
  A successful ExecuteRepositoryMovement hangs the moved repository below the target and
  changes no other repository, marks the movement executed, leaves the item movements alone
  and only appends rows without negative counters to the ledger.
\<close>
theorem execute_repository_effect:
  assumes "ExecuteRepositoryMovement undisturbed dialect c i tn d = Inr d'" and "repositoryMovement_Get c d i = Inr m"
  shows "repositories d' = map (set_parent c (rm_repository m) (rm_to m)) (repositories d)
    \<and> item_movements d' = item_movements d \<and> (\<exists>rows. stocks d' = stocks d @ rows \<and> list_all stock_check rows)
    \<and> (mutable c (rm_tenant m) (rm_deleted_at m) \<longrightarrow>
         (\<exists>m' \<in> set (repository_movements d'). rm_id m' = i \<and> rm_executed m' \<and> rm_to m' = rm_to m))"
  using assms by (rule ExecuteRepositoryMovement_Inr)

theorem execute_repository_effect_witness:
  "repositories exMovedDb = map (set_parent exCtx 11 13) (repositories exDb)"
proof -
  have "\<not> isl (repositoryMovement_Get exCtx exCreatedDb (rm_id (fst (projr exCreated))))"
    "rm_repository (projr (repositoryMovement_Get exCtx exCreatedDb (rm_id (fst (projr exCreated))))) = 11"
    "rm_to (projr (repositoryMovement_Get exCtx exCreatedDb (rm_id (fst (projr exCreated))))) = 13"
    "repositories exCreatedDb = repositories exDb"
    by code_simp+
  moreover from this(1) obtain m where "repositoryMovement_Get exCtx exCreatedDb (rm_id (fst (projr exCreated))) = Inr m"
    by (cases "repositoryMovement_Get exCtx exCreatedDb (rm_id (fst (projr exCreated)))") auto
  ultimately show ?thesis using execute_repository_effect [OF exMoved_Inr] by simp
qed

text \<open>
  Executing a repository movement in a tree without cycles leaves a tree without cycles
  exactly when the target does not lie below the moved repository. Nothing in the code checks
  that it does not.
\<close>
theorem reparenting_cycles:
  assumes "ExecuteRepositoryMovement undisturbed dialect c i tn d = Inr d'" and "repositoryMovement_Get c d i = Inr m"
    and "gget (tenantTree d tn False) (rm_repository m) \<noteq> None" and "rm_to m \<noteq> 0"
    and "repo_ids_ok d" and "c_system c \<or> tn = c_mutationTenant c"
    and "\<And>x. acyclic_at (tenantTree d tn False) x"
  shows "(\<forall>x. acyclic_at (tenantTree d' tn False) x) \<longleftrightarrow> \<not> anc (tenantTree d tn False) (rm_to m) (rm_repository m)"
proof (rule reparent_acyclic [OF assms(7)])
  have "repositories d' = map (set_parent c (rm_repository m) (rm_to m)) (repositories d)"
    using ExecuteRepositoryMovement_Inr [OF assms(1,2)] by blast
  note t = tenantTree_set_parent [OF this, of tn False]
  have tree: "r_id r = x \<and> cteRow tn False r" if "gget (tenantTree d tn False) x = Some r" for x r
    using that tenantTree_gget [OF assms(5)] by blast
  show "differ_at (tenantTree d tn False) (tenantTree d' tn False) (rm_repository m)"
    unfolding differ_at_def
  proof (intro allI impI)
    fix x assume "x \<noteq> rm_repository m"
    then show "parentID (tenantTree d' tn False) x = parentID (tenantTree d tn False) x"
      using tree [of x] by (cases "gget (tenantTree d tn False) x") (simp_all add: parentID_def ggetd_def t set_parent_def)
  qed
  from assms(3) obtain r where r: "gget (tenantTree d tn False) (rm_repository m) = Some r" by blast
  with tree [OF r] assms(6) have "set_parent c (rm_repository m) (rm_to m) r = r\<lparr>r_parent := rm_to m\<rparr>"
    by (auto simp: set_parent_def cteRow_def mutable_def deletedAtIsNil_def deletedAtIsZero_def)
  with r show "parentID (tenantTree d' tn False) (rm_repository m) = rm_to m"
    by (simp add: parentID_def ggetd_def t)
qed (fact assms(4))

lemma exCreated_acyclic: "acyclic_at (tenantTree exCreatedDb 1 False) x"
proof (cases "x \<in> set (gkeys (tenantTree exCreatedDb 1 False))")
  case True
  moreover have "\<forall>x \<in> set (gkeys (tenantTree exCreatedDb 1 False)). acyclic_at (tenantTree exCreatedDb 1 False) x"
    by code_simp
  ultimately show ?thesis by blast
next
  case False
  then show ?thesis by (simp add: acyclic_at_def gkeys_gget fromAncestors.simps)
qed

theorem reparenting_cycles_witness: "\<not> (\<forall>x. acyclic_at (tenantTree exMovedDb 1 False) x)"
proof -
  let ?i = "rm_id (fst (projr exCreated))"
  have h: "\<not> isl (repositoryMovement_Get exCtx exCreatedDb ?i)"
    "rm_repository (projr (repositoryMovement_Get exCtx exCreatedDb ?i)) = 11"
    "rm_to (projr (repositoryMovement_Get exCtx exCreatedDb ?i)) = 13"
    "gget (tenantTree exCreatedDb 1 False) 11 \<noteq> None" "repo_ids_ok exCreatedDb" "1 = c_mutationTenant exCtx"
    "parentID (tenantTree exCreatedDb 1 False) 13 = 11"
    by code_simp+
  from h(1) obtain m where m: "repositoryMovement_Get exCtx exCreatedDb ?i = Inr m"
    by (cases "repositoryMovement_Get exCtx exCreatedDb ?i") auto
  have "anc (tenantTree exCreatedDb 1 False) 13 11"
    by (rule r_into_rtranclp) (use h(7) in \<open>simp add: parent_step_def\<close>)
  with reparenting_cycles [OF exMoved_Inr m _ _ h(5) _ exCreated_acyclic] h(2-4,6) m show ?thesis by simp
qed

text \<open>
  On the example: two requests, creating and executing a repository movement, lead to a state where
  an item movement that was executable before exhausts the stack.
\<close>
theorem reparenting_gets_stuck:
  "\<exists>d d'. request Postgres exDb d \<and> request Postgres d d'
    \<and> (\<exists>d''. ExecuteItemMovement undisturbed Postgres exCtx 500 1 exDb = Inr d'')
    \<and> ExecuteItemMovement undisturbed Postgres exCtx 500 1 d' = Inl FatalStackOverflow"
proof (intro exI conjI)
  show "request Postgres exDb exCreatedDb" by (rule exCreated_request)
  show "request Postgres exCreatedDb exMovedDb" by (rule exMoved_request)
  show "ExecuteItemMovement undisturbed Postgres exCtx 500 1 exMovedDb = Inl FatalStackOverflow" by code_simp
  have "\<not> isl (ExecuteItemMovement undisturbed Postgres exCtx 500 1 exDb)" by code_simp
  then show "ExecuteItemMovement undisturbed Postgres exCtx 500 1 exDb = Inr (projr (ExecuteItemMovement undisturbed Postgres exCtx 500 1 exDb))"
    by (cases "ExecuteItemMovement undisturbed Postgres exCtx 500 1 exDb") auto
qed

text \<open>Another request executes the movement while its deletion is under way.\<close>

definition exRace :: "uuid \<Rightarrow> db \<Rightarrow> db" where
  "exRace i d = (case ExecuteRepositoryMovement undisturbed Postgres exCtx i 1 d of Inl e \<Rightarrow> d | Inr d' \<Rightarrow> d')"

lemma exRace_requests: "(request Postgres)\<^sup>*\<^sup>* d (exRace i d)"
  by (cases "ExecuteRepositoryMovement undisturbed Postgres exCtx i 1 d")
    (auto simp: exRace_def intro: request_execute_repository)

definition exRaced :: "error + db" where
  "exRaced = DeleteRepositoryMovement Postgres exCtx (rm_id (fst (projr exCreated))) 1
     (exRace (rm_id (fst (projr exCreated)))) alone exCreatedDb"

text \<open>
  Like an item movement, a repository movement can end up both executed and deleted:
  DeleteRepositoryMovement reads the executed flag before it writes, and an execution that
  commits in between is not noticed.
\<close>
theorem repository_race:
  "\<exists>d. (request Postgres)\<^sup>*\<^sup>* exDb d
    \<and> list_ex (\<lambda>m. rm_executed m \<and> \<not> deletedAtIsZero (rm_deleted_at m)) (repository_movements d)"
proof (intro exI conjI)
  have "\<not> isl exRaced" by code_simp
  then have "DeleteRepositoryMovement Postgres exCtx (rm_id (fst (projr exCreated))) 1
     (exRace (rm_id (fst (projr exCreated)))) alone exCreatedDb = Inr (projr exRaced)"
    by (cases exRaced) (simp_all flip: exRaced_def)
  then have "request Postgres exCreatedDb (projr exRaced)"
    by (rule request_delete_repository) (simp_all add: exRace_requests alone_def)
  with exCreated_request show "(request Postgres)\<^sup>*\<^sup>* exDb (projr exRaced)"
    by (blast intro: rtranclp.rtrancl_into_rtrancl)
  show "list_ex (\<lambda>m. rm_executed m \<and> \<not> deletedAtIsZero (rm_deleted_at m)) (repository_movements (projr exRaced))"
    by code_simp
qed

end
