(* ===== verification/RebuildProperties.thy ===== *)
theory RebuildProperties
  imports Examples
begin

text \<open>
  Properties of RebuildStockTable's parts and of the loader: the order in which events are
  replayed, the map of parents, the agreement of the two database paths, and the stored
  procedure's versions.
\<close>

section \<open>The event list\<close>

text \<open>What the closure compares, as a key.\<close>

definition eventKey :: "rebuildEvent \<Rightarrow> time \<times> rebuildEventKind \<times> uuid" where
  "eventKey e = (ev_timestamp e, ev_kind e, rebuildEventID e)"

lemma eventLess_key: "eventLess a b \<longleftrightarrow> eventKey a < eventKey b"
  by (auto simp: eventLess_def eventKey_def less_prod_def rebuildCmpUUID_def ordCompare_def)

definition allEvents :: "item_movement list \<Rightarrow> repository_movement list \<Rightarrow> rebuildEvent list" where
  "allEvents ms rs = concat (map itemMovementEvents ms) @ concat (map repositoryMovementEvents rs)"

lemma sort_Slice_key:
  assumes "\<And>a b. before a b \<longleftrightarrow> f a < (f b :: 'b::linorder)"
  shows "sort_Slice before xs = sort_key f xs"
proof -
  have "insertSlice before x ys = insort_key f x ys" for x ys
    using assms by (induction ys) auto
  then have "insertSlice before = insort_key f" by (intro ext)
  then show ?thesis by (simp add: sort_Slice_def sort_key_def)
qed

lemma rebuildEvents_sort: "rebuildEvents ms rs = sort_key eventKey (allEvents ms rs)"
  using sort_Slice_key [of eventLess eventKey, OF eventLess_key]
  by (simp add: rebuildEvents_def allEvents_def)

text \<open>Without ties every list that is sorted by the closure is the same one.\<close>

lemma sort_Slice_unique:
  assumes "\<And>a b. before a b \<longleftrightarrow> f a < (f b :: 'b::linorder)" and "distinct (map f xs)"
    and "mset ys = mset xs" and "sorted_wrt (\<lambda>a b. \<not> before b a) ys"
  shows "ys = sort_Slice before xs"
proof -
  have s: "sorted (map f ys)" using assms(1,4) by (simp add: sorted_map not_less)
  moreover have "set ys = set xs" using assms(3) by (rule mset_eq_setD)
  ultimately have "inj_on f (set ys \<union> set xs)" using assms(2) by (simp add: distinct_map)
  have "map f ys = map f (sort_key f xs)"
  proof (rule sorted_distinct_set_unique)
    show "distinct (map f ys)" "distinct (map f (sort_key f xs))"
      using assms(2,3) by (metis mset_eq_imp_distinct_iff mset_map, metis assms(2) mset_eq_imp_distinct_iff mset_map mset_sort)
    show "set (map f ys) = set (map f (sort_key f xs))" using \<open>set ys = set xs\<close> by simp
  qed (use s in simp_all)
  then have "ys = sort_key f xs"
    by (rule map_inj_on) (use \<open>inj_on f (set ys \<union> set xs)\<close> \<open>set ys = set xs\<close> in simp)
  then show ?thesis by (simp add: sort_Slice_key [of before f, OF assms(1)])
qed

text \<open>Movements with distinct identifiers have events with distinct keys.\<close>

definition kindID :: "rebuildEvent \<Rightarrow> rebuildEventKind \<times> uuid" where
  "kindID e = (ev_kind e, rebuildEventID e)"

lemma kindID_itemMovementEvents:
  "distinct (map kindID (itemMovementEvents m))"
  "k \<in> kindID ` set (itemMovementEvents m) \<Longrightarrow> snd k = im_id m \<and> kindIndex (fst k) < 3"
  by (auto simp: itemMovementEvents_def kindID_def itemEvent_def rebuildEventID_def split: option.splits if_splits)

lemma kindID_repositoryMovementEvents:
  "distinct (map kindID (repositoryMovementEvents m))"
  "k \<in> kindID ` set (repositoryMovementEvents m) \<Longrightarrow> snd k = rm_id m \<and> 3 \<le> kindIndex (fst k)"
  by (auto simp: repositoryMovementEvents_def kindID_def repoEvent_def rebuildEventID_def split: option.splits if_splits)

lemma distinct_concat_keys:
  assumes "distinct (map f xs)" and "\<And>x. distinct (map g (h x))"
    and "\<And>x k. k \<in> g ` set (h x) \<Longrightarrow> snd k = f x"
  shows "distinct (map g (concat (map h xs)))"
  using assms(1)
proof (induction xs)
  case (Cons x xs)
  have "g ` set (h x) \<inter> g ` set (concat (map h xs)) = {}"
  proof (rule ccontr)
    assume "g ` set (h x) \<inter> g ` set (concat (map h xs)) \<noteq> {}"
    then obtain k y where k: "k \<in> g ` set (h x)" "y \<in> set xs" "k \<in> g ` set (h y)" by auto
    from assms(3) [OF k(1)] assms(3) [OF k(3)] have "f x = f y" by simp
    with Cons.prems k(2) show False by (metis distinct.simps(2) image_eqI list.set_map list.simps(9))
  qed
  with Cons assms(2) show ?case by (simp add: image_Un) 
qed simp

lemma allEvents_distinct:
  assumes "distinct (map im_id ms)" and "distinct (map rm_id rs)"
  shows "distinct (map eventKey (allEvents ms rs))"
proof -
  have i: "distinct (map kindID (concat (map itemMovementEvents ms)))"
    by (rule distinct_concat_keys [OF assms(1)]) (use kindID_itemMovementEvents in blast)+
  have r: "distinct (map kindID (concat (map repositoryMovementEvents rs)))"
    by (rule distinct_concat_keys [OF assms(2)]) (use kindID_repositoryMovementEvents in blast)+
  have "kindIndex (fst k) < 3"
    if k: "k \<in> kindID ` set (concat (map itemMovementEvents ms))" for k
  proof -
    from k obtain m where "k \<in> kindID ` set (itemMovementEvents m)" by auto
    from kindID_itemMovementEvents(2) [OF this] show ?thesis by simp
  qed
  moreover have "3 \<le> kindIndex (fst k)"
    if k: "k \<in> kindID ` set (concat (map repositoryMovementEvents rs))" for k
  proof -
    from k obtain m where "k \<in> kindID ` set (repositoryMovementEvents m)" by auto
    from kindID_repositoryMovementEvents(2) [OF this] show ?thesis by simp
  qed
  ultimately have "kindID ` set (concat (map itemMovementEvents ms)) \<inter> kindID ` set (concat (map repositoryMovementEvents rs)) = {}"
    by (meson disjoint_iff not_less)
  with i r have "distinct (map kindID (allEvents ms rs))"
    unfolding allEvents_def map_append distinct_append set_map by blast
  moreover have "map kindID (allEvents ms rs) = map snd (map eventKey (allEvents ms rs))"
    by (simp add: kindID_def eventKey_def)
  ultimately show ?thesis by (metis distinct_map)
qed

lemma sort_key_permutation:
  assumes "mset xs = mset ys" and "distinct (map f xs)"
  shows "sort_key f xs = sort_key f ys"
proof (rule properties_for_sort_key)
  show "mset (sort_key f ys) = mset xs" using assms(1) by simp
next
  fix x assume "x \<in> set (sort_key f ys)"
  with assms(1) have x: "x \<in> set xs" by (metis set_mset_mset set_sort)
  have one: "filter (\<lambda>y. f x = f y) zs = [x]" if "distinct (map f zs)" "x \<in> set zs" for zs
  proof -
    from that(2) obtain as bs where zs: "zs = as @ x # bs" by (meson split_list)
    with that(1) have "f x \<notin> f ` set as" "f x \<notin> f ` set bs" by auto
    then have "filter (\<lambda>y. f x = f y) as = []" "filter (\<lambda>y. f x = f y) bs = []"
      by (auto simp: filter_empty_conv)
    with zs show ?thesis by simp
  qed
  have "distinct (map f (sort_key f ys))"
    using assms by (metis distinct_map mset_eq_imp_distinct_iff mset_eq_setD mset_sort)
  with one [OF assms(2) x] one [OF this \<open>x \<in> set (sort_key f ys)\<close>]
  show "filter (\<lambda>y. f x = f y) (sort_key f ys) = filter (\<lambda>y. f x = f y) xs" by simp
qed simp

lemma mset_concat_map: "mset xs = mset ys \<Longrightarrow> mset (concat (map f xs)) = mset (concat (map f ys))"
  by (metis mset_concat mset_map sum_mset_sum_list)

lemma rebuildEvents_permutation:
  assumes "distinct (map im_id ms)" "distinct (map rm_id rs)" and "mset ms' = mset ms" "mset rs' = mset rs"
  shows "rebuildEvents ms' rs' = rebuildEvents ms rs"
proof -
  have "mset (allEvents ms rs) = mset (allEvents ms' rs')"
    by (simp add: allEvents_def mset_concat_map [OF assms(3)] mset_concat_map [OF assms(4)])
  from sort_key_permutation [OF this allEvents_distinct [OF assms(1,2)]] show ?thesis
    by (simp add: rebuildEvents_sort)
qed

lemma sorted_before:
  assumes "sorted (map f xs)" and "a \<in> set xs" "b \<in> set xs" and "f a < f b"
  shows "\<exists>as bs cs. xs = as @ a # bs @ b # cs"
proof -
  from assms(2) obtain as bs where xs: "xs = as @ a # bs" by (meson split_list)
  have "b \<notin> set as"
  proof
    assume "b \<in> set as"
    with assms(1) xs have "f b \<le> f a" by (auto simp: sorted_append)
    with assms(4) show False by simp
  qed
  with assms(3,4) xs have "b \<in> set bs" by auto
  then obtain cs ds where "bs = cs @ b # ds" by (meson split_list)
  with xs show ?thesis by auto
qed

section \<open>The map of parents\<close>

lemma parents_of_path:
  assumes "gget m 0 = None"
  shows "walk_path n m 0 r = Some p \<Longrightarrow> \<exists>pm'. getRepositoriesParentsDetails n r m pm = Inr pm'
    \<and> (\<forall>x. gget pm' x = (if x \<in> set p \<and> gget m x \<noteq> None then gget m x else gget pm x))"
proof (induction n arbitrary: r p pm)
  case (Suc n)
  show ?case
  proof (cases "gget m r")
    case None
    with Suc.prems show ?thesis by auto
  next
    case (Some v)
    then have v: "parentID m r = r_parent v" "r \<noteq> 0" using assms by (auto simp: parentID_def ggetd_def)
    show ?thesis
    proof (cases "r_parent v = 0")
      case True
      with Suc.prems Some v show ?thesis by (auto simp: uuid_Nil_def)
    next
      case False
      with Suc.prems v obtain q where q: "walk_path n m 0 (r_parent v) = Some q" "p = r # q" by auto
      from Suc.IH [OF q(1), of "gput r v pm"] obtain pm' where
        "getRepositoriesParentsDetails n (r_parent v) m (gput r v pm) = Inr pm'"
        "\<forall>x. gget pm' x = (if x \<in> set q \<and> gget m x \<noteq> None then gget m x else gget (gput r v pm) x)" by blast
      with q(2) False Some show ?thesis by (auto simp: uuid_Nil_def)
    qed
  qed
qed simp

lemma parents_diverge:
  assumes "\<And>x. anc m r x \<Longrightarrow> parentID m x \<noteq> 0"
  shows "getRepositoriesParentsDetails n r m pm = Inl FatalStackOverflow"
  using assms
proof (induction n arbitrary: r pm)
  case (Suc n)
  have st: "parent_step m r (parentID m r)" using Suc.prems [of r] by (simp add: parent_step_def)
  then obtain v where v: "gget m r = Some v" using parent_step_gget by blast
  have "getRepositoriesParentsDetails n (parentID m r) m (gput r v pm) = Inl FatalStackOverflow"
    by (rule Suc.IH) (use Suc.prems st in \<open>blast intro: converse_rtranclp_into_rtranclp\<close>)
  with v Suc.prems [of r] show ?case by (simp add: parentID_def ggetd_def uuid_Nil_def)
qed simp

section \<open>The loader and the stored procedure\<close>

lemma prior_agrees_both:
  assumes "prior_agrees a s" and "prior_agrees b s"
  shows "(a = None \<longleftrightarrow> b = None) \<and> (\<forall>x y. a = Some x \<longrightarrow> b = Some y \<longrightarrow> sameCounters x y \<and> version x = version y)"
  using assms by (auto simp: prior_agrees_def sameCounters_def split: option.splits)

lemma procNextVersion_above:
  assumes "s \<in> set (stocks d)" "s_tenant s = tn" "s_key s = k"
  shows "version s < procNextVersion d tn k"
  using latest_of_exists [of s "filter (\<lambda>s. s_tenant s = tn \<and> s_key s = k) (stocks d)"] assms
  by (auto simp: procNextVersion_def split: option.splits)

lemma procRows_ledger_ok:
  assumes "ledger_ok (stocks d)" and "repo_ids_ok d"
  shows "ledger_ok (stocks d @ procRows d tn input mv F T)"
proof -
  define f where "f = procStockRow d tn input mv F T"
  define repos where "repos = filter (\<lambda>r. r_tenant r = tn \<and> r_id r \<in> set (procAncestors F T)) (repositories d)"
  have rows: "procRows d tn input mv F T = map f repos" by (simp add: procRows_def Let_def f_def repos_def)
  have ids: "distinct (map r_id repos)" using assms(2) by (simp add: repo_ids_ok_def distinct_map_filter repos_def)
  have f: "stock_index (f r) = (tn, r_id r, ci_item input, procNextVersion d tn (r_id r, ci_item input))" for r
    by (simp add: stock_index_def procStockRow_def Let_def f_def)
  have "distinct (map (stock_index \<circ> f) repos)"
    using ids by (auto simp: distinct_map inj_on_def f)
  moreover have "set (map stock_index (stocks d)) \<inter> set (map (stock_index \<circ> f) repos) = {}"
  proof (rule ccontr)
    assume "set (map stock_index (stocks d)) \<inter> set (map (stock_index \<circ> f) repos) \<noteq> {}"
    then obtain k where k: "k \<in> stock_index ` set (stocks d)" "k \<in> (stock_index \<circ> f) ` set repos"
      unfolding set_map by blast
    from k(2) obtain r where "k = stock_index (f r)" by auto
    with k(1) obtain s where s: "s \<in> set (stocks d)" "stock_index s = stock_index (f r)" by auto
    from procNextVersion_above [OF s(1), of tn "(r_id r, ci_item input)"] s(2) [unfolded f] show False
      by (simp add: stock_index_def)
  qed
  ultimately show ?thesis
    using assms(1) unfolding ledger_ok_def rows map_append distinct_append map_map by blast
qed

section \<open>Properties\<close>

text \<open>The creation of the movement an event belongs to.\<close>

definition creationOf :: "rebuildEvent \<Rightarrow> rebuildEvent" where
  "creationOf e =
     (case ev_itemMov e of
        Some m \<Rightarrow> itemEvent m (im_created_at m) rebuildPendingItem
      | None \<Rightarrow> repoEvent (the (ev_repoMov e)) (rm_created_at (the (ev_repoMov e))) rebuildPendingRepo)"

text \<open>
  A movement is never executed or released in the replay before it is created: unless the
  follow-up carries an earlier timestamp than the creation, the creation comes first in the
  event list, also at equal timestamps.
\<close>
lemma rebuild_creation_first:
  assumes "e \<in> set (rebuildEvents ms rs)" and "e \<noteq> creationOf e"
    and "ev_timestamp (creationOf e) \<le> ev_timestamp e"
  shows "\<exists>as bs cs. rebuildEvents ms rs = as @ creationOf e # bs @ e # cs"
proof (rule sorted_before)
  show "sorted (map eventKey (rebuildEvents ms rs))" by (simp add: rebuildEvents_sort)
  from assms(1) have "e \<in> set (allEvents ms rs)" by (simp add: rebuildEvents_sort)
  then consider (item) m where "m \<in> set ms" "e \<in> set (itemMovementEvents m)"
    | (repo) m where "m \<in> set rs" "e \<in> set (repositoryMovementEvents m)" by (auto simp: allEvents_def)
  then have "creationOf e \<in> set (allEvents ms rs) \<and> eventKey (creationOf e) < eventKey e"
  proof cases
    case item
    then have c: "creationOf e = itemEvent m (im_created_at m) rebuildPendingItem"
      by (auto simp: creationOf_def itemMovementEvents_def itemEvent_def split: option.splits if_splits)
    then have "creationOf e \<in> set (itemMovementEvents m)"
      by (auto simp: itemMovementEvents_def split: option.splits)
    moreover have "eventKey (creationOf e) < eventKey e"
      using item(2) assms(2,3) unfolding c
      by (auto simp: itemMovementEvents_def itemEvent_def eventKey_def less_prod_def less_rebuildEventKind_def
          split: option.splits if_splits)
    ultimately show ?thesis using item(1) by (auto simp: allEvents_def)
  next
    case repo
    then have c: "creationOf e = repoEvent m (rm_created_at m) rebuildPendingRepo"
      by (auto simp: creationOf_def repositoryMovementEvents_def repoEvent_def split: option.splits if_splits)
    then have "creationOf e \<in> set (repositoryMovementEvents m)"
      by (auto simp: repositoryMovementEvents_def split: option.splits)
    moreover have "eventKey (creationOf e) < eventKey e"
      using repo(2) assms(2,3) unfolding c
      by (auto simp: repositoryMovementEvents_def repoEvent_def eventKey_def less_prod_def less_rebuildEventKind_def
          split: option.splits if_splits)
    ultimately show ?thesis using repo(1) by (auto simp: allEvents_def)
  qed
  then show "creationOf e \<in> set (rebuildEvents ms rs)" "eventKey (creationOf e) < eventKey e"
    by (simp_all add: rebuildEvents_sort)
qed (fact assms(1))

text \<open>
  C31: the replay order of a rebuild is determined. The list is in the order of the closure given to
  \<open>sort.Slice\<close>, and any routine that sorts the same events by that closure returns the same
  list, whatever order the movements were loaded in: timestamp, kind and identifier leave no
  ties, so it does not matter that \<open>sort.Slice\<close> is not stable. And no movement is executed or released
  in the replay before it is created, also at equal timestamps, unless the follow-up carries an
  earlier timestamp than the creation.
\<close>
theorem rebuild_order:
  assumes "distinct (map im_id ms)" "distinct (map rm_id rs)" and "mset ms' = mset ms" "mset rs' = mset rs"
  shows "mset (rebuildEvents ms rs) = mset (allEvents ms rs)
    \<and> sorted_wrt (\<lambda>a b. \<not> eventLess b a) (rebuildEvents ms rs)
    \<and> (\<forall>xs. mset xs = mset (allEvents ms' rs') \<and> sorted_wrt (\<lambda>a b. \<not> eventLess b a) xs \<longrightarrow> xs = rebuildEvents ms rs)
    \<and> (\<forall>e \<in> set (rebuildEvents ms rs). e \<noteq> creationOf e \<and> ev_timestamp (creationOf e) \<le> ev_timestamp e \<longrightarrow>
         (\<exists>as bs cs. rebuildEvents ms rs = as @ creationOf e # bs @ e # cs))"
proof (intro conjI allI impI ballI)
  show "mset (rebuildEvents ms rs) = mset (allEvents ms rs)" by (simp add: rebuildEvents_sort)
  have "sorted (map eventKey (rebuildEvents ms rs))" by (simp add: rebuildEvents_sort)
  then show "sorted_wrt (\<lambda>a b. \<not> eventLess b a) (rebuildEvents ms rs)"
    by (simp add: sorted_map eventLess_key not_less)
next
  fix xs assume xs: "mset xs = mset (allEvents ms' rs') \<and> sorted_wrt (\<lambda>a b. \<not> eventLess b a) xs"
  have "mset (allEvents ms' rs') = mset (allEvents ms rs)"
    by (simp add: allEvents_def mset_concat_map [OF assms(3)] mset_concat_map [OF assms(4)])
  with xs show "xs = rebuildEvents ms rs"
    using sort_Slice_unique [OF eventLess_key allEvents_distinct [OF assms(1,2)]]
    by (simp add: rebuildEvents_def allEvents_def)
next
  fix e assume "e \<in> set (rebuildEvents ms rs)"
    and "e \<noteq> creationOf e \<and> ev_timestamp (creationOf e) \<le> ev_timestamp e"
  then show "\<exists>as bs cs. rebuildEvents ms rs = as @ creationOf e # bs @ e # cs"
    by (intro rebuild_creation_first) simp_all
qed

definition exEvents :: "item_movement list" where
  "exEvents = [exMovement, exMovement\<lparr>im_id := 501, im_executed_at := Some 70\<rparr>]"

theorem rebuild_order_witness:
  "rebuildEvents (rev exEvents) [] = rebuildEvents exEvents [] \<and> length (rebuildEvents exEvents []) = 3"
proof -
  have d: "distinct (map im_id exEvents)" "distinct (map im_id (rev exEvents))" by code_simp+
  from rebuild_order [OF d(2), of "[]" "rev exEvents" "[]"]
  have "mset (rebuildEvents (rev exEvents) []) = mset (allEvents (rev exEvents) [])"
    "sorted_wrt (\<lambda>a b. \<not> eventLess b a) (rebuildEvents (rev exEvents) [])" by simp_all
  with rebuild_order [OF d(1), of "[]" "rev exEvents" "[]"]
  have "rebuildEvents (rev exEvents) [] = rebuildEvents exEvents []" by simp
  moreover have "length (rebuildEvents exEvents []) = 3" by code_simp
  ultimately show ?thesis ..
qed

text \<open>
  GetRepositoriesParentsDetails collects the repository and everything above it when the
  chain ends, with the fuel of the model, and recurses without end when it runs into a cycle.
\<close>
theorem parents_details:
  assumes "gget m 0 = None" and "r \<noteq> 0"
  shows "if acyclic_at m r
    then \<exists>pm'. getRepositoriesParentsDetails (walk_fuel m) r m pm = Inr pm'
      \<and> (\<forall>x. gget pm' x = (if anc m r x \<and> gget m x \<noteq> None then gget m x else gget pm x))
    else \<forall>n. getRepositoriesParentsDetails n r m pm = Inl FatalStackOverflow"
proof (cases "acyclic_at m r")
  case True
  then obtain p where p: "walk_path (walk_fuel m) m 0 r = Some p" using walk_path_total by blast
  have "\<not> anc m r 0" using anc_nonzero [of m r 0] assms(2) by blast
  from parents_of_path [OF assms(1) p, of pm] walk_path_set_root(1) [OF p this] True show ?thesis by simp
next
  case False
  then obtain z where z: "anc m r z" "on_cycle m z" by (auto simp: acyclic_at_iff)
  have "getRepositoriesParentsDetails n r m pm = Inl FatalStackOverflow" for n
    by (rule parents_diverge) (rule cycle_never_ends [OF z])
  with False show ?thesis by simp
qed

theorem parents_details_witness:
  "\<exists>pm'. getRepositoriesParentsDetails (walk_fuel exTree) 13 exTree [] = Inr pm'
    \<and> (\<forall>n. getRepositoriesParentsDetails n 32 exCycle [] = Inl FatalStackOverflow)"
proof -
  have "gget exTree 0 = None" "acyclic_at exTree 13" "gget exCycle 0 = None" "\<not> acyclic_at exCycle 32"
    by code_simp+
  with parents_details [of exTree 13 "[]"] parents_details [of exCycle 32 "[]"] show ?thesis by auto
qed

text \<open>
  C34: the two database paths of loadAncestorStocks agree: at every repository at or above a
  seed, the recursive query and the database function load the same parent and virtual flag
  and, for every item asked for, the same counters and version.
\<close>
theorem loader_dialects_agree:
  assumes "repo_ids_ok d" "tree_ready (tenantTree d tn False) s" "s \<in> set seeds" "TenantIDQueryFilter c tn"
    and "ledger_ok (stocks d)" "ledger_live tn i (stocks d)" "i \<in> set is"
    and "anc (tenantTree d tn False) s x" "gget (tenantTree d tn False) x \<noteq> None"
    and "P = loadAncestorStocks Postgres c d tn seeds is False"
    and "G = loadAncestorStocks OtherDialect c d tn seeds is False"
  shows "gget (fst P) x \<noteq> None \<and> gget (fst G) x \<noteq> None \<and> parentID (fst P) x = parentID (fst G) x
    \<and> isVirtual (fst P) x = isVirtual (fst G) x
    \<and> (gget (snd P) (x, i) = None \<longleftrightarrow> gget (snd G) (x, i) = None)
    \<and> (\<forall>p g. gget (snd P) (x, i) = Some p \<longrightarrow> gget (snd G) (x, i) = Some g \<longrightarrow> sameCounters p g \<and> version p = version g)"
proof -
  have above: "loaded_above (tenantTree d tn False) (fst (loadAncestorStocks dialect c d tn seeds is False)) s" for dialect
    by (rule loaded_above_loader [OF assms(1)]) (use assms(2-4) in \<open>auto simp: tree_ready_def\<close>)
  have P: "gget (fst P) x \<noteq> None" "parentID (fst P) x = parentID (tenantTree d tn False) x"
    "isVirtual (fst P) x = isVirtual (tenantTree d tn False) x"
    using above [of Postgres, folded assms(10), unfolded loaded_above_def, rule_format, OF assms(8)] assms(9) by simp_all
  have G: "gget (fst G) x \<noteq> None" "parentID (fst G) x = parentID (tenantTree d tn False) x"
    "isVirtual (fst G) x = isVirtual (tenantTree d tn False) x"
    using above [of OtherDialect, folded assms(11), unfolded loaded_above_def, rule_format, OF assms(8)] assms(9) by simp_all
  note rows = prior_agrees_both [OF prior_agrees_loader [OF assms(5,6,4) P(1) [unfolded assms(10)] assms(7)]
      prior_agrees_loader [OF assms(5,6,4) G(1) [unfolded assms(11)] assms(7)]]
  from rows P G show ?thesis by (simp add: assms(10,11))
qed

theorem loader_dialects_agree_witness:
  "gget (snd (loadAncestorStocks Postgres exCtx exDb 1 [13, 12] [5] False)) (11, 5) = None \<longleftrightarrow>
   gget (snd (loadAncestorStocks OtherDialect exCtx exDb 1 [13, 12] [5] False)) (11, 5) = None"
proof -
  have h: "repo_ids_ok exDb" "tree_ready exTree 13" "TenantIDQueryFilter exCtx 1" "ledger_ok (stocks exDb)"
    "ledger_live 1 5 (stocks exDb)" "gget exTree 11 \<noteq> None" "parentID exTree 13 = 11"
    by code_simp+
  have "anc exTree 13 11" by (rule r_into_rtranclp) (use h(7) in \<open>simp add: parent_step_def\<close>)
  from loader_dialects_agree [OF h(1,2) _ h(3-5) _ this h(6) refl refl, of "[13, 12]" "[5]"] show ?thesis by simp
qed

text \<open>
  Create_item_movement_proc never violates the unique index of the ledger when nothing else
  commits: its versions lie above every row of the group, soft-deleted ones included. Its retry
  loop therefore only ever runs again after a concurrent write.
\<close>
theorem proc_never_conflicts:
  assumes "ledger_ok (stocks d)" and "repo_ids_ok d"
  shows "create_item_movement_proc undisturbed c tn input d \<noteq> Inl stock_unique_violation"
proof -
  have "ledger_ok (stocks d @ procRows d tn input mv F T)" for mv F T by (rule procRows_ledger_ok [OF assms])
  then show ?thesis
    by (auto simp: create_item_movement_proc_def procLoop_undisturbed procStore_def raise_exception_def
        stock_unique_violation_def primary_key_violation_def stockOCCUniqueIndex_def Let_def
        split: list.splits sum.splits if_splits)
qed

theorem proc_never_conflicts_witness:
  "create_item_movement_proc undisturbed exCtx 1 \<lparr>ci_item = 5, ci_from = 13, ci_to = 12, ci_quantity = 4, ci_handler = ''ops'',
     ci_collection = 0, ci_position = 0\<rparr> exDb \<noteq> Inl stock_unique_violation"
proof -
  have "ledger_ok (stocks exDb)" "repo_ids_ok exDb" by code_simp+
  from proc_never_conflicts [OF this] show ?thesis .
qed

end
