(* ===== verification/MemKV.thy ===== *)
theory MemKV
  imports Prelude
begin

text \<open>
  common/memkv/store.go: the in-memory store behind the token cache and the liveness cache, with
  a time to live per entry and a secondary index that evicts a group of entries at once. A store
  is its two Go maps; the clock readings of an operation are arguments. Each operation holds the
  mutex throughout, so it is one step. \<open>Close\<close> and the ticker only start and stop the cleanup.
\<close>

section \<open>The store\<close>

record 'v kv_entry =
  e_value :: 'v
  e_expiration :: int
  e_secondaryKey :: string

record 'v kv =
  kv_store :: "(string, 'v kv_entry) gomap"
  kv_index :: "(string, string list) gomap"

definition NewInMemoryKVStore :: "'v kv" where
  "NewInMemoryKVStore = \<lparr>kv_store = [], kv_index = []\<rparr>"

text \<open>\<open>delete(m, k)\<close>.\<close>

definition gdel :: "'k \<Rightarrow> ('k, 'w) gomap \<Rightarrow> ('k, 'w) gomap" where
  "gdel k m = filter (\<lambda>(k', _). k' \<noteq> k) m"

lemma gget_gdel [simp]: "gget (gdel k m) k' = (if k' = k then None else gget m k')"
  by (induction m) (auto simp: gdel_def)

lemma gmap_ok_gdel [simp]: "gmap_ok m \<Longrightarrow> gmap_ok (gdel k m)"
  by (auto simp: gmap_ok_def gdel_def distinct_map intro: inj_on_subset)

definition kv_expired :: "int \<Rightarrow> 'v kv_entry \<Rightarrow> bool" where
  "kv_expired now e \<longleftrightarrow> e_expiration e \<noteq> 0 \<and> now > e_expiration e"

definition unindexLocked :: "string \<Rightarrow> string \<Rightarrow> 'v kv \<Rightarrow> 'v kv" where
  "unindexLocked key secondaryKey kv =
     (case gget (kv_index kv) secondaryKey of
        None \<Rightarrow> kv
      | Some bucket \<Rightarrow>
          (let bucket' = removeAll key bucket in
           kv\<lparr>kv_index := (if bucket' = [] then gdel secondaryKey (kv_index kv)
                           else gput secondaryKey bucket' (kv_index kv))\<rparr>))"

text \<open>The link of a key's current entry is dropped before the entry is.\<close>

definition unlink :: "string \<Rightarrow> 'v kv \<Rightarrow> 'v kv" where
  "unlink key kv =
     (case gget (kv_store kv) key of
        None \<Rightarrow> kv
      | Some e \<Rightarrow> if e_secondaryKey e \<noteq> [] then unindexLocked key (e_secondaryKey e) kv else kv)"

definition kv_expiration :: "int \<Rightarrow> int \<Rightarrow> int" where
  "kv_expiration now ttl = (if ttl > 0 then now + ttl else 0)"

definition kv_Set :: "int \<Rightarrow> string \<Rightarrow> 'v \<Rightarrow> int \<Rightarrow> 'v kv \<Rightarrow> 'v kv" where
  "kv_Set now key v ttl kv =
     (if ttl < 0 then kv
      else let kv1 = unlink key kv in
        kv1\<lparr>kv_store := gput key \<lparr>e_value = v, e_expiration = kv_expiration now ttl, e_secondaryKey = []\<rparr> (kv_store kv1)\<rparr>)"

text \<open>The clock is read twice, to look at the occupant and to date the new entry.\<close>

definition kv_SetWhere ::
  "int \<Rightarrow> int \<Rightarrow> string \<Rightarrow> 'v \<Rightarrow> int \<Rightarrow> ('v option \<Rightarrow> bool) \<Rightarrow> 'v kv \<Rightarrow> bool \<times> 'v kv"
where
  "kv_SetWhere now now' key v ttl pred kv =
     (if ttl < 0 then (False, kv)
      else
        (let old = (case gget (kv_store kv) key of
               None \<Rightarrow> None
             | Some e \<Rightarrow> if kv_expired now e then None else Some e) in
         if \<not> pred (map_option e_value old) then (False, kv)
         else
           (let kv1 = (if old \<noteq> None then unlink key kv else kv) in
            (True, kv1\<lparr>kv_store := gput key
               \<lparr>e_value = v, e_expiration = kv_expiration now' ttl, e_secondaryKey = []\<rparr> (kv_store kv1)\<rparr>))))"

definition kv_Get :: "int \<Rightarrow> string \<Rightarrow> 'v kv \<Rightarrow> 'v option" where
  "kv_Get now key kv =
     (case gget (kv_store kv) key of
        None \<Rightarrow> None
      | Some e \<Rightarrow> if kv_expired now e then None else Some (e_value e))"

definition deleteLocked :: "string \<Rightarrow> 'v kv \<Rightarrow> 'v kv" where
  "deleteLocked key kv = (let kv1 = unlink key kv in kv1\<lparr>kv_store := gdel key (kv_store kv1)\<rparr>)"

definition kv_Delete :: "string \<Rightarrow> 'v kv \<Rightarrow> 'v kv" where
  "kv_Delete key kv = deleteLocked key kv"

definition kv_SetWithSecondaryKey :: "int \<Rightarrow> string \<Rightarrow> 'v \<Rightarrow> int \<Rightarrow> string \<Rightarrow> 'v kv \<Rightarrow> 'v kv" where
  "kv_SetWithSecondaryKey now key v ttl secondaryKey kv =
     (let kv1 = unlink key kv;
          kv2 = kv1\<lparr>kv_store := gput key
            \<lparr>e_value = v, e_expiration = kv_expiration now ttl, e_secondaryKey = secondaryKey\<rparr> (kv_store kv1)\<rparr> in
      if secondaryKey = [] then kv2
      else kv2\<lparr>kv_index := gput secondaryKey (List.insert key (ggetd [] (kv_index kv2) secondaryKey)) (kv_index kv2)\<rparr>)"

definition kv_DeleteBySecondaryKey :: "string \<Rightarrow> 'v kv \<Rightarrow> nat \<times> 'v kv" where
  "kv_DeleteBySecondaryKey secondaryKey kv =
     (case gget (kv_index kv) secondaryKey of
        None \<Rightarrow> (0, kv)
      | Some bucket \<Rightarrow>
          (length bucket,
           kv\<lparr>kv_store := fold gdel bucket (kv_store kv), kv_index := gdel secondaryKey (kv_index kv)\<rparr>))"

text \<open>The loops over the store delete the entry they are at.\<close>

definition kv_DeleteWhere :: "(string \<Rightarrow> 'v \<Rightarrow> bool) \<Rightarrow> 'v kv \<Rightarrow> nat \<times> 'v kv" where
  "kv_DeleteWhere pred kv =
     (let hits = filter (\<lambda>(key, e). pred key (e_value e)) (kv_store kv) in
      (length hits, fold (\<lambda>(key, e). deleteLocked key) hits kv))"

definition cleanupExpiredEntries :: "int \<Rightarrow> 'v kv \<Rightarrow> 'v kv" where
  "cleanupExpiredEntries now kv =
     fold (\<lambda>(key, e). deleteLocked key) (filter (\<lambda>(key, e). kv_expired now e) (kv_store kv)) kv"

definition kv_ForEach :: "int \<Rightarrow> 'v kv \<Rightarrow> (string \<times> 'v) list" where
  "kv_ForEach now kv =
     map (\<lambda>(key, e). (key, e_value e)) (filter (\<lambda>(key, e). \<not> kv_expired now e) (kv_store kv))"

section \<open>The index\<close>

definition kv_bucket :: "'v kv \<Rightarrow> string \<Rightarrow> string list" where
  "kv_bucket kv sk = ggetd [] (kv_index kv) sk"

text \<open>Every entry with a secondary key is linked, and no bucket is empty.\<close>

definition kv_linked :: "'v kv \<Rightarrow> bool" where
  "kv_linked kv \<longleftrightarrow> gmap_ok (kv_store kv)
     \<and> (\<forall>key e. gget (kv_store kv) key = Some e \<longrightarrow> e_secondaryKey e \<noteq> [] \<longrightarrow> key \<in> set (kv_bucket kv (e_secondaryKey e)))
     \<and> (\<forall>sk b. gget (kv_index kv) sk = Some b \<longrightarrow> b \<noteq> [] \<and> distinct b)"

text \<open>And every link is the one of its key's entry.\<close>

definition kv_exact :: "'v kv \<Rightarrow> bool" where
  "kv_exact kv \<longleftrightarrow> kv_linked kv
     \<and> (\<forall>sk key. key \<in> set (kv_bucket kv sk) \<longrightarrow> (\<exists>e. gget (kv_store kv) key = Some e \<and> e_secondaryKey e = sk \<and> sk \<noteq> []))"

lemma unindexLocked_store [simp]: "kv_store (unindexLocked key sk kv) = kv_store kv"
  by (simp add: unindexLocked_def Let_def split: option.splits)

lemma unlink_store [simp]: "kv_store (unlink key kv) = kv_store kv"
  by (simp add: unlink_def split: option.splits)

lemma kv_bucket_unindexLocked [simp]:
  "kv_bucket (unindexLocked key sk kv) sk' = (if sk' = sk then removeAll key (kv_bucket kv sk) else kv_bucket kv sk')"
  by (auto simp: unindexLocked_def kv_bucket_def ggetd_def Let_def split: option.splits)

lemma kv_bucket_unlink:
  "set (kv_bucket (unlink key kv) sk) =
     (case gget (kv_store kv) key of
        Some e \<Rightarrow> if e_secondaryKey e = sk \<and> sk \<noteq> [] then set (kv_bucket kv sk) - {key} else set (kv_bucket kv sk)
      | None \<Rightarrow> set (kv_bucket kv sk))"
  by (auto simp: unlink_def split: option.splits)

lemma kv_index_unlink:
  assumes "\<forall>sk b. gget (kv_index kv) sk = Some b \<longrightarrow> b \<noteq> [] \<and> distinct b"
    and "gget (kv_index (unlink key kv)) sk = Some b"
  shows "b \<noteq> [] \<and> distinct b"
  using assms
  by (auto simp: unlink_def unindexLocked_def Let_def distinct_removeAll split: option.splits if_splits)

text \<open>Storing an entry without a secondary key after its predecessor has been unlinked.\<close>

lemma kv_bucket_store [simp]: "kv_bucket (kv\<lparr>kv_store := s\<rparr>) = kv_bucket kv"
  by (simp add: kv_bucket_def fun_eq_iff)

lemma replace_unlinked:
  assumes "gmap_ok s" and other: "\<And>k. k \<noteq> key \<Longrightarrow> gget s k = gget (kv_store kv) k"
    and own: "\<And>e. gget s key = Some e \<Longrightarrow> e_secondaryKey e = []"
  shows replace_linked: "kv_linked kv \<Longrightarrow> kv_linked ((unlink key kv)\<lparr>kv_store := s\<rparr>)"
    and replace_exact: "kv_exact kv \<Longrightarrow> kv_exact ((unlink key kv)\<lparr>kv_store := s\<rparr>)"
proof -
  show linked: "kv_linked ((unlink key kv)\<lparr>kv_store := s\<rparr>)" if ok: "kv_linked kv"
    unfolding kv_linked_def
  proof (intro conjI allI impI)
    show "gmap_ok (kv_store ((unlink key kv)\<lparr>kv_store := s\<rparr>))" using assms(1) by simp
    fix k e assume e: "gget (kv_store ((unlink key kv)\<lparr>kv_store := s\<rparr>)) k = Some e" "e_secondaryKey e \<noteq> []"
    then have k: "k \<noteq> key" using own by auto
    with e other ok have "k \<in> set (kv_bucket kv (e_secondaryKey e))" by (simp add: kv_linked_def)
    with k show "k \<in> set (kv_bucket ((unlink key kv)\<lparr>kv_store := s\<rparr>) (e_secondaryKey e))"
      by (simp add: kv_bucket_unlink split: option.splits)
  next
    fix sk b assume "gget (kv_index ((unlink key kv)\<lparr>kv_store := s\<rparr>)) sk = Some b"
    then have b: "gget (kv_index (unlink key kv)) sk = Some b" by simp
    from ok have i: "\<forall>sk b. gget (kv_index kv) sk = Some b \<longrightarrow> b \<noteq> [] \<and> distinct b" by (simp add: kv_linked_def)
    show "b \<noteq> []" "distinct b" using kv_index_unlink [OF i b] by simp_all
  qed
  show "kv_exact ((unlink key kv)\<lparr>kv_store := s\<rparr>)" if ok: "kv_exact kv"
    unfolding kv_exact_def
  proof (intro conjI allI impI)
    show "kv_linked ((unlink key kv)\<lparr>kv_store := s\<rparr>)" using linked ok by (simp add: kv_exact_def)
    fix sk k assume "k \<in> set (kv_bucket ((unlink key kv)\<lparr>kv_store := s\<rparr>) sk)"
    then have k: "k \<in> set (kv_bucket (unlink key kv) sk)" by simp
    then have "k \<in> set (kv_bucket kv sk)" by (auto simp: kv_bucket_unlink split: option.splits if_splits)
    with ok obtain e where e: "gget (kv_store kv) k = Some e" "e_secondaryKey e = sk" "sk \<noteq> []"
      by (auto simp: kv_exact_def)
    with k have "k \<noteq> key" by (auto simp: kv_bucket_unlink)
    with e other show "\<exists>e. gget (kv_store ((unlink key kv)\<lparr>kv_store := s\<rparr>)) k = Some e \<and> e_secondaryKey e = sk \<and> sk \<noteq> []"
      by simp
  qed
qed

lemma kv_linkedD: "kv_linked kv \<Longrightarrow> gmap_ok (kv_store kv)"
  by (simp add: kv_linked_def)

lemma kv_exact_linked: "kv_exact kv \<Longrightarrow> kv_linked kv"
  by (simp add: kv_exact_def)

lemma kv_exactD: "kv_exact kv \<Longrightarrow> gmap_ok (kv_store kv)"
  by (simp add: kv_exact_def kv_linked_def)

lemma insert_not_Nil [simp]: "List.insert x xs \<noteq> []"
  by (auto simp: List.insert_def)

lemma unlink_none: "(\<And>e. gget (kv_store kv) key = Some e \<Longrightarrow> e_secondaryKey e = []) \<Longrightarrow> unlink key kv = kv"
  by (auto simp: unlink_def split: option.splits)

lemma kv_Set_ok:
  shows "kv_linked kv \<Longrightarrow> kv_linked (kv_Set now key v ttl kv)"
    and "kv_exact kv \<Longrightarrow> kv_exact (kv_Set now key v ttl kv)"
  by (auto simp: kv_Set_def Let_def dest: kv_linkedD kv_exactD intro!: replace_linked replace_exact)

lemma deleteLocked_ok:
  shows "kv_linked kv \<Longrightarrow> kv_linked (deleteLocked key kv)"
    and "kv_exact kv \<Longrightarrow> kv_exact (deleteLocked key kv)"
  by (auto simp: deleteLocked_def Let_def dest: kv_linkedD kv_exactD intro!: replace_linked replace_exact)

lemma overwrite_linked:
  assumes "kv_linked kv"
  shows "kv_linked (kv\<lparr>kv_store := gput key \<lparr>e_value = v, e_expiration = x, e_secondaryKey = []\<rparr> (kv_store kv)\<rparr>)"
  using assms by (auto simp: kv_linked_def)

lemma kv_SetWhere_ok:
  shows "kv_linked kv \<Longrightarrow> kv_linked (snd (kv_SetWhere now now' key v ttl pred kv))"
    and "\<lbrakk>kv_exact kv; \<And>e. gget (kv_store kv) key = Some e \<Longrightarrow> kv_expired now e \<Longrightarrow> e_secondaryKey e = []\<rbrakk>
      \<Longrightarrow> kv_exact (snd (kv_SetWhere now now' key v ttl pred kv))"
proof -
  let ?new = "gput key \<lparr>e_value = v, e_expiration = kv_expiration now' ttl, e_secondaryKey = []\<rparr> (kv_store kv)"
  show "kv_linked (snd (kv_SetWhere now now' key v ttl pred kv))" if "kv_linked kv"
    using that by (auto simp: kv_SetWhere_def Let_def dest: kv_linkedD split: option.splits
        intro!: replace_linked overwrite_linked)
  show "kv_exact (snd (kv_SetWhere now now' key v ttl pred kv))"
    if ok: "kv_exact kv" and e: "\<And>e. gget (kv_store kv) key = Some e \<Longrightarrow> kv_expired now e \<Longrightarrow> e_secondaryKey e = []"
  proof -
    have "kv_exact ((unlink key kv)\<lparr>kv_store := ?new\<rparr>)"
      using ok by (intro replace_exact) (auto dest: kv_exactD)
    moreover have "snd (kv_SetWhere now now' key v ttl pred kv) \<in> {kv, (unlink key kv)\<lparr>kv_store := ?new\<rparr>}"
      using unlink_none [of kv key] e by (auto simp: kv_SetWhere_def Let_def split: option.splits)
    ultimately show ?thesis using ok by auto
  qed
qed

lemma kv_SetWithSecondaryKey_store:
  "gget (kv_store (kv_SetWithSecondaryKey now key v ttl sk kv)) k =
     (if k = key then Some \<lparr>e_value = v, e_expiration = kv_expiration now ttl, e_secondaryKey = sk\<rparr> else gget (kv_store kv) k)"
  by (simp add: kv_SetWithSecondaryKey_def Let_def)

lemma kv_SetWithSecondaryKey_bucket:
  "set (kv_bucket (kv_SetWithSecondaryKey now key v ttl sk kv) sk') =
     (if sk' = sk \<and> sk \<noteq> [] then insert key (set (kv_bucket (unlink key kv) sk')) else set (kv_bucket (unlink key kv) sk'))"
  by (auto simp: kv_SetWithSecondaryKey_def Let_def kv_bucket_def)

lemma kv_SetWithSecondaryKey_ok:
  shows "kv_linked kv \<Longrightarrow> kv_linked (kv_SetWithSecondaryKey now key v ttl sk kv)"
    and "kv_exact kv \<Longrightarrow> kv_exact (kv_SetWithSecondaryKey now key v ttl sk kv)"
proof -
  let ?kv' = "kv_SetWithSecondaryKey now key v ttl sk kv"
  show linked: "kv_linked ?kv'" if ok: "kv_linked kv"
    unfolding kv_linked_def
  proof (intro conjI allI impI)
    show "gmap_ok (kv_store ?kv')" using ok by (simp add: kv_SetWithSecondaryKey_def Let_def kv_linked_def)
    fix k e assume "gget (kv_store ?kv') k = Some e" "e_secondaryKey e \<noteq> []"
    with ok show "k \<in> set (kv_bucket ?kv' (e_secondaryKey e))"
      by (auto simp: kv_SetWithSecondaryKey_store kv_SetWithSecondaryKey_bucket kv_bucket_unlink kv_linked_def
          split: if_splits option.splits)
  next
    fix sk' b assume "gget (kv_index ?kv') sk' = Some b"
    moreover from ok have i: "\<forall>sk b. gget (kv_index kv) sk = Some b \<longrightarrow> b \<noteq> [] \<and> distinct b" by (simp add: kv_linked_def)
    ultimately show "b \<noteq> []" "distinct b" using kv_index_unlink [OF i]
      by (auto simp: kv_SetWithSecondaryKey_def Let_def ggetd_def split: if_splits option.splits)
  qed
  show "kv_exact ?kv'" if ok: "kv_exact kv"
    unfolding kv_exact_def
  proof (intro conjI allI impI)
    show "kv_linked ?kv'" using linked ok by (simp add: kv_exact_def)
    fix sk' k assume k: "k \<in> set (kv_bucket ?kv' sk')"
    show "\<exists>e. gget (kv_store ?kv') k = Some e \<and> e_secondaryKey e = sk' \<and> sk' \<noteq> []"
    proof (cases "k = key \<and> sk' = sk \<and> sk \<noteq> []")
      case True
      then show ?thesis by (simp add: kv_SetWithSecondaryKey_store)
    next
      case False
      with k have k': "k \<in> set (kv_bucket (unlink key kv) sk')"
        by (auto simp: kv_SetWithSecondaryKey_bucket split: if_splits)
      then have "k \<in> set (kv_bucket kv sk')" by (auto simp: kv_bucket_unlink split: option.splits if_splits)
      with ok obtain e where e: "gget (kv_store kv) k = Some e" "e_secondaryKey e = sk'" "sk' \<noteq> []"
        by (auto simp: kv_exact_def)
      with k' have "k \<noteq> key" by (auto simp: kv_bucket_unlink)
      with e show ?thesis by (simp add: kv_SetWithSecondaryKey_store)
    qed
  qed
qed

lemma gget_fold_gdel [simp]: "gget (fold gdel ks m) k = (if k \<in> set ks then None else gget m k)"
  by (induction ks arbitrary: m) auto

lemma gmap_ok_fold_gdel: "gmap_ok m \<Longrightarrow> gmap_ok (fold gdel ks m)"
  by (induction ks arbitrary: m) auto

lemma kv_DeleteBySecondaryKey_store:
  "gget (kv_store (snd (kv_DeleteBySecondaryKey sk kv))) k = (if k \<in> set (kv_bucket kv sk) then None else gget (kv_store kv) k)"
  by (auto simp: kv_DeleteBySecondaryKey_def kv_bucket_def ggetd_def split: option.splits)

lemma kv_DeleteBySecondaryKey_bucket:
  "kv_bucket (snd (kv_DeleteBySecondaryKey sk kv)) sk' = (if sk' = sk then [] else kv_bucket kv sk')"
  by (auto simp: kv_DeleteBySecondaryKey_def kv_bucket_def ggetd_def split: option.splits)

lemma kv_DeleteBySecondaryKey_ok:
  shows "kv_linked kv \<Longrightarrow> kv_linked (snd (kv_DeleteBySecondaryKey sk kv))"
    and "kv_exact kv \<Longrightarrow> kv_exact (snd (kv_DeleteBySecondaryKey sk kv))"
proof -
  let ?kv' = "snd (kv_DeleteBySecondaryKey sk kv)"
  show linked: "kv_linked ?kv'" if ok: "kv_linked kv"
    unfolding kv_linked_def
  proof (intro conjI allI impI)
    show "gmap_ok (kv_store ?kv')"
      using ok by (auto simp: kv_DeleteBySecondaryKey_def kv_linked_def gmap_ok_fold_gdel split: option.splits)
    fix k e assume "gget (kv_store ?kv') k = Some e" "e_secondaryKey e \<noteq> []"
    with ok show "k \<in> set (kv_bucket ?kv' (e_secondaryKey e))"
      by (auto simp: kv_DeleteBySecondaryKey_store kv_DeleteBySecondaryKey_bucket kv_linked_def split: if_splits)
  next
    fix sk' b assume "gget (kv_index ?kv') sk' = Some b"
    with ok show "b \<noteq> []" "distinct b"
      by (auto simp: kv_DeleteBySecondaryKey_def kv_linked_def split: option.splits if_splits)
  qed
  show "kv_exact ?kv'" if ok: "kv_exact kv"
    unfolding kv_exact_def
  proof (intro conjI allI impI)
    show "kv_linked ?kv'" using linked ok by (simp add: kv_exact_def)
    fix sk' k assume "k \<in> set (kv_bucket ?kv' sk')"
    then have sk: "sk' \<noteq> sk" and "k \<in> set (kv_bucket kv sk')"
      by (auto simp: kv_DeleteBySecondaryKey_bucket split: if_splits)
    with ok obtain e where e: "gget (kv_store kv) k = Some e" "e_secondaryKey e = sk'" "sk' \<noteq> []"
      by (auto simp: kv_exact_def)
    have "k \<notin> set (kv_bucket kv sk)"
    proof
      assume "k \<in> set (kv_bucket kv sk)"
      with ok obtain e' where "gget (kv_store kv) k = Some e'" "e_secondaryKey e' = sk" by (auto simp: kv_exact_def)
      with e sk show False by simp
    qed
    with e show "\<exists>e. gget (kv_store ?kv') k = Some e \<and> e_secondaryKey e = sk' \<and> sk' \<noteq> []"
      by (simp add: kv_DeleteBySecondaryKey_store)
  qed
qed

lemma fold_deleteLocked_ok:
  shows "kv_linked kv \<Longrightarrow> kv_linked (fold (\<lambda>(key, e). deleteLocked key) hits kv)"
    and "kv_exact kv \<Longrightarrow> kv_exact (fold (\<lambda>(key, e). deleteLocked key) hits kv)"
  by (induction hits arbitrary: kv) (auto intro: deleteLocked_ok)

lemma deleteLocked_store [simp]: "gget (kv_store (deleteLocked key kv)) k = (if k = key then None else gget (kv_store kv) k)"
  by (simp add: deleteLocked_def Let_def)

lemma fold_deleteLocked_store:
  "gget (kv_store (fold (\<lambda>(key, e). deleteLocked key) hits kv)) k =
     (if k \<in> fst ` set hits then None else gget (kv_store kv) k)"
  by (induction hits arbitrary: kv) (auto simp: image_iff)


section \<open>Reachable stores\<close>

text \<open>
  One operation; \<open>w\<close> tells whether \<open>SetWhere\<close> may run on an occupant that has expired and still is
  in the index.
\<close>

inductive kv_step :: "bool \<Rightarrow> 'v kv \<Rightarrow> 'v kv \<Rightarrow> bool" for w where
  set_op: "kv_step w kv (kv_Set now key v ttl kv)"
| set_where: "w \<or> (\<forall>e. gget (kv_store kv) key = Some e \<longrightarrow> kv_expired now e \<longrightarrow> e_secondaryKey e = [])
    \<Longrightarrow> kv_step w kv (snd (kv_SetWhere now now' key v ttl pred kv))"
| delete_op: "kv_step w kv (kv_Delete key kv)"
| set_secondary: "kv_step w kv (kv_SetWithSecondaryKey now key v ttl sk kv)"
| delete_secondary: "kv_step w kv (snd (kv_DeleteBySecondaryKey sk kv))"
| cleanup_op: "kv_step w kv (cleanupExpiredEntries now kv)"
| delete_where: "kv_step w kv (snd (kv_DeleteWhere pred kv))"

abbreviation kv_reachable :: "bool \<Rightarrow> 'v kv \<Rightarrow> bool" where
  "kv_reachable w \<equiv> (kv_step w)\<^sup>*\<^sup>* NewInMemoryKVStore"

lemma kv_then: "kv_reachable w kv \<Longrightarrow> kv_step w kv kv' \<Longrightarrow> kv_reachable w kv'"
  by (rule rtranclp.rtrancl_into_rtrancl)

lemmas kv_ops_linked = kv_Set_ok(1) kv_SetWhere_ok(1) deleteLocked_ok(1) kv_SetWithSecondaryKey_ok(1)
    kv_DeleteBySecondaryKey_ok(1) fold_deleteLocked_ok(1)
  and kv_ops_exact = kv_Set_ok(2) kv_SetWhere_ok(2) deleteLocked_ok(2) kv_SetWithSecondaryKey_ok(2)
    kv_DeleteBySecondaryKey_ok(2) fold_deleteLocked_ok(2)

lemma kv_step_linked: "kv_step w kv kv' \<Longrightarrow> kv_linked kv \<Longrightarrow> kv_linked kv'"
  by (induction rule: kv_step.induct)
    (auto simp: kv_Delete_def cleanupExpiredEntries_def kv_DeleteWhere_def Let_def intro: kv_ops_linked)

lemma kv_step_exact: "kv_step False kv kv' \<Longrightarrow> kv_exact kv \<Longrightarrow> kv_exact kv'"
  by (induction rule: kv_step.induct)
    (auto simp: kv_Delete_def cleanupExpiredEntries_def kv_DeleteWhere_def Let_def intro: kv_ops_exact)

lemma kv_new_exact: "kv_exact NewInMemoryKVStore"
  by (simp add: NewInMemoryKVStore_def kv_exact_def kv_linked_def kv_bucket_def)

lemma kv_reachable_linked: "kv_reachable w kv \<Longrightarrow> kv_linked kv"
  by (induction rule: rtranclp_induct) (auto intro: kv_step_linked kv_exact_linked [OF kv_new_exact])

lemma kv_reachable_exact: "kv_reachable False kv \<Longrightarrow> kv_exact kv"
  by (induction rule: rtranclp_induct) (auto intro: kv_step_exact kv_new_exact)

text \<open>The keys whose entry was last written under a secondary key.\<close>

definition kv_group :: "'v kv \<Rightarrow> string \<Rightarrow> string set" where
  "kv_group kv sk = {key. \<exists>e. gget (kv_store kv) key = Some e \<and> e_secondaryKey e = sk}"

lemma kv_group_bucket:
  assumes "sk \<noteq> []"
  shows "kv_linked kv \<Longrightarrow> kv_group kv sk \<subseteq> set (kv_bucket kv sk)"
    and "kv_exact kv \<Longrightarrow> kv_group kv sk = set (kv_bucket kv sk)"
proof -
  show sub: "kv_group kv sk \<subseteq> set (kv_bucket kv sk)" if "kv_linked kv" for kv :: "'v kv"
    using that assms by (auto simp: kv_group_def kv_linked_def)
  show "kv_group kv sk = set (kv_bucket kv sk)" if "kv_exact kv"
    using sub [OF kv_exact_linked [OF that]] that by (simp add: kv_group_def kv_exact_def set_eq_iff subset_iff) blast
qed

lemma kv_bucket_distinct: "kv_linked kv \<Longrightarrow> distinct (kv_bucket kv sk)"
  by (auto simp: kv_linked_def kv_bucket_def ggetd_def split: option.splits)

lemma kv_DeleteBySecondaryKey_count: "fst (kv_DeleteBySecondaryKey sk kv) = length (kv_bucket kv sk)"
  by (simp add: kv_DeleteBySecondaryKey_def kv_bucket_def ggetd_def split: option.splits)

text \<open>
  C33: evicting by secondary key refines its plain meaning, to remove the entries that were last
  written under that key: whatever operations came before, all of them are gone, and when
  \<open>SetWhere\<close> never met an expired occupant that was still indexed, every other entry is kept and
  the count returned is their number.
\<close>
theorem eviction_by_secondary_key:
  assumes "kv_reachable w kv" and "sk \<noteq> []" and "kv_DeleteBySecondaryKey sk kv = (n, kv')"
  shows "(\<forall>key \<in> kv_group kv sk. gget (kv_store kv') key = None)
    \<and> (\<not> w \<longrightarrow> (\<forall>key. key \<notin> kv_group kv sk \<longrightarrow> gget (kv_store kv') key = gget (kv_store kv) key) \<and> n = card (kv_group kv sk))"
proof -
  have st: "gget (kv_store kv') key = (if key \<in> set (kv_bucket kv sk) then None else gget (kv_store kv) key)" for key
    using kv_DeleteBySecondaryKey_store [of sk kv key] assms(3) by simp
  have linked: "kv_linked kv" by (rule kv_reachable_linked [OF assms(1)])
  have "kv_group kv sk = set (kv_bucket kv sk)" if "\<not> w"
    using kv_group_bucket(2) [OF assms(2) kv_reachable_exact] assms(1) that by simp
  moreover have "n = length (kv_bucket kv sk)"
    using kv_DeleteBySecondaryKey_count [of sk kv] assms(3) by simp
  ultimately show ?thesis
    using kv_group_bucket(1) [OF assms(2) linked] kv_bucket_distinct [OF linked, of sk] distinct_card [of "kv_bucket kv sk"]
    by (auto simp: st)
qed

text \<open>Two tokens of one tenant and one of another.\<close>

definition exTokens :: "nat kv" where
  "exTokens = kv_SetWithSecondaryKey 0 ''c'' 3 9 ''t2'' (kv_SetWithSecondaryKey 0 ''b'' 2 9 ''t1''
     (kv_SetWithSecondaryKey 0 ''a'' 1 9 ''t1'' NewInMemoryKVStore))"

lemma exTokens_reachable: "kv_reachable False exTokens"
  unfolding exTokens_def by (intro kv_then [OF _ kv_step.set_secondary] rtranclp.rtrancl_refl)

theorem eviction_by_secondary_key_witness:
  "fst (kv_DeleteBySecondaryKey ''t1'' exTokens) = card (kv_group exTokens ''t1'')
   \<and> gget (kv_store (snd (kv_DeleteBySecondaryKey ''t1'' exTokens))) ''a'' = None
   \<and> kv_Get 1 ''c'' (snd (kv_DeleteBySecondaryKey ''t1'' exTokens)) = Some 3"
proof -
  have "''a'' \<in> kv_group exTokens ''t1''"
    unfolding kv_group_def mem_Collect_eq
    by (rule exI [of _ "\<lparr>e_value = 1, e_expiration = 9, e_secondaryKey = ''t1''\<rparr>"]) code_simp
  moreover have "kv_Get 1 ''c'' (snd (kv_DeleteBySecondaryKey ''t1'' exTokens)) = Some 3" by code_simp
  ultimately show ?thesis
    using eviction_by_secondary_key [OF exTokens_reachable, of "''t1''" "fst (kv_DeleteBySecondaryKey ''t1'' exTokens)"
        "snd (kv_DeleteBySecondaryKey ''t1'' exTokens)"] by simp
qed

text \<open>
  The index after \<open>SetWhere\<close> on an expired occupant still has the old link, so evicting the old
  secondary key deletes the new entry, which was not written under it.
\<close>

theorem set_where_keeps_stale_link:
  "\<exists>kv kv' :: nat kv. kv_reachable True kv \<and> snd (kv_DeleteBySecondaryKey ''t1'' kv) = kv'
     \<and> kv_group kv ''t1'' = {} \<and> kv_Get 20 ''a'' kv = Some 7 \<and> kv_Get 20 ''a'' kv' = None"
proof -
  let ?kv = "snd (kv_SetWhere 10 10 ''a'' 7 0 (\<lambda>_. True) (kv_SetWithSecondaryKey 0 ''a'' 1 9 ''t1'' NewInMemoryKVStore)) :: nat kv"
  have "kv_reachable True ?kv"
    by (intro kv_then [OF _ kv_step.set_where] kv_then [OF _ kv_step.set_secondary] rtranclp.rtrancl_refl) simp
  moreover have "kv_store ?kv = [(''a'', \<lparr>e_value = 7, e_expiration = 0, e_secondaryKey = []\<rparr>)]" by code_simp
  then have "kv_group ?kv ''t1'' = {}" by (auto simp: kv_group_def split: if_splits)
  moreover have "kv_Get 20 ''a'' ?kv = Some 7" "kv_Get 20 ''a'' (snd (kv_DeleteBySecondaryKey ''t1'' ?kv)) = None"
    by code_simp+
  ultimately show ?thesis by blast
qed

text \<open>A negative time to live is dropped by \<open>Set\<close>; \<open>SetWithSecondaryKey\<close> stores it as \<open>never\<close>.\<close>

lemma negative_ttl:
  "ttl < 0 \<Longrightarrow> kv_Set now key v ttl kv = kv \<and> kv_Get later key (kv_SetWithSecondaryKey now key v ttl sk kv) = Some v"
  by (simp add: kv_Set_def kv_Get_def kv_SetWithSecondaryKey_store kv_expiration_def kv_expired_def)

end
