(* ===== verification/Liveness.thy ===== *)
theory Liveness
  imports MemKV
begin

text \<open>
  common/liveness/liveness.go: the cache of tenant verdicts every authenticated request consults.
  Lookups, the source calls they share, tenant events and the cleanup run concurrently; a step is
  one access to the generation counter, to the store or to management's tenant table. \<open>str\<close> is
  \<open>uuid.UUID.String\<close>, \<open>lv_rows\<close> the table as the source reads it: the tenants a live row backs.
\<close>

section \<open>The cache\<close>

definition tenantPrefix :: string where
  "tenantPrefix = ''pyck:tenants:''"

definition TenantKey :: "(uuid \<Rightarrow> string) \<Rightarrow> uuid \<Rightarrow> string" where
  "TenantKey str i = tenantPrefix @ str i"

definition DefaultTTL :: int where
  "DefaultTTL = 60 * 1000000000"

text \<open>The time to live of \<open>NewCache\<close>.\<close>

definition cacheTTL :: "int \<Rightarrow> int" where
  "cacheTTL ttl = (if ttl \<le> 0 then DefaultTTL else ttl)"

lemma TenantKey_inj: "inj str \<Longrightarrow> TenantKey str i = TenantKey str j \<longleftrightarrow> i = j"
  by (auto simp: TenantKey_def dest: injD)

definition cache_Get :: "(uuid \<Rightarrow> string) \<Rightarrow> int \<Rightarrow> bool kv \<Rightarrow> uuid \<Rightarrow> bool option" where
  "cache_Get str now kv i = kv_Get now (TenantKey str i) kv"

text \<open>
  What one \<open>LookupTenants\<close> meets: the cached verdicts, and the outcome of the shared source call
  for the tenants without one, an error or the disabled tenants. A deadline is an error.
\<close>

record 'e liveness_view =
  lw_cached :: "uuid \<Rightarrow> bool option"
  lw_answer :: "uuid list \<Rightarrow> 'e + uuid list"

definition LookupTenants :: "'e liveness_view \<Rightarrow> uuid list \<Rightarrow> (uuid, bool) gomap \<times> 'e option" where
  "LookupTenants w ids =
     (let misses = filter (\<lambda>i. lw_cached w i = None) ids;
          live = fold (\<lambda>i. gput i (the (lw_cached w i))) (filter (\<lambda>i. lw_cached w i \<noteq> None) ids) [] in
      if misses = [] then (live, None)
      else case lw_answer w misses of
             Inl e \<Rightarrow> (fold (\<lambda>i. gput i False) misses live, Some e)
           | Inr disabled \<Rightarrow> (fold (\<lambda>i. gput i (i \<notin> set disabled)) misses live, None))"

text \<open>\<open>live[id]\<close>, with Go's zero value for a tenant that was not asked about.\<close>

definition is_live :: "(uuid, bool) gomap \<Rightarrow> uuid \<Rightarrow> bool" where
  "is_live live i = ggetd False live i"

lemma gget_fold_gput:
  "gget (fold (\<lambda>i. gput i (f i)) is m) k = (if k \<in> set is then Some (f k) else gget m k)"
  by (induction "is" arbitrary: m) auto

text \<open>A tenant is only found live by a cached verdict or by an answer that does not name it.\<close>

lemma LookupTenants_live:
  "is_live (fst (LookupTenants w ids)) i \<longleftrightarrow> i \<in> set ids \<and>
     (case lw_cached w i of
        Some v \<Rightarrow> v
      | None \<Rightarrow> (case lw_answer w (filter (\<lambda>i. lw_cached w i = None) ids) of Inl e \<Rightarrow> False | Inr disabled \<Rightarrow> i \<notin> set disabled))"
  by (auto simp: LookupTenants_def Let_def is_live_def ggetd_def gget_fold_gput filter_empty_conv
      split: sum.splits option.splits)

lemma LookupTenants_error:
  "snd (LookupTenants w ids) = Some e \<Longrightarrow> is_live (fst (LookupTenants w ids)) i \<Longrightarrow> lw_cached w i = Some True"
  unfolding LookupTenants_live
  by (auto simp: LookupTenants_def Let_def split: if_splits sum.splits option.splits)

section \<open>The concurrent system\<close>

text \<open>
  A shared source call: the generation it started at, its tenants, its answer once it has one, and
  how far \<open>setFromLookup\<close> has come with the verdicts: \<open>Passed\<close> after the first look at the
  generation, \<open>Written\<close> after the store.
\<close>

datatype call_phase =
    Asking
  | Storing "(uuid \<times> bool) list"
  | Passed uuid bool "(uuid \<times> bool) list"
  | Written uuid "(uuid \<times> bool) list"

record lookup_call =
  lc_gen :: nat
  lc_misses :: "uuid list"
  lc_answer :: "(uuid \<times> bool) list"
  lc_phase :: call_phase

record liveness =
  lv_kv :: "bool kv"
  lv_gen :: nat
  lv_rows :: "uuid \<Rightarrow> bool"
  lv_events :: "uuid list"
  lv_evicts :: "uuid list"
  lv_lost :: "uuid set"
  lv_calls :: "lookup_call list"

definition callVerdicts :: "uuid list \<Rightarrow> uuid list \<Rightarrow> (uuid \<times> bool) list" where
  "callVerdicts misses disabled = map (\<lambda>i. (i, i \<notin> set disabled)) misses"

text \<open>What the table answers: the tenants asked about that no live row backs.\<close>

definition disabledTenants :: "(uuid \<Rightarrow> bool) \<Rightarrow> uuid list \<Rightarrow> uuid list" where
  "disabledTenants rows misses = filter (\<lambda>i. \<not> rows i) misses"

text \<open>One access of \<open>setFromLookup\<close>; \<open>gen\<close> is the counter now.\<close>

fun setFromLookup ::
  "(uuid \<Rightarrow> string) \<Rightarrow> int \<Rightarrow> int \<Rightarrow> nat \<Rightarrow> nat \<Rightarrow> call_phase \<Rightarrow> bool kv \<Rightarrow> call_phase \<times> bool kv"
where
  "setFromLookup str ttl now gen gen0 (Storing ((i, live) # rest)) kv =
     (if gen \<noteq> gen0 then (Storing rest, kv) else (Passed i live rest, kv))"
| "setFromLookup str ttl now gen gen0 (Passed i live rest) kv =
     (Written i rest, kv_Set now (TenantKey str i) live ttl kv)"
| "setFromLookup str ttl now gen gen0 (Written i rest) kv =
     (Storing rest, if gen \<noteq> gen0 then kv_Delete (TenantKey str i) kv else kv)"
| "setFromLookup str ttl now gen gen0 phase kv = (phase, kv)"

text \<open>
  The steps. A row event is published with every write to a tenant row and is applied later by
  \<open>Evict\<close>, counter first, store second; it can also be lost. A call can fail or answer; its
  writer runs on while the world moves.
\<close>

inductive liveness_step :: "(uuid \<Rightarrow> string) \<Rightarrow> int \<Rightarrow> liveness \<Rightarrow> liveness \<Rightarrow> bool" for str ttl where
  row_event: "liveness_step str ttl s (s\<lparr>lv_rows := (lv_rows s)(t := served), lv_events := t # lv_events s\<rparr>)"
| lose_event: "lv_events s = xs @ t # ys \<Longrightarrow>
     liveness_step str ttl s (s\<lparr>lv_events := xs @ ys, lv_lost := insert t (lv_lost s)\<rparr>)"
| evict_bump: "lv_events s = xs @ t # ys \<Longrightarrow>
     liveness_step str ttl s (s\<lparr>lv_events := xs @ ys, lv_gen := Suc (lv_gen s), lv_evicts := t # lv_evicts s\<rparr>)"
| evict_delete: "lv_evicts s = xs @ t # ys \<Longrightarrow>
     liveness_step str ttl s (s\<lparr>lv_evicts := xs @ ys, lv_kv := kv_Delete (TenantKey str t) (lv_kv s)\<rparr>)"
| ask: "liveness_step str ttl s
     (s\<lparr>lv_calls := \<lparr>lc_gen = lv_gen s, lc_misses = misses, lc_answer = [], lc_phase = Asking\<rparr> # lv_calls s\<rparr>)"
| answer: "\<lbrakk>lv_calls s = xs @ c # ys; lc_phase c = Asking;
     vs = callVerdicts (lc_misses c) (disabledTenants (lv_rows s) (lc_misses c))\<rbrakk> \<Longrightarrow>
     liveness_step str ttl s (s\<lparr>lv_calls := xs @ c\<lparr>lc_answer := vs, lc_phase := Storing vs\<rparr> # ys\<rparr>)"
| store_verdict: "\<lbrakk>lv_calls s = xs @ c # ys;
     setFromLookup str ttl now (lv_gen s) (lc_gen c) (lc_phase c) (lv_kv s) = (phase, kv)\<rbrakk> \<Longrightarrow>
     liveness_step str ttl s (s\<lparr>lv_kv := kv, lv_calls := xs @ c\<lparr>lc_phase := phase\<rparr> # ys\<rparr>)"
| call_ends: "\<lbrakk>lv_calls s = xs @ c # ys; lc_phase c \<in> {Asking, Storing []}\<rbrakk> \<Longrightarrow>
     liveness_step str ttl s (s\<lparr>lv_calls := xs @ ys\<rparr>)"
| cleanup: "liveness_step str ttl s (s\<lparr>lv_kv := cleanupExpiredEntries now (lv_kv s)\<rparr>)"

definition liveness_init :: "(uuid \<Rightarrow> bool) \<Rightarrow> liveness" where
  "liveness_init rows = \<lparr>lv_kv = NewInMemoryKVStore, lv_gen = 0, lv_rows = rows, lv_events = [],
     lv_evicts = [], lv_lost = {}, lv_calls = []\<rparr>"

abbreviation liveness_reachable :: "(uuid \<Rightarrow> string) \<Rightarrow> int \<Rightarrow> liveness \<Rightarrow> bool" where
  "liveness_reachable str ttl s \<equiv> \<exists>rows. (liveness_step str ttl)\<^sup>*\<^sup>* (liveness_init rows) s"

section \<open>What the store holds\<close>

text \<open>The contract of the store the cache relies on: the last write of a key wins, \<open>Delete\<close> and the
  cleanup only remove.\<close>

definition holds :: "string \<Rightarrow> 'v \<Rightarrow> 'v kv \<Rightarrow> bool" where
  "holds key v kv \<longleftrightarrow> (\<exists>e. gget (kv_store kv) key = Some e \<and> e_value e = v)"

locale verdict_store =
  fixes has :: "string \<Rightarrow> 'v \<Rightarrow> 'm \<Rightarrow> bool"
    and get :: "int \<Rightarrow> string \<Rightarrow> 'm \<Rightarrow> 'v option"
    and put :: "int \<Rightarrow> string \<Rightarrow> 'v \<Rightarrow> int \<Rightarrow> 'm \<Rightarrow> 'm"
    and del :: "string \<Rightarrow> 'm \<Rightarrow> 'm"
    and tidy :: "int \<Rightarrow> 'm \<Rightarrow> 'm"
    and empty :: 'm
  assumes has_empty: "\<not> has k v empty"
    and get_has: "get now k m = Some v \<Longrightarrow> has k v m"
    and has_put: "has k' v' (put now k v ttl m) \<Longrightarrow> k' = k \<and> v' = v \<or> has k' v' m"
    and has_del: "has k' v' (del k m) \<Longrightarrow> k' \<noteq> k \<and> has k' v' m"
    and has_tidy: "has k v (tidy now m) \<Longrightarrow> has k v m"
begin

text \<open>The keys whose entry disagrees with what it should say.\<close>

definition stale :: "(string \<Rightarrow> 'v \<Rightarrow> bool) \<Rightarrow> 'm \<Rightarrow> string set" where
  "stale good m = {k. \<exists>v. has k v m \<and> \<not> good k v}"

lemma stale_put: "stale good (put now k v ttl m) \<subseteq> stale good m \<union> (if good k v then {} else {k})"
  by (auto simp: stale_def dest: has_put)

lemma stale_del: "stale good (del k m) \<subseteq> stale good m - {k}"
  by (auto simp: stale_def dest: has_del)

lemma stale_tidy: "stale good (tidy now m) \<subseteq> stale good m"
  by (auto simp: stale_def dest: has_tidy)

lemma stale_change:
  "(\<And>k' v. k' \<noteq> k \<Longrightarrow> good' k' v = good k' v) \<Longrightarrow> stale good' m \<subseteq> insert k (stale good m)"
  by (auto simp: stale_def)

lemma get_good: "get now k m = Some v \<Longrightarrow> k \<notin> stale good m \<Longrightarrow> good k v"
  by (auto simp: stale_def dest: get_has)

end

interpretation verdicts: verdict_store holds kv_Get kv_Set kv_Delete cleanupExpiredEntries NewInMemoryKVStore
  by unfold_locales
    (auto simp: holds_def NewInMemoryKVStore_def kv_Get_def kv_Set_def kv_Delete_def Let_def
      cleanupExpiredEntries_def fold_deleteLocked_store split: option.splits if_splits)

section \<open>The invariant\<close>

text \<open>What a verdict may still be wrong about: a row whose event is under way or lost.\<close>

definition verdict_fits :: "liveness \<Rightarrow> uuid \<times> bool \<Rightarrow> bool" where
  "verdict_fits s p \<longleftrightarrow> snd p = lv_rows s (fst p) \<or> fst p \<in> set (lv_events s) \<union> lv_lost s"

fun phase_ok :: "(uuid \<times> bool) list \<Rightarrow> call_phase \<Rightarrow> bool" where
  "phase_ok vs Asking \<longleftrightarrow> vs = []"
| "phase_ok vs (Storing rest) \<longleftrightarrow> set rest \<subseteq> set vs"
| "phase_ok vs (Passed i live rest) \<longleftrightarrow> (i, live) \<in> set vs \<and> set rest \<subseteq> set vs"
| "phase_ok vs (Written i rest) \<longleftrightarrow> set rest \<subseteq> set vs"

definition call_ok :: "liveness \<Rightarrow> lookup_call \<Rightarrow> bool" where
  "call_ok s c \<longleftrightarrow> lc_gen c \<le> lv_gen s \<and> phase_ok (lc_answer c) (lc_phase c)
     \<and> (lc_gen c = lv_gen s \<longrightarrow> (\<forall>p \<in> set (lc_answer c). verdict_fits s p))"

text \<open>Tenants whose wrong entry is about to go: an event, an eviction or a writer will delete it.\<close>

definition outdated_writer :: "liveness \<Rightarrow> uuid \<Rightarrow> bool" where
  "outdated_writer s t \<longleftrightarrow> (\<exists>c \<in> set (lv_calls s). lc_gen c < lv_gen s \<and> (\<exists>rest. lc_phase c = Written t rest))"

definition covered :: "liveness \<Rightarrow> uuid set" where
  "covered s = set (lv_events s) \<union> set (lv_evicts s) \<union> lv_lost s \<union> {t. outdated_writer s t}"

definition says :: "(uuid \<Rightarrow> string) \<Rightarrow> liveness \<Rightarrow> string \<Rightarrow> bool \<Rightarrow> bool" where
  "says str s k v \<longleftrightarrow> (\<exists>t. k = TenantKey str t \<and> v = lv_rows s t)"

definition liveness_ok :: "(uuid \<Rightarrow> string) \<Rightarrow> liveness \<Rightarrow> bool" where
  "liveness_ok str s \<longleftrightarrow> (\<forall>c \<in> set (lv_calls s). call_ok s c)
     \<and> verdicts.stale (says str s) (lv_kv s) \<subseteq> TenantKey str ` covered s"

lemma liveness_okI:
  assumes "liveness_ok str s"
    and "\<And>c. c \<in> set (lv_calls s') \<Longrightarrow> call_ok s' c"
    and "verdicts.stale (says str s') (lv_kv s') \<subseteq> TenantKey str ` covered s'"
  shows "liveness_ok str s'"
  using assms by (simp add: liveness_ok_def)

lemma says_key: "inj str \<Longrightarrow> says str s (TenantKey str t) v \<longleftrightarrow> v = lv_rows s t"
  by (auto simp: says_def TenantKey_inj)

lemma says_cong: "lv_rows s' = lv_rows s \<Longrightarrow> says str s' = says str s"
  by (simp add: says_def fun_eq_iff)

lemma cover_left: "C \<subseteq> insert t C' \<Longrightarrow> A \<subseteq> f ` C \<Longrightarrow> B \<subseteq> A - {f t} \<Longrightarrow> B \<subseteq> f ` C'"
  by blast

text \<open>A step of a writer.\<close>

lemma writer_keeps_ok:
  assumes inj: "inj str" and ok: "liveness_ok str s" and calls: "lv_calls s = xs @ c # ys"
    and run: "setFromLookup str ttl now (lv_gen s) (lc_gen c) (lc_phase c) (lv_kv s) = (phase, kv)"
    and s': "s' = s\<lparr>lv_kv := kv, lv_calls := xs @ c\<lparr>lc_phase := phase\<rparr> # ys\<rparr>"
  shows "liveness_ok str s'"
proof -
  have c: "call_ok s c" using ok calls by (simp add: liveness_ok_def)
  have stale: "verdicts.stale (says str s) (lv_kv s) \<subseteq> TenantKey str ` covered s"
    using ok by (simp add: liveness_ok_def)
  have same: "call_ok s' x \<longleftrightarrow> call_ok s x" for x
    by (simp add: s' call_ok_def verdict_fits_def)
  have step: "liveness_ok str s'"
    if "phase_ok (lc_answer c) phase" "verdicts.stale (says str s) kv \<subseteq> TenantKey str ` covered s'"
  proof -
    have "call_ok s (c\<lparr>lc_phase := phase\<rparr>)" using c that(1) by (simp add: call_ok_def)
    then have "\<forall>x \<in> set (lv_calls s'). call_ok s' x"
      using ok same by (auto simp: liveness_ok_def s' calls)
    with that(2) says_cong [of s' s str] show ?thesis by (simp add: liveness_ok_def s')
  qed
  have other: "verdicts.stale (says str s) (lv_kv s) \<subseteq> TenantKey str ` covered s'"
    if "\<And>i rest. lc_phase c = Written i rest \<Longrightarrow> lc_gen c = lv_gen s"
  proof -
    have "covered s \<subseteq> covered s'"
      using that by (auto simp: covered_def outdated_writer_def s' calls)
    with stale show ?thesis by blast
  qed
  show ?thesis
  proof (cases "lc_phase c")
    case Asking
    with other have "verdicts.stale (says str s) (lv_kv s) \<subseteq> TenantKey str ` covered s'" by simp
    moreover from Asking run have "phase = Asking" "kv = lv_kv s" by simp_all
    moreover from c Asking have "lc_answer c = []" by (simp add: call_ok_def)
    ultimately show ?thesis by (intro step) simp_all
  next
    case (Storing rest)
    with other have st: "verdicts.stale (says str s) (lv_kv s) \<subseteq> TenantKey str ` covered s'" by simp
    from c Storing have sub: "set rest \<subseteq> set (lc_answer c)" by (simp add: call_ok_def)
    show ?thesis
    proof (cases rest)
      case Nil
      with Storing run have "phase = Storing []" "kv = lv_kv s" by simp_all
      with st show ?thesis by (intro step) simp_all
    next
      case (Cons p rest')
      then obtain i live where "rest = (i, live) # rest'" by (cases p) auto
      with Storing run sub have "phase_ok (lc_answer c) phase" "kv = lv_kv s"
        by (auto split: if_splits)
      with st show ?thesis by (intro step) simp_all
    qed
  next
    case (Passed i live rest)
    with run have kv: "kv = kv_Set now (TenantKey str i) live ttl (lv_kv s)" and phase: "phase = Written i rest" by auto
    have "i \<in> covered s'" if "live \<noteq> lv_rows s i"
    proof (cases "lc_gen c = lv_gen s")
      case True
      with c Passed that show ?thesis by (auto simp: call_ok_def verdict_fits_def covered_def s')
    next
      case False
      with c have "outdated_writer s' i" by (simp add: call_ok_def outdated_writer_def s' phase)
      then show ?thesis by (simp add: covered_def)
    qed
    moreover have "verdicts.stale (says str s) (lv_kv s) \<subseteq> TenantKey str ` covered s'" using other Passed by simp
    ultimately have "verdicts.stale (says str s) kv \<subseteq> TenantKey str ` covered s'"
      using verdicts.stale_put [of "says str s" now "TenantKey str i" live ttl "lv_kv s"]
      by (auto simp: kv says_key [OF inj] split: if_splits)
    with c Passed show ?thesis by (intro step) (auto simp: call_ok_def phase)
  next
    case (Written i rest)
    with run have phase: "phase = Storing rest" by auto
    have "verdicts.stale (says str s) kv \<subseteq> TenantKey str ` covered s'"
    proof (cases "lc_gen c = lv_gen s")
      case True
      with Written run have "kv = lv_kv s" by simp
      with True other show ?thesis by simp
    next
      case False
      have "covered s \<subseteq> insert i (covered s')"
        using Written by (auto simp: covered_def outdated_writer_def s' calls)
      then have "verdicts.stale (says str s) (kv_Delete (TenantKey str i) (lv_kv s)) \<subseteq> TenantKey str ` covered s'"
        using stale verdicts.stale_del by (rule cover_left)
      with False Written run show ?thesis by auto
    qed
    with c Written show ?thesis by (intro step) (auto simp: call_ok_def phase)
  qed
qed

lemma step_keeps_ok:
  assumes inj: "inj str" and "liveness_step str ttl s s'" and ok: "liveness_ok str s"
  shows "liveness_ok str s'"
  using assms(2)
proof cases
  case (row_event t served)
  have "verdicts.stale (says str s') (lv_kv s) \<subseteq> insert (TenantKey str t) (verdicts.stale (says str s) (lv_kv s))"
    by (rule verdicts.stale_change) (auto simp: says_def row_event)
  moreover have "covered s' = insert t (covered s)"
    by (auto simp: covered_def outdated_writer_def row_event)
  ultimately have "verdicts.stale (says str s') (lv_kv s') \<subseteq> TenantKey str ` covered s'"
    using ok by (auto simp: liveness_ok_def row_event)
  moreover have "call_ok s' c" if "c \<in> set (lv_calls s')" for c
    using ok that by (auto simp: liveness_ok_def row_event call_ok_def verdict_fits_def)
  ultimately show ?thesis by (simp add: liveness_ok_def)
next
  case (lose_event xs t ys)
  have "covered s' = covered s"
    by (auto simp: covered_def outdated_writer_def lose_event)
  then have "verdicts.stale (says str s') (lv_kv s') \<subseteq> TenantKey str ` covered s'"
    using ok says_cong [of s' s str] by (simp add: liveness_ok_def lose_event)
  moreover have "call_ok s' c" if "c \<in> set (lv_calls s')" for c
    using ok that by (auto simp: liveness_ok_def lose_event call_ok_def verdict_fits_def)
  ultimately show ?thesis by (simp add: liveness_ok_def)
next
  case (evict_bump xs t ys)
  have "outdated_writer s' u" if "outdated_writer s u" for u
    using that unfolding outdated_writer_def by (auto simp: evict_bump intro: less_SucI)
  then have sub: "covered s \<subseteq> covered s'"
    by (auto simp: covered_def evict_bump)
  have "verdicts.stale (says str s) (lv_kv s) \<subseteq> TenantKey str ` covered s" using ok by (simp add: liveness_ok_def)
  with sub have "verdicts.stale (says str s') (lv_kv s') \<subseteq> TenantKey str ` covered s'"
    using says_cong [of s' s str] image_mono [OF sub, of "TenantKey str"]
    unfolding evict_bump by (simp add: subset_trans)
  moreover have "call_ok s' c" if "c \<in> set (lv_calls s')" for c
    using ok that by (auto simp: liveness_ok_def evict_bump call_ok_def)
  ultimately show ?thesis by (simp add: liveness_ok_def)
next
  case (evict_delete xs t ys)
  have "covered s \<subseteq> insert t (covered s')"
    by (auto simp: covered_def outdated_writer_def evict_delete)
  moreover have "verdicts.stale (says str s) (lv_kv s) \<subseteq> TenantKey str ` covered s" using ok by (simp add: liveness_ok_def)
  moreover have "verdicts.stale (says str s) (lv_kv s') \<subseteq> verdicts.stale (says str s) (lv_kv s) - {TenantKey str t}"
    unfolding evict_delete by (simp add: verdicts.stale_del)
  ultimately have "verdicts.stale (says str s) (lv_kv s') \<subseteq> TenantKey str ` covered s'"
    by (rule cover_left)
  then have "verdicts.stale (says str s') (lv_kv s') \<subseteq> TenantKey str ` covered s'"
    using says_cong [of s' s str] by (simp add: evict_delete)
  moreover have "call_ok s' c" if "c \<in> set (lv_calls s')" for c
    using ok that by (auto simp: liveness_ok_def evict_delete call_ok_def verdict_fits_def)
  ultimately show ?thesis by (simp add: liveness_ok_def)
next
  case (ask misses)
  have "covered s' = covered s"
    by (auto simp: covered_def outdated_writer_def ask)
  then show ?thesis
    using ok says_cong [of s' s str]
    by (auto simp: liveness_ok_def ask call_ok_def verdict_fits_def)
next
  case (answer xs c ys vs)
  have "covered s' = covered s"
    by (auto simp: covered_def outdated_writer_def answer)
  moreover have "verdict_fits s p" if "p \<in> set vs" for p
    using that answer(4) by (auto simp: callVerdicts_def disabledTenants_def verdict_fits_def)
  ultimately show ?thesis
    using ok says_cong [of s' s str] answer
    by (auto simp: liveness_ok_def call_ok_def verdict_fits_def)
next
  case (store_verdict xs c ys now phase kv)
  show ?thesis by (rule writer_keeps_ok [OF inj ok store_verdict(2,3,1)])
next
  case (call_ends xs c ys)
  have "covered s' = covered s"
  proof -
    have "lc_phase c \<noteq> Written t rest" for t rest using call_ends(3) by auto
    then show ?thesis by (auto simp: covered_def outdated_writer_def call_ends(1,2))
  qed
  moreover have "call_ok s' x" if "x \<in> set (lv_calls s')" for x
    using ok that call_ends(2) by (auto simp: liveness_ok_def call_ends(1) call_ok_def verdict_fits_def)
  moreover have "says str s' = says str s" "lv_kv s' = lv_kv s" by (simp_all add: says_def call_ends(1) fun_eq_iff)
  ultimately show ?thesis
    using ok by (simp add: liveness_ok_def)
next
  case (cleanup now)
  have "covered s' = covered s"
    by (auto simp: covered_def outdated_writer_def cleanup)
  moreover have "verdicts.stale (says str s) (lv_kv s') \<subseteq> verdicts.stale (says str s) (lv_kv s)"
    unfolding cleanup by (simp add: verdicts.stale_tidy)
  ultimately show ?thesis
    using ok says_cong [of s' s str] by (auto simp: liveness_ok_def cleanup call_ok_def verdict_fits_def)
qed


lemma liveness_init_ok: "liveness_ok str (liveness_init rows)"
  by (simp add: liveness_ok_def liveness_init_def verdicts.stale_def verdicts.has_empty)

lemma liveness_reachable_ok: "inj str \<Longrightarrow> liveness_reachable str ttl s \<Longrightarrow> liveness_ok str s"
proof -
  assume inj: "inj str" and "liveness_reachable str ttl s"
  then obtain rows where "(liveness_step str ttl)\<^sup>*\<^sup>* (liveness_init rows) s" by blast
  then show "liveness_ok str s"
    by induction (auto intro: liveness_init_ok step_keeps_ok [OF inj])
qed

section \<open>Freshness\<close>

text \<open>Nothing is under way for the tenant: no event, no eviction, no outdated write; and no event was lost.\<close>

definition settled :: "liveness \<Rightarrow> uuid \<Rightarrow> bool" where
  "settled s t \<longleftrightarrow> t \<notin> covered s"

lemma cached_fresh:
  assumes "inj str" and "liveness_reachable str ttl s"
    and hit: "cache_Get str now (lv_kv s) t = Some v" and "settled s t"
  shows "v = lv_rows s t"
proof -
  have "TenantKey str t \<notin> TenantKey str ` covered s"
    using \<open>settled s t\<close> by (auto simp: settled_def TenantKey_inj [OF assms(1)])
  with liveness_reachable_ok [OF assms(1,2)] have "TenantKey str t \<notin> verdicts.stale (says str s) (lv_kv s)"
    by (auto simp: liveness_ok_def)
  with hit verdicts.get_good [of now "TenantKey str t" "lv_kv s" v "says str s"] show ?thesis
    by (simp add: cache_Get_def says_key [OF assms(1)])
qed

lemma answer_fresh:
  assumes "inj str" and "liveness_reachable str ttl s"
    and "c \<in> set (lv_calls s)" and "lc_gen c = lv_gen s" and "(t, v) \<in> set (lc_answer c)"
    and "t \<notin> set (lv_events s) \<union> lv_lost s"
  shows "v = lv_rows s t"
  using liveness_reachable_ok [OF assms(1,2)] assms(3-6)
  by (fastforce simp: liveness_ok_def call_ok_def verdict_fits_def)

text \<open>
  C22: the verdict cache never serves what an applied event has overruled. Whatever lookups, events,
  evictions, clean-ups and row changes have run interleaved, access by access, a cached verdict
  about a tenant is what the tenant's row says, unless an event about that tenant has not been
  applied yet or was lost, an eviction of it is half done, or a writer that has been overtaken is
  about to delete what it wrote. And an answer that callers of the present generation may still
  share is right about every tenant no event is under way for.
\<close>
theorem verdicts_fresh:
  assumes "inj str" and "liveness_reachable str ttl s"
  shows "(cache_Get str now (lv_kv s) t = Some v \<and> settled s t \<longrightarrow> v = lv_rows s t)
    \<and> (\<forall>c \<in> set (lv_calls s). lc_gen c = lv_gen s \<longrightarrow> (t, v) \<in> set (lc_answer c) \<longrightarrow>
         t \<notin> set (lv_events s) \<union> lv_lost s \<longrightarrow> v = lv_rows s t)"
  using cached_fresh [OF assms] answer_fresh [OF assms] by blast

end
