(* ===== verification/Authn.thy ===== *)
theory Authn
  imports Liveness
begin

text \<open>
  common/authn: the role ladder and the user (role.go, user.go), and \<open>ZitadelAuthProvider\<close>
  (zitadel.go), which turns a bearer token into a user: token cache, introspection, tenant
  liveness. Introspection is a client of Zitadel and an argument; so are SHA-1, \<open>uuid.Parse\<close>,
  \<open>uuid.UUID.String\<close> and \<open>strings.ToLower\<close>, in \<open>authn_lib\<close>. Logging is left out.
\<close>

section \<open>Roles\<close>

datatype role = ROLE_NONE | ROLE_READER | ROLE_WRITER | ROLE_ADMIN | ROLE_SYSTEM

fun role_rank :: "role \<Rightarrow> nat" where
  "role_rank ROLE_NONE = 0"
| "role_rank ROLE_READER = 1"
| "role_rank ROLE_WRITER = 2"
| "role_rank ROLE_ADMIN = 3"
| "role_rank ROLE_SYSTEM = 4"

lemma role_rank_inj: "role_rank r = role_rank s \<longleftrightarrow> r = s"
  by (cases r; cases s) auto

instantiation role :: linorder
begin

definition less_eq_role :: "role \<Rightarrow> role \<Rightarrow> bool" where
  "less_eq_role r s \<longleftrightarrow> role_rank r \<le> role_rank s"

definition less_role :: "role \<Rightarrow> role \<Rightarrow> bool" where
  "less_role r s \<longleftrightarrow> role_rank r < role_rank s"

instance
  by standard (auto simp: less_eq_role_def less_role_def role_rank_inj)

end

lemma ROLE_NONE_least [simp]: "ROLE_NONE \<le> r"
  by (simp add: less_eq_role_def)

lemma ROLE_SYSTEM_top: "ROLE_SYSTEM \<le> r \<longleftrightarrow> r = ROLE_SYSTEM"
  by (cases r) (auto simp: less_eq_role_def)

lemma not_less_NONE [simp]: "\<not> r < ROLE_NONE"
  by (simp add: less_role_def)

definition roleNames :: "(string \<times> role) list" where
  "roleNames = [(''none'', ROLE_NONE), (''reader'', ROLE_READER), (''writer'', ROLE_WRITER),
     (''admin'', ROLE_ADMIN), (''system'', ROLE_SYSTEM)]"

definition RoleString :: "(string \<Rightarrow> string) \<Rightarrow> string \<Rightarrow> role option" where
  "RoleString lower s =
     (case map_of roleNames s of Some r \<Rightarrow> Some r | None \<Rightarrow> map_of roleNames (lower s))"

definition serviceRoleNames :: "string list" where
  "serviceRoleNames = [''inventory_service'', ''picking_service'', ''receiving_service'', ''file_service'', ''main_data_service'']"

definition IsServiceRole :: "(string \<Rightarrow> string) \<Rightarrow> string \<Rightarrow> bool" where
  "IsServiceRole lower key \<longleftrightarrow> key \<in> set serviceRoleNames \<or> lower key \<in> set serviceRoleNames"

section \<open>Users\<close>

definition uuid_Max :: uuid where
  "uuid_Max = 2 ^ 128 - 1"

record user =
  u_ID :: uuid
  u_TenantID :: uuid
  u_Sub :: string
  u_Username :: string
  u_Roles :: "(uuid, role) gomap"
  u_ServiceRoles :: "(uuid, string list) gomap"
  u_Token :: string

definition SystemUser :: user where
  "SystemUser = \<lparr>u_ID = uuid_Max, u_TenantID = uuid_Max, u_Sub = [], u_Username = ''system'',
     u_Roles = [], u_ServiceRoles = [], u_Token = []\<rparr>"

definition IsAuthenticated :: "user \<Rightarrow> bool" where
  "IsAuthenticated u \<longleftrightarrow> u_ID u \<noteq> uuid_Nil \<and> u_TenantID u \<noteq> uuid_Nil"

definition IsSystemUser :: "user \<Rightarrow> bool" where
  "IsSystemUser u \<longleftrightarrow> u_ID u = uuid_Max \<and> u_TenantID u = uuid_Max"

definition user_TenantIDs :: "user \<Rightarrow> uuid list" where
  "user_TenantIDs u = gkeys (u_Roles u)"

definition roleIn :: "user \<Rightarrow> uuid \<Rightarrow> role" where
  "roleIn u t = ggetd ROLE_NONE (u_Roles u) t"

text \<open>The lowest role; a tenant without a role counts when it is named first.\<close>

definition user_Role :: "user \<Rightarrow> uuid list \<Rightarrow> role" where
  "user_Role u ts =
     (if \<not> IsAuthenticated u then ROLE_NONE
      else case ts of
             [] \<Rightarrow> ROLE_NONE
           | t # ts' \<Rightarrow> fold (\<lambda>t role. case gget (u_Roles u) t of Some r \<Rightarrow> if r < role then r else role | None \<Rightarrow> role)
                          ts' (roleIn u t))"

definition HasServiceRole :: "user \<Rightarrow> string \<Rightarrow> uuid \<Rightarrow> bool" where
  "HasServiceRole u key t \<longleftrightarrow> IsSystemUser u \<or> (case gget (u_ServiceRoles u) t of None \<Rightarrow> False | Some ks \<Rightarrow> key \<in> set ks)"

definition HasRole :: "user \<Rightarrow> role \<Rightarrow> uuid list \<Rightarrow> bool" where
  "HasRole u role ts \<longleftrightarrow> IsAuthenticated u
     \<and> (IsSystemUser u \<or> (ts \<noteq> [] \<and> list_all (\<lambda>t. \<not> user_Role u [t] < role) ts))"

lemma HasRole_single:
  "HasRole u role [t] \<longleftrightarrow> IsAuthenticated u \<and> (IsSystemUser u \<or> role \<le> roleIn u t)"
  by (auto simp: HasRole_def user_Role_def)

lemma HasServiceRole_set:
  "\<not> IsSystemUser u \<Longrightarrow> HasServiceRole u key t \<longleftrightarrow> key \<in> set (ggetd [] (u_ServiceRoles u) t)"
  by (simp add: HasServiceRole_def ggetd_def split: option.splits)

lemma SystemUser_is_system [simp]: "IsSystemUser SystemUser" "IsAuthenticated SystemUser"
  by (simp_all add: IsSystemUser_def IsAuthenticated_def SystemUser_def uuid_Max_def uuid_Nil_def)

section \<open>From introspection to the user\<close>

record authn_lib =
  al_sha :: "uuid \<Rightarrow> string \<Rightarrow> uuid"
  al_oid :: uuid
  al_parse :: "string \<Rightarrow> uuid option"
  al_string :: "uuid \<Rightarrow> string"
  al_lower :: "string \<Rightarrow> string"

record introspection =
  i_active :: bool
  i_iss :: string
  i_sub :: string
  i_username :: string
  i_pyckTenantID :: string
  i_resourceOwnerID :: string
  i_exp :: int
  i_projectRoles :: "(string \<times> string list) list"

definition ComputeUUID :: "authn_lib \<Rightarrow> string \<Rightarrow> string \<Rightarrow> uuid" where
  "ComputeUUID lib ns s = al_sha lib (al_sha lib (al_oid lib) ns) s"

text \<open>The home tenant: the claim when it parses, else the resource owner's, else none.\<close>

definition tenantOf :: "authn_lib \<Rightarrow> introspection \<Rightarrow> uuid option" where
  "tenantOf lib resp =
     (let claimed = (if i_pyckTenantID resp = [] then uuid_Nil
                     else case al_parse lib (i_pyckTenantID resp) of None \<Rightarrow> uuid_Nil | Some t \<Rightarrow> t) in
      if claimed \<noteq> uuid_Nil then Some claimed
      else if i_resourceOwnerID resp = [] then None
      else Some (ComputeUUID lib (i_iss resp) (i_resourceOwnerID resp)))"

text \<open>One role of one organization; unknown roles are skipped, the highest of several is kept.\<close>

definition addRole ::
  "authn_lib \<Rightarrow> string \<Rightarrow> string \<times> string \<Rightarrow> (uuid, role) gomap \<times> (uuid, string list) gomap
     \<Rightarrow> (uuid, role) gomap \<times> (uuid, string list) gomap"
where
  "addRole lib iss grant acc =
     (case (grant, acc) of ((roleName, orgID), (roles, serviceRoles)) \<Rightarrow>
        let org = ComputeUUID lib iss orgID in
        if IsServiceRole (al_lower lib) roleName
        then (roles, gput org (List.insert roleName (ggetd [] serviceRoles org)) serviceRoles)
        else case RoleString (al_lower lib) roleName of
               None \<Rightarrow> (roles, serviceRoles)
             | Some role \<Rightarrow>
                 if (case gget roles org of None \<Rightarrow> True | Some r \<Rightarrow> r < role)
                 then (gput org role roles, serviceRoles) else (roles, serviceRoles))"

definition grantsOf :: "introspection \<Rightarrow> (string \<times> string) list" where
  "grantsOf resp = concat (map (\<lambda>(roleName, orgs). map (Pair roleName) orgs) (i_projectRoles resp))"

definition rolesOf :: "authn_lib \<Rightarrow> introspection \<Rightarrow> (uuid, role) gomap \<times> (uuid, string list) gomap" where
  "rolesOf lib resp = fold (addRole lib (i_iss resp)) (grantsOf resp) ([], [])"

text \<open>The user of an introspected token, \<open>None\<close> when the token is refused.\<close>

definition introspectedUser :: "authn_lib \<Rightarrow> introspection \<Rightarrow> string \<Rightarrow> user option" where
  "introspectedUser lib resp token =
     (if \<not> i_active resp \<or> i_sub resp = [] then None
      else case tenantOf lib resp of
             None \<Rightarrow> None
           | Some tenantID \<Rightarrow>
               (let user = \<lparr>u_ID = ComputeUUID lib (i_iss resp) (i_sub resp), u_TenantID = tenantID,
                      u_Sub = i_sub resp, u_Username = i_username resp, u_Roles = fst (rolesOf lib resp),
                      u_ServiceRoles = snd (rolesOf lib resp), u_Token = token\<rparr> in
                Some (if HasRole user ROLE_SYSTEM [ComputeUUID lib (i_iss resp) (i_resourceOwnerID resp)]
                      then SystemUser else user)))"

text \<open>The ladder roles the response grants in a tenant.\<close>

definition granted :: "authn_lib \<Rightarrow> string \<Rightarrow> (string \<times> string) list \<Rightarrow> uuid \<Rightarrow> role set" where
  "granted lib iss gs t = {role. \<exists>(roleName, orgID) \<in> set gs. ComputeUUID lib iss orgID = t
     \<and> \<not> IsServiceRole (al_lower lib) roleName \<and> RoleString (al_lower lib) roleName = Some role}"

definition gates :: "authn_lib \<Rightarrow> string \<Rightarrow> (string \<times> string) list \<Rightarrow> uuid \<Rightarrow> string set" where
  "gates lib iss gs t = {roleName. \<exists>orgID. (roleName, orgID) \<in> set gs \<and> ComputeUUID lib iss orgID = t
     \<and> IsServiceRole (al_lower lib) roleName}"

definition roles_ok ::
  "authn_lib \<Rightarrow> string \<Rightarrow> (string \<times> string) list \<Rightarrow> (uuid, role) gomap \<times> (uuid, string list) gomap \<Rightarrow> bool"
where
  "roles_ok lib iss gs acc \<longleftrightarrow> gmap_ok (fst acc) \<and> gmap_ok (snd acc)
     \<and> (\<forall>t. gget (fst acc) t = (if granted lib iss gs t = {} then None else Some (Max (granted lib iss gs t))))
     \<and> (\<forall>t. set (ggetd [] (snd acc) t) = gates lib iss gs t \<and> distinct (ggetd [] (snd acc) t))"

lemma finite_granted [simp]: "finite (granted lib iss gs t)"
proof -
  have "granted lib iss gs t \<subseteq> {ROLE_NONE, ROLE_READER, ROLE_WRITER, ROLE_ADMIN, ROLE_SYSTEM}"
    using role.exhaust by blast
  then show ?thesis by (rule finite_subset) simp
qed

lemma granted_snoc:
  "granted lib iss (gs @ [(roleName, orgID)]) t =
     (if ComputeUUID lib iss orgID = t \<and> \<not> IsServiceRole (al_lower lib) roleName \<and> RoleString (al_lower lib) roleName \<noteq> None
      then insert (the (RoleString (al_lower lib) roleName)) (granted lib iss gs t) else granted lib iss gs t)"
  by (auto simp: granted_def)

lemma gates_snoc:
  "gates lib iss (gs @ [(roleName, orgID)]) t =
     (if ComputeUUID lib iss orgID = t \<and> IsServiceRole (al_lower lib) roleName
      then insert roleName (gates lib iss gs t) else gates lib iss gs t)"
  by (auto simp: gates_def)

lemma addRole_ok:
  assumes "roles_ok lib iss gs acc"
  shows "roles_ok lib iss (gs @ [grant]) (addRole lib iss grant acc)"
proof -
  obtain roleName orgID roles serviceRoles where [simp]: "grant = (roleName, orgID)" "acc = (roles, serviceRoles)"
    by (cases grant; cases acc) auto
  have max: "Max (insert r (granted lib iss gs t)) = (if granted lib iss gs t = {} then r else max r (Max (granted lib iss gs t)))" for r t
    by simp
  show ?thesis
  proof (cases "IsServiceRole (al_lower lib) roleName")
    case True
    with assms show ?thesis
      by (auto simp: roles_ok_def addRole_def Let_def granted_snoc gates_snoc)
  next
    case service: False
    show ?thesis
    proof (cases "RoleString (al_lower lib) roleName")
      case None
      with assms service show ?thesis
        by (auto simp: roles_ok_def addRole_def Let_def granted_snoc gates_snoc)
    next
      case (Some role)
      with assms service show ?thesis
        by (auto simp: roles_ok_def addRole_def Let_def granted_snoc gates_snoc max max_def not_less
            simp del: Max_less_iff Max_le_iff Max_gr_iff Max_ge_iff split: option.splits if_splits)
    qed
  qed
qed

lemma rolesOf_ok: "roles_ok lib (i_iss resp) (grantsOf resp) (rolesOf lib resp)"
proof -
  have "roles_ok lib iss gs (fold (addRole lib iss) gs ([], []))" for iss gs
  proof (induction gs rule: rev_induct)
    case Nil
    show ?case by (simp add: roles_ok_def granted_def gates_def)
  next
    case (snoc g gs)
    from addRole_ok [OF this] show ?case by simp
  qed
  then show ?thesis by (simp add: rolesOf_def)
qed

section \<open>Authentication\<close>

datatype auth_error = ErrUnauthorizedToken

record zitadel_config =
  patCacheTTL :: int
  patCacheOverlap :: int

definition checkTenantLive :: "'e liveness_view \<Rightarrow> user \<Rightarrow> 'e + bool" where
  "checkTenantLive w u =
     (if IsSystemUser u then Inr True
      else case LookupTenants w [u_TenantID u] of
             (live, Some e) \<Rightarrow> Inl e
           | (live, None) \<Rightarrow> Inr (is_live live (u_TenantID u)))"

text \<open>\<open>(reject, definite)\<close>.\<close>

definition rejectDisabledTenant :: "'e liveness_view \<Rightarrow> user \<Rightarrow> bool \<times> bool" where
  "rejectDisabledTenant w u =
     (case checkTenantLive w u of
        Inl _ \<Rightarrow> (True, False)
      | Inr live \<Rightarrow> if live then (False, False) else (True, True))"

text \<open>How long an introspected token may be cached; times are nanoseconds, \<open>exp\<close> is seconds.\<close>

definition tokenTTL :: "zitadel_config \<Rightarrow> int \<Rightarrow> int \<Rightarrow> int" where
  "tokenTTL cfg now exp =
     (let tokenExp = exp * 1000000000; cacheExp = now + patCacheTTL cfg;
          cacheExp' = (if cacheExp > tokenExp then tokenExp else cacheExp) in
      cacheExp' - now - patCacheOverlap cfg)"

text \<open>
  One \<open>Authenticate\<close>. \<open>w1\<close> and \<open>w2\<close> are what the two liveness lookups meet, \<open>t\<close>, \<open>now\<close> and \<open>t'\<close>
  the clock when the cache is read, the token introspected and the cache written, \<open>later\<close> what
  other requests have done to the cache in between.
\<close>

record 'e authenticate_env =
  ae_lib :: authn_lib
  ae_config :: zitadel_config
  ae_get_time :: int
  ae_now :: int
  ae_set_time :: int
  ae_cached_view :: "'e liveness_view"
  ae_fresh_view :: "'e liveness_view"
  ae_introspect :: "auth_error + introspection"
  ae_later :: "user kv \<Rightarrow> user kv"

definition cacheUser :: "'e authenticate_env \<Rightarrow> string \<Rightarrow> user \<Rightarrow> int \<Rightarrow> user kv \<Rightarrow> user kv" where
  "cacheUser env token u ttl cache =
     (if IsSystemUser u then kv_Set (ae_set_time env) token u ttl cache
      else kv_SetWithSecondaryKey (ae_set_time env) token u ttl (al_string (ae_lib env) (u_TenantID u)) cache)"

definition authenticateFresh :: "'e authenticate_env \<Rightarrow> string \<Rightarrow> user kv \<Rightarrow> (auth_error + user) \<times> user kv" where
  "authenticateFresh env token cache =
     (case ae_introspect env of
        Inl _ \<Rightarrow> (Inl ErrUnauthorizedToken, cache)
      | Inr resp \<Rightarrow>
     (case introspectedUser (ae_lib env) resp token of
        None \<Rightarrow> (Inl ErrUnauthorizedToken, cache)
      | Some u \<Rightarrow>
          (let ttl = tokenTTL (ae_config env) (ae_now env) (i_exp resp);
               (reject, definite) = rejectDisabledTenant (ae_fresh_view env) u in
           if reject \<and> definite then (Inl ErrUnauthorizedToken, cache)
           else (if reject then Inl ErrUnauthorizedToken else Inr u,
                 if ttl \<le> 0 then cache else cacheUser env token u ttl cache))))"

definition Authenticate :: "'e authenticate_env \<Rightarrow> string \<Rightarrow> user kv \<Rightarrow> (auth_error + user) \<times> user kv" where
  "Authenticate env token cache =
     (if token = [] then (Inl ErrUnauthorizedToken, cache)
      else case kv_Get (ae_get_time env) token cache of
             Some u \<Rightarrow>
               (let (reject, definite) = rejectDisabledTenant (ae_cached_view env) u in
                if reject then (Inl ErrUnauthorizedToken, if definite then kv_Delete token cache else cache)
                else (Inr u, cache))
           | None \<Rightarrow> authenticateFresh env token (ae_later env cache))"

definition OnTenantDisabled :: "authn_lib \<Rightarrow> uuid \<Rightarrow> user kv \<Rightarrow> user kv" where
  "OnTenantDisabled lib tenantID cache = snd (kv_DeleteBySecondaryKey (al_string lib tenantID) cache)"

text \<open>\<open>NewZitadelAuthProvider\<close> refuses an overlap above the time to live.\<close>

definition configAccepted :: "zitadel_config \<Rightarrow> bool" where
  "configAccepted cfg \<longleftrightarrow> \<not> patCacheOverlap cfg > patCacheTTL cfg"

lemma rejectDisabledTenant_passes:
  "\<not> fst (rejectDisabledTenant w u) \<longleftrightarrow>
     IsSystemUser u \<or> (snd (LookupTenants w [u_TenantID u]) = None \<and> is_live (fst (LookupTenants w [u_TenantID u])) (u_TenantID u))"
  by (cases "LookupTenants w [u_TenantID u]")
    (auto simp: rejectDisabledTenant_def checkTenantLive_def split: option.splits sum.splits)

section \<open>The token cache\<close>

text \<open>
  One operation on the token cache. \<open>H\<close> are the introspections made so far, each with its token
  and the two clock readings around it; other requests run between the read of the cache and the
  write.
\<close>

inductive provider_step ::
  "authn_lib \<Rightarrow> zitadel_config \<Rightarrow> (string \<times> introspection \<times> int \<times> int) set \<Rightarrow> user kv \<Rightarrow> user kv \<Rightarrow> bool"
for lib cfg H where
  authenticate:
    "\<lbrakk>ae_lib (env :: string authenticate_env) = lib; ae_config env = cfg; Authenticate env token cache = (result, cache'); 0 < ae_set_time env;
      \<forall>resp. ae_introspect env = Inr resp \<longrightarrow> (token, resp, ae_now env, ae_set_time env) \<in> H;
      \<forall>x. (provider_step lib cfg H)\<^sup>*\<^sup>* x (ae_later env x)\<rbrakk> \<Longrightarrow> provider_step lib cfg H cache cache'"
| tenant_disabled: "provider_step lib cfg H cache (OnTenantDisabled lib tenantID cache)"
| janitor: "provider_step lib cfg H cache (cleanupExpiredEntries now cache)"

text \<open>Where a cached user comes from and until when it is served.\<close>

definition cached_ok ::
  "authn_lib \<Rightarrow> zitadel_config \<Rightarrow> (string \<times> introspection \<times> int \<times> int) set \<Rightarrow> string \<Rightarrow> user kv_entry \<Rightarrow> bool"
where
  "cached_ok lib cfg H token e \<longleftrightarrow>
     (\<exists>resp t0 t1. (token, resp, t0, t1) \<in> H \<and> 0 < t1 \<and> introspectedUser lib resp token = Some (e_value e)
        \<and> 0 < tokenTTL cfg t0 (i_exp resp) \<and> e_expiration e = t1 + tokenTTL cfg t0 (i_exp resp))
     \<and> e_secondaryKey e = (if IsSystemUser (e_value e) then [] else al_string lib (u_TenantID (e_value e)))"

definition tokens_ok ::
  "authn_lib \<Rightarrow> zitadel_config \<Rightarrow> (string \<times> introspection \<times> int \<times> int) set \<Rightarrow> user kv \<Rightarrow> bool"
where
  "tokens_ok lib cfg H cache \<longleftrightarrow> kv_linked cache
     \<and> (\<forall>token e. gget (kv_store cache) token = Some e \<longrightarrow> cached_ok lib cfg H token e)"

definition tokens_step ::
  "authn_lib \<Rightarrow> zitadel_config \<Rightarrow> (string \<times> introspection \<times> int \<times> int) set \<Rightarrow> user kv \<Rightarrow> user kv \<Rightarrow> bool"
where
  "tokens_step lib cfg H cache cache' \<longleftrightarrow> (tokens_ok lib cfg H cache \<longrightarrow> tokens_ok lib cfg H cache')"

lemma tokens_ok_removed:
  assumes "tokens_ok lib cfg H cache" and "kv_linked cache'"
    and "\<And>k e. gget (kv_store cache') k = Some e \<Longrightarrow> gget (kv_store cache) k = Some e"
  shows "tokens_ok lib cfg H cache'"
  using assms by (simp add: tokens_ok_def)

lemma kv_Set_store:
  "0 \<le> ttl \<Longrightarrow> gget (kv_store (kv_Set now key v ttl kv)) k =
     (if k = key then Some \<lparr>e_value = v, e_expiration = kv_expiration now ttl, e_secondaryKey = []\<rparr> else gget (kv_store kv) k)"
  by (simp add: kv_Set_def Let_def)

lemma cacheUser_ok:
  assumes ok: "tokens_ok (ae_lib env) cfg H cache" and h: "(token, resp, t0, ae_set_time env) \<in> H" "0 < ae_set_time env"
    and u: "introspectedUser (ae_lib env) resp token = Some u" and ttl: "ttl = tokenTTL cfg t0 (i_exp resp)" "0 < ttl"
  shows "tokens_ok (ae_lib env) cfg H (cacheUser env token u ttl cache)"
proof -
  have linked: "kv_linked (cacheUser env token u ttl cache)"
    using ok by (simp add: cacheUser_def tokens_ok_def kv_Set_ok kv_SetWithSecondaryKey_ok)
  have "gget (kv_store (cacheUser env token u ttl cache)) k =
     (if k = token then Some \<lparr>e_value = u, e_expiration = ae_set_time env + ttl,
        e_secondaryKey = (if IsSystemUser u then [] else al_string (ae_lib env) (u_TenantID u))\<rparr>
      else gget (kv_store cache) k)" for k
    using ttl(2) by (simp add: cacheUser_def kv_Set_store kv_SetWithSecondaryKey_store kv_expiration_def)
  moreover have "cached_ok (ae_lib env) cfg H token \<lparr>e_value = u, e_expiration = ae_set_time env + ttl,
        e_secondaryKey = (if IsSystemUser u then [] else al_string (ae_lib env) (u_TenantID u))\<rparr>"
    using h u ttl by (auto simp: cached_ok_def)
  ultimately show ?thesis using ok linked by (auto simp: tokens_ok_def)
qed

lemma authenticateFresh_ok:
  assumes "authenticateFresh env token cache = (result, cache')" and "0 < ae_set_time env"
    and "\<forall>resp. ae_introspect env = Inr resp \<longrightarrow> (token, resp, ae_now env, ae_set_time env) \<in> H"
    and ok: "tokens_ok (ae_lib env) (ae_config env) H cache"
  shows "tokens_ok (ae_lib env) (ae_config env) H cache'"
proof (cases "ae_introspect env")
  case (Inr resp)
  show ?thesis
  proof (cases "introspectedUser (ae_lib env) resp token")
    case (Some u)
    let ?ttl = "tokenTTL (ae_config env) (ae_now env) (i_exp resp)"
    have "tokens_ok (ae_lib env) (ae_config env) H (cacheUser env token u ?ttl cache)" if "0 < ?ttl"
      using cacheUser_ok [OF ok _ assms(2) Some refl that] assms(3) Inr by simp
    moreover have "cache' = cache \<or> cache' = cacheUser env token u ?ttl cache \<and> 0 < ?ttl"
      using assms(1) Inr Some by (auto simp: authenticateFresh_def Let_def split: prod.splits if_splits)
    ultimately show ?thesis using ok by auto
  qed (use assms Inr in \<open>simp add: authenticateFresh_def\<close>)
qed (use assms in \<open>simp add: authenticateFresh_def\<close>)

lemma provider_step_tokens: "provider_step lib cfg H cache cache' \<Longrightarrow> tokens_step lib cfg H cache cache'"
proof (induction rule: provider_step.induct)
  case (authenticate env token cache result cache')
  have later: "tokens_step lib cfg H x (ae_later env x)" for x
  proof -
    have "(\<lambda>a b. provider_step lib cfg H a b \<and> tokens_step lib cfg H a b)\<^sup>*\<^sup>* x (ae_later env x)"
      using authenticate by blast
    then show ?thesis by induction (auto simp: tokens_step_def)
  qed
  show ?case
    unfolding tokens_step_def
  proof
    assume ok: "tokens_ok lib cfg H cache"
    show "tokens_ok lib cfg H cache'"
    proof (cases "token = [] \<or> kv_Get (ae_get_time env) token cache \<noteq> None")
      case True
      then have "cache' = cache \<or> cache' = kv_Delete token cache"
        using authenticate(3) by (auto simp: Authenticate_def Let_def split: prod.splits if_splits option.splits)
      with ok show ?thesis
        by (auto simp: kv_Delete_def tokens_ok_def deleteLocked_ok intro: tokens_ok_removed split: if_splits)
    next
      case False
      then have "authenticateFresh env token (ae_later env cache) = (result, cache')"
        using authenticate(3) by (simp add: Authenticate_def)
      from authenticateFresh_ok [OF this authenticate(4,5)] later [of cache] ok authenticate(1,2) show ?thesis
        by (simp add: tokens_step_def)
    qed
  qed
next
  case (tenant_disabled cache tenantID)
  show ?case
    unfolding tokens_step_def OnTenantDisabled_def
    by (auto simp: kv_DeleteBySecondaryKey_store tokens_ok_def kv_DeleteBySecondaryKey_ok split: if_splits)
next
  case (janitor cache now)
  show ?case
    unfolding tokens_step_def cleanupExpiredEntries_def
    by (auto simp: fold_deleteLocked_store tokens_ok_def fold_deleteLocked_ok split: if_splits)
qed

abbreviation provider_reachable where
  "provider_reachable lib cfg H cache \<equiv> (provider_step lib cfg H)\<^sup>*\<^sup>* NewInMemoryKVStore cache"

lemma provider_reachable_ok: "provider_reachable lib cfg H cache \<Longrightarrow> tokens_ok lib cfg H cache"
proof (induction rule: rtranclp_induct)
  case base
  show ?case
    using kv_exact_linked [OF kv_new_exact] by (auto simp: tokens_ok_def) (simp add: NewInMemoryKVStore_def)
next
  case (step b c)
  then show ?case using provider_step_tokens by (auto simp: tokens_step_def)
qed

section \<open>Properties\<close>

text \<open>
  C32: the user a token introspects to is well formed, whatever the order in which Go ranges over
  the roles: in every tenant its role is the highest the response grants there, and its service
  roles are the granted ones, once each; the identity is the one derived from the issuer, the
  subject and the tenant, or the system user, and the latter exactly when the system role is
  granted in the organization the token is homed in. SHA-1 identifiers are never nil or max.
\<close>
theorem introspected_user_well_formed:
  assumes "introspectedUser lib resp token = Some u"
    and "\<forall>n s. al_sha lib n s \<noteq> uuid_Nil \<and> al_sha lib n s \<noteq> uuid_Max"
  shows "IsAuthenticated u \<and> gmap_ok (u_Roles u) \<and> gmap_ok (u_ServiceRoles u)
    \<and> (IsSystemUser u \<longleftrightarrow> ROLE_SYSTEM \<in> granted lib (i_iss resp) (grantsOf resp) (ComputeUUID lib (i_iss resp) (i_resourceOwnerID resp)))
    \<and> (if IsSystemUser u then u = SystemUser
       else u_ID u = ComputeUUID lib (i_iss resp) (i_sub resp) \<and> tenantOf lib resp = Some (u_TenantID u) \<and> u_Token u = token
         \<and> (\<forall>t. roleIn u t = Max (insert ROLE_NONE (granted lib (i_iss resp) (grantsOf resp) t)))
         \<and> (\<forall>t key. HasServiceRole u key t \<longleftrightarrow> key \<in> gates lib (i_iss resp) (grantsOf resp) t))"
proof -
  let ?gs = "grantsOf resp" and ?home = "ComputeUUID lib (i_iss resp) (i_resourceOwnerID resp)"
  from assms(1) obtain tenantID where t: "tenantOf lib resp = Some tenantID"
    by (auto simp: introspectedUser_def split: if_splits option.splits)
  define user where "user = \<lparr>u_ID = ComputeUUID lib (i_iss resp) (i_sub resp), u_TenantID = tenantID,
    u_Sub = i_sub resp, u_Username = i_username resp, u_Roles = fst (rolesOf lib resp),
    u_ServiceRoles = snd (rolesOf lib resp), u_Token = token\<rparr>"
  from assms(1) t have u: "u = (if HasRole user ROLE_SYSTEM [?home] then SystemUser else user)"
    by (auto simp: introspectedUser_def user_def Let_def split: if_splits)
  note ok = rolesOf_ok [of lib resp, unfolded roles_ok_def]
  have role: "roleIn user t = Max (insert ROLE_NONE (granted lib (i_iss resp) ?gs t))" for t
    using ok by (auto simp: user_def roleIn_def ggetd_def max_def)
  have gate: "HasServiceRole user key t \<longleftrightarrow> key \<in> gates lib (i_iss resp) ?gs t" if "\<not> IsSystemUser user" for key t
    using ok by (simp add: HasServiceRole_set [OF that]) (simp add: user_def)
  have "tenantID \<noteq> uuid_Nil"
    using t assms(2) by (auto simp: tenantOf_def Let_def ComputeUUID_def split: if_splits option.splits)
  with assms(2) have auth: "IsAuthenticated user" and nosys: "\<not> IsSystemUser user"
    by (simp_all add: IsAuthenticated_def IsSystemUser_def user_def ComputeUUID_def)
  have "ROLE_SYSTEM \<le> roleIn user ?home \<longleftrightarrow> ROLE_SYSTEM \<in> granted lib (i_iss resp) ?gs ?home"
  proof -
    have "ROLE_SYSTEM \<le> roleIn user ?home \<longleftrightarrow> (\<exists>r \<in> insert ROLE_NONE (granted lib (i_iss resp) ?gs ?home). ROLE_SYSTEM \<le> r)"
      unfolding role by (subst Max_ge_iff) auto
    then show ?thesis by (simp add: ROLE_SYSTEM_top)
  qed
  then have "HasRole user ROLE_SYSTEM [?home] \<longleftrightarrow> ROLE_SYSTEM \<in> granted lib (i_iss resp) ?gs ?home"
    using auth nosys by (simp add: HasRole_single)
  moreover have "gmap_ok (u_Roles SystemUser)" "gmap_ok (u_ServiceRoles SystemUser)" by (simp_all add: SystemUser_def)
  moreover have "gmap_ok (u_Roles user)" "gmap_ok (u_ServiceRoles user)" using ok by (simp_all add: user_def)
  moreover have "u_ID user = ComputeUUID lib (i_iss resp) (i_sub resp)" "u_TenantID user = tenantID" "u_Token user = token"
    by (simp_all add: user_def)
  ultimately show ?thesis using u auth nosys role gate t by simp
qed

text \<open>
  C24: authentication fails closed. Whoever is authenticated has presented a token that some
  introspection, now or earlier, found active and that names a subject and a tenant; the user is
  the one that introspection describes; and unless it is the system user, the lookup of this very
  request found the home tenant live without a fault, the cached token included.
\<close>
theorem authenticate_fails_closed:
  assumes "provider_reachable (ae_lib env) (ae_config env) H cache"
    and "Authenticate env token cache = (Inr u, cache')"
  shows "token \<noteq> []
    \<and> (\<exists>resp. (ae_introspect env = Inr resp \<or> (\<exists>t0 t1. (token, resp, t0, t1) \<in> H))
         \<and> i_active resp \<and> i_sub resp \<noteq> [] \<and> tenantOf (ae_lib env) resp \<noteq> None
         \<and> introspectedUser (ae_lib env) resp token = Some u)
    \<and> (IsSystemUser u \<or> (\<exists>w \<in> {ae_cached_view env, ae_fresh_view env}.
         snd (LookupTenants w [u_TenantID u]) = None \<and> is_live (fst (LookupTenants w [u_TenantID u])) (u_TenantID u)))"
proof -
  have known: "i_active resp \<and> i_sub resp \<noteq> [] \<and> tenantOf (ae_lib env) resp \<noteq> None"
    if "introspectedUser (ae_lib env) resp token = Some u" for resp
    using that by (auto simp: introspectedUser_def split: if_splits option.splits)
  show ?thesis
  proof (cases "kv_Get (ae_get_time env) token cache")
    case None
    with assms(2) obtain resp where "ae_introspect env = Inr resp" "introspectedUser (ae_lib env) resp token = Some u"
      "\<not> fst (rejectDisabledTenant (ae_fresh_view env) u)" "token \<noteq> []"
      by (auto simp: Authenticate_def authenticateFresh_def Let_def split: sum.splits option.splits prod.splits if_splits)
    with known [OF this(2)] show ?thesis by (auto simp: rejectDisabledTenant_passes)
  next
    case (Some v)
    with assms(2) have v: "v = u" "\<not> fst (rejectDisabledTenant (ae_cached_view env) u)" "token \<noteq> []"
      by (auto simp: Authenticate_def Let_def split: prod.splits if_splits)
    from Some v(1) obtain e where "gget (kv_store cache) token = Some e" "e_value e = u"
      by (auto simp: kv_Get_def split: option.splits if_splits)
    with provider_reachable_ok [OF assms(1)] have "cached_ok (ae_lib env) (ae_config env) H token e"
      by (simp add: tokens_ok_def)
    then obtain resp t0 t1 where r: "(token, resp, t0, t1) \<in> H" "introspectedUser (ae_lib env) resp token = Some u"
      unfolding cached_ok_def \<open>e_value e = u\<close> by blast
    with known [OF r(2)] v(2,3) show ?thesis by (auto simp: rejectDisabledTenant_passes)
  qed
qed

text \<open>
  C38: a token served from the cache has not outlived itself. It was introspected at some time
  \<open>t0\<close> and written at \<open>t1\<close>; it is served until its own expiry less the overlap, or for the
  configured time to live less the overlap, whichever is sooner, plus the time the write took. So
  as long as writing takes no longer than the overlap, no expired token is served and none older
  than the time to live.
\<close>
theorem cached_token_in_date:
  assumes "provider_reachable lib cfg H cache" and "kv_Get t token cache = Some u"
  shows "\<exists>resp t0 t1. (token, resp, t0, t1) \<in> H \<and> introspectedUser lib resp token = Some u
    \<and> t \<le> t1 + min (patCacheTTL cfg) (i_exp resp * 1000000000 - t0) - patCacheOverlap cfg
    \<and> (t1 - t0 \<le> patCacheOverlap cfg \<longrightarrow> t \<le> i_exp resp * 1000000000 \<and> t \<le> t0 + patCacheTTL cfg)"
proof -
  from assms(2) obtain e where e: "gget (kv_store cache) token = Some e" "e_value e = u" "\<not> kv_expired t e"
    by (auto simp: kv_Get_def split: option.splits if_splits)
  with provider_reachable_ok [OF assms(1)] have "cached_ok lib cfg H token e"
    by (simp add: tokens_ok_def)
  then obtain resp t0 t1 where r: "(token, resp, t0, t1) \<in> H" "0 < t1" "introspectedUser lib resp token = Some u"
    "0 < tokenTTL cfg t0 (i_exp resp)" "e_expiration e = t1 + tokenTTL cfg t0 (i_exp resp)"
    unfolding cached_ok_def e(2) by blast
  with e(3) have t: "t \<le> t1 + tokenTTL cfg t0 (i_exp resp)" by (auto simp: kv_expired_def)
  have "tokenTTL cfg t0 (i_exp resp) = min (patCacheTTL cfg) (i_exp resp * 1000000000 - t0) - patCacheOverlap cfg"
    by (auto simp: tokenTTL_def Let_def)
  with t r(1,3) show ?thesis by (intro exI [of _ resp] exI [of _ t0] exI [of _ t1]) auto
qed

end
