(* ===== verification/DbErrors.thy ===== *)
theory DbErrors
  imports Prelude
begin

text \<open>
  backend/common/db/errors.go and retry-transactions.go: which errors are Postgres errors, which
  are retryable, what a client gets to see of them, and the retry budget a context carries.

  A Go error is a tree: \<open>fmt.Errorf\<close> with \<open>%w\<close> and \<open>errors.Join\<close> wrap others. \<open>errors.Is\<close>
  and \<open>errors.As\<close> walk it depth first, the error itself before what it wraps.
\<close>

datatype go_error =
    OCCConflict
  | Sentinel string
  | PqError string string
  | PgError string string
  | Wrap string "go_error list"

text \<open>
  \<open>Error()\<close>: a wrapping error has its whole text; that of a driver's error is the server's
  message. \<open>errorf\<close> is \<open>fmt.Errorf(prefix + "%w", e)\<close>, \<open>decimal\<close> the verb \<open>%d\<close>.
\<close>

fun errorText :: "go_error \<Rightarrow> string" where
  "errorText OCCConflict = ''optimistic concurrency conflict''"
| "errorText (Sentinel t) = t"
| "errorText (PqError code message) = message"
| "errorText (PgError code message) = message"
| "errorText (Wrap t es) = t"

definition errorf :: "string \<Rightarrow> go_error \<Rightarrow> go_error" where
  "errorf prefix e = Wrap (prefix @ errorText e) [e]"

fun decimal :: "nat \<Rightarrow> string" where
  "decimal n = (if n < 10 then [] else decimal (n div 10)) @ [char_of (48 + n mod 10)]"

declare decimal.simps [simp del]

fun error_chain :: "go_error \<Rightarrow> go_error list" where
  "error_chain (Wrap t es) = Wrap t es # concat (map error_chain es)"
| "error_chain e = [e]"

definition errors_Is :: "go_error \<Rightarrow> go_error \<Rightarrow> bool" where
  "errors_Is err target \<longleftrightarrow> target \<in> set (error_chain err)"

fun as_pq :: "go_error \<Rightarrow> (string \<times> string) option" where
  "as_pq (PqError code message) = Some (code, message)"
| "as_pq _ = None"

fun as_pg :: "go_error \<Rightarrow> (string \<times> string) option" where
  "as_pg (PgError code message) = Some (code, message)"
| "as_pg _ = None"

fun first_some :: "('a \<Rightarrow> 'b option) \<Rightarrow> 'a list \<Rightarrow> 'b option" where
  "first_some f [] = None"
| "first_some f (x # xs) = (case f x of Some y \<Rightarrow> Some y | None \<Rightarrow> first_some f xs)"

definition PostgresError :: "go_error \<Rightarrow> (string \<times> string) option" where
  "PostgresError err =
     (case first_some as_pq (error_chain err) of
        Some cm \<Rightarrow> Some cm
      | None \<Rightarrow> first_some as_pg (error_chain err))"

section \<open>What the client sees\<close>

definition hasPrefix :: "string \<Rightarrow> string \<Rightarrow> bool" where
  "hasPrefix s p \<longleftrightarrow> take (length p) s = p"

definition constraintMessage :: "string \<Rightarrow> string \<Rightarrow> string" where
  "constraintMessage code message =
     (if code = ''23505'' then ''duplicate key: record already exists''
      else if code = ''23503'' then
        (if hasPrefix message ''update or delete'' then ''record is still referenced by other records''
         else ''referenced record does not exist'')
      else ''request violates a data constraint'')"

definition HideConstraintViolation :: "go_error \<Rightarrow> string option" where
  "HideConstraintViolation err =
     (case PostgresError err of
        None \<Rightarrow> None
      | Some (code, raw) \<Rightarrow>
          if hasPrefix code ''23'' then Some (constraintMessage code raw @ '' (SQLSTATE '' @ code @ '')'') else None)"

section \<open>Retries\<close>

text \<open>The value under \<open>txConfigKey\<close>, if any.\<close>

type_synonym retry_ctx = "int option"

definition WithMaxRetries :: "retry_ctx \<Rightarrow> int \<Rightarrow> retry_ctx" where
  "WithMaxRetries c retries = Some retries"

definition NumRetriesFromContext :: "retry_ctx \<Rightarrow> int \<Rightarrow> int" where
  "NumRetriesFromContext c defaultRetries =
     (case c of
        Some retries \<Rightarrow> if 0 \<le> retries then retries else defaultRetries
      | None \<Rightarrow> defaultRetries)"

definition retryableStates :: "string list" where
  "retryableStates = [''40001'', ''40P01'']"

definition ErrIsRetryable :: "go_error option \<Rightarrow> bool" where
  "ErrIsRetryable err =
     (case err of
        None \<Rightarrow> False
      | Some e \<Rightarrow>
          if errors_Is e OCCConflict then True
          else (case PostgresError e of Some (code, _) \<Rightarrow> code \<in> set retryableStates | None \<Rightarrow> False))"

text \<open>Nanoseconds; \<open>draw\<close> is \<open>rand.IntN\<close> of the number of possible increases, 0 to 2.\<close>

definition maxSleepDuration :: int64 where
  "maxSleepDuration = 250000000"

definition GetSleepDuration :: "int64 \<Rightarrow> int64 \<Rightarrow> int64" where
  "GetSleepDuration attempt draw =
     std_Min (i64 (i64 (attempt * (draw + 3)) * 1000000)) [maxSleepDuration]"

section \<open>Lemmas\<close>

lemma NumRetries_With [simp]: "0 \<le> n \<Longrightarrow> NumRetriesFromContext (WithMaxRetries c n) dflt = n"
  by (simp add: NumRetriesFromContext_def WithMaxRetries_def)

lemma error_chain_self [simp]: "e \<in> set (error_chain e)"
  by (cases e) auto

text \<open>Wrapping hides nothing from the classification.\<close>

lemma errors_Is_Wrap: "e \<in> set es \<Longrightarrow> errors_Is e t \<Longrightarrow> errors_Is (Wrap s es) t"
  by (auto simp: errors_Is_def)

lemma errors_Is_errorf [simp]: "errors_Is (errorf s e) (Sentinel t) \<longleftrightarrow> errors_Is e (Sentinel t)"
  by (simp add: errors_Is_def errorf_def)

lemma errorf_neq [simp]: "errorf s e \<noteq> Sentinel t"
  by (simp add: errorf_def)

lemma ErrIsRetryable_Wrap: "ErrIsRetryable (Some (Wrap s [e])) \<longleftrightarrow> ErrIsRetryable (Some e)"
  by (cases "first_some as_pq (error_chain e)") (simp_all add: ErrIsRetryable_def errors_Is_def PostgresError_def)

end
