(* ===== verification/FieldNames.thy ===== *)
theory FieldNames
  imports Prelude
begin

text \<open>
  \<open>TopLevelFieldNames\<close> of backend/common/idempotency/precheck.go: the fields a GraphQL operation
  selects at the top, through inline fragments and fragment spreads. Every gate of the
  transaction middleware decides over this list. A spread names its definition, so a document
  whose fragments refer to each other in a circle is a value of the model too.
\<close>

datatype selection =
    Field string
  | InlineFragment "selection list"
  | FragmentSpread string

type_synonym fragments = "(string, selection list) gomap"

definition introspection :: "string \<Rightarrow> bool" where
  "introspection name \<longleftrightarrow> take 2 name = ''__''"

text \<open>
  \<open>appendTopLevelFieldNames\<close>. The recursive call on a nested selection set and the rest of the
  loop share the names and the set of expanded fragments, so both are one list of selections
  still to visit (\<open>append_nested\<close> is the recursive call).
\<close>

function appendTopLevelFieldNames ::
  "fragments \<Rightarrow> string list \<Rightarrow> selection list \<Rightarrow> string list \<Rightarrow> string list \<times> string list"
where
  "appendTopLevelFieldNames frs names [] expanded = (names, expanded)"
| "appendTopLevelFieldNames frs names (Field n # rest) expanded =
     appendTopLevelFieldNames frs (if introspection n then names else names @ [n]) rest expanded"
| "appendTopLevelFieldNames frs names (InlineFragment ss # rest) expanded =
     appendTopLevelFieldNames frs names (ss @ rest) expanded"
| "appendTopLevelFieldNames frs names (FragmentSpread f # rest) expanded =
     (case gget frs f of
        None \<Rightarrow> appendTopLevelFieldNames frs names rest expanded
      | Some ss \<Rightarrow>
          if f \<in> set expanded then appendTopLevelFieldNames frs names rest expanded
          else appendTopLevelFieldNames frs names (ss @ rest) (f # expanded))"
  by pat_completeness auto
termination
proof (relation "measures [\<lambda>(frs, names, sels, expanded). card (set (gkeys frs) - set expanded),
    \<lambda>(frs, names, sels, expanded). size_list size sels]")
  fix frs :: fragments and names :: "string list" and f rest expanded ss
  assume "gget frs f = Some ss" and "f \<notin> set expanded"
  then have "f \<in> set (gkeys frs) - set expanded" by (simp add: gkeys_gget)
  then have "set (gkeys frs) - set (f # expanded) \<subset> set (gkeys frs) - set expanded" by auto
  then show "((frs, names, ss @ rest, f # expanded), frs, names, FragmentSpread f # rest, expanded)
      \<in> measures [\<lambda>(frs, names, sels, expanded). card (set (gkeys frs) - set expanded),
          \<lambda>(frs, names, sels, expanded). size_list size sels]"
    by (simp add: psubset_card_mono)
qed auto

definition TopLevelFieldNames :: "fragments \<Rightarrow> selection list \<Rightarrow> string list" where
  "TopLevelFieldNames frs sels = fst (appendTopLevelFieldNames frs [] sels [])"

lemma append_nested:
  "appendTopLevelFieldNames frs names (xs @ ys) expanded =
     (case appendTopLevelFieldNames frs names xs expanded of
        (names', expanded') \<Rightarrow> appendTopLevelFieldNames frs names' ys expanded')"
proof (induction frs names xs expanded rule: appendTopLevelFieldNames.induct)
  case (3 frs names ss rest expanded)
  then show ?case by simp
next
  case (4 frs names f rest expanded)
  then show ?case by (simp split: option.split)
qed simp_all

section \<open>What the walk returns\<close>

text \<open>The fields the executor may run at the top level, introspection aside.\<close>

inductive selects :: "fragments \<Rightarrow> selection list \<Rightarrow> string \<Rightarrow> bool" for frs where
  field: "Field n \<in> set sels \<Longrightarrow> \<not> introspection n \<Longrightarrow> selects frs sels n"
| inline: "InlineFragment ss \<in> set sels \<Longrightarrow> selects frs ss n \<Longrightarrow> selects frs sels n"
| spread: "FragmentSpread f \<in> set sels \<Longrightarrow> gget frs f = Some ss \<Longrightarrow> selects frs ss n \<Longrightarrow> selects frs sels n"

inductive_simps selects_Nil [simp]: "selects frs [] n"

lemma selects_mono: "selects frs sels n \<Longrightarrow> set sels \<subseteq> set sels' \<Longrightarrow> selects frs sels' n"
  by (induction rule: selects.induct) (blast intro: selects.intros)+

lemma selects_append: "selects frs (xs @ ys) n \<longleftrightarrow> selects frs xs n \<or> selects frs ys n"
proof
  assume "selects frs (xs @ ys) n"
  then show "selects frs xs n \<or> selects frs ys n"
    by (cases rule: selects.cases) (auto intro: selects.intros)
qed (auto intro: selects_mono)

lemma names_sound:
  "set (fst (appendTopLevelFieldNames frs names sels expanded)) \<subseteq> set names \<union> {n. selects frs sels n}"
proof (induction frs names sels expanded rule: appendTopLevelFieldNames.induct)
  case (2 frs names n rest expanded)
  have "selects frs (Field n # rest) x" if "selects frs rest x" for x
    using that by (rule selects_mono) auto
  moreover have "selects frs (Field n # rest) n" if "\<not> introspection n" using that by (intro selects.field) simp_all
  ultimately show ?case using 2 by (cases "introspection n") (simp_all, blast+)
next
  case (3 frs names ss rest expanded)
  have "selects frs (InlineFragment ss # rest) x" if "selects frs (ss @ rest) x" for x
    using that by (auto simp: selects_append intro: selects.inline selects_mono)
  with 3 show ?case by auto
next
  case (4 frs names f rest expanded)
  have rest: "selects frs (FragmentSpread f # rest) x" if "selects frs rest x" for x
    using that by (rule selects_mono) auto
  show ?case
  proof (cases "gget frs f")
    case None
    with 4(1) rest show ?thesis by auto
  next
    case (Some ss)
    have "selects frs (FragmentSpread f # rest) x" if "selects frs (ss @ rest) x" for x
      using that Some rest by (auto simp: selects_append intro: selects.spread)
    with Some 4(2,3) rest show ?thesis by (auto split: if_splits)
  qed
qed simp

text \<open>A selection is covered by what the walk has collected and expanded.\<close>

fun covered :: "fragments \<Rightarrow> string list \<Rightarrow> string list \<Rightarrow> selection \<Rightarrow> bool" where
  "covered frs names expanded (Field n) \<longleftrightarrow> introspection n \<or> n \<in> set names"
| "covered frs names expanded (InlineFragment ss) \<longleftrightarrow> list_all (covered frs names expanded) ss"
| "covered frs names expanded (FragmentSpread f) \<longleftrightarrow> gget frs f = None \<or> f \<in> set expanded"

lemma walk_covers:
  assumes "appendTopLevelFieldNames frs names sels expanded = (names', expanded')"
  shows "set names \<subseteq> set names' \<and> set expanded \<subseteq> set expanded' \<and> list_all (covered frs names' expanded') sels
    \<and> (\<forall>f \<in> set expanded' - set expanded. \<forall>ss. gget frs f = Some ss \<longrightarrow> list_all (covered frs names' expanded') ss)"
  using assms
proof (induction frs names sels expanded rule: appendTopLevelFieldNames.induct)
  case (4 frs names f rest expanded)
  show ?case
  proof (cases "gget frs f")
    case (Some ss)
    show ?thesis
    proof (cases "f \<in> set expanded")
      case False
      with Some 4(4) have "appendTopLevelFieldNames frs names (ss @ rest) (f # expanded) = (names', expanded')" by simp
      from 4(3) [OF Some False this] Some show ?thesis by auto
    qed (use Some 4(2,4) in auto)
  qed (use 4(1,4) in auto)
qed (auto split: if_splits)

lemma covered_selects:
  assumes "selects frs sels n" and "list_all (covered frs names expanded) sels"
    and "\<forall>f \<in> set expanded. \<forall>ss. gget frs f = Some ss \<longrightarrow> list_all (covered frs names expanded) ss"
  shows "n \<in> set names"
  using assms by (induction rule: selects.induct) (fastforce simp: list_all_iff)+

lemma TopLevelFieldNames_set: "set (TopLevelFieldNames frs sels) = {n. selects frs sels n}"
proof
  show "set (TopLevelFieldNames frs sels) \<subseteq> {n. selects frs sels n}"
    using names_sound [of frs "[]" sels "[]"] by (simp add: TopLevelFieldNames_def)
  obtain ns ex where run: "appendTopLevelFieldNames frs [] sels [] = (ns, ex)" by fastforce
  show "{n. selects frs sels n} \<subseteq> set (TopLevelFieldNames frs sels)"
    using walk_covers [OF run] covered_selects by (fastforce simp: TopLevelFieldNames_def run)
qed

text \<open>The work is bounded by the document: every fragment is expanded at most once.\<close>

fun fieldCount :: "selection \<Rightarrow> nat" where
  "fieldCount (Field n) = 1"
| "fieldCount (InlineFragment ss) = sum_list (map fieldCount ss)"
| "fieldCount (FragmentSpread f) = 0"

definition fragmentFields :: "fragments \<Rightarrow> string \<Rightarrow> nat" where
  "fragmentFields frs f = sum_list (map fieldCount (ggetd [] frs f))"

lemma names_bounded:
  "length (fst (appendTopLevelFieldNames frs names sels expanded))
     \<le> length names + sum_list (map fieldCount sels) + (\<Sum>f \<in> set (gkeys frs) - set expanded. fragmentFields frs f)"
proof (induction frs names sels expanded rule: appendTopLevelFieldNames.induct)
  case (4 frs names f rest expanded)
  show ?case
  proof (cases "gget frs f")
    case None
    with 4(1) show ?thesis by simp
  next
    case (Some ss)
    show ?thesis
    proof (cases "f \<in> set expanded")
      case True
      with Some 4(2) show ?thesis by simp
    next
      case False
      let ?A = "set (gkeys frs) - set expanded"
      have "f \<in> ?A" using Some False by (simp add: gkeys_gget)
      then have "(\<Sum>f \<in> ?A. fragmentFields frs f) = fragmentFields frs f + (\<Sum>f \<in> ?A - {f}. fragmentFields frs f)"
        by (intro sum.remove) auto
      moreover have "set (gkeys frs) - set (f # expanded) = ?A - {f}" by auto
      moreover have "fragmentFields frs f = sum_list (map fieldCount ss)"
        using Some by (simp add: fragmentFields_def ggetd_def)
      ultimately show ?thesis using 4(3) [OF Some False] Some False by simp
    qed
  qed
qed (auto split: if_splits)

end
