(* ===== verification/Idempotency.thy ===== *)
theory Idempotency
  imports DbErrors FieldNames
begin

text \<open>
  backend/common/idempotency: the Idempotency-Key header, the check before a mutation, the
  resolution of a lost race, and the table of keys as the inventory service stores it
  (inventory/cmd/pyck-inventory/idempotency.go). Encoding a response to JSON and back belongs to
  encoding/json and is a pair of parameters, \<open>enc\<close> and \<open>dec\<close>; the checksum of an operation
  rests on gqlparser's formatter and sha256, its value is part of the request.
\<close>

section \<open>Responses\<close>

type_synonym bytes = "nat list"

record gql_error =
  ge_message :: string
  ge_code :: string
  ge_status :: nat
  ge_path :: string
  ge_err :: "go_error option"

record 'd gql_response =
  resp_data :: "'d option"
  resp_errors :: "gql_error list"

section \<open>The header\<close>

text \<open>\<open>utf8.ValidString\<close>: the length of the first encoded rune, 0 when it is not valid.\<close>

definition cont :: "nat \<Rightarrow> nat \<Rightarrow> bytes \<Rightarrow> nat \<Rightarrow> bool" where
  "cont lo hi bs i \<longleftrightarrow> i < length bs \<and> lo \<le> bs ! i \<and> bs ! i \<le> hi"

definition runeLen :: "bytes \<Rightarrow> nat" where
  "runeLen bs =
     (let b = hd bs in
      if b < 128 then 1
      else if 194 \<le> b \<and> b \<le> 223 then (if cont 128 191 bs 1 then 2 else 0)
      else if 224 \<le> b \<and> b \<le> 239 then
        (if cont (if b = 224 then 160 else 128) (if b = 237 then 159 else 191) bs 1 \<and> cont 128 191 bs 2 then 3 else 0)
      else if 240 \<le> b \<and> b \<le> 244 then
        (if cont (if b = 240 then 144 else 128) (if b = 244 then 143 else 191) bs 1
            \<and> cont 128 191 bs 2 \<and> cont 128 191 bs 3 then 4 else 0)
      else 0)"

fun validString :: "bytes \<Rightarrow> bool" where
  "validString [] = True"
| "validString (b # bs) = (runeLen (b # bs) \<noteq> 0 \<and> validString (drop (runeLen (b # bs) - 1) bs))"

text \<open>\<open>strings.TrimSpace\<close>: the encodings of the runes \<open>unicode.IsSpace\<close> accepts.\<close>

definition spaces :: "bytes list" where
  "spaces = [[9], [10], [11], [12], [13], [32], [194, 133], [194, 160], [225, 154, 128],
     [226, 128, 128], [226, 128, 129], [226, 128, 130], [226, 128, 131], [226, 128, 132], [226, 128, 133],
     [226, 128, 134], [226, 128, 135], [226, 128, 136], [226, 128, 137], [226, 128, 138],
     [226, 128, 168], [226, 128, 169], [226, 128, 175], [226, 129, 159], [227, 128, 128]]"

function trimLeft :: "bytes list \<Rightarrow> bytes \<Rightarrow> bytes" where
  "trimLeft ps s =
     (case find (\<lambda>p. p \<noteq> [] \<and> take (length p) s = p) ps of
        None \<Rightarrow> s
      | Some p \<Rightarrow> trimLeft ps (drop (length p) s))"
  by auto
termination
proof (relation "measure (\<lambda>(ps, s). length s)")
  fix ps :: "bytes list" and s p
  assume "find (\<lambda>p. p \<noteq> [] \<and> take (length p) s = p) ps = Some p"
  then have "p \<noteq> []" "take (length p) s = p" by (auto simp: find_Some_iff)
  then have "s \<noteq> []" by auto
  with \<open>p \<noteq> []\<close> show "((ps, drop (length p) s), ps, s) \<in> measure (\<lambda>(ps, s). length s)" by simp
qed simp

declare trimLeft.simps [simp del]

definition trimSpace :: "bytes \<Rightarrow> bytes" where
  "trimSpace s = rev (trimLeft (map rev spaces) (rev (trimLeft spaces s)))"

definition maxKeyLen :: nat where
  "maxKeyLen = 255"

abbreviation ErrKeyTooLong :: go_error where
  "ErrKeyTooLong \<equiv> Sentinel ''idempotency key exceeds 255 characters''"

abbreviation ErrKeyNotUTF8 :: go_error where
  "ErrKeyNotUTF8 \<equiv> Sentinel ''idempotency key is not valid UTF-8''"

definition FromHeaders :: "bytes \<Rightarrow> go_error + bytes" where
  "FromHeaders raw =
     (if raw = [] then Inr []
      else let key = trimSpace raw in
        if key = [] then Inr []
        else if length key > maxKeyLen
        then Inl (Wrap (errorText ErrKeyTooLong @ '' (max '' @ decimal maxKeyLen @ '', got '' @ decimal (length key) @ '')'')
                    [ErrKeyTooLong])
        else if \<not> validString key then Inl ErrKeyNotUTF8
        else Inr key)"

section \<open>The table of keys\<close>

datatype key_status = StatusInFlight | StatusCommitted | StatusOther string

record key_row =
  k_key :: bytes
  k_tenant :: uuid
  k_user :: uuid
  k_operation :: string
  k_checksum :: nat
  k_status :: key_status
  k_response :: bytes
  k_created_at :: time

record lease =
  l_key :: bytes
  l_tenant :: uuid
  l_user :: uuid
  l_operation :: string
  l_checksum :: nat

definition row_id :: "key_row \<Rightarrow> bytes \<times> uuid \<times> uuid" where
  "row_id r = (k_key r, k_tenant r, k_user r)"

definition lease_id :: "lease \<Rightarrow> bytes \<times> uuid \<times> uuid" where
  "lease_id l = (l_key l, l_tenant l, l_user l)"

abbreviation ErrNotFound' :: go_error where
  "ErrNotFound' \<equiv> Sentinel ''idempotency record not found''"

abbreviation ErrUniqueViolation :: go_error where
  "ErrUniqueViolation \<equiv> Sentinel ''idempotency key already in use''"

abbreviation ErrNoInFlightRow :: go_error where
  "ErrNoInFlightRow \<equiv> Sentinel ''idempotency: no in-flight row to mark committed''"

text \<open>\<open>Only\<close> on the unique columns; \<open>dberr\<close> is what the driver reports instead, if anything.\<close>

definition Lookup :: "go_error option \<Rightarrow> key_row list \<Rightarrow> bytes \<times> uuid \<times> uuid \<Rightarrow> go_error + key_row" where
  "Lookup dberr rows i =
     (case dberr of
        Some e \<Rightarrow> Inl (errorf ''idempotency lookup: '' e)
      | None \<Rightarrow>
          (case filter (\<lambda>r. row_id r = i) rows of
             [] \<Rightarrow> Inl ErrNotFound'
           | [r] \<Rightarrow> Inr r
           | _ \<Rightarrow> Inl (errorf ''idempotency lookup: '' (Sentinel ''ent: idempotency_key not singular''))))"

text \<open>
  \<open>LookupForResolve\<close> reads on the writer pool, in a transaction it rolls back: \<open>rows\<close> are the
  committed ones, and beginning that transaction may fail too.
\<close>

definition LookupForResolve ::
  "go_error option \<Rightarrow> go_error option \<Rightarrow> key_row list \<Rightarrow> bytes \<times> uuid \<times> uuid \<Rightarrow> go_error + key_row"
where
  "LookupForResolve beginerr dberr rows i =
     (case beginerr of
        Some e \<Rightarrow> Inl (errorf ''idempotency lookup-for-resolve: begin: '' e)
      | None \<Rightarrow>
          (case Lookup dberr rows i of
             Inr r \<Rightarrow> Inr r
           | Inl e \<Rightarrow> if e = ErrNotFound' then Inl ErrNotFound'
                      else Inl (errorf ''idempotency lookup-for-resolve: ''
                        (case dberr of Some x \<Rightarrow> x | None \<Rightarrow> Sentinel ''ent: idempotency_key not singular''))))"

text \<open>The unique index over key, tenant and user reports the code of \<open>IsUniqueViolation\<close>.\<close>

definition IsUniqueViolation :: "go_error \<Rightarrow> bool" where
  "IsUniqueViolation err = (case PostgresError err of Some (code, _) \<Rightarrow> code = ''23505'' | None \<Rightarrow> False)"

definition InsertInFlight :: "go_error option \<Rightarrow> time \<Rightarrow> lease \<Rightarrow> key_row list \<Rightarrow> go_error + key_row list" where
  "InsertInFlight dberr now l rows =
     (let result = (case dberr of
            Some e \<Rightarrow> Inl e
          | None \<Rightarrow> if list_ex (\<lambda>r. row_id r = lease_id l) rows then Inl (PqError ''23505'' ''duplicate key value'')
                    else Inr (rows @ [\<lparr>k_key = l_key l, k_tenant = l_tenant l, k_user = l_user l,
                      k_operation = l_operation l, k_checksum = l_checksum l, k_status = StatusInFlight,
                      k_response = [], k_created_at = now\<rparr>]))
      in case result of
           Inr rows' \<Rightarrow> Inr rows'
         | Inl e \<Rightarrow> Inl (if IsUniqueViolation e then ErrUniqueViolation
                         else errorf ''idempotency insert in-flight: '' e))"

definition MarkCommitted :: "go_error option \<Rightarrow> lease \<Rightarrow> bytes \<Rightarrow> key_row list \<Rightarrow> go_error + key_row list" where
  "MarkCommitted dberr l response rows =
     (case dberr of
        Some e \<Rightarrow> Inl (errorf ''idempotency mark committed: '' e)
      | None \<Rightarrow>
          (let hit = (\<lambda>r. row_id r = lease_id l \<and> k_status r = StatusInFlight) in
           if list_ex hit rows
           then Inr (map (\<lambda>r. if hit r then r\<lparr>k_status := StatusCommitted, k_response := response\<rparr> else r) rows)
           else Inl (Wrap (errorText ErrNoInFlightRow @ '': key'') [ErrNoInFlightRow])))"

definition Prune :: "time \<Rightarrow> key_row list \<Rightarrow> key_row list" where
  "Prune olderThan rows = filter (\<lambda>r. \<not> (k_status r = StatusCommitted \<and> k_created_at r < olderThan)) rows"

section \<open>Caching a response\<close>

definition DefaultMaxResponseBytes :: int where
  "DefaultMaxResponseBytes = 1048576"

definition ErrResponseTooLarge :: go_error where
  "ErrResponseTooLarge = Sentinel ''idempotency response too large''"

definition SerializeResponse ::
  "('d gql_response \<Rightarrow> bytes option) \<Rightarrow> 'd gql_response option \<Rightarrow> int \<Rightarrow> go_error + bytes"
where
  "SerializeResponse enc r maxBytes =
     (case r of
        None \<Rightarrow> Inl (Sentinel ''idempotency cannot serialize nil response'')
      | Some r \<Rightarrow>
          (let maxBytes = (if maxBytes \<le> 0 then DefaultMaxResponseBytes else maxBytes) in
           case enc r of
             None \<Rightarrow> Inl (Sentinel ''json: unsupported value'')
           | Some b \<Rightarrow> if int (length b) > maxBytes
                       then Inl (Wrap (errorText ErrResponseTooLarge @ '': '' @ decimal (length b)
                         @ '' bytes exceeds limit of '' @ decimal (nat maxBytes)) [ErrResponseTooLarge])
                       else Inr b))"

definition DeserializeResponse :: "(bytes \<Rightarrow> 'd gql_response option) \<Rightarrow> bytes \<Rightarrow> go_error + 'd gql_response" where
  "DeserializeResponse dec b =
     (if b = [] then Inl (Sentinel ''idempotency cannot deserialize empty response'')
      else case dec b of
        None \<Rightarrow> Inl (errorf ''deserialize cached idempotency response: '' (Sentinel ''json''))
      | Some r \<Rightarrow> Inr r)"

section \<open>The check before a mutation\<close>

datatype action = ActionSkip | ActionProceed | ActionReplay | ActionShortCircuit

record 'd result =
  res_action :: action
  res_response :: "'d gql_response option"
  res_status :: nat
  res_lease :: "lease option"

definition shortCircuit :: "nat \<Rightarrow> string \<Rightarrow> string \<Rightarrow> 'd result" where
  "shortCircuit status code message =
     \<lparr>res_action = ActionShortCircuit,
      res_response = Some \<lparr>resp_data = None, resp_errors =
        [\<lparr>ge_message = message, ge_code = code, ge_status = status, ge_path = [], ge_err = None\<rparr>]\<rparr>,
      res_status = status, res_lease = None\<rparr>"

definition resolveExisting :: "(bytes \<Rightarrow> 'd gql_response option) \<Rightarrow> key_row \<Rightarrow> nat \<Rightarrow> 'd result" where
  "resolveExisting dec rec checksum =
     (if k_checksum rec \<noteq> checksum
      then shortCircuit 422 ''OPERATION_MISMATCH'' ''Idempotency-Key was reused with a different operation or variables''
      else case k_status rec of
        StatusCommitted \<Rightarrow>
          (case DeserializeResponse dec (k_response rec) of
             Inl _ \<Rightarrow> shortCircuit 500 ''IDEMPOTENCY_CACHE_CORRUPT''
               ''internal error: cached idempotency response could not be decoded''
           | Inr resp \<Rightarrow> \<lparr>res_action = ActionReplay, res_response = Some resp, res_status = 200, res_lease = None\<rparr>)
      | StatusInFlight \<Rightarrow> shortCircuit 409 ''IDEMPOTENCY_IN_FLIGHT''
          ''Another request with this Idempotency-Key is currently in flight''
      | StatusOther _ \<Rightarrow> shortCircuit 500 ''IDEMPOTENCY_UNKNOWN_STATUS''
          ''internal error: stored idempotency record has an unknown status'')"

definition ResolveRace ::
  "(bytes \<Rightarrow> 'd gql_response option) \<Rightarrow> go_error option \<Rightarrow> go_error option \<Rightarrow> key_row list \<Rightarrow> lease \<Rightarrow> 'd result"
where
  "ResolveRace dec beginerr dberr rows l =
     (case LookupForResolve beginerr dberr rows (lease_id l) of
        Inl e \<Rightarrow>
          if errors_Is e ErrNotFound'
          then shortCircuit 500 ''IDEMPOTENCY_RACE_GHOST'' ''internal error during idempotency race resolution''
          else shortCircuit 500 ''IDEMPOTENCY_STORE_ERROR'' ''internal error during idempotency check''
      | Inr rec \<Rightarrow> resolveExisting dec rec (l_checksum l))"

datatype operation_kind = Query | Mutation | Subscription

record gql_operation =
  op_kind :: operation_kind
  op_name :: string
  op_selections :: "selection list"
  op_fragments :: fragments

text \<open>
  \<open>auth\<close> is the result of the \<open>AuthLookup\<close> and \<open>checksum\<close> that of \<open>OperationChecksum\<close>; \<open>rows\<close>
  are those the reader pool shows, which may lag behind.
\<close>

definition PreCheck ::
  "(bytes \<Rightarrow> 'd gql_response option) \<Rightarrow> bytes \<Rightarrow> gql_operation option \<Rightarrow> go_error option \<Rightarrow> key_row list
     \<Rightarrow> (uuid \<times> uuid) option \<Rightarrow> go_error + nat \<Rightarrow> 'd result"
where
  "PreCheck dec header oc dberr rows auth checksum =
     (case FromHeaders header of
        Inl e \<Rightarrow> shortCircuit 400 ''INVALID_IDEMPOTENCY_KEY'' (errorText e)
      | Inr key \<Rightarrow>
          if key = [] then \<lparr>res_action = ActionSkip, res_response = None, res_status = 0, res_lease = None\<rparr>
          else case oc of
            None \<Rightarrow> shortCircuit 400 ''INVALID_IDEMPOTENCY_REQUEST'' ''Idempotency-Key requires a parsed GraphQL operation''
          | Some op \<Rightarrow>
              if op_kind op \<noteq> Mutation
              then \<lparr>res_action = ActionSkip, res_response = None, res_status = 0, res_lease = None\<rparr>
              else if op_name op = []
              then shortCircuit 400 ''MISSING_OPERATION_NAME'' ''Idempotency-Key requires operationName to be set on the request''
              else if length (TopLevelFieldNames (op_fragments op) (op_selections op)) > 1
              then shortCircuit 400 ''MULTI_FIELD_MUTATION''
                ''Idempotency-Key cannot be used on requests with more than one top-level mutation field''
              else case auth of
                None \<Rightarrow> shortCircuit 400 ''UNAUTHENTICATED''
                  ''Idempotency-Key requires an authenticated request with a single tenant''
              | Some (tenantID, userID) \<Rightarrow>
                  (case checksum of
                     Inl _ \<Rightarrow> shortCircuit 400 ''INVALID_VARIABLES'' ''Idempotency-Key request could not be encoded''
                   | Inr checksum \<Rightarrow>
                       (case Lookup dberr rows (key, tenantID, userID) of
                          Inl e \<Rightarrow>
                            if errors_Is e ErrNotFound'
                            then \<lparr>res_action = ActionProceed, res_response = None, res_status = 0,
                                   res_lease = Some \<lparr>l_key = key, l_tenant = tenantID, l_user = userID,
                                     l_operation = op_name op, l_checksum = checksum\<rparr>\<rparr>
                            else shortCircuit 500 ''IDEMPOTENCY_STORE_ERROR'' ''internal error during idempotency check''
                        | Inr rec \<Rightarrow> resolveExisting dec rec checksum)))"

section \<open>Lemmas\<close>

lemma lookup_unique:
  assumes "distinct (map row_id rows)" and "r \<in> set rows"
  shows "Lookup None rows (row_id r) = Inr r"
proof -
  from assms(2) obtain as bs where rows: "rows = as @ r # bs" by (meson split_list)
  with assms(1) have "row_id r \<notin> row_id ` set as" "row_id r \<notin> row_id ` set bs" by auto
  then have "filter (\<lambda>x. row_id x = row_id r) as = []" "filter (\<lambda>x. row_id x = row_id r) bs = []"
    by (auto simp: filter_empty_conv) (metis image_eqI)+
  with rows show ?thesis by (simp add: Lookup_def)
qed

lemma LookupForResolve_found [simp]: "Lookup None rows i = Inr r \<Longrightarrow> LookupForResolve None None rows i = Inr r"
  by (simp add: LookupForResolve_def)

lemma InsertInFlight_Inr:
  assumes "InsertInFlight dberr now l rows = Inr rows'"
  shows "\<exists>r. rows' = rows @ [r] \<and> row_id r = lease_id l \<and> k_checksum r = l_checksum l \<and> k_status r = StatusInFlight
    \<and> k_created_at r = now \<and> (\<forall>x \<in> set rows. row_id x \<noteq> lease_id l)"
  using assms by (auto simp: InsertInFlight_def Let_def row_id_def lease_id_def list_ex_iff split: option.splits if_splits)

end
