(* ===== verification/TenantAccess.thy ===== *)
theory TenantAccess
  imports Authn Idempotency
begin

text \<open>
  Which tenants a request acts on: the X-Pyck-Tenant-Id header and its two axes, role and
  liveness (common/tenant/middleware.go), the per-service gate (common/gate/middleware.go) and the
  NATS callout (common/nats). Header values are byte strings, \<open>parse\<close> is \<open>uuid.Parse\<close>; a view
  says what the liveness lookup of the request meets.
\<close>

section \<open>The header\<close>

datatype tenant_error =
    ErrInvalidTenantID bytes
  | ErrNoUser bytes
  | ErrNoAccessToTenantID uuid
  | ErrTenantDisabled "uuid option"
  | ErrTenantNotSingle nat
  | ErrTenantNotServed uuid

record selection =
  sel_Explicit :: "uuid list"
  sel_All :: bool

definition AllTenantIDsValue :: bytes where
  "AllTenantIDsValue = [97, 108, 108]"

definition selectPart ::
  "(bytes \<Rightarrow> uuid option) \<Rightarrow> user \<Rightarrow> bytes \<Rightarrow> selection \<Rightarrow> tenant_error + selection"
where
  "selectPart parse u part sel =
     (let tenantIDStr = trimSpace part in
      if tenantIDStr = [] then Inr sel
      else if tenantIDStr = AllTenantIDsValue
      then (if \<not> IsAuthenticated u then Inl (ErrNoUser tenantIDStr) else Inr (sel\<lparr>sel_All := True\<rparr>))
      else case parse tenantIDStr of
             None \<Rightarrow> Inl (ErrInvalidTenantID tenantIDStr)
           | Some tenantID \<Rightarrow>
               if tenantID \<in> set (sel_Explicit sel) then Inr sel
               else Inr (sel\<lparr>sel_Explicit := sel_Explicit sel @ [tenantID]\<rparr>))"

definition parseSelection ::
  "(bytes \<Rightarrow> uuid option) \<Rightarrow> user \<Rightarrow> bytes list \<Rightarrow> tenant_error + selection"
where
  "parseSelection parse u headerValues =
     (case foldRes (selectPart parse u) (concat (map (strings_Split 44) headerValues))
             \<lparr>sel_Explicit = [], sel_All = False\<rparr> of
        Inl e \<Rightarrow> Inl e
      | Inr sel \<Rightarrow> Inr (if sel_Explicit sel = [] \<and> \<not> sel_All sel then sel\<lparr>sel_All := True\<rparr> else sel))"

definition actingTenants :: "selection \<Rightarrow> user \<Rightarrow> uuid list" where
  "actingTenants sel u =
     (if \<not> sel_All sel \<or> \<not> IsAuthenticated u then sel_Explicit sel
      else sel_Explicit sel @ filter (\<lambda>t. t \<notin> set (sel_Explicit sel)) (gkeys (u_Roles u)))"

definition ParseHeaders ::
  "(bytes \<Rightarrow> uuid option) \<Rightarrow> user \<Rightarrow> bytes list \<Rightarrow> tenant_error + uuid list"
where
  "ParseHeaders parse u headerValues =
     (case parseSelection parse u headerValues of Inl e \<Rightarrow> Inl e | Inr sel \<Rightarrow> Inr (actingTenants sel u))"

section \<open>The middleware\<close>

definition tenantsToCheck :: "user \<Rightarrow> uuid list \<Rightarrow> uuid list" where
  "tenantsToCheck u acting = (if u_TenantID u \<in> set acting then acting else acting @ [u_TenantID u])"

definition authorizeLiveTenants ::
  "'e liveness_view \<Rightarrow> user \<Rightarrow> selection \<Rightarrow> uuid list \<Rightarrow> tenant_error + uuid list"
where
  "authorizeLiveTenants w u sel acting =
     (if IsSystemUser u \<or> \<not> IsAuthenticated u then Inr acting
      else
        (let live = is_live (fst (LookupTenants w (tenantsToCheck u acting))) in
         if \<not> live (u_TenantID u) then Inl (ErrTenantDisabled (Some (u_TenantID u)))
         else case find (\<lambda>t. \<not> live t) (sel_Explicit sel) of
                Some t \<Rightarrow> Inl (ErrTenantDisabled (Some t))
              | None \<Rightarrow>
                  (let kept = filter live acting; dropped = filter (\<lambda>t. \<not> live t) acting in
                   if dropped = [] then Inr kept
                   else if kept = [] then Inl (ErrTenantDisabled None)
                   else Inr kept)))"

text \<open>A refusal is the status with the error; otherwise the acting set the request goes on with.\<close>

definition tenant_ServeHTTP ::
  "(bytes \<Rightarrow> uuid option) \<Rightarrow> 'e liveness_view \<Rightarrow> user \<Rightarrow> bytes list \<Rightarrow> (nat \<times> tenant_error) + uuid list"
where
  "tenant_ServeHTTP parse w u headerValues =
     (case parseSelection parse u headerValues of
        Inl e \<Rightarrow> Inl (400, e)
      | Inr sel \<Rightarrow>
          (let acting = actingTenants sel u in
           case find (\<lambda>t. \<not> HasRole u ROLE_READER [t]) acting of
             Some t \<Rightarrow> Inl (400, ErrNoAccessToTenantID t)
           | None \<Rightarrow>
               (case authorizeLiveTenants w u sel acting of
                  Inl e \<Rightarrow> Inl (403, e)
                | Inr tenantIDs \<Rightarrow> Inr tenantIDs)))"

text \<open>The gate of a service: whether the request may go on.\<close>

definition gate_admits :: "string \<Rightarrow> user \<Rightarrow> uuid list \<Rightarrow> bool" where
  "gate_admits roleKey u tenantIDs \<longleftrightarrow>
     (if \<not> IsAuthenticated u then True
      else if tenantIDs = [] \<and> \<not> IsSystemUser u then False
      else list_all (\<lambda>t. HasServiceRole u roleKey t) tenantIDs)"

section \<open>The NATS callout\<close>

definition resolveTenant ::
  "(bytes \<Rightarrow> uuid option) \<Rightarrow> user \<Rightarrow> bytes list \<Rightarrow> tenant_error + uuid"
where
  "resolveTenant parse u headerValues =
     (case ParseHeaders parse u headerValues of
        Inl e \<Rightarrow> Inl e
      | Inr tenantIDs \<Rightarrow>
          (case tenantIDs of
             [t] \<Rightarrow> if \<not> HasRole u ROLE_READER [t] then Inl (ErrNoAccessToTenantID t) else Inr t
           | _ \<Rightarrow> Inl (ErrTenantNotSingle (length tenantIDs))))"

definition authorizeTenantSelection ::
  "(bytes \<Rightarrow> uuid option) \<Rightarrow> 'e liveness_view \<Rightarrow> user \<Rightarrow> bytes list \<Rightarrow> tenant_error + uuid"
where
  "authorizeTenantSelection parse w u headerValues =
     (case resolveTenant parse u headerValues of
        Inl e \<Rightarrow> Inl e
      | Inr t \<Rightarrow>
          if IsSystemUser u then Inr t
          else if \<not> is_live (fst (LookupTenants w [t])) t then Inl (ErrTenantNotServed t)
          else Inr t)"

section \<open>Lemmas\<close>

lemma find_None_all: "find P xs = None \<longleftrightarrow> (\<forall>x \<in> set xs. \<not> P x)"
  by (auto simp: find_None_iff)

lemma findD: "find P xs = Some x \<Longrightarrow> x \<in> set xs \<and> P x"
  by (auto simp: find_Some_iff)

lemma selectPart_distinct:
  "selectPart parse u part sel = Inr sel' \<Longrightarrow> distinct (sel_Explicit sel) \<Longrightarrow> distinct (sel_Explicit sel')"
  by (auto simp: selectPart_def Let_def split: if_splits option.splits)

lemma parseSelection_distinct:
  assumes "parseSelection parse u values = Inr sel"
  shows "distinct (sel_Explicit sel)"
proof -
  have "distinct (sel_Explicit sel')"
    if "foldRes (selectPart parse u) parts sel0 = Inr sel'" "distinct (sel_Explicit sel0)" for parts sel0 sel'
    using that by (induction parts arbitrary: sel0) (auto split: sum.splits dest: selectPart_distinct)
  with assms show ?thesis by (fastforce simp: parseSelection_def split: sum.splits if_splits)
qed

lemma actingTenants_distinct: "distinct (sel_Explicit sel) \<Longrightarrow> distinct (actingTenants sel u)"
  by (auto simp: actingTenants_def)

lemma explicit_acting: "set (sel_Explicit sel) \<subseteq> set (actingTenants sel u)"
  by (auto simp: actingTenants_def)

lemma tenantsToCheck_acting: "set acting \<subseteq> set (tenantsToCheck u acting)"
  by (auto simp: tenantsToCheck_def)

lemma authorizeLiveTenants_Inr:
  assumes "authorizeLiveTenants w u sel acting = Inr ts" and "\<not> IsSystemUser u" and "IsAuthenticated u"
    and "live = is_live (fst (LookupTenants w (tenantsToCheck u acting)))"
  shows "live (u_TenantID u)" and "ts = filter live acting" and "\<forall>t \<in> set (sel_Explicit sel). live t"
    and "acting \<noteq> [] \<Longrightarrow> ts \<noteq> []"
  using assms
  by (auto simp: authorizeLiveTenants_def Let_def find_None_all filter_empty_conv split: if_splits option.splits)

text \<open>What gets through the middleware was found live by its own lookup.\<close>

lemma tenant_ServeHTTP_Inr:
  assumes "tenant_ServeHTTP parse w u headerValues = Inr ts"
  obtains sel where "parseSelection parse u headerValues = Inr sel"
    and "\<forall>t \<in> set (actingTenants sel u). HasRole u ROLE_READER [t]"
    and "authorizeLiveTenants w u sel (actingTenants sel u) = Inr ts"
  using assms by (auto simp: tenant_ServeHTTP_def Let_def find_None_all split: sum.splits option.splits)

lemma tenant_ServeHTTP_anonymous:
  assumes "tenant_ServeHTTP parse w u headerValues = Inr ts" and "\<not> IsAuthenticated u"
  shows "ts = []"
proof -
  from assms(1) obtain sel where "\<forall>t \<in> set (actingTenants sel u). HasRole u ROLE_READER [t]"
    and "authorizeLiveTenants w u sel (actingTenants sel u) = Inr ts"
    by (rule tenant_ServeHTTP_Inr)
  with assms(2) show ?thesis
    by (cases ts) (auto simp: HasRole_def authorizeLiveTenants_def)
qed

lemma middleware_live:
  assumes "tenant_ServeHTTP parse w u headerValues = Inr ts" and "\<not> IsSystemUser u"
  shows "\<forall>t \<in> set ts. \<exists>ids. is_live (fst (LookupTenants w ids)) t"
    and "IsAuthenticated u \<Longrightarrow> \<exists>ids. is_live (fst (LookupTenants w ids)) (u_TenantID u)"
proof -
  from assms(1) obtain sel where auth: "authorizeLiveTenants w u sel (actingTenants sel u) = Inr ts"
    by (rule tenant_ServeHTTP_Inr)
  note inr = authorizeLiveTenants_Inr [OF auth assms(2) _ refl]
  show "\<forall>t \<in> set ts. \<exists>ids. is_live (fst (LookupTenants w ids)) t"
    using inr(2) tenant_ServeHTTP_anonymous [OF assms(1)] by (cases "IsAuthenticated u") auto
  show "IsAuthenticated u \<Longrightarrow> \<exists>ids. is_live (fst (LookupTenants w ids)) (u_TenantID u)"
    using inr(1) by blast
qed

lemma authorizeLiveTenants_iff:
  assumes "IsAuthenticated u" and "\<not> IsSystemUser u"
    and "live = is_live (fst (LookupTenants w (tenantsToCheck u acting)))"
  shows "authorizeLiveTenants w u sel acting = Inr ts \<longleftrightarrow>
    live (u_TenantID u) \<and> (\<forall>t \<in> set (sel_Explicit sel). live t) \<and> ts = filter live acting \<and> (acting \<noteq> [] \<longrightarrow> ts \<noteq> [])"
proof
  assume "authorizeLiveTenants w u sel acting = Inr ts"
  from authorizeLiveTenants_Inr [OF this assms(2,1,3)]
  show "live (u_TenantID u) \<and> (\<forall>t \<in> set (sel_Explicit sel). live t) \<and> ts = filter live acting \<and> (acting \<noteq> [] \<longrightarrow> ts \<noteq> [])"
    by blast
next
  assume r: "live (u_TenantID u) \<and> (\<forall>t \<in> set (sel_Explicit sel). live t) \<and> ts = filter live acting \<and> (acting \<noteq> [] \<longrightarrow> ts \<noteq> [])"
  then have "find (\<lambda>t. \<not> live t) (sel_Explicit sel) = None" by (simp add: find_None_all)
  moreover have "filter live acting \<noteq> []" if "filter (\<lambda>t. \<not> live t) acting \<noteq> []"
    using that r by (cases "acting = []") auto
  ultimately show "authorizeLiveTenants w u sel acting = Inr ts"
    using r assms(1,2) unfolding authorizeLiveTenants_def assms(3) [symmetric] Let_def by auto
qed

lemma ParseHeaders_Inr: "ParseHeaders parse u headerValues = Inr ts \<longleftrightarrow>
    (\<exists>sel. parseSelection parse u headerValues = Inr sel \<and> ts = actingTenants sel u)"
  by (auto simp: ParseHeaders_def split: sum.splits)

text \<open>
  C18: whom a request may act for. The middleware lets it through with the set \<open>ts\<close> exactly when the
  header parses, the caller holds at least the reader role in every tenant that header and roles expand
  to, and, for an authenticated caller that is not the system user, the home tenant and every tenant the header names are
  live and \<open>ts\<close> is the live part of that expansion, not empty unless the expansion was. Such a set names
  no tenant twice and is empty for an unauthenticated caller. The gate then admits an authenticated caller
  exactly when every tenant of the set grants it the role of the service, and only the system user
  with an empty set. The NATS callout scopes a connection to \<open>t\<close> exactly when the expansion is \<open>t\<close> alone, the caller is at
  least its reader, and \<open>t\<close> is live unless the caller is the system user.
\<close>
theorem acting_set_authorised:
  "(tenant_ServeHTTP parse w u headerValues = Inr ts \<longleftrightarrow>
      (\<exists>sel. parseSelection parse u headerValues = Inr sel \<and> (\<forall>t \<in> set (actingTenants sel u). HasRole u ROLE_READER [t])
        \<and> (let acting = actingTenants sel u; live = is_live (fst (LookupTenants w (tenantsToCheck u acting))) in
           if IsSystemUser u \<or> \<not> IsAuthenticated u then ts = acting
           else live (u_TenantID u) \<and> (\<forall>t \<in> set (sel_Explicit sel). live t) \<and> ts = filter live acting
             \<and> (acting \<noteq> [] \<longrightarrow> ts \<noteq> []))))
   \<and> (tenant_ServeHTTP parse w u headerValues = Inr ts \<longrightarrow>
      distinct ts \<and> (\<forall>t \<in> set ts. HasRole u ROLE_READER [t])
      \<and> (if IsAuthenticated u
         then gate_admits roleKey u ts \<longleftrightarrow> (\<forall>t \<in> set ts. HasServiceRole u roleKey t) \<and> (ts = [] \<longrightarrow> IsSystemUser u)
         else ts = []))
   \<and> (authorizeTenantSelection parse w u headerValues = Inr t \<longleftrightarrow>
      (\<exists>sel. parseSelection parse u headerValues = Inr sel \<and> actingTenants sel u = [t] \<and> HasRole u ROLE_READER [t]
        \<and> (IsSystemUser u \<or> is_live (fst (LookupTenants w [t])) t)))"
proof (intro conjI impI)
  have plain: "authorizeLiveTenants w u sel acting = Inr ts \<longleftrightarrow> ts = acting" if "IsSystemUser u \<or> \<not> IsAuthenticated u"
    for sel acting
    using that by (auto simp: authorizeLiveTenants_def)
  have "tenant_ServeHTTP parse w u headerValues = Inr ts \<longleftrightarrow>
      (\<exists>sel. parseSelection parse u headerValues = Inr sel \<and> (\<forall>t \<in> set (actingTenants sel u). HasRole u ROLE_READER [t])
        \<and> authorizeLiveTenants w u sel (actingTenants sel u) = Inr ts)"
    by (auto simp: tenant_ServeHTTP_def Let_def find_None_all dest!: findD split: sum.splits option.splits)
  then show "tenant_ServeHTTP parse w u headerValues = Inr ts \<longleftrightarrow>
      (\<exists>sel. parseSelection parse u headerValues = Inr sel \<and> (\<forall>t \<in> set (actingTenants sel u). HasRole u ROLE_READER [t])
        \<and> (let acting = actingTenants sel u; live = is_live (fst (LookupTenants w (tenantsToCheck u acting))) in
           if IsSystemUser u \<or> \<not> IsAuthenticated u then ts = acting
           else live (u_TenantID u) \<and> (\<forall>t \<in> set (sel_Explicit sel). live t) \<and> ts = filter live acting
             \<and> (acting \<noteq> [] \<longrightarrow> ts \<noteq> [])))"
    by (cases "IsSystemUser u \<or> \<not> IsAuthenticated u") (simp_all add: plain authorizeLiveTenants_iff Let_def)
next
  assume run: "tenant_ServeHTTP parse w u headerValues = Inr ts"
  then obtain sel where sel: "parseSelection parse u headerValues = Inr sel"
    and roles: "\<forall>t \<in> set (actingTenants sel u). HasRole u ROLE_READER [t]"
    and auth: "authorizeLiveTenants w u sel (actingTenants sel u) = Inr ts"
    by (rule tenant_ServeHTTP_Inr)
  have "ts = actingTenants sel u" if "IsSystemUser u \<or> \<not> IsAuthenticated u"
    using auth that by (simp add: authorizeLiveTenants_def)
  then have sub: "set ts \<subseteq> set (actingTenants sel u)" "distinct ts"
    using authorizeLiveTenants_Inr(2) [OF auth _ _ refl] actingTenants_distinct [OF parseSelection_distinct [OF sel]]
    by (cases "IsSystemUser u \<or> \<not> IsAuthenticated u"; auto)+
  with roles show "distinct ts" "\<forall>t \<in> set ts. HasRole u ROLE_READER [t]" by auto
  show "if IsAuthenticated u
      then gate_admits roleKey u ts \<longleftrightarrow> (\<forall>t \<in> set ts. HasServiceRole u roleKey t) \<and> (ts = [] \<longrightarrow> IsSystemUser u)
      else ts = []"
    using tenant_ServeHTTP_anonymous [OF run] by (auto simp: gate_admits_def list_all_iff)
next
  show "authorizeTenantSelection parse w u headerValues = Inr t \<longleftrightarrow>
      (\<exists>sel. parseSelection parse u headerValues = Inr sel \<and> actingTenants sel u = [t] \<and> HasRole u ROLE_READER [t]
        \<and> (IsSystemUser u \<or> is_live (fst (LookupTenants w [t])) t))"
    by (auto simp: authorizeTenantSelection_def resolveTenant_def ParseHeaders_def split: sum.splits list.splits if_splits)
qed

end
