(* ===== verification/TemporalAuthz.thy ===== *)
theory TemporalAuthz
  imports TenantAccess "HOL-Library.Word"
begin

text \<open>
  temporal/authz: the claim mapper, the authorizer and the namespace filter of the Temporal
  frontend. The role bits, the API name prefixes, \<open>api.ServiceName\<close> and the base authorizer
  belong to the Temporal server and are arguments; \<open>str\<close> is \<open>uuid.UUID.String\<close>. Claims without
  the extension come from the internal frontend.
\<close>

unbundle bit_operations_syntax

type_synonym temporal_role = "16 word"

record temporal_lib =
  tl_Reader :: temporal_role
  tl_Writer :: temporal_role
  tl_Admin :: temporal_role
  tl_Undefined :: temporal_role
  tl_ServiceName :: "string \<Rightarrow> string"
  tl_HealthCheck :: string
  tl_Workflow :: string
  tl_Operator :: string
  tl_Nexus :: string

definition covers :: "temporal_role \<Rightarrow> temporal_role \<Rightarrow> bool" where
  "covers role required \<longleftrightarrow> role AND required = required"

definition TemporalRole :: "temporal_lib \<Rightarrow> role \<Rightarrow> temporal_role" where
  "TemporalRole lib r =
     (case r of
        ROLE_READER \<Rightarrow> tl_Reader lib
      | ROLE_WRITER \<Rightarrow> tl_Reader lib OR tl_Writer lib
      | ROLE_ADMIN \<Rightarrow> tl_Reader lib OR tl_Writer lib OR tl_Admin lib
      | _ \<Rightarrow> tl_Undefined lib)"

definition PyckRole :: "temporal_lib \<Rightarrow> temporal_role \<Rightarrow> role" where
  "PyckRole lib role =
     (if covers role (tl_Admin lib) then ROLE_ADMIN
      else if covers role (tl_Writer lib) then ROLE_WRITER
      else if covers role (tl_Reader lib) then ROLE_READER
      else ROLE_NONE)"

section \<open>Claims\<close>

record claims =
  cl_Subject :: string
  cl_System :: temporal_role
  cl_Namespaces :: "(string, temporal_role) gomap"
  cl_User :: "user option"

definition zero_user :: user where
  "zero_user = \<lparr>u_ID = uuid_Nil, u_TenantID = uuid_Nil, u_Sub = [], u_Username = [], u_Roles = [], u_ServiceRoles = [], u_Token = []\<rparr>"

definition claim_namespaces ::
  "temporal_lib \<Rightarrow> (uuid \<Rightarrow> string) \<Rightarrow> 'e liveness_view \<Rightarrow> user \<Rightarrow> (string, temporal_role) gomap"
where
  "claim_namespaces lib str w u =
     (let grant = (\<lambda>t. gput (str t) (TemporalRole lib (roleIn u t))) in
      if IsSystemUser u then fold grant (gkeys (u_Roles u)) []
      else let live = is_live (fst (LookupTenants w (user_TenantIDs u))) in
        fold grant (filter live (gkeys (u_Roles u))) [])"

datatype claim_error = ErrNoAuthInfo | ErrAuthFailed

definition bearerPrefix :: bytes where
  "bearerPrefix = [66, 101, 97, 114, 101, 114, 32]"

definition claimToken :: "bytes \<Rightarrow> bytes" where
  "claimToken raw =
     (let token = trimSpace raw in
      trimSpace (if take 7 token = bearerPrefix then drop 7 token else token))"

text \<open>\<open>authToken\<close> is \<open>None\<close> for a missing \<open>AuthInfo\<close>; \<open>authenticate\<close> is the authenticator.\<close>

definition GetClaims ::
  "temporal_lib \<Rightarrow> (uuid \<Rightarrow> string) \<Rightarrow> (bytes \<Rightarrow> 'a + user) \<Rightarrow> 'e liveness_view \<Rightarrow> bytes option
     \<Rightarrow> claims \<times> claim_error option"
where
  "GetClaims lib str authenticate w authToken =
     (let empty = \<lparr>cl_Subject = [], cl_System = 0, cl_Namespaces = [], cl_User = Some zero_user\<rparr> in
      case authToken of
        None \<Rightarrow> (empty, Some ErrNoAuthInfo)
      | Some raw \<Rightarrow>
          if raw = [] then (empty, Some ErrNoAuthInfo)
          else case authenticate (claimToken raw) of
                 Inl _ \<Rightarrow> (empty, Some ErrAuthFailed)
               | Inr u \<Rightarrow>
                   if \<not> IsAuthenticated u then (empty, Some ErrAuthFailed)
                   else (\<lparr>cl_Subject = str (u_ID u),
                          cl_System = (if IsSystemUser u then tl_Reader lib OR tl_Writer lib else tl_Undefined lib),
                          cl_Namespaces = claim_namespaces lib str w u, cl_User = Some u\<rparr>, None))"

section \<open>The authorizer\<close>

record acl =
  acl_Disabled :: bool
  acl_Public :: bool
  acl_RequiredRole :: temporal_role

definition aclOverride :: "temporal_lib \<Rightarrow> (string \<times> acl) list" where
  "aclOverride lib =
     (let public = \<lparr>acl_Disabled = False, acl_Public = True, acl_RequiredRole = 0\<rparr>;
          disabled = \<lparr>acl_Disabled = True, acl_Public = False, acl_RequiredRole = 0\<rparr>;
          authenticated = \<lparr>acl_Disabled = False, acl_Public = False, acl_RequiredRole = tl_Undefined lib\<rparr> in
      [(tl_HealthCheck lib, public), (tl_Workflow lib @ ''GetSystemInfo'', public),
       (tl_Nexus lib, disabled), (tl_Workflow lib @ ''RegisterNamespace'', disabled),
       (tl_Workflow lib @ ''UpdateNamespace'', disabled), (tl_Workflow lib @ ''DeprecateNamespace'', disabled),
       (tl_Operator lib @ ''DeleteNamespace'', disabled),
       (tl_Operator lib @ ''AddSearchAttributes'', disabled), (tl_Operator lib @ ''RemoveSearchAttributes'', disabled),
       (tl_Workflow lib @ ''GetClusterInfo'', authenticated), (tl_Workflow lib @ ''GetSearchAttributes'', authenticated),
       (tl_Workflow lib @ ''ListNamespaces'', authenticated)])"

record call_target =
  ct_APIName :: string
  ct_Namespace :: string
  ct_RequestNamespace :: "string option"

datatype decision = DecisionAllow | DecisionDeny

definition overrideOf :: "temporal_lib \<Rightarrow> string \<Rightarrow> acl option" where
  "overrideOf lib api =
     (case map_of (aclOverride lib) api of
        Some a \<Rightarrow> Some a
      | None \<Rightarrow> map_of (aclOverride lib) (tl_ServiceName lib api))"

definition Authorize ::
  "temporal_lib \<Rightarrow> (claims option \<Rightarrow> call_target \<Rightarrow> 'e + decision \<times> string) \<Rightarrow> claims option \<Rightarrow> call_target
     \<Rightarrow> 'e + decision \<times> string"
where
  "Authorize lib base claims target =
     (case (case claims of None \<Rightarrow> None | Some c \<Rightarrow> cl_User c) of
        None \<Rightarrow> base claims target
      | Some u \<Rightarrow>
          (let c = the claims;
               target' = (case ct_RequestNamespace target of None \<Rightarrow> target | Some ns \<Rightarrow> target\<lparr>ct_Namespace := ns\<rparr>) in
           case overrideOf lib (ct_APIName target') of
             None \<Rightarrow> base claims target'
           | Some override \<Rightarrow>
               if acl_Disabled override then Inr (DecisionDeny, ''API is disabled'')
               else if acl_Public override then Inr (DecisionAllow, ''API is public'')
               else if \<not> IsAuthenticated u then Inr (DecisionDeny, ''User is not authenticated'')
               else if acl_RequiredRole override = tl_Undefined lib then Inr (DecisionAllow, ''API has no role requirement'')
               else if covers (cl_System c) (acl_RequiredRole override)
               then Inr (DecisionAllow, ''User has required system role'')
               else if ct_Namespace target' \<noteq> [] \<and>
                 (case gget (cl_Namespaces c) (ct_Namespace target') of
                    None \<Rightarrow> False | Some role \<Rightarrow> covers role (acl_RequiredRole override))
               then Inr (DecisionAllow, ''User has required namespace role'')
               else Inr (DecisionDeny, ''User does not have required role'')))"

text \<open>The namespaces a listing shows; \<open>None\<close> is an entry without info.\<close>

definition filterListNamespaces :: "temporal_lib \<Rightarrow> claims option \<Rightarrow> string option list \<Rightarrow> string option list" where
  "filterListNamespaces lib claims nss =
     (case (case claims of None \<Rightarrow> None | Some c \<Rightarrow> cl_User c) of
        None \<Rightarrow> nss
      | Some u \<Rightarrow>
          if IsSystemUser u then nss
          else filter (\<lambda>ns. case ns of None \<Rightarrow> False
             | Some name \<Rightarrow> name \<noteq> [] \<and>
                 (case gget (cl_Namespaces (the claims)) name of None \<Rightarrow> False | Some role \<Rightarrow> covers role (tl_Reader lib))) nss)"

section \<open>Role bits\<close>

text \<open>What the Temporal server documents of its roles: distinct bits, and no bit for none.\<close>

definition role_bits :: "temporal_lib \<Rightarrow> bool" where
  "role_bits lib \<longleftrightarrow> tl_Undefined lib = 0 \<and> tl_Reader lib \<noteq> 0 \<and> tl_Writer lib \<noteq> 0 \<and> tl_Admin lib \<noteq> 0
     \<and> tl_Reader lib AND tl_Writer lib = 0 \<and> tl_Reader lib AND tl_Admin lib = 0 \<and> tl_Writer lib AND tl_Admin lib = 0"

lemma covers_TemporalRole:
  assumes "role_bits lib"
  shows "covers (TemporalRole lib r) (tl_Reader lib) \<longleftrightarrow> r \<in> {ROLE_READER, ROLE_WRITER, ROLE_ADMIN}"
    and "covers (TemporalRole lib r) (tl_Writer lib) \<longleftrightarrow> r \<in> {ROLE_WRITER, ROLE_ADMIN}"
    and "covers (TemporalRole lib r) (tl_Admin lib) \<longleftrightarrow> r = ROLE_ADMIN"
  using assms
  by (cases r; auto simp: covers_def TemporalRole_def role_bits_def bit.conj_disj_distrib bit.conj_disj_distrib2 and.commute)+

text \<open>
  The ladder survives the trip to Temporal and back, but for the system role, which has no
  namespace role and comes back as none.
\<close>
theorem role_round_trip:
  assumes "role_bits lib"
  shows "PyckRole lib (TemporalRole lib r) = (if r = ROLE_SYSTEM then ROLE_NONE else r)"
  using covers_TemporalRole [OF assms, of r] by (cases r) (simp_all add: PyckRole_def)

section \<open>Properties\<close>

lemma gget_fold_keyed:
  assumes "inj f"
  shows "gget (fold (\<lambda>x. gput (f x) (g x)) xs m) (f k) = (if k \<in> set xs then Some (g k) else gget m (f k))"
  using assms by (induction xs arbitrary: m) (auto dest: injD)

lemma claim_namespaces_gget:
  assumes "inj str"
  shows "gget (claim_namespaces lib str w u) (str t) =
     (if gget (u_Roles u) t \<noteq> None \<and> (IsSystemUser u \<or> is_live (fst (LookupTenants w (user_TenantIDs u))) t)
      then Some (TemporalRole lib (roleIn u t)) else None)"
  by (auto simp: claim_namespaces_def Let_def gget_fold_keyed [OF assms] gkeys_gget)

text \<open>
  C28: the claims of a tenant user open exactly its live tenants, with exactly its rung of the
  ladder, and nothing of the system; and the namespaces a listing shows it are those.
\<close>
theorem claims_follow_roles:
  assumes "role_bits lib" and "inj str" and "GetClaims lib str authenticate w (Some raw) = (c, None)"
    and "authenticate (claimToken raw) = Inr u" and "\<not> IsSystemUser u"
    and "live = is_live (fst (LookupTenants w (user_TenantIDs u)))"
  shows "cl_System c = 0 \<and> cl_User c = Some u
    \<and> (\<forall>t. (\<exists>role. gget (cl_Namespaces c) (str t) = Some role \<and> covers role (tl_Reader lib))
          \<longleftrightarrow> live t \<and> roleIn u t \<in> {ROLE_READER, ROLE_WRITER, ROLE_ADMIN})
    \<and> (\<forall>t. (\<exists>role. gget (cl_Namespaces c) (str t) = Some role \<and> covers role (tl_Writer lib))
          \<longleftrightarrow> live t \<and> roleIn u t \<in> {ROLE_WRITER, ROLE_ADMIN})
    \<and> (\<forall>t. (\<exists>role. gget (cl_Namespaces c) (str t) = Some role \<and> covers role (tl_Admin lib))
          \<longleftrightarrow> live t \<and> roleIn u t = ROLE_ADMIN)
    \<and> (\<forall>t nss. str t \<noteq> [] \<longrightarrow> Some (str t) \<in> set (filterListNamespaces lib (Some c) nss)
          \<longleftrightarrow> Some (str t) \<in> set nss \<and> live t \<and> roleIn u t \<in> {ROLE_READER, ROLE_WRITER, ROLE_ADMIN})"
proof -
  from assms(3,4,5) have c: "cl_System c = tl_Undefined lib" "cl_User c = Some u" "cl_Namespaces c = claim_namespaces lib str w u"
    by (auto simp: GetClaims_def Let_def split: if_splits)
  have role: "gget (u_Roles u) t \<noteq> None" if "roleIn u t \<noteq> ROLE_NONE" for t
    using that by (auto simp: roleIn_def ggetd_def split: option.splits)
  have ns: "gget (cl_Namespaces c) (str t) = (if gget (u_Roles u) t \<noteq> None \<and> live t then Some (TemporalRole lib (roleIn u t)) else None)" for t
    unfolding c(3) claim_namespaces_gget [OF assms(2)] assms(6) using assms(5) by simp
  have bits: "(\<exists>role. gget (cl_Namespaces c) (str t) = Some role \<and> covers role (tl_Reader lib))
      \<longleftrightarrow> live t \<and> roleIn u t \<in> {ROLE_READER, ROLE_WRITER, ROLE_ADMIN}"
    "(\<exists>role. gget (cl_Namespaces c) (str t) = Some role \<and> covers role (tl_Writer lib)) \<longleftrightarrow> live t \<and> roleIn u t \<in> {ROLE_WRITER, ROLE_ADMIN}"
    "(\<exists>role. gget (cl_Namespaces c) (str t) = Some role \<and> covers role (tl_Admin lib)) \<longleftrightarrow> live t \<and> roleIn u t = ROLE_ADMIN" for t
    using role [of t] by (auto simp: ns covers_TemporalRole [OF assms(1)])
  have "Some (str t) \<in> set (filterListNamespaces lib (Some c) nss) \<longleftrightarrow>
      Some (str t) \<in> set nss \<and> (\<exists>role. gget (cl_Namespaces c) (str t) = Some role \<and> covers role (tl_Reader lib))"
    if "str t \<noteq> []" for t nss
    using that assms(5) c(2) by (auto simp: filterListNamespaces_def split: option.splits)
  with bits c(1,2) assms(1) show ?thesis by (simp add: role_bits_def)
qed

definition disabledAPIs :: "temporal_lib \<Rightarrow> string list" where
  "disabledAPIs lib = [tl_Nexus lib, tl_Workflow lib @ ''RegisterNamespace'',
     tl_Workflow lib @ ''UpdateNamespace'', tl_Workflow lib @ ''DeprecateNamespace'', tl_Operator lib @ ''DeleteNamespace'',
     tl_Operator lib @ ''AddSearchAttributes'', tl_Operator lib @ ''RemoveSearchAttributes'']"

lemma aclOverride_split:
  "\<exists>before after. aclOverride lib =
     before @ map (\<lambda>k. (k, \<lparr>acl_Disabled = True, acl_Public = False, acl_RequiredRole = 0\<rparr>)) (disabledAPIs lib) @ after"
  unfolding aclOverride_def Let_def disabledAPIs_def
  by (rule exI [of _ "[_, _]"], rule exI [of _ "[_, _, _]"]) (simp only: list.map append.simps)

lemma overrides_disabled:
  assumes "distinct (map fst (aclOverride lib))" and "k \<in> set (disabledAPIs lib)"
  shows "\<exists>a. map_of (aclOverride lib) k = Some a \<and> acl_Disabled a"
proof -
  from aclOverride_split [of lib] assms(2)
  have "(k, \<lparr>acl_Disabled = True, acl_Public = False, acl_RequiredRole = 0\<rparr>) \<in> set (aclOverride lib)" by auto
  with assms(1) show ?thesis by (auto dest: map_of_is_SomeI)
qed

lemma overrides_role: "map_of (aclOverride lib) k = Some a \<Longrightarrow> \<not> acl_Disabled a \<Longrightarrow> \<not> acl_Public a \<Longrightarrow> acl_RequiredRole a = tl_Undefined lib"
  by (drule map_of_SomeD) (auto simp: aclOverride_def Let_def)

text \<open>
  What the authorizer lets through on the public frontend. A disabled API is refused whatever
  the claims say, a namespace admin's and the system user's included; every other API with an
  override is refused exactly to callers that are not authenticated, unless it is public; and an
  API without one is left to the base authorizer, about the namespace the request itself names.
\<close>
theorem authorizer_decides:
  assumes "distinct (map fst (aclOverride lib))" and "cl_User c = Some u"
    and "target' = (case ct_RequestNamespace target of None \<Rightarrow> target | Some ns \<Rightarrow> target\<lparr>ct_Namespace := ns\<rparr>)"
  shows "(ct_APIName target \<in> set (disabledAPIs lib) \<or>
       (tl_ServiceName lib (ct_APIName target) \<in> set (disabledAPIs lib) \<and> ct_APIName target \<notin> fst ` set (aclOverride lib))
       \<longrightarrow> (\<exists>why. Authorize lib base (Some c) target = Inr (DecisionDeny, why)))
    \<and> (\<forall>a. overrideOf lib (ct_APIName target) = Some a \<longrightarrow> \<not> acl_Disabled a \<longrightarrow>
         (\<exists>d why. Authorize lib base (Some c) target = Inr (d, why) \<and> (d = DecisionAllow \<longleftrightarrow> acl_Public a \<or> IsAuthenticated u)))
    \<and> (overrideOf lib (ct_APIName target) = None \<longrightarrow> Authorize lib base (Some c) target = base (Some c) target')"
proof -
  have api: "ct_APIName target' = ct_APIName target" using assms(3) by (auto split: option.splits)
  have run: "Authorize lib base (Some c) target =
      (case overrideOf lib (ct_APIName target) of
         None \<Rightarrow> base (Some c) target'
       | Some a \<Rightarrow>
           if acl_Disabled a then Inr (DecisionDeny, ''API is disabled'')
           else if acl_Public a then Inr (DecisionAllow, ''API is public'')
           else if \<not> IsAuthenticated u then Inr (DecisionDeny, ''User is not authenticated'')
           else Inr (DecisionAllow, ''API has no role requirement''))"
  proof (cases "overrideOf lib (ct_APIName target)")
    case (Some a)
    then have "acl_RequiredRole a = tl_Undefined lib" if "\<not> acl_Disabled a" "\<not> acl_Public a"
      using that overrides_role [of lib] by (auto simp: overrideOf_def split: option.splits)
    with Some assms(2,3) api show ?thesis by (simp add: Authorize_def Let_def)
  qed (use assms(2,3) api in \<open>simp add: Authorize_def Let_def\<close>)
  have "\<exists>a. overrideOf lib (ct_APIName target) = Some a \<and> acl_Disabled a"
    if "ct_APIName target \<in> set (disabledAPIs lib) \<or>
      (tl_ServiceName lib (ct_APIName target) \<in> set (disabledAPIs lib) \<and> ct_APIName target \<notin> fst ` set (aclOverride lib))"
    using that
  proof
    assume "ct_APIName target \<in> set (disabledAPIs lib)"
    from overrides_disabled [OF assms(1) this] show ?thesis by (auto simp: overrideOf_def)
  next
    assume k: "tl_ServiceName lib (ct_APIName target) \<in> set (disabledAPIs lib) \<and> ct_APIName target \<notin> fst ` set (aclOverride lib)"
    then have "map_of (aclOverride lib) (ct_APIName target) = None" by (simp add: map_of_eq_None_iff)
    with overrides_disabled [OF assms(1) conjunct1 [OF k]] show ?thesis by (simp add: overrideOf_def)
  qed
  then show ?thesis by (auto simp: run)
qed

end
