(* ===== verification/InventoryMutations.thy ===== *)
theory InventoryMutations
  imports Rebuild
begin

text \<open>
  The mutations of the inventory service in front of the stock service:
  backend/inventory/resolvers/mutations.resolvers.go with edge_validation.go and
  item_edge_validation.go. They check what the stock service takes for granted, and some of them
  write the tables it works on themselves: items, repositories with the rows their edges attach
  and detach, and the ledger.

  What JSON schemas and unique data fields decide (\<open>ValidateDataTypeInput\<close>,
  \<open>ValidateInputDataUniqueness\<close>) is a parameter, \<open>Some e\<close> for an error. So is \<open>save\<close>, what can make a
  Save fail besides the columns of the model: the validators and the unique index of a name or sku,
  and a removed edge to a row of stocks or transactions, whose identifiers are not in the model.
\<close>

section \<open>The tenant and the role of a mutation\<close>

definition MutationTenantID :: "ctx \<Rightarrow> error + uuid" where
  "MutationTenantID c =
     (case c_tenants c of [t] \<Rightarrow> Inr t | _ \<Rightarrow> Inl (ErrText ''a single tenant must be selected''))"

definition RequireRole :: "ctx \<Rightarrow> bool \<Rightarrow> (uuid \<Rightarrow> bool) \<Rightarrow> error + uuid" where
  "RequireRole c authenticated hasRole =
     (if \<not> authenticated then Inl ErrUnauthorized
      else case MutationTenantID c of
        Inl e \<Rightarrow> Inl e
      | Inr tenantID \<Rightarrow> if hasRole tenantID then Inr tenantID else Inl ErrUnauthorized)"

section \<open>Ownership of edges\<close>

definition mixin_Limit :: nat where
  "mixin_Limit = 200"

function slices_Chunk :: "nat \<Rightarrow> 'a list \<Rightarrow> 'a list list" where
  "slices_Chunk n xs = (if n = 0 \<or> xs = [] then [] else take n xs # slices_Chunk n (drop n xs))"
  by auto
termination by (relation "measure (\<lambda>(n, xs). length xs)") auto

declare slices_Chunk.simps [simp del]

definition ErrEdgeNotInTenant :: error where
  "ErrEdgeNotInTenant = ErrText ''edge reference not found in tenant''"

text \<open>\<open>owned\<close> answers which of a chunk of ids exist in the tenant.\<close>

definition ensureEdgeIDsOwned :: "uuid list \<Rightarrow> (uuid list \<Rightarrow> error + uuid list) \<Rightarrow> error + unit" where
  "ensureEdgeIDsOwned ids owned =
     (if ids = [] then Inr ()
      else case foldRes (\<lambda>chunk ownedSet. case owned chunk of Inl e \<Rightarrow> Inl e | Inr found \<Rightarrow> Inr (ownedSet @ found))
             (slices_Chunk mixin_Limit ids) [] of
        Inl e \<Rightarrow> Inl e
      | Inr ownedSet \<Rightarrow>
          if list_all (\<lambda>i. i \<in> set ownedSet) ids then Inr () else Inl ErrEdgeNotInTenant)"

fun ensureEdgesOwned :: "(uuid list \<times> (uuid list \<Rightarrow> error + uuid list)) list \<Rightarrow> error + unit" where
  "ensureEdgesOwned [] = Inr ()"
| "ensureEdgesOwned ((ids, owned) # checks) =
     (case ensureEdgeIDsOwned ids owned of Inl e \<Rightarrow> Inl e | Inr _ \<Rightarrow> ensureEdgesOwned checks)"

text \<open>
  The edge ids of an input, the add and the remove lists of the edges that share a target
  concatenated. Rows of stocks and transactions carry no id in the model, their queries are
  parameters.
\<close>

record repository_edges =
  e_itemMovements :: "uuid list"
  e_repositoryMovements :: "uuid list"
  e_transactions :: "uuid list"
  e_stocks :: "uuid list"
  e_children :: "uuid list"

definition ownedItemMovements :: "ctx \<Rightarrow> db \<Rightarrow> uuid \<Rightarrow> uuid list \<Rightarrow> error + uuid list" where
  "ownedItemMovements c d tenantID ids =
     Inr (take (length ids) (map im_id (filter (\<lambda>m. im_tenant m = tenantID \<and> im_id m \<in> set ids) (itemMovement_Query c d))))"

definition ownedRepositoryMovements :: "ctx \<Rightarrow> db \<Rightarrow> uuid \<Rightarrow> uuid list \<Rightarrow> error + uuid list" where
  "ownedRepositoryMovements c d tenantID ids =
     Inr (take (length ids) (map rm_id (filter (\<lambda>m. rm_tenant m = tenantID \<and> rm_id m \<in> set ids) (repositoryMovement_Query c d))))"

definition ownedRepositories :: "ctx \<Rightarrow> db \<Rightarrow> uuid \<Rightarrow> uuid list \<Rightarrow> error + uuid list" where
  "ownedRepositories c d tenantID ids =
     Inr (take (length ids) (map r_id (filter (\<lambda>r. r_tenant r = tenantID \<and> r_id r \<in> set ids) (repository_Query c d))))"

definition validateRepositoryEdgeOwnership ::
  "ctx \<Rightarrow> db \<Rightarrow> uuid \<Rightarrow> (uuid list \<Rightarrow> error + uuid list) \<Rightarrow> (uuid list \<Rightarrow> error + uuid list) \<Rightarrow> repository_edges
     \<Rightarrow> error + unit"
where
  "validateRepositoryEdgeOwnership c d tenantID ownedTransactions ownedStocks e =
     ensureEdgesOwned
       [(e_itemMovements e, ownedItemMovements c d tenantID),
        (e_repositoryMovements e, ownedRepositoryMovements c d tenantID),
        (e_transactions e, ownedTransactions),
        (e_stocks e, ownedStocks),
        (e_children e, ownedRepositories c d tenantID)]"

section \<open>Attaching and detaching rows\<close>

text \<open>
  An edge of an input is a foreign key of the rows it names. ent attaches rows by one UPDATE of those
  of them whose key is NULL, and reports a constraint error unless it met every one; it detaches rows
  by an UPDATE that sets the key to NULL where it is the identifier at hand. Neither UPDATE passes
  the filters of a mutation: any row with such an identifier is written, of whatever tenant.
\<close>

definition ErrAlreadyConnected :: error where
  "ErrAlreadyConnected = ErrText ''already connected''"

definition not_null_violation :: error where
  "not_null_violation = ErrPostgres DriverPq ''23502'' [] ''null value violates not-null constraint''"

definition attachFK ::
  "('r \<Rightarrow> uuid) \<Rightarrow> ('r \<Rightarrow> uuid) \<Rightarrow> (uuid \<Rightarrow> 'r \<Rightarrow> 'r) \<Rightarrow> uuid \<Rightarrow> uuid list \<Rightarrow> 'r list \<Rightarrow> error + 'r list"
where
  "attachFK key fk set_fk i ids rows =
     (let met = (\<lambda>x. key x \<in> set ids \<and> fk x = uuid_Nil) in
      if length (filter met rows) < length (remdups ids) then Inl ErrAlreadyConnected
      else Inr (map (\<lambda>x. if met x then set_fk i x else x) rows))"

text \<open>The rows an edge detaches: all when it is cleared, else those it names.\<close>

definition detached :: "('r \<Rightarrow> uuid) \<Rightarrow> ('r \<Rightarrow> uuid) \<Rightarrow> uuid \<Rightarrow> bool \<Rightarrow> uuid list \<Rightarrow> 'r \<Rightarrow> bool" where
  "detached key fk i cleared ids x \<longleftrightarrow> fk x = i \<and> (cleared \<or> key x \<in> set ids)"

definition detachFK ::
  "('r \<Rightarrow> uuid) \<Rightarrow> ('r \<Rightarrow> uuid) \<Rightarrow> (uuid \<Rightarrow> 'r \<Rightarrow> 'r) \<Rightarrow> uuid \<Rightarrow> bool \<Rightarrow> uuid list \<Rightarrow> 'r list \<Rightarrow> 'r list"
where
  "detachFK key fk set_fk i cleared ids rows =
     map (\<lambda>x. if detached key fk i cleared ids x then set_fk uuid_Nil x else x) rows"

text \<open>
  The edges of a repository, in the order of the generated inputs. Only two of the keys may be NULL,
  the source of a repository movement and the parent of a repository; the columns of the others
  are NOT NULL, so nothing can be attached through them and detaching a row violates the constraint.
\<close>

record repository_links =
  l_itemMovementTo :: "uuid list"
  l_itemMovementFrom :: "uuid list"
  l_repositoryMovementTo :: "uuid list"
  l_repositoryMovementFrom :: "uuid list"
  l_repositoryMovement :: "uuid list"
  l_transactions :: "uuid list"
  l_stocks :: "uuid list"
  l_children :: "uuid list"

record repository_clears =
  k_itemMovementTo :: bool
  k_itemMovementFrom :: bool
  k_repositoryMovementTo :: bool
  k_repositoryMovementFrom :: bool
  k_repositoryMovement :: bool
  k_transactions :: bool
  k_stocks :: bool
  k_children :: bool

definition set_rm_from :: "uuid \<Rightarrow> repository_movement \<Rightarrow> repository_movement" where
  "set_rm_from i m = m\<lparr>rm_from := i\<rparr>"

definition set_r_parent :: "uuid \<Rightarrow> repository \<Rightarrow> repository" where
  "set_r_parent i r = r\<lparr>r_parent := i\<rparr>"

definition repository_addEdges :: "uuid \<Rightarrow> repository_links \<Rightarrow> db \<Rightarrow> error + db" where
  "repository_addEdges i l d =
     (if l_itemMovementTo l \<noteq> [] \<or> l_itemMovementFrom l \<noteq> [] \<or> l_repositoryMovementTo l \<noteq> []
        \<or> l_repositoryMovement l \<noteq> [] \<or> l_transactions l \<noteq> [] \<or> l_stocks l \<noteq> []
      then Inl ErrAlreadyConnected
      else case attachFK rm_id rm_from set_rm_from i (l_repositoryMovementFrom l) (repository_movements d) of
        Inl e \<Rightarrow> Inl e
      | Inr movements \<Rightarrow>
          (case attachFK r_id r_parent set_r_parent i (l_children l) (repositories d) of
             Inl e \<Rightarrow> Inl e
           | Inr rows \<Rightarrow> Inr (d\<lparr>repository_movements := movements, repositories := rows\<rparr>)))"

definition repository_clearEdges ::
  "uuid \<Rightarrow> repository_clears \<Rightarrow> repository_links \<Rightarrow> db \<Rightarrow> error + db"
where
  "repository_clearEdges i k l d =
     (if list_ex (detached im_id im_to i (k_itemMovementTo k) (l_itemMovementTo l)) (item_movements d)
        \<or> list_ex (detached im_id im_from i (k_itemMovementFrom k) (l_itemMovementFrom l)) (item_movements d)
        \<or> list_ex (detached rm_id rm_to i (k_repositoryMovementTo k) (l_repositoryMovementTo l)) (repository_movements d)
        \<or> list_ex (detached rm_id rm_repository i (k_repositoryMovement k) (l_repositoryMovement l)) (repository_movements d)
        \<or> k_transactions k \<and> list_ex (\<lambda>t. t_repository t = i) (transactions d)
        \<or> k_stocks k \<and> list_ex (\<lambda>s. s_repository s = i) (stocks d)
      then Inl not_null_violation
      else Inr (d\<lparr>repository_movements :=
                    detachFK rm_id rm_from set_rm_from i (k_repositoryMovementFrom k) (l_repositoryMovementFrom l)
                      (repository_movements d),
                  repositories :=
                    detachFK r_id r_parent set_r_parent i (k_children k) (l_children l) (repositories d)\<rparr>))"

section \<open>Repositories\<close>

record create_repository_input =
  cri_virtual :: "bool option"
  cri_parent :: "uuid option"
  cri_links :: repository_links

text \<open>What the resolver hands to the ownership check.\<close>

definition cri_edges :: "create_repository_input \<Rightarrow> repository_edges" where
  "cri_edges input =
     (let l = cri_links input in
      \<lparr>e_itemMovements = l_itemMovementTo l @ l_itemMovementFrom l,
       e_repositoryMovements = l_repositoryMovementTo l @ l_repositoryMovementFrom l @ l_repositoryMovement l,
       e_transactions = l_transactions l, e_stocks = l_stocks l, e_children = l_children l\<rparr>)"

text \<open>The checks on the parent of a new repository; a missing flag counts as virtual.\<close>

definition validateParent :: "ctx \<Rightarrow> db \<Rightarrow> create_repository_input \<Rightarrow> error + unit" where
  "validateParent c d input =
     (let inputVirtualRepoFlag = (case cri_virtual input of None \<Rightarrow> True | Some v \<Rightarrow> v) in
      case cri_parent input of
        None \<Rightarrow> Inr ()
      | Some p \<Rightarrow>
          (case repository_Get c d p of
             Inl _ \<Rightarrow> Inl (ErrText ''unable to validate data: ParentID not found'')
           | Inr parentRepo \<Rightarrow>
               if virtual_repo parentRepo \<noteq> inputVirtualRepoFlag
               then Inl (ErrText ''the repo child must have the same virtualRepo flag as the parent'')
               else if inputVirtualRepoFlag \<and> r_parent parentRepo \<noteq> uuid_Nil
               then Inl (ErrText ''the depth of virtual zones is maximum 1'')
               else Inr ()))"

text \<open>\<open>create.Save\<close>: \<open>virtual_repo\<close> defaults to false.\<close>

definition new_repository :: "ctx \<Rightarrow> db \<Rightarrow> uuid \<Rightarrow> create_repository_input \<Rightarrow> repository" where
  "new_repository c d tenantID input =
     \<lparr>r_id = c_uuid c (writes d), r_tenant = tenantID,
      r_parent = (case cri_parent input of None \<Rightarrow> uuid_Nil | Some p \<Rightarrow> p),
      virtual_repo = (case cri_virtual input of None \<Rightarrow> False | Some v \<Rightarrow> v), r_deleted_at = None\<rparr>"

definition repository_Create ::
  "ctx \<Rightarrow> create_repository_input \<Rightarrow> hook \<Rightarrow> db \<Rightarrow> error + db"
where
  "repository_Create c input save d =
     (case TenantIDMutationHook c None of
        Inl e \<Rightarrow> Inl e
      | Inr tenantID \<Rightarrow>
          if list_ex (\<lambda>r. r_id r = c_uuid c (writes d)) (repositories d) then Inl primary_key_violation
          else (case save of
             Some e \<Rightarrow> Inl e
           | None \<Rightarrow>
               let repo = new_repository c d tenantID input in
               repository_addEdges (r_id repo) (cri_links input)
                 (tick (d\<lparr>repositories := repositories d @ [repo]\<rparr>))))"

definition CreateInventoryRepository ::
  "ctx \<Rightarrow> hook \<Rightarrow> hook \<Rightarrow> (uuid list \<Rightarrow> error + uuid list) \<Rightarrow> (uuid list \<Rightarrow> error + uuid list)
     \<Rightarrow> hook \<Rightarrow> create_repository_input \<Rightarrow> db \<Rightarrow> error + db"
where
  "CreateInventoryRepository c dataType uniqueness ownedTransactions ownedStocks save input d =
     (case dataType of
        Some e \<Rightarrow> Inl e
      | None \<Rightarrow>
     (case validateParent c d input of
        Inl e \<Rightarrow> Inl e
      | Inr _ \<Rightarrow>
     (case uniqueness of
        Some e \<Rightarrow> Inl e
      | None \<Rightarrow>
     (case MutationTenantID c of
        Inl e \<Rightarrow> Inl e
      | Inr tenantID \<Rightarrow>
     (case validateRepositoryEdgeOwnership c d tenantID ownedTransactions ownedStocks (cri_edges input) of
        Inl e \<Rightarrow> Inl e
      | Inr _ \<Rightarrow> repository_Create c input save d)))))"

record update_repository_input =
  uri_clearParent :: bool
  uri_parent :: "uuid option"
  uri_clears :: repository_clears
  uri_add :: repository_links
  uri_remove :: repository_links

text \<open>Both lists of every edge are checked: detaching a row of another tenant is a write to it too.\<close>

definition uri_edges :: "update_repository_input \<Rightarrow> repository_edges" where
  "uri_edges input =
     (let a = uri_add input; r = uri_remove input in
      \<lparr>e_itemMovements = l_itemMovementTo a @ l_itemMovementTo r @ l_itemMovementFrom a @ l_itemMovementFrom r,
       e_repositoryMovements = l_repositoryMovementTo a @ l_repositoryMovementTo r
         @ l_repositoryMovementFrom a @ l_repositoryMovementFrom r @ l_repositoryMovement a @ l_repositoryMovement r,
       e_transactions = l_transactions a @ l_transactions r, e_stocks = l_stocks a @ l_stocks r,
       e_children = l_children a @ l_children r\<rparr>)"

text \<open>\<open>ClearParent\<close> comes first, a new parent overrides it.\<close>

definition updateParent :: "update_repository_input \<Rightarrow> uuid \<Rightarrow> uuid" where
  "updateParent input old =
     (case uri_parent input of
        Some p \<Rightarrow> p
      | None \<Rightarrow> if uri_clearParent input then uuid_Nil else old)"

definition repository_Update :: "ctx \<Rightarrow> uuid \<Rightarrow> (repository \<Rightarrow> repository) \<Rightarrow> db \<Rightarrow> error + db" where
  "repository_Update c i f d =
     (case update_where (\<lambda>r. r_id r = i \<and> mutable c (r_tenant r) (r_deleted_at r)) f (repositories d) of
        Inl e \<Rightarrow> Inl e
      | Inr rows \<Rightarrow> Inr (tick (d\<lparr>repositories := rows\<rparr>)))"

text \<open>An identifier that an update both adds and removes counts as removed only.\<close>

definition without_removed :: "repository_links \<Rightarrow> repository_links \<Rightarrow> repository_links" where
  "without_removed a r =
     (let but = (\<lambda>l. filter (\<lambda>x. x \<notin> set (l r)) (l a)) in
      \<lparr>l_itemMovementTo = but l_itemMovementTo, l_itemMovementFrom = but l_itemMovementFrom,
       l_repositoryMovementTo = but l_repositoryMovementTo, l_repositoryMovementFrom = but l_repositoryMovementFrom,
       l_repositoryMovement = but l_repositoryMovement, l_transactions = but l_transactions, l_stocks = but l_stocks,
       l_children = but l_children\<rparr>)"

text \<open>\<open>update.Save\<close>: the row, then the cleared and removed edges, then the added ones.\<close>

definition repository_UpdateSave :: "ctx \<Rightarrow> uuid \<Rightarrow> update_repository_input \<Rightarrow> hook \<Rightarrow> db \<Rightarrow> error + db" where
  "repository_UpdateSave c i input save d =
     (case save of
        Some e \<Rightarrow> Inl e
      | None \<Rightarrow>
     (case repository_Update c i (\<lambda>r. r\<lparr>r_parent := updateParent input (r_parent r)\<rparr>) d of
        Inl e \<Rightarrow> Inl e
      | Inr d \<Rightarrow>
     (case repository_clearEdges i (uri_clears input) (uri_remove input) d of
        Inl e \<Rightarrow> Inl e
      | Inr d \<Rightarrow> repository_addEdges i (without_removed (uri_add input) (uri_remove input)) d)))"

definition UpdateInventoryRepository ::
  "ctx \<Rightarrow> hook \<Rightarrow> hook \<Rightarrow> (uuid list \<Rightarrow> error + uuid list) \<Rightarrow> (uuid list \<Rightarrow> error + uuid list)
     \<Rightarrow> hook \<Rightarrow> uuid \<Rightarrow> update_repository_input \<Rightarrow> db \<Rightarrow> error + db"
where
  "UpdateInventoryRepository c dataType uniqueness ownedTransactions ownedStocks save i input d =
     (case dataType of
        Some e \<Rightarrow> Inl e
      | None \<Rightarrow>
     (case (case uri_parent input of None \<Rightarrow> Inr () | Some p \<Rightarrow>
              (case repository_Get c d p of
                 Inl _ \<Rightarrow> Inl (ErrText ''unable to validate data: ParentID not found'')
               | Inr _ \<Rightarrow> Inr ())) of
        Inl e \<Rightarrow> Inl e
      | Inr _ \<Rightarrow>
     (case uniqueness of
        Some e \<Rightarrow> Inl e
      | None \<Rightarrow>
     (case MutationTenantID c of
        Inl e \<Rightarrow> Inl e
      | Inr tenantID \<Rightarrow>
     (case validateRepositoryEdgeOwnership c d tenantID ownedTransactions ownedStocks (uri_edges input) of
        Inl e \<Rightarrow> Inl e
      | Inr _ \<Rightarrow> repository_UpdateSave c i input save d)))))"

text \<open>What still lies, is expected or is reserved.\<close>

fun stockRefusal :: "string \<Rightarrow> string \<Rightarrow> string \<Rightarrow> stock list \<Rightarrow> error option" where
  "stockRefusal lies expected reserved [] = None"
| "stockRefusal lies expected reserved (s # ss) =
     (if quantity s > 0 then Some (ErrText lies)
      else if incoming_stock s > 0 then Some (ErrText expected)
      else if outgoing_stock s > 0 then Some (ErrText reserved)
      else stockRefusal lies expected reserved ss)"

definition repositoryRefusal :: "stock list \<Rightarrow> error option" where
  "repositoryRefusal = stockRefusal
     ''unable to remove repository as long as there are items in stock''
     ''unable to remove repository as long as there are expected items in stock''
     ''unable to remove repository as long as there are reserved items in stock''"

definition itemRefusal :: "stock list \<Rightarrow> error option" where
  "itemRefusal = stockRefusal
     ''unable to remove item as long as it is in stock''
     ''unable to remove item as long as there are expected items in stock''
     ''unable to remove item as long as there are reserved items in stock''"

definition DeleteInventoryRepository :: "ctx \<Rightarrow> uuid \<Rightarrow> db \<Rightarrow> error + db" where
  "DeleteInventoryRepository c i d =
     (case MutationTenantID c of
        Inl e \<Rightarrow> Inl e
      | Inr tenantID \<Rightarrow>
     (case repositoryRefusal (map snd (ggetd [] (GetCurrentRepositoriesStock c d [i]) i)) of
        Some e \<Rightarrow> Inl e
      | None \<Rightarrow>
          if filter (\<lambda>r. r_parent r = i \<and> r_tenant r = tenantID) (repository_Query c d) \<noteq> []
          then Inl (ErrText ''unable to remove repository as long as it has children'')
          else repository_Update c i (\<lambda>r. r\<lparr>r_deleted_at := Some (c_clock c (writes d))\<rparr>) d))"

section \<open>Items\<close>

record item_links =
  il_itemSets :: "uuid list"
  il_stocks :: "uuid list"
  il_movements :: "uuid list"
  il_transactions :: "uuid list"

text \<open>Item sets, stocks and transactions are answered by the queries given as parameters.\<close>

definition validateItemEdgeOwnership ::
  "ctx \<Rightarrow> db \<Rightarrow> uuid \<Rightarrow> (uuid list \<Rightarrow> error + uuid list) \<Rightarrow> (uuid list \<Rightarrow> error + uuid list)
     \<Rightarrow> (uuid list \<Rightarrow> error + uuid list) \<Rightarrow> item_links \<Rightarrow> error + unit"
where
  "validateItemEdgeOwnership c d tenantID ownedItemSets ownedStocks ownedTransactions l =
     ensureEdgesOwned
       [(il_itemSets l, ownedItemSets),
        (il_stocks l, ownedStocks),
        (il_movements l, ownedItemMovements c d tenantID),
        (il_transactions l, ownedTransactions)]"

text \<open>The item of a stock, a movement and a transaction is NOT NULL; item sets are not in the model.\<close>

definition item_addEdges :: "item_links \<Rightarrow> db \<Rightarrow> error + db" where
  "item_addEdges l d =
     (if il_stocks l \<noteq> [] \<or> il_movements l \<noteq> [] \<or> il_transactions l \<noteq> [] then Inl ErrAlreadyConnected else Inr d)"

definition item_Create :: "ctx \<Rightarrow> item_links \<Rightarrow> hook \<Rightarrow> db \<Rightarrow> error + db" where
  "item_Create c l save d =
     (case TenantIDMutationHook c None of
        Inl e \<Rightarrow> Inl e
      | Inr tenantID \<Rightarrow>
          if list_ex (\<lambda>x. i_id x = c_uuid c (writes d)) (items d) then Inl primary_key_violation
          else (case save of
             Some e \<Rightarrow> Inl e
           | None \<Rightarrow> item_addEdges l (tick (d\<lparr>items := items d
               @ [\<lparr>i_id = c_uuid c (writes d), i_tenant = tenantID, i_deleted_at = None\<rparr>]\<rparr>))))"

definition CreateInventoryItem ::
  "ctx \<Rightarrow> hook \<Rightarrow> hook \<Rightarrow> (uuid list \<Rightarrow> error + uuid list) \<Rightarrow> (uuid list \<Rightarrow> error + uuid list)
     \<Rightarrow> (uuid list \<Rightarrow> error + uuid list) \<Rightarrow> hook \<Rightarrow> item_links \<Rightarrow> db \<Rightarrow> error + db"
where
  "CreateInventoryItem c dataType uniqueness ownedItemSets ownedStocks ownedTransactions save l d =
     (case dataType of
        Some e \<Rightarrow> Inl e
      | None \<Rightarrow>
     (case uniqueness of
        Some e \<Rightarrow> Inl e
      | None \<Rightarrow>
     (case MutationTenantID c of
        Inl e \<Rightarrow> Inl e
      | Inr tenantID \<Rightarrow>
     (case validateItemEdgeOwnership c d tenantID ownedItemSets ownedStocks ownedTransactions l of
        Inl e \<Rightarrow> Inl e
      | Inr _ \<Rightarrow> item_Create c l save d))))"

definition without_removed_links :: "item_links \<Rightarrow> item_links \<Rightarrow> item_links" where
  "without_removed_links a r =
     (let but = (\<lambda>l. filter (\<lambda>x. x \<notin> set (l r)) (l a)) in
      \<lparr>il_itemSets = but il_itemSets, il_stocks = but il_stocks, il_movements = but il_movements,
       il_transactions = but il_transactions\<rparr>)"

text \<open>An update writes no column of the model; its edges can only make it fail.\<close>

definition item_UpdateSave ::
  "ctx \<Rightarrow> uuid \<Rightarrow> bool \<Rightarrow> bool \<Rightarrow> bool \<Rightarrow> item_links \<Rightarrow> item_links \<Rightarrow> hook \<Rightarrow> db \<Rightarrow> error + db"
where
  "item_UpdateSave c i clearMovements clearTransactions clearStocks add remove save d =
     (case save of
        Some e \<Rightarrow> Inl e
      | None \<Rightarrow>
     (case update_where (\<lambda>x. i_id x = i \<and> mutable c (i_tenant x) (i_deleted_at x)) (\<lambda>x. x) (items d) of
        Inl e \<Rightarrow> Inl e
      | Inr rows \<Rightarrow>
          if list_ex (detached im_id im_item i clearMovements (il_movements remove)) (item_movements d)
            \<or> clearTransactions \<and> list_ex (\<lambda>t. t_item t = i) (transactions d)
            \<or> clearStocks \<and> list_ex (\<lambda>s. s_item s = i) (stocks d)
          then Inl not_null_violation
          else item_addEdges (without_removed_links add remove) (tick (d\<lparr>items := rows\<rparr>))))"

definition UpdateInventoryItem ::
  "ctx \<Rightarrow> hook \<Rightarrow> hook \<Rightarrow> (uuid list \<Rightarrow> error + uuid list) \<Rightarrow> (uuid list \<Rightarrow> error + uuid list)
     \<Rightarrow> (uuid list \<Rightarrow> error + uuid list) \<Rightarrow> hook \<Rightarrow> uuid \<Rightarrow> bool \<Rightarrow> bool \<Rightarrow> bool \<Rightarrow> item_links \<Rightarrow> item_links \<Rightarrow> db
     \<Rightarrow> error + db"
where
  "UpdateInventoryItem c dataType uniqueness ownedItemSets ownedStocks ownedTransactions save i
     clearMovements clearTransactions clearStocks add remove d =
     (case dataType of
        Some e \<Rightarrow> Inl e
      | None \<Rightarrow>
     (case uniqueness of
        Some e \<Rightarrow> Inl e
      | None \<Rightarrow>
     (case MutationTenantID c of
        Inl e \<Rightarrow> Inl e
      | Inr tenantID \<Rightarrow>
     (case validateItemEdgeOwnership c d tenantID ownedItemSets ownedStocks ownedTransactions
             \<lparr>il_itemSets = il_itemSets add @ il_itemSets remove, il_stocks = il_stocks add @ il_stocks remove,
              il_movements = il_movements add @ il_movements remove,
              il_transactions = il_transactions add @ il_transactions remove\<rparr> of
        Inl e \<Rightarrow> Inl e
      | Inr _ \<Rightarrow> item_UpdateSave c i clearMovements clearTransactions clearStocks add remove save d))))"

definition warehouseRepoIDs :: "repo_map \<Rightarrow> uuid list" where
  "warehouseRepoIDs repositoryMap =
     map fst (filter (\<lambda>(_, r). r_parent r = uuid_Nil \<and> \<not> virtual_repo r) repositoryMap)"

definition item_SoftDelete :: "ctx \<Rightarrow> uuid \<Rightarrow> db \<Rightarrow> error + db" where
  "item_SoftDelete c i d =
     (case update_where (\<lambda>x. i_id x = i \<and> mutable c (i_tenant x) (i_deleted_at x))
             (\<lambda>x. x\<lparr>i_deleted_at := Some (c_clock c (writes d))\<rparr>) (items d) of
        Inl e \<Rightarrow> Inl e
      | Inr rows \<Rightarrow> Inr (tick (d\<lparr>items := rows\<rparr>)))"

definition DeleteInventoryItem :: "ctx \<Rightarrow> uuid \<Rightarrow> db \<Rightarrow> error + db" where
  "DeleteInventoryItem c i d =
     (let roots = warehouseRepoIDs (GetRepositoriesDetails c d);
          stockMap = (if roots = [] then [] else GetCurrentRepositoriesStock c d roots) in
      case itemRefusal (List.map_filter (\<lambda>(_, itemStocks). gget itemStocks i) stockMap) of
        Some e \<Rightarrow> Inl e
      | None \<Rightarrow> item_SoftDelete c i d)"

section \<open>Clearing virtual stock\<close>

definition clearedRow :: "uuid \<Rightarrow> uuid \<Rightarrow> uuid \<Rightarrow> int64 \<Rightarrow> stock \<Rightarrow> stock" where
  "clearedRow tenantID repoID itemID q prev =
     zero_stock\<lparr>s_tenant := tenantID, s_repository := repoID, s_item := itemID, quantity := q,
       version := add64 (version prev) 1\<rparr>"

definition clearedTransaction :: "uuid \<Rightarrow> uuid \<Rightarrow> uuid \<Rightarrow> int64 \<Rightarrow> stock_transaction" where
  "clearedTransaction tenantID repoID itemID q =
     \<lparr>t_tenant = tenantID, t_item = itemID, t_repository = repoID, t_type = TypeOut, t_quantity = q\<rparr>"

text \<open>
  One item: its rows at the children, at the repository and at the parent. Every transaction
  has the quantity of the repository, the ones of the children too.
\<close>

definition clearItem ::
  "uuid \<Rightarrow> nested_map \<Rightarrow> uuid list \<Rightarrow> repository \<Rightarrow> uuid \<Rightarrow> (stock \<times> stock_transaction) list"
where
  "clearItem tenantID stockMap children repo v =
     (let own = nget stockMap (r_id repo) v; above = nget stockMap (r_parent repo) v in
      map (\<lambda>x. (clearedRow tenantID x v 0 (nget stockMap x v), clearedTransaction tenantID x v (quantity own)))
        (filter (\<lambda>x. quantity (nget stockMap x v) \<noteq> 0) children)
      @ (if quantity own \<noteq> 0
         then [(clearedRow tenantID (r_id repo) v 0 own, clearedTransaction tenantID (r_id repo) v (quantity own))]
         else [])
      @ (if r_parent repo \<noteq> uuid_Nil \<and> quantity own \<noteq> 0 \<and> quantity above \<noteq> 0
         then [(clearedRow tenantID (r_parent repo) v (sub64 (quantity above) (quantity own)) above,
                clearedTransaction tenantID (r_parent repo) v (quantity own))]
         else []))"

definition DeleteInventoryStock :: "ctx \<Rightarrow> uuid option \<Rightarrow> uuid \<Rightarrow> db \<Rightarrow> error + db" where
  "DeleteInventoryStock c itemID repositoryID d =
     (case MutationTenantID c of
        Inl e \<Rightarrow> Inl e
      | Inr tenantID \<Rightarrow>
     (case repository_Get c d repositoryID of
        Inl e \<Rightarrow> Inl e
      | Inr repo \<Rightarrow>
          if \<not> virtual_repo repo then Inl (ErrText ''items can only be deleted from virtual repositories'')
          else
            (let children = map r_id (filter (\<lambda>r. r_parent r = r_id repo) (repository_Query c d));
                 stockMap = GetCurrentRepositoriesStock c d
                   (children @ [r_id repo] @ (if r_parent repo \<noteq> uuid_Nil then [r_parent repo] else []));
                 itemsToDelete = (case itemID of Some v \<Rightarrow> [v]
                   | None \<Rightarrow> map (\<lambda>(_, s). s_item s) (ggetd [] stockMap (r_id repo)));
                 cleared = concat (map (clearItem tenantID stockMap children repo) itemsToDelete)
             in case InsertRows c (map fst cleared) d of
                  Inl e \<Rightarrow> Inl e
                | Inr d' \<Rightarrow> transaction_CreateBulk c (map snd cleared) d')))"

section \<open>In front of the stock service\<close>

definition CreateInventoryItemMovement ::
  "others \<Rightarrow> db_dialect \<Rightarrow> ctx \<Rightarrow> hook \<Rightarrow> hook \<Rightarrow> hook \<Rightarrow> create_item_movement_input \<Rightarrow> db
     \<Rightarrow> error + (item_movement \<times> db)"
where
  "CreateInventoryItemMovement others dialect c dataType uniqueness emitter input d =
     (case dataType of
        Some e \<Rightarrow> Inl e
      | None \<Rightarrow>
     (case MutationTenantID c of
        Inl e \<Rightarrow> Inl e
      | Inr tenantID \<Rightarrow> CreateItemMovement others dialect c tenantID input uniqueness emitter d))"

definition ExecuteInventoryItemMovement :: "others \<Rightarrow> db_dialect \<Rightarrow> ctx \<Rightarrow> uuid \<Rightarrow> db \<Rightarrow> error + db" where
  "ExecuteInventoryItemMovement others dialect c i d =
     (case MutationTenantID c of Inl e \<Rightarrow> Inl e | Inr tenantID \<Rightarrow> ExecuteItemMovement others dialect c i tenantID d)"

definition DeleteInventoryItemMovement :: "others \<Rightarrow> db_dialect \<Rightarrow> ctx \<Rightarrow> uuid \<Rightarrow> db \<Rightarrow> error + db" where
  "DeleteInventoryItemMovement others dialect c i d =
     (case MutationTenantID c of Inl e \<Rightarrow> Inl e | Inr tenantID \<Rightarrow> DeleteItemMovement others dialect c i tenantID d)"

definition CreateInventoryRepositoryMovement ::
  "db_dialect \<Rightarrow> ctx \<Rightarrow> hook \<Rightarrow> hook \<Rightarrow> (db \<Rightarrow> db) \<Rightarrow> (db \<Rightarrow> db) \<Rightarrow> create_repository_movement_input \<Rightarrow> db
     \<Rightarrow> error + (repository_movement \<times> db)"
where
  "CreateInventoryRepositoryMovement dialect c dataType uniqueness env env' input d =
     (case dataType of
        Some e \<Rightarrow> Inl e
      | None \<Rightarrow>
     (case MutationTenantID c of
        Inl e \<Rightarrow> Inl e
      | Inr tenantID \<Rightarrow> CreateRepositoryMovement dialect c tenantID input uniqueness env env' d))"

definition ExecuteInventoryRepositoryMovement :: "others \<Rightarrow> db_dialect \<Rightarrow> ctx \<Rightarrow> uuid \<Rightarrow> db \<Rightarrow> error + db" where
  "ExecuteInventoryRepositoryMovement others dialect c i d =
     (case MutationTenantID c of Inl e \<Rightarrow> Inl e | Inr tenantID \<Rightarrow> ExecuteRepositoryMovement others dialect c i tenantID d)"

definition DeleteInventoryRepositoryMovement ::
  "db_dialect \<Rightarrow> ctx \<Rightarrow> (db \<Rightarrow> db) \<Rightarrow> (db \<Rightarrow> db) \<Rightarrow> uuid \<Rightarrow> db \<Rightarrow> error + db"
where
  "DeleteInventoryRepositoryMovement dialect c env env' i d =
     (case MutationTenantID c of
        Inl e \<Rightarrow> Inl e
      | Inr tenantID \<Rightarrow> DeleteRepositoryMovement dialect c i tenantID env env' d)"

text \<open>\<open>positionTypes\<close> are the outcomes of validating the data of each position.\<close>

definition CreateInventoryCollectionMovement ::
  "db_dialect \<Rightarrow> ctx \<Rightarrow> hook \<Rightarrow> hook list \<Rightarrow> hook \<Rightarrow> (nat \<Rightarrow> db \<Rightarrow> db) \<Rightarrow> (nat \<Rightarrow> db \<Rightarrow> db)
     \<Rightarrow> string option \<Rightarrow> collection_position list \<Rightarrow> db \<Rightarrow> error + (collection_output \<times> db)"
where
  "CreateInventoryCollectionMovement dialect c dataType positionTypes uniqueness envs envs' handler positions d =
     (case dataType of
        Some e \<Rightarrow> Inl e
      | None \<Rightarrow>
     (case find (\<lambda>t. t \<noteq> None) positionTypes of
        Some t \<Rightarrow> Inl (the t)
      | None \<Rightarrow>
     (case MutationTenantID c of
        Inl e \<Rightarrow> Inl e
      | Inr tenantID \<Rightarrow>
          CreateCollectionMovement dialect c
            \<lparr>cc_id = c_uuid c (writes d), cc_handler = handler, cc_positions = positions, cc_tenant = tenantID\<rparr>
            uniqueness envs envs' d)))"

text \<open>
  The updates of movements and collections: of the columns of the model only the handler, which may
  not be empty; a collection's empty handler counts as none.
\<close>

definition handler_valid :: "string option \<Rightarrow> bool" where
  "handler_valid h \<longleftrightarrow> h \<noteq> Some []"

definition updateHandler :: "string option \<Rightarrow> string \<Rightarrow> string" where
  "updateHandler h old = (case h of None \<Rightarrow> old | Some new \<Rightarrow> new)"

definition itemMovement_UpdateSave :: "ctx \<Rightarrow> uuid \<Rightarrow> string option \<Rightarrow> db \<Rightarrow> error + db" where
  "itemMovement_UpdateSave c i h d =
     (if \<not> handler_valid h then Inl ErrValidation
      else case update_where (\<lambda>m. im_id m = i \<and> mutable c (im_tenant m) (im_deleted_at m))
             (\<lambda>m. m\<lparr>im_handler := updateHandler h (im_handler m)\<rparr>) (item_movements d) of
        Inl e \<Rightarrow> Inl e
      | Inr rows \<Rightarrow> Inr (tick (d\<lparr>item_movements := rows\<rparr>)))"

definition UpdateInventoryItemMovement ::
  "ctx \<Rightarrow> hook \<Rightarrow> hook \<Rightarrow> uuid \<Rightarrow> string option \<Rightarrow> db \<Rightarrow> error + db"
where
  "UpdateInventoryItemMovement c dataType uniqueness i h d =
     (case dataType of
        Some e \<Rightarrow> Inl e
      | None \<Rightarrow>
     (case itemMovement_Get c d i of
        Inl _ \<Rightarrow> Inl (ErrText ''itemMovement not found'')
      | Inr _ \<Rightarrow>
     (case uniqueness of Some e \<Rightarrow> Inl e | None \<Rightarrow> itemMovement_UpdateSave c i h d)))"

definition UpdateInventoryRepositoryMovement ::
  "ctx \<Rightarrow> hook \<Rightarrow> hook \<Rightarrow> uuid \<Rightarrow> string option \<Rightarrow> db \<Rightarrow> error + db"
where
  "UpdateInventoryRepositoryMovement c dataType uniqueness i h d =
     (case dataType of
        Some e \<Rightarrow> Inl e
      | None \<Rightarrow>
     (case repositoryMovement_Get c d i of
        Inl e \<Rightarrow> Inl e
      | Inr _ \<Rightarrow>
     (case uniqueness of
        Some e \<Rightarrow> Inl e
      | None \<Rightarrow>
          if \<not> handler_valid h then Inl ErrValidation
          else repositoryMovement_Update c i (\<lambda>m. m\<lparr>rm_handler := updateHandler h (rm_handler m)\<rparr>) d)))"

definition collection_UpdateSave :: "ctx \<Rightarrow> uuid \<Rightarrow> string option \<Rightarrow> db \<Rightarrow> error + db" where
  "collection_UpdateSave c i h d =
     (case update_where (\<lambda>m. cm_id m = i \<and> mutable c (cm_tenant m) (cm_deleted_at m))
             (\<lambda>m. m\<lparr>cm_handler := updateHandler h (cm_handler m)\<rparr>) (collection_movements d) of
        Inl e \<Rightarrow> Inl e
      | Inr rows \<Rightarrow> Inr (tick (d\<lparr>collection_movements := rows\<rparr>)))"

text \<open>\<open>ClearHandler\<close> comes first, a new handler overrides it; the cleared column reads as empty.\<close>

definition UpdateInventoryCollectionMovement ::
  "ctx \<Rightarrow> hook \<Rightarrow> hook \<Rightarrow> uuid \<Rightarrow> bool \<Rightarrow> string option \<Rightarrow> db \<Rightarrow> error + db"
where
  "UpdateInventoryCollectionMovement c dataType uniqueness i clearHandler h d =
     (let h = (if h = Some [] then None else h) in
      case dataType of
        Some e \<Rightarrow> Inl e
      | None \<Rightarrow>
     (case uniqueness of
        Some e \<Rightarrow> Inl e
      | None \<Rightarrow> collection_UpdateSave c i (if h = None \<and> clearHandler then Some [] else h) d))"

definition DeleteInventoryCollection :: "ctx \<Rightarrow> uuid \<Rightarrow> db \<Rightarrow> error + db" where
  "DeleteInventoryCollection c i d = DeleteCollection c i d"

text \<open>
  Only the system user may keep the events of a rebuild (\<open>syncUpdates\<close>); whether they are
  suppressed does not matter to the tables.
\<close>

definition RebuildInventoryStock ::
  "others \<Rightarrow> db_dialect \<Rightarrow> ctx \<Rightarrow> bool \<Rightarrow> (uuid \<Rightarrow> bool) \<Rightarrow> bool \<Rightarrow> db \<Rightarrow> error + db"
where
  "RebuildInventoryStock others dialect c authenticated isAdmin syncUpdates d =
     (case RequireRole c authenticated isAdmin of
        Inl e \<Rightarrow> Inl e
      | Inr tenantID \<Rightarrow>
          if syncUpdates \<and> \<not> c_system c then Inl ErrUnauthorized
          else RebuildStockTable others dialect c tenantID d)"

end
