(* ===== verification/MutationLemmas.thy ===== *)
theory MutationLemmas
  imports Examples InventoryMutations TreeChanges
begin

text \<open>
  Lemmas on the inventory mutations: the edges they accept, the tree of a tenant before and
  after, the rows they read, and what lies below a root. MutationProperties has the theorems.
\<close>

section \<open>Edges\<close>

lemma slices_Chunk_concat: "n \<noteq> 0 \<Longrightarrow> concat (slices_Chunk n xs) = xs"
  by (induction n xs rule: slices_Chunk.induct) (subst slices_Chunk.simps, simp)

lemma chunks_found:
  assumes "foldRes (\<lambda>chunk acc. case owned chunk of Inl e \<Rightarrow> Inl e | Inr found \<Rightarrow> Inr (acc @ found)) chunks acc = Inr res"
    and "\<And>ids found. owned ids = Inr found \<Longrightarrow> set found \<subseteq> T"
  shows "set res \<subseteq> set acc \<union> T"
  using assms(1)
proof (induction chunks arbitrary: acc)
  case (Cons ch chunks)
  then obtain found where f: "owned ch = Inr found"
    "foldRes (\<lambda>chunk acc. case owned chunk of Inl e \<Rightarrow> Inl e | Inr found \<Rightarrow> Inr (acc @ found)) chunks (acc @ found) = Inr res"
    by (auto split: sum.splits)
  from Cons.IH [OF f(2)] assms(2) [OF f(1)] show ?case by auto
qed simp

lemma ensureEdgeIDsOwned_Inr:
  assumes "ensureEdgeIDsOwned ids owned = Inr u" and "\<And>ids found. owned ids = Inr found \<Longrightarrow> set found \<subseteq> T"
  shows "set ids \<subseteq> T"
proof (cases "ids = []")
  case False
  with assms(1) obtain res where
    "foldRes (\<lambda>chunk acc. case owned chunk of Inl e \<Rightarrow> Inl e | Inr found \<Rightarrow> Inr (acc @ found))
       (slices_Chunk mixin_Limit ids) [] = Inr res" and all: "list_all (\<lambda>i. i \<in> set res) ids"
    by (auto simp: ensureEdgeIDsOwned_def split: sum.splits if_splits)
  note fold = this(1)
  have "set res \<subseteq> set [] \<union> T" by (rule chunks_found [OF fold]) (rule assms(2))
  with all show ?thesis by (auto simp: list_all_iff)
qed simp

text \<open>The rows of a tenant that a request sees, as the set of their ids.\<close>

definition tenantItemMovements :: "db \<Rightarrow> uuid \<Rightarrow> uuid set" where
  "tenantItemMovements d tn = im_id ` {m \<in> set (item_movements d). im_tenant m = tn}"

definition tenantRepositoryMovements :: "db \<Rightarrow> uuid \<Rightarrow> uuid set" where
  "tenantRepositoryMovements d tn = rm_id ` {m \<in> set (repository_movements d). rm_tenant m = tn}"

definition tenantRepositories :: "db \<Rightarrow> uuid \<Rightarrow> uuid set" where
  "tenantRepositories d tn = r_id ` {r \<in> set (repositories d). r_tenant r = tn}"

lemma owned_ids:
  "ownedItemMovements c d tn ids = Inr found \<Longrightarrow> set found \<subseteq> tenantItemMovements d tn"
  "ownedRepositoryMovements c d tn ids = Inr found \<Longrightarrow> set found \<subseteq> tenantRepositoryMovements d tn"
  "ownedRepositories c d tn ids = Inr found \<Longrightarrow> set found \<subseteq> tenantRepositories d tn"
  by (auto simp: ownedItemMovements_def ownedRepositoryMovements_def ownedRepositories_def
      tenantItemMovements_def tenantRepositoryMovements_def tenantRepositories_def
      itemMovement_Query_def repositoryMovement_Query_def repository_Query_def dest!: in_set_takeD)

lemma edges_owned:
  assumes "validateRepositoryEdgeOwnership c d tn oT oS e = Inr u"
    and "\<And>ids found. oT ids = Inr found \<Longrightarrow> set found \<subseteq> T" "\<And>ids found. oS ids = Inr found \<Longrightarrow> set found \<subseteq> S"
  shows "set (e_itemMovements e) \<subseteq> tenantItemMovements d tn
    \<and> set (e_repositoryMovements e) \<subseteq> tenantRepositoryMovements d tn
    \<and> set (e_transactions e) \<subseteq> T \<and> set (e_stocks e) \<subseteq> S \<and> set (e_children e) \<subseteq> tenantRepositories d tn"
proof -
  from assms(1) obtain u1 u2 u3 u4 u5 where
    "ensureEdgeIDsOwned (e_itemMovements e) (ownedItemMovements c d tn) = Inr u1"
    "ensureEdgeIDsOwned (e_repositoryMovements e) (ownedRepositoryMovements c d tn) = Inr u2"
    "ensureEdgeIDsOwned (e_transactions e) oT = Inr u3" "ensureEdgeIDsOwned (e_stocks e) oS = Inr u4"
    "ensureEdgeIDsOwned (e_children e) (ownedRepositories c d tn) = Inr u5"
    by (auto simp: validateRepositoryEdgeOwnership_def split: sum.splits)
  note own = this
  show ?thesis
    using ensureEdgeIDsOwned_Inr [OF own(1), of "tenantItemMovements d tn"]
      ensureEdgeIDsOwned_Inr [OF own(2), of "tenantRepositoryMovements d tn"]
      ensureEdgeIDsOwned_Inr [OF own(3), of T] ensureEdgeIDsOwned_Inr [OF own(4), of S]
      ensureEdgeIDsOwned_Inr [OF own(5), of "tenantRepositories d tn"] owned_ids assms(2,3)
    by simp
qed

lemma MutationTenantID_Inr: "MutationTenantID c = Inr t \<longleftrightarrow> c_tenants c = [t]"
  by (auto simp: MutationTenantID_def split: list.splits)

text \<open>What attaching and detaching rows leaves behind.\<close>

lemma attachFK_Inr:
  "attachFK key fk set_fk i ids rows = Inr rows' \<Longrightarrow>
     rows' = map (\<lambda>x. if key x \<in> set ids \<and> fk x = 0 then set_fk i x else x) rows"
  by (auto simp: attachFK_def uuid_Nil_def Let_def split: if_splits)

lemma repository_addEdges_Inr:
  assumes "repository_addEdges i l d = Inr d'"
  shows "repositories d' = map (\<lambda>r. if r_id r \<in> set (l_children l) \<and> r_parent r = 0 then set_r_parent i r else r) (repositories d)"
    and "repository_movements d' =
      map (\<lambda>m. if rm_id m \<in> set (l_repositoryMovementFrom l) \<and> rm_from m = 0 then set_rm_from i m else m) (repository_movements d)"
    and "items d' = items d" "stocks d' = stocks d" "item_movements d' = item_movements d"
      "collection_movements d' = collection_movements d" "transactions d' = transactions d"
  using assms by (auto simp: repository_addEdges_def dest!: attachFK_Inr split: if_splits sum.splits)

lemma repository_clearEdges_Inr:
  assumes "repository_clearEdges i k l d = Inr d'"
  shows "repositories d' =
      map (\<lambda>r. if detached r_id r_parent i (k_children k) (l_children l) r then set_r_parent 0 r else r) (repositories d)"
    and "repository_movements d' =
      map (\<lambda>m. if detached rm_id rm_from i (k_repositoryMovementFrom k) (l_repositoryMovementFrom l) m then set_rm_from 0 m else m)
        (repository_movements d)"
    and "items d' = items d" "stocks d' = stocks d" "item_movements d' = item_movements d"
      "collection_movements d' = collection_movements d" "transactions d' = transactions d"
  using assms by (auto simp: repository_clearEdges_def detachFK_def uuid_Nil_def split: if_splits)

lemma without_removed_links_simps [simp]:
  "l_children (without_removed a r) = filter (\<lambda>x. x \<notin> set (l_children r)) (l_children a)"
  "l_repositoryMovementFrom (without_removed a r) = filter (\<lambda>x. x \<notin> set (l_repositoryMovementFrom r)) (l_repositoryMovementFrom a)"
  by (simp_all add: without_removed_def Let_def)

lemma no_children: "map (\<lambda>r. if r_id r \<in> set [] \<and> r_parent r = 0 then set_r_parent i r else r) rs = rs"
  by (simp add: map_idI)

lemma CreateInventoryRepository_Inr:
  assumes "CreateInventoryRepository c ty un oT oS save input d = Inr d'"
  shows "validateParent c d input = Inr ()" and "\<forall>r \<in> set (repositories d). r_id r \<noteq> c_uuid c (writes d)"
    and "repository_addEdges (c_uuid c (writes d)) (cri_links input)
      (tick (d\<lparr>repositories := repositories d @ [new_repository c d (c_mutationTenant c) input]\<rparr>)) = Inr d'"
    and "\<exists>tn. c_tenants c = [tn] \<and> validateRepositoryEdgeOwnership c d tn oT oS (cri_edges input) = Inr ()"
  using assms
  by (auto simp: CreateInventoryRepository_def repository_Create_def MutationTenantID_Inr TenantIDMutationHook_def
      new_repository_def Let_def list_ex_iff split: option.splits sum.splits if_splits)

lemma repository_Update_Inr:
  assumes "repository_Update c i f d = Inr d'"
  shows "repositories d' = map (\<lambda>r. if r_id r = i \<and> mutable c (r_tenant r) (r_deleted_at r) then f r else r) (repositories d)"
    and "\<exists>r \<in> set (repositories d). r_id r = i \<and> mutable c (r_tenant r) (r_deleted_at r)"
    and "stocks d' = stocks d" "item_movements d' = item_movements d" "items d' = items d"
    and "repository_movements d' = repository_movements d" "transactions d' = transactions d"
  using assms by (auto simp: repository_Update_def update_where_def tick_def list_ex_iff split: sum.splits if_splits)

lemma UpdateInventoryRepository_Inr:
  assumes "UpdateInventoryRepository c ty un oT oS save i input d = Inr d'"
  shows "\<exists>d1 d2. repository_Update c i (\<lambda>r. r\<lparr>r_parent := updateParent input (r_parent r)\<rparr>) d = Inr d1
      \<and> repository_clearEdges i (uri_clears input) (uri_remove input) d1 = Inr d2
      \<and> repository_addEdges i (without_removed (uri_add input) (uri_remove input)) d2 = Inr d'"
    and "\<exists>tn. c_tenants c = [tn] \<and> validateRepositoryEdgeOwnership c d tn oT oS (uri_edges input) = Inr ()"
  using assms
  by (auto simp: UpdateInventoryRepository_def repository_UpdateSave_def MutationTenantID_Inr
      split: option.splits sum.splits)

section \<open>The tree of a tenant\<close>

text \<open>
  Identifiers are unique, every live repository hangs below a live one of its tenant or is a
  root, no chain of parents runs into a cycle, and no row carries Go's zero time as deletion.
\<close>

definition tree_sound :: "db \<Rightarrow> uuid \<Rightarrow> bool" where
  "tree_sound d tn \<longleftrightarrow> repo_ids_ok d \<and> (\<forall>x. acyclic_at (tenantTree d tn False) x)
     \<and> list_all (\<lambda>r. r_deleted_at r \<noteq> Some 0) (repositories d)
     \<and> list_all (\<lambda>r. cteRow tn False r \<longrightarrow> r_parent r = 0 \<or> gget (tenantTree d tn False) (r_parent r) \<noteq> None) (repositories d)"

text \<open>A plain caller of one tenant.\<close>

definition tenant_caller :: "ctx \<Rightarrow> uuid \<Rightarrow> bool" where
  "tenant_caller c tn \<longleftrightarrow> c_tenants c = [tn] \<and> c_mutationTenant c = tn \<and> \<not> c_system c \<and> \<not> c_showDeleted c"

lemma visible_cteRow:
  assumes "tenant_caller c tn" and "r_deleted_at r \<noteq> Some 0"
  shows "visible c (r_tenant r) (r_deleted_at r) \<longleftrightarrow> cteRow tn False r"
    and "mutable c (r_tenant r) (r_deleted_at r) \<longleftrightarrow> cteRow tn False r"
  using assms
  by (auto simp: tenant_caller_def visible_def mutable_def cteRow_def TenantIDQueryFilter_def
      HistoryMixinQueryFilter_def deletedAtIsZero_def deletedAtIsNil_def split: option.splits)


lemma option_eq_by_Some: "(\<And>v. a = Some v \<longleftrightarrow> b = Some v) \<Longrightarrow> a = b"
  by (cases a; cases b) auto

lemma tree_sound_cong: "repositories d' = repositories d \<Longrightarrow> tree_sound d' tn \<longleftrightarrow> tree_sound d tn"
  by (simp add: tree_sound_def repo_ids_ok_def tenantTree_def)

lemma tree_sound_acyclic: "tree_sound d tn \<Longrightarrow> acyclic_at (tenantTree d tn False) x"
  unfolding tree_sound_def by blast

lemma tree_sound_parent:
  assumes "tree_sound d tn" and "r \<in> set (repositories d)" "cteRow tn False r" "r_parent r \<noteq> 0"
  shows "gget (tenantTree d tn False) (r_parent r) \<noteq> None"
  using assms by (auto simp: tree_sound_def list_all_iff)

lemma parentID_live:
  assumes "repo_ids_ok d" and "parentID (tenantTree d tn False) x \<noteq> 0"
  obtains r where "r \<in> set (repositories d)" "cteRow tn False r" "r_id r = x"
    "parentID (tenantTree d tn False) x = r_parent r"
proof -
  from assms(2) obtain r where "gget (tenantTree d tn False) x = Some r"
    using parentID_missing by (metis option.exhaust)
  with tenantTree_gget [OF assms(1)] that show thesis by (auto simp: parentID_def ggetd_def)
qed

text \<open>Deleting a repository without live children.\<close>

lemma deleted_tree_sound:
  assumes ok: "tree_sound d tn" and t: "t \<noteq> 0"
    and del: "repositories d' = map (\<lambda>r. if r_id r = i \<and> cteRow tn False r then r\<lparr>r_deleted_at := Some t\<rparr> else r) (repositories d)"
    and kids: "\<forall>r \<in> set (repositories d). cteRow tn False r \<longrightarrow> r_parent r \<noteq> i"
  shows "tree_sound d' tn"
proof -
  let ?del = "\<lambda>r. if r_id r = i \<and> cteRow tn False r then r\<lparr>r_deleted_at := Some t\<rparr> else r"
  have ids: "repo_ids_ok d" using ok by (simp add: tree_sound_def)
  have same: "r_id (?del r) = r_id r" for r by simp
  have "map r_id (repositories d') = map r_id (repositories d)" by (simp add: del)
  moreover have "list_all (\<lambda>r. r_id r \<noteq> 0) (repositories d')" using ids by (auto simp: del repo_ids_ok_def list_all_iff)
  ultimately have ids': "repo_ids_ok d'" using ids by (simp add: repo_ids_ok_def)
  have live: "r \<in> set (repositories d') \<and> cteRow tn False r \<longleftrightarrow>
      r \<in> set (repositories d) \<and> cteRow tn False r \<and> r_id r \<noteq> i" (is "?l \<longleftrightarrow> ?r") for r
  proof
    have dead: "\<not> cteRow tn False (q\<lparr>r_deleted_at := Some t\<rparr>)" for q
      by (simp add: cteRow_def deletedAtIsNil_def)
    assume l: ?l
    then obtain q where q: "q \<in> set (repositories d)" "r = ?del q" unfolding del set_map by blast
    with l dead [of q] show ?r by (cases "r_id q = i \<and> cteRow tn False q") simp_all
  next
    assume r: ?r
    then have "r = ?del r" by simp
    with r show ?l unfolding del set_map by blast
  qed
  have look: "gget (tenantTree d' tn False) x = (if x = i then None else gget (tenantTree d tn False) x)" for x
  proof (rule option_eq_by_Some)
    fix r show "gget (tenantTree d' tn False) x = Some r \<longleftrightarrow>
        (if x = i then None else gget (tenantTree d tn False) x) = Some r"
      using tenantTree_gget [OF ids, of tn False x r] tenantTree_gget [OF ids', of tn False x r] live [of r] by auto
  qed
  have "parent_step (tenantTree d tn False) x y" if "parent_step (tenantTree d' tn False) x y" for x y
    using that look [of x] by (auto simp: parent_step_def parentID_def ggetd_def zero_repository_def split: if_splits)
  then have "acyclic_at (tenantTree d' tn False) x" for x
    using tree_sound_acyclic [OF ok] by (rule acyclic_fewer_steps [rotated])
  moreover have "list_all (\<lambda>r. r_deleted_at r \<noteq> Some 0) (repositories d')"
    using ok t by (auto simp: del tree_sound_def list_all_iff)
  moreover have "r_parent r = 0 \<or> gget (tenantTree d' tn False) (r_parent r) \<noteq> None"
    if "r \<in> set (repositories d')" "cteRow tn False r" for r
    using that live [of r] kids tree_sound_parent [OF ok, of r] by (auto simp: look)
  ultimately show ?thesis using ids' by (simp add: tree_sound_def list_all_iff)
qed

text \<open>A change of rows that keeps what identifies and hides them.\<close>

definition keeps_identity :: "(repository \<Rightarrow> repository) \<Rightarrow> bool" where
  "keeps_identity f \<longleftrightarrow> (\<forall>r. r_id (f r) = r_id r \<and> r_tenant (f r) = r_tenant r \<and> r_deleted_at (f r) = r_deleted_at r)"

lemma tenantTree_map:
  assumes "repositories d' = map f (repositories d)" and "keeps_identity f"
  shows "gget (tenantTree d' tn incl) x = map_option f (gget (tenantTree d tn incl) x)"
proof -
  have "cteRow tn incl \<circ> f = cteRow tn incl" using assms(2) by (simp add: fun_eq_iff cteRow_def keeps_identity_def)
  then have "filter (cteRow tn incl) (repositories d') = map f (filter (cteRow tn incl) (repositories d))"
    by (simp add: assms(1) filter_map)
  then have "tenantTree d' tn incl = map (\<lambda>(k, r). (k, f r)) (tenantTree d tn incl)"
    using assms(2) by (simp add: tenantTree_def comp_def keeps_identity_def)
  then show ?thesis by (simp add: gget_def map_of_map)
qed

lemma mapped_tree_sound:
  assumes ok: "tree_sound d tn" and d': "repositories d' = map f (repositories d)" and f: "keeps_identity f"
    and acyc: "\<And>x. acyclic_at (tenantTree d' tn False) x"
    and up: "\<And>r. \<lbrakk>r \<in> set (repositories d); cteRow tn False r; r_parent (f r) \<noteq> r_parent r; r_parent (f r) \<noteq> 0\<rbrakk>
      \<Longrightarrow> gget (tenantTree d tn False) (r_parent (f r)) \<noteq> None"
  shows "tree_sound d' tn"
proof -
  have "map r_id (repositories d') = map r_id (repositories d)" using f by (simp add: d' keeps_identity_def)
  then have "repo_ids_ok d'" using ok f
    by (simp add: tree_sound_def repo_ids_ok_def) (auto simp: tree_sound_def repo_ids_ok_def list_all_iff d' keeps_identity_def)
  moreover have "list_all (\<lambda>r. r_deleted_at r \<noteq> Some 0) (repositories d')"
    using ok f by (auto simp: d' tree_sound_def list_all_iff keeps_identity_def)
  moreover have "r_parent r = 0 \<or> gget (tenantTree d' tn False) (r_parent r) \<noteq> None"
    if r: "r \<in> set (repositories d')" "cteRow tn False r" for r
  proof -
    from r(1) obtain q where q: "q \<in> set (repositories d)" "r = f q" by (auto simp: d')
    then have live: "cteRow tn False q" using r(2) f by (simp add: cteRow_def keeps_identity_def)
    with tree_sound_parent [OF ok q(1)] up [OF q(1)] q(2) show ?thesis
      by (cases "r_parent (f q) = r_parent q") (auto simp: tenantTree_map [OF d' f])
  qed
  ultimately show ?thesis using acyc by (simp add: tree_sound_def list_all_iff)
qed

text \<open>Cutting repositories off their parents.\<close>

lemma cut_tree_sound:
  assumes ok: "tree_sound d tn" and d': "repositories d' = map (\<lambda>r. if P r then r\<lparr>r_parent := 0\<rparr> else r) (repositories d)"
  shows "tree_sound d' tn"
proof -
  let ?f = "\<lambda>r. if P r then r\<lparr>r_parent := 0\<rparr> else r"
  have f: "keeps_identity ?f" by (simp add: keeps_identity_def)
  have "parent_step (tenantTree d tn False) x y" if "parent_step (tenantTree d' tn False) x y" for x y
    using that by (cases "gget (tenantTree d tn False) x")
      (auto simp: parent_step_def parentID_def ggetd_def tenantTree_map [OF d' f] zero_repository_def split: if_splits)
  then have "acyclic_at (tenantTree d' tn False) x" for x
    using tree_sound_acyclic [OF ok] by (rule acyclic_fewer_steps [rotated])
  then show ?thesis by (rule mapped_tree_sound [OF ok d' f]) (auto split: if_splits)
qed

text \<open>Hanging roots below a root that is none of them.\<close>

lemma acyclic_adopt:
  assumes acyc: "\<And>x. acyclic_at m x" and steps: "\<And>x y. parent_step m' x y \<Longrightarrow> parent_step m x y \<or> y = n"
    and root: "\<And>y. \<not> parent_step m' n y"
  shows "acyclic_at m' x"
proof -
  have up: "(parent_step m)\<^sup>+\<^sup>+ u v \<or> v = n" if "(parent_step m')\<^sup>+\<^sup>+ u v" for u v
    using that
  proof (induction rule: tranclp_induct)
    case (base y)
    then show ?case using steps by blast
  next
    case (step y z)
    from step.hyps(2) root have "y \<noteq> n" by blast
    with step.IH have "(parent_step m)\<^sup>+\<^sup>+ u y" by blast
    with steps [OF step.hyps(2)] show ?case by (meson tranclp.trancl_into_trancl)
  qed
  have "\<not> on_cycle m' z" for z
  proof
    assume cyc: "on_cycle m' z"
    from up [OF cyc] show False
    proof
      assume "(parent_step m)\<^sup>+\<^sup>+ z z"
      with acyc [of z] show False by (auto simp: acyclic_at_iff)
    next
      assume "z = n"
      with cyc root show False by (auto dest: tranclpD)
    qed
  qed
  then show ?thesis by (simp add: acyclic_at_iff)
qed

lemma adopted_tree_sound:
  assumes ok: "tree_sound d tn"
    and d': "repositories d' = map (\<lambda>r. if r_id r \<in> K \<and> r_parent r = 0 then set_r_parent n r else r) (repositories d)"
    and n: "gget (tenantTree d tn False) n \<noteq> None" "parentID (tenantTree d tn False) n = 0" "n \<notin> K"
  shows "tree_sound d' tn"
proof -
  let ?m = "tenantTree d tn False" and ?m' = "tenantTree d' tn False"
  let ?f = "\<lambda>r. if r_id r \<in> K \<and> r_parent r = 0 then set_r_parent n r else r"
  have f: "keeps_identity ?f" by (simp add: keeps_identity_def set_r_parent_def)
  have ids: "repo_ids_ok d" using ok by (simp add: tree_sound_def)
  have id: "r_id r = x" if "gget ?m x = Some r" for x r
    using tenantTree_gget [OF ids] that by blast
  have "acyclic_at ?m' x" for x
  proof (rule acyclic_adopt [of ?m ?m' n])
    show "acyclic_at ?m y" for y by (rule tree_sound_acyclic [OF ok])
    show "parent_step ?m x y \<or> y = n" if "parent_step ?m' x y" for x y
      using that by (cases "gget ?m x")
        (auto simp: parent_step_def parentID_def ggetd_def tenantTree_map [OF d' f] zero_repository_def
          set_r_parent_def split: if_splits)
    show "\<not> parent_step ?m' n y" for y
      using n id [of n] by (auto simp: parent_step_def parentID_def ggetd_def tenantTree_map [OF d' f])
  qed
  then show ?thesis
    by (rule mapped_tree_sound [OF ok d' f]) (use n(1) in \<open>auto simp: set_r_parent_def split: if_splits\<close>)
qed

text \<open>Adding a repository at the root or below a live one.\<close>

lemma created_tree_sound:
  assumes ok: "tree_sound d tn" and new: "repositories d' = repositories d @ [n]"
    and n: "r_id n \<noteq> 0" "r_tenant n = tn" "r_deleted_at n = None" "\<forall>r \<in> set (repositories d). r_id r \<noteq> r_id n"
    and p: "r_parent n = 0 \<or> gget (tenantTree d tn False) (r_parent n) \<noteq> None"
  shows "tree_sound d' tn"
proof -
  have ids: "repo_ids_ok d" using ok by (simp add: tree_sound_def)
  with n(1,4) have ids': "repo_ids_ok d'" by (auto simp: repo_ids_ok_def new)
  let ?m = "tenantTree d tn False" and ?m' = "tenantTree d' tn False"
  have live: "cteRow tn False n" using n(2,3) by (simp add: cteRow_def deletedAtIsNil_def)
  have look: "gget ?m' x = (if x = r_id n then Some n else gget ?m x)" for x
  proof (rule option_eq_by_Some)
    fix r show "gget ?m' x = Some r \<longleftrightarrow> (if x = r_id n then Some n else gget ?m x) = Some r"
      using tenantTree_gget [OF ids, of tn False x r] tenantTree_gget [OF ids', of tn False x r] live n(4)
      by (auto simp: new)
  qed
  have fresh: "gget ?m (r_id n) = None"
    using tenantTree_gget [OF ids, of tn False "r_id n"] n(4) by (cases "gget ?m (r_id n)") auto
  have "acyclic_at ?m' x" for x
  proof (rule acyclic_new [of ?m ?m' "r_id n" "r_parent n"])
    show "acyclic_at ?m y" for y by (rule tree_sound_acyclic [OF ok])
    show "differ_at ?m ?m' (r_id n)" by (simp add: differ_at_def parentID_def ggetd_def look)
    show "r_parent n = parentID ?m' (r_id n)" by (simp add: parentID_def ggetd_def look)
    show "r_parent n \<noteq> r_id n" using p n(1) fresh by auto
    show "parentID ?m y \<noteq> r_id n" for y
    proof
      assume y: "parentID ?m y = r_id n"
      with n(1) obtain r where "r \<in> set (repositories d)" "cteRow tn False r" "r_parent r = r_id n"
        by (metis parentID_live [OF ids])
      with tree_sound_parent [OF ok] n(1) fresh show False by fastforce
    qed
  qed
  moreover have "r_parent r = 0 \<or> gget ?m' (r_parent r) \<noteq> None" if "r \<in> set (repositories d')" "cteRow tn False r" for r
    using that tree_sound_parent [OF ok, of r] p by (auto simp: new look)
  ultimately show ?thesis
    using ok ids' n(3) by (auto simp: tree_sound_def list_all_iff new)
qed


section \<open>Requests on the tree\<close>

lemma repository_Get_live:
  assumes "tenant_caller c tn" and "tree_sound d tn" and "repository_Get c d p = Inr r"
  shows "gget (tenantTree d tn False) p = Some r"
proof -
  from repository_Get_Inr [OF assms(3)]
  have r: "r \<in> set (repositories d)" "r_id r = p" "visible c (r_tenant r) (r_deleted_at r)" by blast+
  then have "r_deleted_at r \<noteq> Some 0" using assms(2) by (simp add: tree_sound_def list_all_iff)
  from visible_cteRow(1) [OF assms(1) this] r assms(2) show ?thesis
    by (simp add: tenantTree_gget tree_sound_def)
qed

text \<open>The loaded rows of repositories are the current rows of the ledger.\<close>

lemma gget_nput: "gget (ggetd [] (nput r j v m) x) i = (if x = r \<and> i = j then Some v else gget (ggetd [] m x) i)"
  by (simp add: nput_def)

lemma nput_fold_member:
  assumes "gget (ggetd [] (fold (\<lambda>r. nput (s_repository r) (s_item r) r) L m) x) i = Some v"
  shows "gget (ggetd [] m x) i = Some v \<or> (v \<in> set L \<and> s_key v = (x, i))"
  using assms
proof (induction L arbitrary: m)
  case (Cons s L)
  have "gget (ggetd [] (fold (\<lambda>r. nput (s_repository r) (s_item r) r) L (nput (s_repository s) (s_item s) s m)) x) i = Some v"
    using Cons.prems by simp
  from Cons.IH [OF this] show ?case by (auto simp: gget_nput split: if_splits)
qed simp

lemma nput_fold_defined:
  assumes "b \<in> set L \<or> gget (ggetd [] m (s_repository b)) (s_item b) \<noteq> None"
  shows "gget (ggetd [] (fold (\<lambda>r. nput (s_repository r) (s_item r) r) L m) (s_repository b)) (s_item b) \<noteq> None"
  using assms
proof (induction L arbitrary: m)
  case (Cons s L)
  then have "b \<in> set L \<or> gget (ggetd [] (nput (s_repository s) (s_item s) s m) (s_repository b)) (s_item b) \<noteq> None"
    by (auto simp: gget_nput)
  from Cons.IH [OF this] show ?case by simp
qed simp

lemma current_rows:
  assumes ok: "ledger_ok (stocks d)" "ledger_live tn i (stocks d)" and tn: "TenantIDQueryFilter c tn" and x: "x \<in> set ids"
  shows "gget (ggetd [] (GetCurrentRepositoriesStock c d ids) x) i = procBase d tn (x, i)"
proof -
  let ?L = "filter (\<lambda>s. s_repository s \<in> set ids \<and> notOutdated (filter (\<lambda>s2. s_repository s2 \<in> set ids) (stocks d)) s) (stock_Query c d)"
  let ?g = "gget (ggetd [] (fold (\<lambda>r. nput (s_repository r) (s_item r) r) ?L []) x) i"
  have base: "procBase d tn (x, i) = Some v" if v: "v \<in> set ?L" "s_key v = (x, i)" for v
  proof (rule procBase_eqI [OF ok])
    show "v \<in> set (stocks d)" "s_key v = (x, i)" using v by (auto simp: stock_Query_def)
    show "version s \<le> version v" if "s \<in> set (stocks d)" "s_key s = (x, i)" for s
      using v that x by (auto simp: notOutdated_def list_ex_iff not_less)
  qed
  have "?g = procBase d tn (x, i)"
  proof (cases "procBase d tn (x, i)")
    case None
    show ?thesis
    proof (cases ?g)
      case (Some v)
      from nput_fold_member [OF this] have "v \<in> set ?L" "s_key v = (x, i)" using x by auto
      from base [OF this] None show ?thesis by simp
    qed (use None in simp)
  next
    case (Some b)
    note b = procBase_Some [OF Some]
    have "notOutdated (filter (\<lambda>s2. s_repository s2 \<in> set ids) (stocks d)) b"
    proof -
      have "\<not> version s2 > version b" if "s2 \<in> set (stocks d)" "s_repository s2 = s_repository b" "s_item s2 = s_item b" for s2
        using procBase_max [OF ok(2) that(1), of x] that(2,3) b(3) Some by auto
      then show ?thesis by (simp add: notOutdated_def list_ex_iff)
    qed
    moreover have "visible c (s_tenant b) (s_deleted_at b)"
      using tn b by (simp add: visible_def HistoryMixinQueryFilter_def deletedAtIsZero_def)
    moreover have "s_repository b \<in> set ids" using b(3) x by simp
    ultimately have "b \<in> set ?L" using b(1) by (simp add: stock_Query_def)
    then have "?g \<noteq> None" using nput_fold_defined [of b ?L "[]"] b(3) by simp
    then obtain v where v: "?g = Some v" by blast
    from nput_fold_member [OF v] have "v \<in> set ?L" "s_key v = (x, i)" using x by auto
    from base [OF this] v Some show ?thesis by simp
  qed
  then show ?thesis by (simp add: GetCurrentRepositoriesStock_def)
qed


lemma stockRefusal_None:
  "stockRefusal a b e ss = None \<longleftrightarrow>
     list_all (\<lambda>s. quantity s \<le> 0 \<and> incoming_stock s \<le> 0 \<and> outgoing_stock s \<le> 0) ss"
  by (induction ss) auto

section \<open>Stock below a root\<close>

text \<open>With the rollup, a repository holds at least what any repository below it holds.\<close>

lemma rollup_child:
  assumes "rollup_ok m row" and "\<And>x. 0 \<le> quantity (row x) \<and> 0 \<le> own_quantity (row x)"
    and "parent_step m x p" and "gget m p \<noteq> None"
  shows "quantity (row x) \<le> quantity (row p)"
proof -
  have "rollup_at m row p" using assms(1,4) by (simp add: rollup_ok_def list_all_iff gkeys_gget)
  moreover have "x \<in> set (childrenOf m p)"
    using assms(3) parent_step_gget [OF assms(3)] by (simp add: childrenOf_def parent_step_def gkeys_gget)
  then have "quantity (row x) \<le> sum_list (map (\<lambda>c. quantity (row c)) (childrenOf m p))"
    using assms(2) by (intro member_le_sum_list) auto
  ultimately show ?thesis using assms(2) [of p] by (simp add: rollup_at_def)
qed

lemma rollup_below:
  assumes "rollup_ok m row" and "\<And>x. 0 \<le> quantity (row x) \<and> 0 \<le> own_quantity (row x)"
    and "\<And>x y. parent_step m x y \<Longrightarrow> gget m y \<noteq> None" and "anc m x r"
  shows "quantity (row x) \<le> quantity (row r)"
  using assms(4)
proof (induction rule: converse_rtranclp_induct)
  case (step u v)
  have "quantity (row u) \<le> quantity (row v)"
    by (rule rollup_child [OF assms(1,2) step.hyps(1) assms(3) [OF step.hyps(1)]])
  with step.IH show ?case by simp
qed simp

lemma tree_sound_step:
  assumes "tree_sound d tn" and "parent_step (tenantTree d tn False) x y"
  shows "gget (tenantTree d tn False) y \<noteq> None"
proof -
  have ids: "repo_ids_ok d" using assms(1) by (simp add: tree_sound_def)
  from assms(2) have y: "parentID (tenantTree d tn False) x = y" "y \<noteq> 0" by (simp_all add: parent_step_def)
  then obtain r where "r \<in> set (repositories d)" "cteRow tn False r" "r_parent r = y"
    by (metis parentID_live [OF ids])
  with tree_sound_parent [OF assms(1)] y(2) show ?thesis by blast
qed

lemma warehouse_root:
  assumes c: "tenant_caller c tn" and ok: "tree_sound d tn"
    and r: "gget (tenantTree d tn False) r = Some v" "r_parent v = 0" "\<not> virtual_repo v"
  shows "r \<in> set (warehouseRepoIDs (GetRepositoriesDetails c d))"
proof -
  have ids: "repo_ids_ok d" using ok by (simp add: tree_sound_def)
  let ?g = "gget (GetRepositoriesDetails c d) r"
  from tenantTree_gget [OF ids] r(1) have v: "v \<in> set (repositories d)" "cteRow tn False v" "r_id v = r" by blast+
  have "r_deleted_at v \<noteq> Some 0" using ok v(1) by (simp add: tree_sound_def list_all_iff)
  with visible_cteRow(1) [OF c this] v have q: "v \<in> set (repository_Query c d)" by (simp add: repository_Query_def)
  then have "?g \<noteq> None"
    using gm.lookup_fold_defined [of v "repository_Query c d" "[]" r_id] v(3) by (simp add: GetRepositoriesDetails_def)
  then obtain w where w: "?g = Some w" by blast
  then have "w \<in> set (repository_Query c d)" "r_id w = r"
    using gm.lookup_fold_member [OF w [unfolded GetRepositoriesDetails_def]] by auto
  then have "w = v"
    using ids v(1,3) unfolding repo_ids_ok_def repository_Query_def by (auto simp: distinct_map dest: inj_onD)
  with w have "(r, v) \<in> set (GetRepositoriesDetails c d)" by (auto simp: gget_def dest: map_of_SomeD)
  with r(2,3) have "(r, v) \<in> set (filter (\<lambda>(_, r). r_parent r = uuid_Nil \<and> \<not> virtual_repo r) (GetRepositoriesDetails c d))"
    by (simp add: uuid_Nil_def)
  then have "fst (r, v) \<in> set (warehouseRepoIDs (GetRepositoriesDetails c d))"
    unfolding warehouseRepoIDs_def set_map by (rule imageI)
  then show ?thesis by simp
qed


section \<open>Deleting an item\<close>

lemma DeleteInventoryItem_Inr:
  assumes "DeleteInventoryItem c i d = Inr d'"
  obtains roots where "roots = warehouseRepoIDs (GetRepositoriesDetails c d)"
    "roots = [] \<or> itemRefusal (List.map_filter (\<lambda>(_, itemStocks). gget itemStocks i) (GetCurrentRepositoriesStock c d roots)) = None"
    "items d' = map (\<lambda>x. if i_id x = i \<and> mutable c (i_tenant x) (i_deleted_at x)
       then x\<lparr>i_deleted_at := Some (c_clock c (writes d))\<rparr> else x) (items d)"
    "stocks d' = stocks d"
  using assms
  by (auto simp: DeleteInventoryItem_def item_SoftDelete_def update_where_def tick_def Let_def split: option.splits sum.splits if_splits)

lemma not_refused:
  assumes "itemRefusal (List.map_filter (\<lambda>(_, itemStocks). gget itemStocks i) m) = None"
    and "gget (ggetd [] m x) i = Some s"
  shows "quantity s \<le> 0 \<and> incoming_stock s \<le> 0 \<and> outgoing_stock s \<le> 0"
proof -
  from assms(2) obtain r where "gget m x = Some r" "gget r i = Some s"
    by (auto simp: ggetd_def split: option.splits)
  then have "(x, r) \<in> set m" by (auto simp: gget_def dest: map_of_SomeD)
  with \<open>gget r i = Some s\<close> have "s \<in> set (List.map_filter (\<lambda>(_, itemStocks). gget itemStocks i) m)"
    by (force simp: map_filter_def)
  with assms(1) show ?thesis by (auto simp: itemRefusal_def stockRefusal_None list_all_iff)
qed

end
