(* ===== verification/MutationProperties.thy ===== *)
theory MutationProperties
  imports MutationLemmas HandlerProperties
begin

text \<open>
  What creating, updating and deleting repositories and items guarantees to the stock service,
  and what it does not.
\<close>

section \<open>Example requests\<close>

text \<open>
  On the warehouse of Examples: stocks and transactions without rows, and inputs without edges.
\<close>

definition noLinks :: repository_links where
  "noLinks = \<lparr>l_itemMovementTo = [], l_itemMovementFrom = [], l_repositoryMovementTo = [], l_repositoryMovementFrom = [],
     l_repositoryMovement = [], l_transactions = [], l_stocks = [], l_children = []\<rparr>"

definition noClears :: repository_clears where
  "noClears = \<lparr>k_itemMovementTo = False, k_itemMovementFrom = False, k_repositoryMovementTo = False,
     k_repositoryMovementFrom = False, k_repositoryMovement = False, k_transactions = False, k_stocks = False,
     k_children = False\<rparr>"

definition exNoIds :: "uuid list \<Rightarrow> error + uuid list" where
  "exNoIds ids = Inr []"

definition exCreateRepo :: "bool option \<Rightarrow> uuid option \<Rightarrow> uuid list \<Rightarrow> error + db" where
  "exCreateRepo v p children = CreateInventoryRepository exCtx None None exNoIds exNoIds None
     \<lparr>cri_virtual = v, cri_parent = p, cri_links = noLinks\<lparr>l_children := children\<rparr>\<rparr> exDb"

definition exUpdateRepo :: "uuid \<Rightarrow> update_repository_input \<Rightarrow> db \<Rightarrow> error + db" where
  "exUpdateRepo = UpdateInventoryRepository exCtx None None exNoIds exNoIds None"

definition exMoveBelow :: "uuid \<Rightarrow> uuid \<Rightarrow> error + db" where
  "exMoveBelow i p = exUpdateRepo i
     \<lparr>uri_clearParent = False, uri_parent = Some p, uri_clears = noClears, uri_add = noLinks, uri_remove = noLinks\<rparr> exDb"

text \<open>A repository below the virtual supplier, flag omitted, and two pieces moved into it.\<close>

definition exFilled :: "error + db" where
  "exFilled =
     (case exCreateRepo None (Some 20) [] of
        Inl e \<Rightarrow> Inl e
      | Inr d \<Rightarrow>
     (case CreateInventoryItemMovement undisturbed Postgres exCtx None None None
             \<lparr>ci_item = 5, ci_from = 13, ci_to = 1000, ci_quantity = 2, ci_handler = ''ops'', ci_collection = 0, ci_position = 0\<rparr> d of
        Inl e \<Rightarrow> Inl e
      | Inr (m, d) \<Rightarrow> ExecuteInventoryItemMovement undisturbed Postgres exCtx (im_id m) d))"



section \<open>Deleting an item\<close>





section \<open>Creating, updating and deleting repositories\<close>









text \<open>
  Two requests on the example: a new real root that takes warehouse 10 as its child, and an update that detaches
  bin 13 from shelf 11.
\<close>

definition exDetach :: update_repository_input where
  "exDetach = \<lparr>uri_clearParent = False, uri_parent = None, uri_clears = noClears, uri_add = noLinks,
     uri_remove = noLinks\<lparr>l_children := [13]\<rparr>\<rparr>"




text \<open>
  What C13 excludes: a repository created below warehouse 10 with warehouse 10 as its child, and shelf 11
  attached to itself while its parent is cleared. Both inputs pass every check and leave a cycle.
\<close>
theorem attached_children_cycle:
  "(\<exists>d. exCreateRepo (Some False) (Some 10) [10] = Inr d \<and> \<not> acyclic_at (tenantTree d 1 False) 13)
   \<and> (\<exists>d. exUpdateRepo 11 (exDetach\<lparr>uri_clearParent := True, uri_add := noLinks\<lparr>l_children := [11]\<rparr>\<rparr>) exDb = Inr d
        \<and> \<not> acyclic_at (tenantTree d 1 False) 11)"
proof -
  have "case exCreateRepo (Some False) (Some 10) [10] of Inl _ \<Rightarrow> False | Inr d \<Rightarrow> \<not> acyclic_at (tenantTree d 1 False) 13"
    by code_simp
  moreover have "case exUpdateRepo 11 (exDetach\<lparr>uri_clearParent := True, uri_add := noLinks\<lparr>l_children := [11]\<rparr>\<rparr>) exDb of
      Inl _ \<Rightarrow> False | Inr d \<Rightarrow> \<not> acyclic_at (tenantTree d 1 False) 11"
    by code_simp
  ultimately show ?thesis by (auto split: sum.splits)
qed

text \<open>
  A repository created below a parent: the parent is visible and, when virtual, a root. The
  new row has the virtual flag of its parent exactly when the input names the flag: the check
  takes an omitted one for true, the schema stores false, so a real repository is created below
  a virtual one.
\<close>
theorem create_repository_flags:
  assumes "CreateInventoryRepository c ty un oT oS save input d = Inr d'" and "cri_parent input = Some p"
    and "l_children (cri_links input) = []"
  shows "\<exists>parent child. repository_Get c d p = Inr parent \<and> repositories d' = repositories d @ [child] \<and> r_parent child = p
    \<and> (virtual_repo parent \<longrightarrow> r_parent parent = 0)
    \<and> (virtual_repo child = virtual_repo parent \<longleftrightarrow> cri_virtual input \<noteq> None)"
proof -
  note inr = CreateInventoryRepository_Inr [OF assms(1)]
  from inr(1) assms(2) obtain parent where parent: "repository_Get c d p = Inr parent"
    "virtual_repo parent = (case cri_virtual input of None \<Rightarrow> True | Some v \<Rightarrow> v)"
    "virtual_repo parent \<Longrightarrow> r_parent parent = 0"
    by (auto simp: validateParent_def Let_def uuid_Nil_def split: sum.splits if_splits)
  moreover have "repositories d' = repositories d @ [new_repository c d (c_mutationTenant c) input]"
    using repository_addEdges_Inr(1) [OF inr(3)] assms(3) by (simp add: no_children tick_def)
  ultimately show ?thesis
    using assms(2) by (intro exI [of _ parent] exI [of _ "new_repository c d (c_mutationTenant c) input"])
      (auto simp: new_repository_def split: option.splits)
qed

theorem create_repository_flags_witness:
  "\<exists>d' child. exCreateRepo None (Some 20) [] = Inr d' \<and> repositories d' = repositories exDb @ [child]
     \<and> r_parent child = 20 \<and> \<not> virtual_repo child"
proof -
  have "succeeds (exCreateRepo None (Some 20) [])" by code_simp
  then obtain d' where d': "exCreateRepo None (Some 20) [] = Inr d'" by (rule succeedsE)
  have "repository_Get exCtx exDb 20 = Inr (exRepo 20 0 True)" by code_simp
  with create_repository_flags [OF d' [unfolded exCreateRepo_def], of 20] d' show ?thesis
    by (auto simp: exRepo_def)
qed


section \<open>Edges of an input\<close>

text \<open>\<open>e\<close> are the edges of an input that created or updated a repository.\<close>

definition accepted_edges ::
  "ctx \<Rightarrow> (uuid list \<Rightarrow> error + uuid list) \<Rightarrow> (uuid list \<Rightarrow> error + uuid list) \<Rightarrow> db \<Rightarrow> db \<Rightarrow> repository_edges \<Rightarrow> bool"
where
  "accepted_edges c oT oS d d' e \<longleftrightarrow>
     (\<exists>ty un save input. CreateInventoryRepository c ty un oT oS save input d = Inr d' \<and> e = cri_edges input)
     \<or> (\<exists>ty un save i input. UpdateInventoryRepository c ty un oT oS save i input d = Inr d' \<and> e = uri_edges input)"

text \<open>
  C16: every row that the edges of an accepted input attach or detach exists and belongs to the
  tenant of the mutation, however many identifiers the input lists.
\<close>
theorem edges_stay_in_tenant:
  assumes "accepted_edges c oT oS d d' e"
    and "\<And>ids found. oT ids = Inr found \<Longrightarrow> set found \<subseteq> T" "\<And>ids found. oS ids = Inr found \<Longrightarrow> set found \<subseteq> S"
  shows "\<exists>tn. c_tenants c = [tn] \<and> set (e_itemMovements e) \<subseteq> tenantItemMovements d tn
    \<and> set (e_repositoryMovements e) \<subseteq> tenantRepositoryMovements d tn
    \<and> set (e_transactions e) \<subseteq> T \<and> set (e_stocks e) \<subseteq> S \<and> set (e_children e) \<subseteq> tenantRepositories d tn"
proof -
  from assms(1) obtain tn where tn: "c_tenants c = [tn]"
    and val: "validateRepositoryEdgeOwnership c d tn oT oS e = Inr ()"
    unfolding accepted_edges_def
    using CreateInventoryRepository_Inr(4) UpdateInventoryRepository_Inr(2) by metis
  with edges_owned [OF val, of T S] assms(2,3) tn show ?thesis by metis
qed

text \<open>
  An update of shelf 11 that detaches child 13 and names movement 500, both of tenant 1; with a child of another
  tenant the input is refused.
\<close>

definition exEdges :: update_repository_input where
  "exEdges = exDetach\<lparr>uri_remove := noLinks\<lparr>l_itemMovementTo := [500], l_children := [13]\<rparr>\<rparr>"

theorem edges_stay_in_tenant_witness:
  "set (e_children (uri_edges exEdges)) \<subseteq> tenantRepositories exDb 1 \<and> e_children (uri_edges exEdges) = [13]
   \<and> set (e_itemMovements (uri_edges exEdges)) \<subseteq> tenantItemMovements exDb 1 \<and> e_itemMovements (uri_edges exEdges) = [500]
   \<and> exUpdateRepo 11 (exDetach\<lparr>uri_remove := noLinks\<lparr>l_children := [13, 99]\<rparr>\<rparr>) exDb = Inl ErrEdgeNotInTenant"
proof -
  let ?run = "UpdateInventoryRepository exCtx None None exNoIds exNoIds None 11 exEdges exDb"
  have "succeeds ?run" by code_simp
  then obtain d' where "?run = Inr d'" by (rule succeedsE)
  then have "accepted_edges exCtx exNoIds exNoIds exDb d' (uri_edges exEdges)" unfolding accepted_edges_def by blast
  from edges_stay_in_tenant [OF this, of "{}" "{}"]
  have "set (e_children (uri_edges exEdges)) \<subseteq> tenantRepositories exDb 1
      \<and> set (e_itemMovements (uri_edges exEdges)) \<subseteq> tenantItemMovements exDb 1"
    by (auto simp: exNoIds_def exCtx_def)
  moreover have "e_children (uri_edges exEdges) = [13]" "e_itemMovements (uri_edges exEdges) = [500]"
    "exUpdateRepo 11 (exDetach\<lparr>uri_remove := noLinks\<lparr>l_children := [13, 99]\<rparr>\<rparr>) exDb = Inl ErrEdgeNotInTenant"
    by code_simp+
  ultimately show ?thesis by blast
qed

section \<open>What the checks do not cover\<close>

text \<open>Nothing lies at the repository or its children, so nothing is written.\<close>

lemma clearItem_empty:
  assumes "\<forall>x \<in> insert (r_id repo) (set children). quantity (nget stockMap x v) = 0"
  shows "clearItem tn stockMap children repo v = []"
  using assms by (simp add: clearItem_def Let_def filter_empty_conv)

text \<open>The repository itself and its children.\<close>

definition cleared_scope :: "db \<Rightarrow> uuid \<Rightarrow> uuid \<Rightarrow> bool" where
  "cleared_scope d i x \<longleftrightarrow> x = i \<or> list_ex (\<lambda>r. r_id r = x \<and> r_parent r = i) (repositories d)"

lemma GetCurrentRepositoriesStock_zero:
  assumes "list_all (\<lambda>s. s_repository s = x \<longrightarrow> quantity s = 0) (stocks d)"
  shows "quantity (nget (GetCurrentRepositoriesStock c d ids) x v) = 0"
proof (cases "gget (ggetd [] (GetCurrentRepositoriesStock c d ids) x) v")
  case (Some s)
  from nput_fold_member [OF Some [unfolded GetCurrentRepositoriesStock_def]]
  have "s \<in> set (stocks d)" "s_repository s = x" by (auto simp: stock_Query_def)
  with assms Some show ?thesis by (simp add: nget_def ggetd_def [of zero_stock] list_all_iff)
next
  case None
  moreover have "quantity zero_stock = 0" by (simp add: zero_stock_def)
  ultimately show ?thesis by (simp add: nget_def ggetd_def [of zero_stock])
qed

lemma InsertRows_Nil [simp]: "InsertRows c [] d = Inr d"
  by (simp add: InsertRows_def stockCreateBulkChunked_def wrapOCC_def stockBulkChunkBounds_def
      maxStockRowsPerInsert_def chunksFrom.simps)

text \<open>
  DeleteInventoryStock changes nothing when the quantities at the repository and its children
  are zero, which is what the executor always writes at virtual repositories: the mutation
  only ever acts on rows the stock service itself would not have written.
\<close>
theorem delete_stock_writes_nothing:
  assumes "DeleteInventoryStock c itemID i d = Inr d'"
    and "list_all (\<lambda>s. cleared_scope d i (s_repository s) \<longrightarrow> quantity s = 0) (stocks d)"
  shows "stocks d' = stocks d \<and> transactions d' = transactions d \<and> repositories d' = repositories d"
proof -
  from assms(1) obtain tn repo where repo: "repository_Get c d i = Inr repo"
    by (auto simp: DeleteInventoryStock_def split: sum.splits)
  define children where "children = map r_id (filter (\<lambda>r. r_parent r = r_id repo) (repository_Query c d))"
  from repository_Get_Inr [OF repo] have i: "r_id repo = i" by blast
  then have "cleared_scope d i x" if "x \<in> insert (r_id repo) (set children)" for x
    using that by (auto simp: cleared_scope_def children_def repository_Query_def list_ex_iff)
  with assms(2) have "quantity (nget (GetCurrentRepositoriesStock c d ids) x v) = 0"
    if "x \<in> insert (r_id repo) (set children)" for x v ids
    using that by (intro GetCurrentRepositoriesStock_zero) (auto simp: list_all_iff)
  then have "clearItem t (GetCurrentRepositoriesStock c d ids) children repo v = []" for t ids v
    by (intro clearItem_empty) blast
  then have empty: "concat (map (clearItem t (GetCurrentRepositoriesStock c d ids) children repo) vs) = []" for t ids vs
    by simp
  have "transaction_CreateBulk c [] d = Inr d'"
    using assms(1) unfolding DeleteInventoryStock_def Let_def repo sum.case children_def [symmetric] empty
    by (simp split: sum.splits if_splits)
  then show ?thesis by (auto simp: transaction_CreateBulk_def tick_def)
qed

theorem delete_stock_writes_nothing_witness:
  "\<exists>d'. DeleteInventoryStock exCtx (Some 5) 20 exDb = Inr d' \<and> stocks d' = stocks exDb"
proof -
  have "succeeds (DeleteInventoryStock exCtx (Some 5) 20 exDb)" by code_simp
  then obtain d' where d': "DeleteInventoryStock exCtx (Some 5) 20 exDb = Inr d'" by (rule succeedsE)
  have "list_all (\<lambda>s. cleared_scope exDb 20 (s_repository s) \<longrightarrow> quantity s = 0) (stocks exDb)" by code_simp
  from delete_stock_writes_nothing [OF d' this] d' show ?thesis by blast
qed

text \<open>
  Together with \<open>create_repository_flags\<close>, deleteInventoryStock destroys real stock: two pieces moved to a repository that
  was created below the virtual supplier without a flag are set to zero, and the transaction
  that records it says zero pieces left.
\<close>
theorem delete_stock_wipes_real_stock:
  "\<exists>d d'. exFilled = Inr d \<and> \<not> isVirtual (tenantTree d 1 False) 1000
     \<and> quantity (currentStock d 1 5 1000) = 2
     \<and> DeleteInventoryStock exCtx (Some 5) 20 d = Inr d'
     \<and> quantity (currentStock d' 1 5 1000) = 0
     \<and> t_repository (last (transactions d')) = 1000 \<and> t_quantity (last (transactions d')) = 0" (is "\<exists>d d'. ?P d d'")
proof -
  have "succeeds exFilled" by code_simp
  then obtain d where d: "exFilled = Inr d" by (rule succeedsE)
  have "case exFilled of Inl _ \<Rightarrow> False | Inr d \<Rightarrow> succeeds (DeleteInventoryStock exCtx (Some 5) 20 d)" by code_simp
  then have "succeeds (DeleteInventoryStock exCtx (Some 5) 20 d)" unfolding d sum.case .
  then obtain d' where d': "DeleteInventoryStock exCtx (Some 5) 20 d = Inr d'" by (rule succeedsE)
  have "case exFilled of Inl _ \<Rightarrow> False | Inr d \<Rightarrow> \<not> isVirtual (tenantTree d 1 False) 1000
      \<and> quantity (currentStock d 1 5 1000) = 2"
    by code_simp
  moreover have "case exFilled of Inl _ \<Rightarrow> False | Inr d \<Rightarrow>
     (case DeleteInventoryStock exCtx (Some 5) 20 d of Inl _ \<Rightarrow> False | Inr d' \<Rightarrow>
        quantity (currentStock d' 1 5 1000) = 0 \<and> t_repository (last (transactions d')) = 1000 \<and> t_quantity (last (transactions d')) = 0)"
    by code_simp
  ultimately have "?P d d'" unfolding d d' sum.case by blast
  then show ?thesis by blast
qed

text \<open>
  UpdateInventoryRepository moves a repository without moving its stock: giving bin 13 a new
  parent breaks the rollup of the ledger, and giving shelf 11 its own bin as parent makes
  executing a movement recurse without end.
\<close>
theorem update_parent_unsound:
  "(\<exists>d. exMoveBelow 13 12 = Inr d \<and> rollup_ok exTree (currentStock exDb 1 5)
      \<and> \<not> rollup_ok (tenantTree d 1 False) (currentStock d 1 5))
   \<and> (\<exists>d. exMoveBelow 11 13 = Inr d \<and> ExecuteInventoryItemMovement undisturbed Postgres exCtx 500 d = Inl FatalStackOverflow)"
proof -
  have "succeeds (exMoveBelow 13 12)" "succeeds (exMoveBelow 11 13)" by code_simp+
  then obtain d1 d2 where d: "exMoveBelow 13 12 = Inr d1" "exMoveBelow 11 13 = Inr d2" by (metis succeedsE)
  have "rollup_ok exTree (currentStock exDb 1 5)" by code_simp
  moreover have "case exMoveBelow 13 12 of Inl _ \<Rightarrow> False | Inr d \<Rightarrow> \<not> rollup_ok (tenantTree d 1 False) (currentStock d 1 5)"
    by code_simp
  moreover have "case exMoveBelow 11 13 of Inl _ \<Rightarrow> False
      | Inr d \<Rightarrow> ExecuteInventoryItemMovement undisturbed Postgres exCtx 500 d = Inl FatalStackOverflow"
    by code_simp
  ultimately show ?thesis unfolding d sum.case by blast
qed

end
