(* ===== verification/TxMiddleware.thy ===== *)
theory TxMiddleware
  imports Idempotency
begin

text \<open>
  The transaction middleware of the GraphQL servers, backend/common/gqltx: one transaction per
  mutation, retried on retryable database errors within a budget the context carries,
  post-commit hooks, the Idempotency-Key lease, and the mutations that run without a
  transaction.

  The resolvers and the database are parameters of a request: what begin, commit and the two
  writes of the lease report at each attempt, what the resolvers answer, write and register
  when attempt \<open>k\<close> runs on a given state, and what other requests commit before it. A commit
  that reports an error may or may not be durable. Metrics, logging and sleeping are left out.
\<close>

section \<open>The state and a request\<close>

text \<open>
  \<open>app\<close> is the service's data, \<open>keys\<close> its idempotency_keys table, \<open>fired\<close> the hooks that have
  run. \<open>history\<close> lists the leases of the committed mutations; no code reads it.
\<close>

record ('app, 'h) world =
  app :: 'app
  keys :: "key_row list"
  fired :: "'h list"
  history :: "lease list"

record ('app, 'd, 'h) gql_request =
  header :: bytes
  oc :: "gql_operation option"
  auth :: "(uuid \<times> uuid) option"
  checksum :: "go_error + nat"
  retries :: retry_ctx
  replica :: "key_row list"
  lookup_err :: "go_error option"
  race_begin_err :: "nat \<Rightarrow> go_error option"
  race_err :: "nat \<Rightarrow> go_error option"
  begin_err :: "nat \<Rightarrow> go_error option"
  insert_err :: "nat \<Rightarrow> go_error option"
  mark_err :: "nat \<Rightarrow> go_error option"
  commit_err :: "nat \<Rightarrow> (go_error \<times> bool) option"
  clock :: "nat \<Rightarrow> time"
  resolve :: "nat \<Rightarrow> 'app \<Rightarrow> 'd gql_response option \<times> 'app \<times> 'h list"
  others :: "nat \<Rightarrow> ('app, 'h) world \<Rightarrow> ('app, 'h) world"

record 'd config =
  idempotencyStore :: bool
  defaultRetries :: int
  maxResponseBytes :: int
  noTxOperations :: "string list"
  encode :: "'d gql_response \<Rightarrow> bytes option"
  decode :: "bytes \<Rightarrow> 'd gql_response option"

section \<open>Errors\<close>

fun errors_retryable :: "gql_error list \<Rightarrow> bool" where
  "errors_retryable [] = False"
| "errors_retryable (e # es) = (if ErrIsRetryable (ge_err e) then True else errors_retryable es)"

definition TopLevelFieldName :: "gql_operation option \<Rightarrow> string" where
  "TopLevelFieldName operation =
     (case operation of
        None \<Rightarrow> []
      | Some op \<Rightarrow> (case TopLevelFieldNames (op_fragments op) (op_selections op) of [] \<Rightarrow> [] | n # _ \<Rightarrow> n))"

definition ErrorResponseAtTopField :: "gql_operation option \<Rightarrow> go_error \<Rightarrow> 'd gql_response" where
  "ErrorResponseAtTopField operation err =
     \<lparr>resp_data = None, resp_errors =
        [\<lparr>ge_message = (case HideConstraintViolation err of Some m \<Rightarrow> m | None \<Rightarrow> errorText err),
          ge_code = [], ge_status = 0, ge_path = TopLevelFieldName operation, ge_err = None\<rparr>]\<rparr>"

definition plainErrorResponse :: "string \<Rightarrow> string \<Rightarrow> nat \<Rightarrow> 'd gql_response" where
  "plainErrorResponse message code status =
     \<lparr>resp_data = None, resp_errors =
        [\<lparr>ge_message = message, ge_code = code, ge_status = status, ge_path = [], ge_err = None\<rparr>]\<rparr>"

definition responseTooLargeResponse :: "'d gql_response" where
  "responseTooLargeResponse = plainErrorResponse
     ''Idempotency-Key response exceeds the maximum cacheable size; split the mutation into smaller calls'' ''RESPONSE_TOO_LARGE'' 413"

definition idempotencyInternalErrorResponse :: "'d gql_response" where
  "idempotencyInternalErrorResponse = plainErrorResponse
     ''internal error finalizing idempotency record'' ''IDEMPOTENCY_STORE_ERROR'' 500"

section \<open>Exemption from the transaction\<close>

definition exemptFromTx :: "string list \<Rightarrow> string list \<Rightarrow> bool \<times> bool" where
  "exemptFromTx noTx selected =
     (if noTx = [] \<or> selected = [] then (False, False)
      else let matched = length (filter (\<lambda>f. f \<in> set noTx) selected) in
        if matched = 0 then (False, False)
        else if matched = length selected then (length selected = 1, length selected > 1)
        else (False, True))"

section \<open>One attempt\<close>

text \<open>
  An attempt is over with a response, or it has been rolled back for a reason that may be
  retried; then the response is the one to give when the budget is spent.
\<close>

datatype ('d, 'w) outcome =
    Finished "'d gql_response option" 'w
  | RolledBack "'d gql_response option"

text \<open>The commit and the hooks of \<open>handleSuccess\<close>.\<close>

definition commitTx ::
  "('app, 'd, 'h) gql_request \<Rightarrow> nat \<Rightarrow> lease option \<Rightarrow> 'd gql_response \<Rightarrow> 'app \<Rightarrow> key_row list \<Rightarrow> 'h list
     \<Rightarrow> ('app, 'h) world \<Rightarrow> ('d, ('app, 'h) world) outcome"
where
  "commitTx rq k lease r app' keys' hooks w =
     (let done = w\<lparr>app := app', keys := keys',
            history := history w @ (case lease of None \<Rightarrow> [] | Some l \<Rightarrow> [l])\<rparr>
      in case commit_err rq k of
           Some (e, durable) \<Rightarrow>
             Finished (Some (ErrorResponseAtTopField (oc rq) (errorf ''failed to commit transaction: '' e)))
               (if durable then done else w)
         | None \<Rightarrow> Finished (Some r) (done\<lparr>fired := fired w @ hooks\<rparr>))"

text \<open>\<open>handleSuccess\<close> with \<open>persistIdempotencyResponse\<close>.\<close>

definition handleSuccess ::
  "'d config \<Rightarrow> ('app, 'd, 'h) gql_request \<Rightarrow> nat \<Rightarrow> lease option \<Rightarrow> 'd gql_response \<Rightarrow> 'app \<Rightarrow> key_row list
     \<Rightarrow> 'h list \<Rightarrow> ('app, 'h) world \<Rightarrow> ('d, ('app, 'h) world) outcome"
where
  "handleSuccess cfg rq k lease r app' keys' hooks w =
     (case lease of
        None \<Rightarrow> commitTx rq k None r app' keys' hooks w
      | Some l \<Rightarrow>
          (case SerializeResponse (encode cfg) (Some r) (maxResponseBytes cfg) of
             Inl e \<Rightarrow>
               Finished (Some (if errors_Is e ErrResponseTooLarge then responseTooLargeResponse
                               else idempotencyInternalErrorResponse)) w
           | Inr body \<Rightarrow>
               (case MarkCommitted (mark_err rq k) l body keys' of
                  Inl e \<Rightarrow>
                    if ErrIsRetryable (Some e) then RolledBack (Some idempotencyInternalErrorResponse)
                    else Finished (Some idempotencyInternalErrorResponse) w
                | Inr keys'' \<Rightarrow> commitTx rq k (Some l) r app' keys'' hooks w)))"

text \<open>\<open>wrapResponseHandler\<close>: the resolvers have run inside the transaction.\<close>

definition wrapResponseHandler ::
  "'d config \<Rightarrow> ('app, 'd, 'h) gql_request \<Rightarrow> nat \<Rightarrow> lease option \<Rightarrow> 'd gql_response option \<Rightarrow> 'app \<Rightarrow> key_row list
     \<Rightarrow> 'h list \<Rightarrow> ('app, 'h) world \<Rightarrow> ('d, ('app, 'h) world) outcome"
where
  "wrapResponseHandler cfg rq k lease resp app' keys' hooks w =
     (case resp of
        None \<Rightarrow> Finished None w
      | Some r \<Rightarrow>
          if resp_errors r \<noteq> [] then
            (if errors_retryable (resp_errors r) then RolledBack (Some r) else Finished (Some r) w)
          else handleSuccess cfg rq k lease r app' keys' hooks w)"

definition runResolvers ::
  "'d config \<Rightarrow> ('app, 'd, 'h) gql_request \<Rightarrow> nat \<Rightarrow> lease option \<Rightarrow> key_row list
     \<Rightarrow> ('app, 'h) world \<Rightarrow> ('d, ('app, 'h) world) outcome"
where
  "runResolvers cfg rq k lease keys' w =
     (case resolve rq k (app w) of
        (resp, app', hooks) \<Rightarrow> wrapResponseHandler cfg rq k lease resp app' keys' hooks w)"

text \<open>The body of \<open>handleMutationWithTx\<close> after BeginTx, with \<open>insertInFlight\<close>.\<close>

definition attempt ::
  "'d config \<Rightarrow> ('app, 'd, 'h) gql_request \<Rightarrow> nat \<Rightarrow> lease option \<Rightarrow> ('app, 'h) world
     \<Rightarrow> ('d, ('app, 'h) world) outcome"
where
  "attempt cfg rq k lease w =
     (case lease of
        None \<Rightarrow> runResolvers cfg rq k None (keys w) w
      | Some l \<Rightarrow>
          (case InsertInFlight (insert_err rq k) (clock rq k) l (keys w) of
             Inl e \<Rightarrow>
               if errors_Is e ErrUniqueViolation
               then Finished (res_response (ResolveRace (decode cfg) (race_begin_err rq k) (race_err rq k) (keys w) l)) w
               else if ErrIsRetryable (Some e) then RolledBack (Some idempotencyInternalErrorResponse)
               else Finished (Some idempotencyInternalErrorResponse) w
           | Inr keys' \<Rightarrow> runResolvers cfg rq k (Some l) keys' w))"

section \<open>The retry loop\<close>

text \<open>
  \<open>handleMutationWithTx\<close> calls itself with the budget lowered by one through the context. Every
  frame counts its attempts from zero, so a frame retries exactly when its budget is
  positive. The third result is the number of transactions opened.
\<close>

function handleMutationWithTx ::
  "'d config \<Rightarrow> ('app, 'd, 'h) gql_request \<Rightarrow> lease option \<Rightarrow> retry_ctx \<Rightarrow> nat \<Rightarrow> ('app, 'h) world
     \<Rightarrow> 'd gql_response option \<times> ('app, 'h) world \<times> nat"
where
  "handleMutationWithTx cfg rq lease c k w =
     (case begin_err rq k of
        Some e \<Rightarrow> (Some (plainErrorResponse (''failed to start transaction: '' @ errorText e) [] 0), others rq k w, 0)
      | None \<Rightarrow>
          (case attempt cfg rq k lease (others rq k w) of
             Finished r w' \<Rightarrow> (r, w', 1)
           | RolledBack r \<Rightarrow>
               if 0 < NumRetriesFromContext c (defaultRetries cfg)
               then (case handleMutationWithTx cfg rq lease
                            (WithMaxRetries c (NumRetriesFromContext c (defaultRetries cfg) - 1)) (Suc k) (others rq k w) of
                       (r', w', n) \<Rightarrow> (r', w', Suc n))
               else (r, others rq k w, 1)))"
  by pat_completeness auto
termination
  by (relation "measure (\<lambda>(cfg, rq, lease, c, k, w). nat (NumRetriesFromContext c (defaultRetries cfg)))")
    (auto simp: NumRetries_With)

declare handleMutationWithTx.simps [simp del]

section \<open>The entry point\<close>

text \<open>
  Without a transaction the resolvers' writes are durable as they happen and the hooks run
  whatever the response; only a nil response skips them.
\<close>

definition handleMutationWithoutTx ::
  "('app, 'd, 'h) gql_request \<Rightarrow> ('app, 'h) world \<Rightarrow> 'd gql_response option \<times> ('app, 'h) world \<times> nat"
where
  "handleMutationWithoutTx rq w =
     (case resolve rq 0 (app w) of
        (r, app', hooks) \<Rightarrow> (r, w\<lparr>app := app', fired := fired w @ (if r = None then [] else hooks)\<rparr>, 0))"

text \<open>A query reads; the outcome of its commit does not reach the response.\<close>

definition handleQueryWithReadOnlyTx ::
  "('app, 'd, 'h) gql_request \<Rightarrow> ('app, 'h) world \<Rightarrow> 'd gql_response option \<times> ('app, 'h) world \<times> nat"
where
  "handleQueryWithReadOnlyTx rq w =
     (case begin_err rq 0 of
        Some e \<Rightarrow> (Some (plainErrorResponse (''failed to start read-only transaction: '' @ errorText e) [] 0), w, 0)
      | None \<Rightarrow> (fst (resolve rq 0 (app w)), w, 1))"

definition mutationFields :: "('app, 'd, 'h) gql_request \<Rightarrow> string list" where
  "mutationFields rq =
     (case oc rq of None \<Rightarrow> [] | Some op \<Rightarrow> TopLevelFieldNames (op_fragments op) (op_selections op))"

definition InterceptMutation ::
  "'d config \<Rightarrow> ('app, 'd, 'h) gql_request \<Rightarrow> ('app, 'h) world \<Rightarrow> 'd gql_response option \<times> ('app, 'h) world \<times> nat"
where
  "InterceptMutation cfg rq w =
     (if snd (exemptFromTx (noTxOperations cfg) (mutationFields rq))
      then (Some (ErrorResponseAtTopField (oc rq) (Sentinel ''a mutation that runs without a transaction must be the only field of its operation'')), w, 0)
      else if fst (exemptFromTx (noTxOperations cfg) (mutationFields rq)) then handleMutationWithoutTx rq w
      else if idempotencyStore cfg then
        (let result = PreCheck (decode cfg) (header rq) (oc rq) (lookup_err rq) (replica rq) (auth rq) (checksum rq) in
         case res_action result of
           ActionSkip \<Rightarrow> handleMutationWithTx cfg rq None (retries rq) 0 w
         | ActionReplay \<Rightarrow> (res_response result, w, 0)
         | ActionShortCircuit \<Rightarrow> (res_response result, w, 0)
         | ActionProceed \<Rightarrow> handleMutationWithTx cfg rq (res_lease result) (retries rq) 0 w)
      else handleMutationWithTx cfg rq None (retries rq) 0 w)"

text \<open>Subscriptions and requests without an operation pass through; what they do is not modelled.\<close>

definition InterceptOperation ::
  "'d config \<Rightarrow> ('app, 'd, 'h) gql_request \<Rightarrow> ('app, 'h) world \<Rightarrow> 'd gql_response option \<times> ('app, 'h) world \<times> nat"
where
  "InterceptOperation cfg rq w =
     (case map_option op_kind (oc rq) of
        Some Mutation \<Rightarrow> InterceptMutation cfg rq w
      | Some Query \<Rightarrow> handleQueryWithReadOnlyTx rq w
      | _ \<Rightarrow> (fst (resolve rq 0 (app w)), w, 0))"

end
