(* ===== verification/Once.thy ===== *)
theory Once
  imports TxMiddleware
begin

text \<open>
  What the middleware guarantees whatever the resolvers, the database and other requests do.
  Locale \<open>idempotency_store\<close> is the contract of the Go interface \<open>idempotency.Store\<close>, interpreted
  with the inventory service's store; locale \<open>committer\<close> collects what a relation must satisfy
  at every commit, given what the resolvers do to the data (\<open>Q\<close>), for a whole request to keep it.
\<close>

section \<open>The store\<close>

locale idempotency_store =
  fixes insert :: "time \<Rightarrow> lease \<Rightarrow> 's \<Rightarrow> go_error + 's"
    and mark :: "lease \<Rightarrow> bytes \<Rightarrow> 's \<Rightarrow> go_error + 's"
    and lookup :: "'s \<Rightarrow> bytes \<times> uuid \<times> uuid \<Rightarrow> go_error + key_row"
    and wf :: "'s \<Rightarrow> bool"
  assumes insert_fresh: "wf s \<Longrightarrow> lookup s (lease_id l) = Inl ErrNotFound' \<Longrightarrow> \<exists>s'. insert now l s = Inr s'"
    and insert_taken: "wf s \<Longrightarrow> lookup s (lease_id l) = Inr r \<Longrightarrow> insert now l s = Inl ErrUniqueViolation"
    and mark_inserted: "wf s \<Longrightarrow> insert now l s = Inr s' \<Longrightarrow> \<exists>s''. mark l b s' = Inr s''"
    and marked_wf: "wf s \<Longrightarrow> insert now l s = Inr s' \<Longrightarrow> mark l b s' = Inr s'' \<Longrightarrow> wf s''"
    and marked_row: "wf s \<Longrightarrow> insert now l s = Inr s' \<Longrightarrow> mark l b s' = Inr s'' \<Longrightarrow>
      \<exists>r. lookup s'' (lease_id l) = Inr r \<and> k_status r = StatusCommitted \<and> k_response r = b \<and> k_checksum r = l_checksum l"
    and marked_other: "wf s \<Longrightarrow> insert now l s = Inr s' \<Longrightarrow> mark l b s' = Inr s'' \<Longrightarrow> i \<noteq> lease_id l \<Longrightarrow>
      lookup s'' i = lookup s i"
begin

text \<open>Once a key is committed, it is never inserted again, and its response is what a replay decodes.\<close>

lemma committed_key_taken:
  assumes "wf s" "insert now l s = Inr s'" "mark l b s' = Inr s''" and "lease_id l' = lease_id l"
  shows "insert now' l' s'' = Inl ErrUniqueViolation"
proof -
  from marked_row [OF assms(1-3)] obtain r where "lookup s'' (lease_id l) = Inr r" by blast
  with insert_taken [OF marked_wf [OF assms(1-3)], of l' r now'] assms(4) show ?thesis by simp
qed

lemma committed_key_replays:
  assumes "wf s" "insert now l s = Inr s'" "mark l b s' = Inr s''" and "b \<noteq> []" "dec b = Some resp"
  shows "\<exists>r. lookup s'' (lease_id l) = Inr r
    \<and> resolveExisting dec r (l_checksum l) = \<lparr>res_action = ActionReplay, res_response = Some resp, res_status = 200, res_lease = None\<rparr>"
proof -
  from marked_row [OF assms(1-3)] obtain r where r: "lookup s'' (lease_id l) = Inr r" "k_status r = StatusCommitted"
    "k_response r = b" "k_checksum r = l_checksum l" by blast
  with assms(4,5) show ?thesis by (simp add: resolveExisting_def DeserializeResponse_def)
qed

end

text \<open>A committed table: one row per key, none in flight.\<close>

definition keys_ok :: "key_row list \<Rightarrow> bool" where
  "keys_ok rows \<longleftrightarrow> distinct (map row_id rows) \<and> list_all (\<lambda>r. k_status r = StatusCommitted) rows"

lemma lookup_missing: "Lookup None rows i = Inl ErrNotFound' \<longleftrightarrow> i \<notin> row_id ` set rows"
proof -
  have "filter (\<lambda>r. row_id r = i) rows = [] \<longleftrightarrow> i \<notin> row_id ` set rows" by (auto simp: filter_empty_conv)
  then show ?thesis by (auto simp: Lookup_def split: list.splits)
qed

lemma lookup_found: "Lookup None rows i = Inr r \<Longrightarrow> r \<in> set rows \<and> row_id r = i"
  by (auto simp: Lookup_def filter_eq_Cons_iff split: list.splits)

lemma insert_free: "i = lease_id l \<Longrightarrow> i \<notin> row_id ` set rows \<Longrightarrow> \<exists>rows'. InsertInFlight None now l rows = Inr rows'"
  by (auto simp: InsertInFlight_def list_ex_iff Let_def) (metis image_eqI)

lemma insert_unique:
  "lease_id l \<in> row_id ` set rows \<Longrightarrow> InsertInFlight None now l rows = Inl ErrUniqueViolation"
  by (auto simp: InsertInFlight_def list_ex_iff IsUniqueViolation_def PostgresError_def)

text \<open>The two writes of a lease together append one committed row.\<close>

lemma insert_mark:
  assumes "keys_ok rows" and "InsertInFlight e now l rows = Inr rows'"
  shows "\<exists>r. row_id r = lease_id l \<and> k_checksum r = l_checksum l \<and> k_status r = StatusInFlight
    \<and> row_id r \<notin> row_id ` set rows
    \<and> MarkCommitted None l b rows' = Inr (rows @ [r\<lparr>k_status := StatusCommitted, k_response := b\<rparr>])"
proof -
  from InsertInFlight_Inr [OF assms(2)] obtain r where r: "rows' = rows @ [r]" "row_id r = lease_id l"
    "k_checksum r = l_checksum l" "k_status r = StatusInFlight" "\<forall>x \<in> set rows. row_id x \<noteq> lease_id l" by blast
  have "map (\<lambda>x. if row_id x = lease_id l \<and> k_status x = StatusInFlight
      then x\<lparr>k_status := StatusCommitted, k_response := b\<rparr> else x) rows = rows"
    using r(5) by (intro map_idI) simp
  with r have "MarkCommitted None l b rows' = Inr (rows @ [r\<lparr>k_status := StatusCommitted, k_response := b\<rparr>])"
    by (simp add: MarkCommitted_def)
  with r show ?thesis by auto
qed

lemma MarkCommitted_Inr: "MarkCommitted e l b rows = Inr rows' \<Longrightarrow> e = None"
  by (auto simp: MarkCommitted_def split: option.splits)

lemma row_id_update [simp]: "row_id (r\<lparr>k_status := s, k_response := b\<rparr>) = row_id r"
  by (simp add: row_id_def)

lemma insert_mark_ok:
  assumes "keys_ok rows" "InsertInFlight e now l rows = Inr rows'" "MarkCommitted e' l b rows' = Inr rows''"
  shows "\<exists>r. rows'' = rows @ [r] \<and> row_id r = lease_id l \<and> row_id r \<notin> row_id ` set rows
    \<and> k_status r = StatusCommitted \<and> k_response r = b \<and> k_checksum r = l_checksum l \<and> keys_ok rows''"
proof -
  from MarkCommitted_Inr [OF assms(3)] have "MarkCommitted None l b rows' = Inr rows''" using assms(3) by simp
  with insert_mark [OF assms(1,2), of b] assms(1) show ?thesis by (auto simp: keys_ok_def)
qed

interpretation inventory_store: idempotency_store "InsertInFlight None" "MarkCommitted None" "Lookup None" keys_ok
proof
  fix s :: "key_row list" and l now s' b s'' i r
  assume ok: "keys_ok s"
  show "\<exists>s'. InsertInFlight None now l s = Inr s'" if "Lookup None s (lease_id l) = Inl ErrNotFound'"
    using that insert_free [OF refl] by (simp add: lookup_missing)
  show "InsertInFlight None now l s = Inl ErrUniqueViolation" if "Lookup None s (lease_id l) = Inr r"
    using lookup_found [OF that] by (intro insert_unique) force
  assume ins: "InsertInFlight None now l s = Inr s'"
  show "\<exists>s''. MarkCommitted None l b s' = Inr s''" using insert_mark [OF ok ins] by blast
  assume "MarkCommitted None l b s' = Inr s''"
  from insert_mark_ok [OF ok ins this] obtain row where row: "s'' = s @ [row]" "row_id row = lease_id l"
    "k_status row = StatusCommitted" "k_response row = b" "k_checksum row = l_checksum l" "keys_ok s''" by blast
  show "keys_ok s''" by (fact row(6))
  show "\<exists>r. Lookup None s'' (lease_id l) = Inr r \<and> k_status r = StatusCommitted \<and> k_response r = b \<and> k_checksum r = l_checksum l"
    using lookup_unique [of s'' row] row by (auto simp: keys_ok_def)
  show "Lookup None s'' i = Lookup None s i" if "i \<noteq> lease_id l"
    using that row(1,2) by (simp add: Lookup_def)
qed

section \<open>What every commit keeps\<close>

text \<open>
  What the resolvers of a request may do to the service's data. Inside a transaction only an
  answer without errors counts, the writes behind any other are rolled back.
\<close>

definition resolvers_keep :: "('app \<Rightarrow> 'app \<Rightarrow> bool) \<Rightarrow> 'd config \<Rightarrow> ('app, 'd, 'h) gql_request \<Rightarrow> bool" where
  "resolvers_keep Q cfg rq \<longleftrightarrow> (\<forall>k a r a' hs. resolve rq k a = (r, a', hs) \<longrightarrow>
     (\<exists>x. r = Some x \<and> resp_errors x = []) \<or> fst (exemptFromTx (noTxOperations cfg) (mutationFields rq)) \<longrightarrow> Q a a')"

lemma resolvers_keepD:
  assumes "resolvers_keep Q cfg rq" and "resolve rq k a = (r, a', hs)"
    and "r = Some x \<and> resp_errors x = [] \<or> fst (exemptFromTx (noTxOperations cfg) (mutationFields rq))"
  shows "Q a a'"
  using assms unfolding resolvers_keep_def by blast

locale committer =
  fixes Q :: "'app \<Rightarrow> 'app \<Rightarrow> bool"
    and R :: "('app, 'h) world \<Rightarrow> ('app, 'h) world \<Rightarrow> bool"
  assumes R_refl: "R w w"
    and R_trans: "R w w1 \<Longrightarrow> R w1 w2 \<Longrightarrow> R w w2"
    and R_plain: "keys w' = keys w \<Longrightarrow> history w' = history w \<Longrightarrow> Q (app w) (app w') \<Longrightarrow> R w w'"
    and R_keyed: "\<lbrakk>InsertInFlight e now l (keys w) = Inr rows; MarkCommitted e' l b rows = Inr (keys w');
      history w' = history w @ [l]; Q (app w) (app w')\<rbrakk> \<Longrightarrow> R w w'"
begin

lemma R_attempt:
  assumes "resolvers_keep Q cfg rq" and "attempt cfg rq k lease w = Finished r w'"
  shows "R w w'"
proof -
  obtain resp a hs where res: "resolve rq k (app w) = (resp, a, hs)" by (metis prod_cases3)
  have keep: "Q (app w) a" if "resp = Some x" "resp_errors x = []" for x
    using resolvers_keepD [OF assms(1) res, of x] that by simp
  note defs = attempt_def runResolvers_def wrapResponseHandler_def handleSuccess_def commitTx_def Let_def res
  show ?thesis
  proof (cases lease)
    case None
    with assms(2) keep have "w' = w \<or> keys w' = keys w \<and> history w' = history w \<and> Q (app w) (app w')"
      by (auto simp: defs split: option.splits if_splits)
    then show ?thesis using R_refl R_plain by blast
  next
    case (Some l)
    with assms(2) keep have "w' = w \<or> (\<exists>e now rows e' b. InsertInFlight e now l (keys w) = Inr rows
        \<and> MarkCommitted e' l b rows = Inr (keys w') \<and> history w' = history w @ [l] \<and> Q (app w) (app w'))"
      by (auto simp: defs split: option.splits sum.splits if_splits)
    then show ?thesis using R_refl R_keyed by blast
  qed
qed

lemma R_handle:
  assumes "\<And>k x. R x (others rq k x)" and "resolvers_keep Q cfg rq"
  shows "handleMutationWithTx cfg rq lease c k w = (r, w', n) \<Longrightarrow> R w w'"
proof (induction "nat (NumRetriesFromContext c (defaultRetries cfg))" arbitrary: c k w r w' n rule: less_induct)
  case less
  let ?b = "NumRetriesFromContext c (defaultRetries cfg)"
  have other: "R w (others rq k w)" by (rule assms(1))
  show ?case
  proof (cases "begin_err rq k = None \<and> (\<exists>r'. attempt cfg rq k lease (others rq k w) = RolledBack r') \<and> 0 < ?b")
    case True
    then obtain r' where h: "begin_err rq k = None" "attempt cfg rq k lease (others rq k w) = RolledBack r'" "0 < ?b" by blast
    obtain r2 w2 n2 where rec: "handleMutationWithTx cfg rq lease (WithMaxRetries c (?b - 1)) (Suc k) (others rq k w) = (r2, w2, n2)"
      by (metis surj_pair)
    with h less.prems have "w' = w2" by (simp add: handleMutationWithTx.simps [of cfg rq lease c k w])
    with R_trans [OF other less.hyps [OF _ rec]] h(3) show ?thesis by simp
  next
    case False
    with less.prems have "w' = others rq k w \<or> attempt cfg rq k lease (others rq k w) = Finished r w'"
      by (auto simp: handleMutationWithTx.simps [of cfg rq lease c k w] split: option.splits outcome.splits if_splits)
    with other R_trans [OF other R_attempt [OF assms(2)]] show ?thesis by blast
  qed
qed

lemma R_Intercept:
  assumes "\<And>k x. R x (others rq k x)" and "resolvers_keep Q cfg rq"
    and "InterceptOperation cfg rq w = (r, w', n)"
  shows "R w w'"
proof -
  have handle: "R w w'" if "handleMutationWithTx cfg rq lease c 0 w = (r, w', n)" for lease c
    using assms(1,2) that by (rule R_handle)
  have plain: "R w w'" if "handleMutationWithoutTx rq w = (r, w', n)"
      "fst (exemptFromTx (noTxOperations cfg) (mutationFields rq))"
    using that resolvers_keepD [OF assms(2)]
    by (auto simp: handleMutationWithoutTx_def intro!: R_plain split: prod.splits)
  have query: "R w w'" if "handleQueryWithReadOnlyTx rq w = (r, w', n)"
    using that R_refl by (auto simp: handleQueryWithReadOnlyTx_def split: option.splits)
  have mutation: "R w w'" if "InterceptMutation cfg rq w = (r, w', n)"
    using that handle plain R_refl
    by (auto simp: InterceptMutation_def Let_def split: if_splits action.splits)
  show ?thesis
    using assms(3) mutation query R_refl
    by (auto simp: InterceptOperation_def split: option.splits operation_kind.splits)
qed

end

end
