(* ===== verification/MiddlewareProperties.thy ===== *)
theory MiddlewareProperties
  imports Once
begin

text \<open>
  Properties of the transaction middleware: a key's mutation is committed at most once and its
  response replayed, the retry loop is bounded and delivers the first attempt that succeeds,
  and the exemption from the transaction cannot be obtained by the shape of a document.
\<close>

section \<open>Requests and reachable states\<close>

text \<open>
  One request is served, its resolvers doing to the data what \<open>Q\<close> allows; what other requests
  commit meanwhile are served requests too.
\<close>

inductive served :: "('app \<Rightarrow> 'app \<Rightarrow> bool) \<Rightarrow> 'd config \<Rightarrow> ('app, 'h) world \<Rightarrow> ('app, 'h) world \<Rightarrow> bool" for Q cfg where
  serve: "\<lbrakk>InterceptOperation cfg rq w = (r, w', n); resolvers_keep Q cfg rq;
    \<forall>k x. (served Q cfg)\<^sup>*\<^sup>* x (others rq k x)\<rbrakk> \<Longrightarrow> served Q cfg w w'"

text \<open>Whatever holds at every commit holds along every sequence of served requests.\<close>

context committer
begin

lemma R_served: "served Q cfg w w' \<Longrightarrow> R w w'"
proof (induction rule: served.induct)
  case (serve rq w r w' n)
  have "R x (others rq k x)" for k x
    using serve(3) [rule_format, of x k] by (induction rule: rtranclp_induct) (auto intro: R_refl R_trans)
  then show ?case using serve(2,1) by (rule R_Intercept)
qed

lemma R_requests: "(served Q cfg)\<^sup>*\<^sup>* w w' \<Longrightarrow> R w w'"
  by (induction rule: rtranclp_induct) (auto intro: R_refl R_trans R_served)

end

definition once_ok :: "('app, 'h) world \<Rightarrow> bool" where
  "once_ok w \<longleftrightarrow> keys_ok (keys w) \<and> distinct (map lease_id (history w))
     \<and> set (map lease_id (history w)) \<subseteq> set (map row_id (keys w))"

definition once_step :: "('app, 'h) world \<Rightarrow> ('app, 'h) world \<Rightarrow> bool" where
  "once_step w w' \<longleftrightarrow> (once_ok w \<longrightarrow> once_ok w' \<and> set (keys w) \<subseteq> set (keys w'))
     \<and> (\<exists>ls. history w' = history w @ ls)"

lemma once_step_keyed:
  assumes "InsertInFlight e now l (keys w) = Inr rows" "MarkCommitted e' l b rows = Inr (keys w')"
    and "history w' = history w @ [l]"
  shows "once_step w w'"
proof -
  have "once_ok w' \<and> set (keys w) \<subseteq> set (keys w')" if ok: "once_ok w"
  proof -
    from ok have "keys_ok (keys w)" by (simp add: once_ok_def)
    from insert_mark_ok [OF this assms(1,2)] obtain r where r: "keys w' = keys w @ [r]" "row_id r = lease_id l"
      "row_id r \<notin> row_id ` set (keys w)" "keys_ok (keys w')" by blast
    with ok assms(3) show ?thesis by (auto simp: once_ok_def)
  qed
  with assms(3) show ?thesis by (simp add: once_step_def)
qed

interpretation once: committer Q once_step for Q :: "'app \<Rightarrow> 'app \<Rightarrow> bool"
proof
  show "once_step w w1 \<Longrightarrow> once_step w1 w2 \<Longrightarrow> once_step w w2" for w w1 w2 :: "('app, 'h) world"
    by (auto simp: once_step_def)
  show "InsertInFlight e now l (keys w) = Inr rows \<Longrightarrow> MarkCommitted e' l b rows = Inr (keys w') \<Longrightarrow>
      history w' = history w @ [l] \<Longrightarrow> Q (app w) (app w') \<Longrightarrow> once_step w w'"
    for e now l rows e' b and w w' :: "('app, 'h) world"
    by (rule once_step_keyed)
qed (simp_all add: once_step_def once_ok_def)

section \<open>The retry loop\<close>

lemma handle_opened: "handleMutationWithTx cfg rq lease c k w = (r, w', n) \<Longrightarrow>
  int n \<le> max 0 (NumRetriesFromContext c (defaultRetries cfg)) + 1"
proof (induction cfg rq lease c k w arbitrary: r w' n rule: handleMutationWithTx.induct)
  case (1 cfg rq lease c k w)
  let ?b = "NumRetriesFromContext c (defaultRetries cfg)"
  show ?case
  proof (cases "begin_err rq k = None \<and> (\<exists>r'. attempt cfg rq k lease (others rq k w) = RolledBack r') \<and> 0 < ?b")
    case True
    then obtain r' where h: "begin_err rq k = None" "attempt cfg rq k lease (others rq k w) = RolledBack r'" "0 < ?b" by blast
    obtain r2 w2 n2 where rec: "handleMutationWithTx cfg rq lease (WithMaxRetries c (?b - 1)) (Suc k) (others rq k w) = (r2, w2, n2)"
      by (metis surj_pair)
    with h 1(2) have "n = Suc n2" by (simp add: handleMutationWithTx.simps [of cfg rq lease c k w])
    with 1(1) [OF h rec] h(3) show ?thesis by simp
  next
    case False
    with 1(2) have "n \<le> 1"
      by (auto simp: handleMutationWithTx.simps [of cfg rq lease c k w] split: option.splits outcome.splits if_splits)
    then show ?thesis by simp
  qed
qed

text \<open>Attempts that fail retryably are followed by the next one while the budget lasts.\<close>

lemma handle_retries:
  assumes "\<And>k x. others rq k x = x" and "\<And>i. i \<le> j \<Longrightarrow> begin_err rq (k + i) = None"
    and "\<And>i. i < j \<Longrightarrow> \<exists>r'. attempt cfg rq (k + i) lease w = RolledBack r'"
    and "attempt cfg rq (k + j) lease w = Finished r w'"
    and "int j \<le> NumRetriesFromContext c (defaultRetries cfg) \<or> j = 0"
  shows "handleMutationWithTx cfg rq lease c k w = (r, w', Suc j)"
  using assms(2-5)
proof (induction j arbitrary: k c)
  case 0
  with assms(1) show ?case using "0.prems"(1) [of 0] by (simp add: handleMutationWithTx.simps)
next
  case (Suc j)
  let ?b = "NumRetriesFromContext c (defaultRetries cfg)"
  from Suc.prems(2) [of 0] obtain r' where fail: "attempt cfg rq k lease w = RolledBack r'" by auto
  have "handleMutationWithTx cfg rq lease (WithMaxRetries c (?b - 1)) (Suc k) w = (r, w', Suc j)"
  proof (rule Suc.IH)
    show "begin_err rq (Suc k + i) = None" if "i \<le> j" for i using Suc.prems(1) [of "Suc i"] that by simp
    show "\<exists>r'. attempt cfg rq (Suc k + i) lease w = RolledBack r'" if "i < j" for i
      using Suc.prems(2) [of "Suc i"] that by simp
    show "attempt cfg rq (Suc k + j) lease w = Finished r w'" using Suc.prems(3) by simp
    show "int j \<le> NumRetriesFromContext (WithMaxRetries c (?b - 1)) (defaultRetries cfg) \<or> j = 0"
      using Suc.prems(4) by simp
  qed
  with fail Suc.prems(1) [of 0] Suc.prems(4) assms(1) show ?case
    by (simp add: handleMutationWithTx.simps [of cfg rq lease c k w])
qed

text \<open>A conflict that Postgres reports at COMMIT ends the request, whatever the budget.\<close>

lemma commit_conflict_not_retried:
  assumes "others rq 0 w = w" "begin_err rq 0 = None" "resolve rq 0 (app w) = (Some r, a, hs)" "resp_errors r = []"
    and "commit_err rq 0 = Some (PqError ''40001'' message, False)"
  shows "ErrIsRetryable (Some (PqError ''40001'' message))
    \<and> (\<exists>r'. handleMutationWithTx cfg rq None c 0 w = (Some r', w, 1) \<and> resp_errors r' \<noteq> [])"
  using assms
  by (simp add: handleMutationWithTx.simps attempt_def runResolvers_def wrapResponseHandler_def handleSuccess_def
      commitTx_def ErrorResponseAtTopField_def ErrIsRetryable_def PostgresError_def errors_Is_def retryableStates_def)

section \<open>Replays\<close>

lemma PreCheck_lease:
  assumes "FromHeaders h = Inr key" "key \<noteq> []" "op_kind op = Mutation" "op_name op \<noteq> []"
    and "length (TopLevelFieldNames (op_fragments op) (op_selections op)) \<le> 1"
  shows "PreCheck dec h (Some op) e rows (Some (t, u)) (Inr cs) =
    (case Lookup e rows (key, t, u) of
       Inl e \<Rightarrow> if errors_Is e ErrNotFound'
         then \<lparr>res_action = ActionProceed, res_response = None, res_status = 0,
                res_lease = Some \<lparr>l_key = key, l_tenant = t, l_user = u, l_operation = op_name op, l_checksum = cs\<rparr>\<rparr>
         else shortCircuit 500 ''IDEMPOTENCY_STORE_ERROR'' ''internal error during idempotency check''
     | Inr rec \<Rightarrow> resolveExisting dec rec cs)"
  using assms by (simp add: PreCheck_def)

lemma resolve_committed:
  assumes "k_status row = StatusCommitted" "k_response row \<noteq> []" "dec (k_response row) = Some r" "k_checksum row = cs"
  shows "resolveExisting dec row cs = \<lparr>res_action = ActionReplay, res_response = Some r, res_status = 200, res_lease = None\<rparr>"
  using assms by (simp add: resolveExisting_def DeserializeResponse_def)

text \<open>A mutation with a lease whose key is already committed answers with the cached response.\<close>

lemma handle_taken:
  assumes "begin_err rq 0 = None" "insert_err rq 0 = None" "race_begin_err rq 0 = None" "race_err rq 0 = None"
    and "keys_ok (keys (others rq 0 w))" "row \<in> set (keys (others rq 0 w))" "row_id row = lease_id l"
    and "k_status row = StatusCommitted" "k_response row \<noteq> []" "decode cfg (k_response row) = Some r"
    and "k_checksum row = l_checksum l"
  shows "handleMutationWithTx cfg rq (Some l) c 0 w = (Some r, others rq 0 w, 1)"
proof -
  have "Lookup None (keys (others rq 0 w)) (lease_id l) = Inr row"
    using lookup_unique [of "keys (others rq 0 w)" row] assms(5-7) by (simp add: keys_ok_def)
  then have "attempt cfg rq 0 (Some l) (others rq 0 w) = Finished (Some r) (others rq 0 w)"
    using inventory_store.insert_taken [OF assms(5)] resolve_committed [of row "decode cfg", OF assms(8-11)] assms(2-4)
    by (simp add: attempt_def errors_Is_def ResolveRace_def)
  with assms(1) show ?thesis by (simp add: handleMutationWithTx.simps)
qed

section \<open>Properties\<close>

text \<open>
  C36: over any sequence of served requests, with any interleaving, retries, database errors
  and commits that report an error but are durable, the mutation of an Idempotency-Key is
  committed at most once per tenant and user: no key occurs twice in the history of commits.
  Committed keys keep their row and response, and none is ever in flight. Pruning is not a
  request; it ends the guarantee for the keys it removes.
\<close>
theorem at_most_once:
  assumes "(served Q cfg)\<^sup>*\<^sup>* w w'" and "once_ok w"
  shows "distinct (map lease_id (history w')) \<and> (\<exists>ls. history w' = history w @ ls)
    \<and> set (keys w) \<subseteq> set (keys w') \<and> list_all (\<lambda>r. k_status r = StatusCommitted) (keys w')"
  using once.R_requests [OF assms(1)] assms(2) by (simp add: once_step_def once_ok_def keys_ok_def)

text \<open>A counter as the service's data; its mutation adds one and answers with the new value.\<close>

definition exEncode :: "nat gql_response \<Rightarrow> bytes option" where
  "exEncode r = (case resp_data r of Some n \<Rightarrow> Some [n] | None \<Rightarrow> None)"

definition exDecode :: "bytes \<Rightarrow> nat gql_response option" where
  "exDecode b = (case b of [n] \<Rightarrow> Some \<lparr>resp_data = Some n, resp_errors = []\<rparr> | _ \<Rightarrow> None)"

definition exConfig :: "nat config" where
  "exConfig = \<lparr>idempotencyStore = True, defaultRetries = 2, maxResponseBytes = 0, noTxOperations = [''registerTenant''],
     encode = exEncode, decode = exDecode\<rparr>"

definition exConflict :: gql_error where
  "exConflict = \<lparr>ge_message = ''conflict'', ge_code = [], ge_status = 0, ge_path = [], ge_err = Some OCCConflict\<rparr>"

text \<open>The first \<open>n\<close> attempts meet an OCC conflict.\<close>

definition exResolve :: "nat \<Rightarrow> nat \<Rightarrow> nat \<Rightarrow> nat gql_response option \<times> nat \<times> string list" where
  "exResolve n k v =
     (if k < n then (Some \<lparr>resp_data = None, resp_errors = [exConflict]\<rparr>, v, [''lost''])
      else (Some \<lparr>resp_data = Some (v + 1), resp_errors = []\<rparr>, v + 1, [''notify'']))"

definition exRequest :: "nat \<Rightarrow> bytes \<Rightarrow> (nat, nat, string) gql_request" where
  "exRequest n key =
     \<lparr>header = key,
      oc = Some \<lparr>op_kind = Mutation, op_name = ''Add'', op_selections = [Field ''add''], op_fragments = []\<rparr>,
      auth = Some (1, 7), checksum = Inr 99, retries = None, replica = [], lookup_err = None,
      race_begin_err = (\<lambda>_. None), race_err = (\<lambda>_. None), begin_err = (\<lambda>_. None), insert_err = (\<lambda>_. None), mark_err = (\<lambda>_. None),
      commit_err = (\<lambda>_. None), clock = (\<lambda>k. int k), resolve = exResolve n, others = (\<lambda>_ x. x)\<rparr>"

definition exWorld :: "(nat, string) world" where
  "exWorld = \<lparr>app = 5, keys = [], fired = [], history = []\<rparr>"

definition exServed :: "(nat, string) world" where
  "exServed = fst (snd (InterceptOperation exConfig (exRequest 0 [65]) exWorld))"

lemma exServed_served: "served (\<lambda>_ _. True) exConfig exWorld exServed"
proof (rule served.serve)
  show "InterceptOperation exConfig (exRequest 0 [65]) exWorld =
      (fst (InterceptOperation exConfig (exRequest 0 [65]) exWorld), exServed,
       snd (snd (InterceptOperation exConfig (exRequest 0 [65]) exWorld)))"
    by (simp add: exServed_def)
qed (simp_all add: exRequest_def resolvers_keep_def)

theorem at_most_once_witness:
  "app exServed = 6 \<and> distinct (map lease_id (history exServed)) \<and> length (history exServed) = 1"
proof -
  have "once_ok exWorld" "app exServed = 6" "length (history exServed) = 1" by code_simp+
  with at_most_once [OF r_into_rtranclp [of "served (\<lambda>_ _. True) exConfig", OF exServed_served]] show ?thesis by blast
qed

text \<open>
  C37: a request that repeats a committed one, same key, user and operation, is answered with
  the cached response and commits nothing, whether the reader pool already shows the row or
  lags behind and the unique index catches the repeat. Assumed: JSON decodes the cached bytes,
  and the database answers the lookups.
\<close>
theorem replay:
  assumes "FromHeaders (header rq) = Inr key" "key \<noteq> []" "oc rq = Some op" "op_kind op = Mutation" "op_name op \<noteq> []"
    and "TopLevelFieldNames (op_fragments op) (op_selections op) = [f]" "f \<notin> set (noTxOperations cfg)"
    and "auth rq = Some (t, u)" "checksum rq = Inr (k_checksum row)" "idempotencyStore cfg"
    and "row_id row = (key, t, u)" "k_status row = StatusCommitted" "k_response row \<noteq> []"
    and "decode cfg (k_response row) = Some r"
    and "keys_ok (replica rq)" "row_id row \<in> row_id ` set (replica rq) \<Longrightarrow> row \<in> set (replica rq)"
    and "lookup_err rq = None" "begin_err rq 0 = None" "insert_err rq 0 = None" "race_begin_err rq 0 = None" "race_err rq 0 = None"
    and "keys_ok (keys (others rq 0 w))" "row \<in> set (keys (others rq 0 w))"
  shows "\<exists>n. InterceptOperation cfg rq w = (Some r, if row \<in> set (replica rq) then w else others rq 0 w, n)"
proof -
  have fields: "mutationFields rq = [f]" using assms(3,6) by (simp add: mutationFields_def)
  have exempt: "exemptFromTx (noTxOperations cfg) [f] = (False, False)"
    using assms(7) by (simp add: exemptFromTx_def Let_def)
  let ?l = "\<lparr>l_key = key, l_tenant = t, l_user = u, l_operation = op_name op, l_checksum = k_checksum row\<rparr>"
  let ?pre = "PreCheck (decode cfg) (header rq) (Some op) (lookup_err rq) (replica rq) (auth rq) (checksum rq)"
  have intercept: "InterceptOperation cfg rq w = (case res_action ?pre of
        ActionSkip \<Rightarrow> handleMutationWithTx cfg rq None (retries rq) 0 w
      | ActionReplay \<Rightarrow> (res_response ?pre, w, 0) | ActionShortCircuit \<Rightarrow> (res_response ?pre, w, 0)
      | ActionProceed \<Rightarrow> handleMutationWithTx cfg rq (res_lease ?pre) (retries rq) 0 w)"
    using assms(3,4,10) fields exempt by (simp add: InterceptOperation_def InterceptMutation_def Let_def)
  have pre: "?pre = (case Lookup None (replica rq) (key, t, u) of
       Inl e \<Rightarrow> if errors_Is e ErrNotFound'
         then \<lparr>res_action = ActionProceed, res_response = None, res_status = 0, res_lease = Some ?l\<rparr>
         else shortCircuit 500 ''IDEMPOTENCY_STORE_ERROR'' ''internal error during idempotency check''
     | Inr rec \<Rightarrow> resolveExisting (decode cfg) rec (k_checksum row))"
    using PreCheck_lease [OF assms(1,2,4,5)] assms(3,6,8,9,17) by simp
  show ?thesis
  proof (cases "row \<in> set (replica rq)")
    case True
    then have "Lookup None (replica rq) (key, t, u) = Inr row"
      using lookup_unique [of "replica rq" row] assms(11,15) by (simp add: keys_ok_def)
    with resolve_committed [of row "decode cfg", OF assms(12-14) refl] True show ?thesis
      by (simp add: intercept pre)
  next
    case False
    with assms(11,16) have "Lookup None (replica rq) (key, t, u) = Inl ErrNotFound'" by (auto simp: lookup_missing)
    moreover have "handleMutationWithTx cfg rq (Some ?l) (retries rq) 0 w = (Some r, others rq 0 w, 1)"
      by (rule handle_taken [OF assms(18-23)]) (use assms(11-14) in \<open>simp_all add: lease_id_def\<close>)
    ultimately show ?thesis using False by (simp add: intercept pre errors_Is_def)
  qed
qed

text \<open>The reader pool has not seen the row: the repeat of the request changes nothing.\<close>

theorem replay_witness:
  "\<exists>n. InterceptOperation exConfig (exRequest 0 [65]) exServed = (Some \<lparr>resp_data = Some 6, resp_errors = []\<rparr>, exServed, n)"
proof -
  let ?rq = "exRequest 0 [65]" and ?row = "hd (keys exServed)"
  let ?op = "\<lparr>op_kind = Mutation, op_name = ''Add'', op_selections = [Field ''add''], op_fragments = []\<rparr>"
  have row: "row_id ?row = ([65], 1, 7)" "k_status ?row = StatusCommitted" "k_response ?row \<noteq> []"
    "decode exConfig (k_response ?row) = Some \<lparr>resp_data = Some 6, resp_errors = []\<rparr>" "k_checksum ?row = 99"
    "keys exServed \<noteq> []" "keys_ok (keys exServed)"
    by code_simp+
  have key: "FromHeaders [65] = Inr [65]" "TopLevelFieldNames [] [Field ''add''] = [''add'']"
    "''add'' \<notin> set (noTxOperations exConfig)" "idempotencyStore exConfig"
    by code_simp+
  have "\<exists>n. InterceptOperation exConfig ?rq exServed = (Some \<lparr>resp_data = Some 6, resp_errors = []\<rparr>,
      if ?row \<in> set (replica ?rq) then exServed else others ?rq 0 exServed, n)"
    by (rule replay [where key = "[65]" and op = ?op and t = 1 and u = 7 and f = "''add''"])
      (use row key in \<open>simp_all add: exRequest_def keys_ok_def\<close>)
  then show ?thesis by (simp add: exRequest_def)
qed

text \<open>
  Whatever happens, a mutation opens at most one transaction more than its retry budget.
  A budget of zero or less means one attempt.
\<close>
theorem retry_bounded:
  assumes "handleMutationWithTx cfg rq lease c k w = (r, w', n)"
  shows "int n \<le> max 0 (NumRetriesFromContext c (defaultRetries cfg)) + 1"
  using assms by (rule handle_opened)

theorem retry_bounded_witness: "snd (snd (handleMutationWithTx exConfig (exRequest 9 [65]) None None 0 exWorld)) \<le> 3"
proof -
  obtain r w' n where run: "handleMutationWithTx exConfig (exRequest 9 [65]) None None 0 exWorld = (r, w', n)"
    by (metis surj_pair)
  have "NumRetriesFromContext None (defaultRetries exConfig) = 2" by code_simp
  with retry_bounded [OF run] run show ?thesis by simp
qed

text \<open>
  C39: a mutation whose first \<open>j\<close> attempts fail with a retryable error and whose next one
  succeeds is answered by that attempt, as long as \<open>j\<close> is within the budget. Its writes are the
  only ones committed and its hooks the only ones run; the hooks that rolled back attempts
  registered are gone.
\<close>
theorem retry_succeeds:
  assumes "\<And>k x. others rq k x = x" and "\<And>i. i \<le> j \<Longrightarrow> begin_err rq i = None"
    and "\<And>i. i < j \<Longrightarrow> \<exists>r'. fst (resolve rq i (app w)) = Some r' \<and> errors_retryable (resp_errors r')"
    and "resolve rq j (app w) = (Some r, a, hooks)" "resp_errors r = []" "commit_err rq j = None"
    and "int j \<le> NumRetriesFromContext (retries rq) (defaultRetries cfg) \<or> j = 0"
  shows "handleMutationWithTx cfg rq None (retries rq) 0 w = (Some r, w\<lparr>app := a, fired := fired w @ hooks\<rparr>, Suc j)"
proof (rule handle_retries [OF assms(1)])
  show "begin_err rq (0 + i) = None" if "i \<le> j" for i using assms(2) that by simp
  show "\<exists>r'. attempt cfg rq (0 + i) None w = RolledBack r'" if "i < j" for i
  proof -
    from assms(3) [OF that] obtain r' x hs where "resolve rq i (app w) = (Some r', x, hs)" "errors_retryable (resp_errors r')"
      by (metis prod.collapse)
    moreover from this(2) have "resp_errors r' \<noteq> []" by auto
    ultimately show ?thesis by (simp add: attempt_def runResolvers_def wrapResponseHandler_def)
  qed
  show "attempt cfg rq (0 + j) None w = Finished (Some r) (w\<lparr>app := a, fired := fired w @ hooks\<rparr>)"
    using assms(4-6)
    by (cases w) (simp add: attempt_def runResolvers_def wrapResponseHandler_def handleSuccess_def commitTx_def)
qed (fact assms(7))

theorem retry_succeeds_witness:
  "handleMutationWithTx exConfig (exRequest 2 []) None None 0 exWorld =
     (Some \<lparr>resp_data = Some 6, resp_errors = []\<rparr>, exWorld\<lparr>app := 6, fired := [''notify'']\<rparr>, 3)"
proof -
  let ?rq = "exRequest 2 []"
  have "handleMutationWithTx exConfig ?rq None (retries ?rq) 0 exWorld =
      (Some \<lparr>resp_data = Some 6, resp_errors = []\<rparr>, exWorld\<lparr>app := 6, fired := fired exWorld @ [''notify'']\<rparr>, Suc 2)"
    by (rule retry_succeeds)
      (simp_all add: exRequest_def exResolve_def exWorld_def exConfig_def NumRetriesFromContext_def exConflict_def
        ErrIsRetryable_def errors_Is_def)
  then show ?thesis by (simp add: exRequest_def exWorld_def)
qed

text \<open>
  C40: a mutation runs without a transaction only if the document, fragments followed however
  they refer to each other, selects one exempt field and nothing else; and if it is neither
  exempt nor refused, it selects no exempt field at all.
\<close>
theorem exemption_gate:
  "(fst (exemptFromTx noTx (TopLevelFieldNames frs sels))
      \<longleftrightarrow> (\<exists>f. TopLevelFieldNames frs sels = [f] \<and> f \<in> set noTx \<and> {n. selects frs sels n} = {f}))
    \<and> (exemptFromTx noTx (TopLevelFieldNames frs sels) = (False, False)
      \<longleftrightarrow> {n. selects frs sels n} \<inter> set noTx = {})"
  (is "?exempt \<and> ?clear")
proof -
  let ?names = "TopLevelFieldNames frs sels"
  have set: "set ?names = {n. selects frs sels n}" using TopLevelFieldNames_set [of frs sels] by simp
  have ?exempt
    using set by (cases ?names) (auto simp: exemptFromTx_def Let_def split: if_splits)
  moreover have ?clear
    unfolding set [symmetric] using Suc_lessI [of 0 "length ?names"]
    by (auto simp: exemptFromTx_def Let_def filter_empty_conv)
  ultimately show ?thesis ..
qed

end
