(* ===== verification/InventoryRequests.thy ===== *)
theory InventoryRequests
  imports MutationProperties MiddlewareProperties
begin

text \<open>
  The inventory service as a client sees it: a request passes the transaction middleware, which
  retries, replays and rolls back, and a resolver of mutations.resolvers.go runs inside the
  transaction. \<open>mutation\<close> is one successful run of a resolver on the tables; the served data only
  ever moves along it.
\<close>

section \<open>One mutation\<close>

text \<open>
  \<open>C\<close> says who may act for which tenant, \<open>B\<close> whose ledgers may be rebuilt. As in Lifecycle, \<open>meanwhile\<close>, \<open>env\<close>
  and \<open>env'\<close> map a state to any state that other mutations of such callers can lead to.
\<close>

inductive mutation_by :: "(ctx \<Rightarrow> uuid \<Rightarrow> bool) \<Rightarrow> (uuid \<Rightarrow> bool) \<Rightarrow> db_dialect \<Rightarrow> db \<Rightarrow> db \<Rightarrow> bool"
  for C B dialect where
  createInventoryItem:
    "\<lbrakk>C c tn; CreateInventoryItem c ty un oI oS oT save il d = Inr d'\<rbrakk> \<Longrightarrow> mutation_by C B dialect d d'"
| updateInventoryItem:
    "\<lbrakk>C c tn; UpdateInventoryItem c ty un oI oS oT save i cM cT cS il il' d = Inr d'\<rbrakk> \<Longrightarrow> mutation_by C B dialect d d'"
| deleteInventoryItem: "\<lbrakk>C c tn; DeleteInventoryItem c i d = Inr d'\<rbrakk> \<Longrightarrow> mutation_by C B dialect d d'"
| createInventoryRepository:
    "\<lbrakk>C c tn; CreateInventoryRepository c ty un oT oS save ci d = Inr d'\<rbrakk> \<Longrightarrow> mutation_by C B dialect d d'"
| updateInventoryRepository:
    "\<lbrakk>C c tn; UpdateInventoryRepository c ty un oT oS save i ui d = Inr d'\<rbrakk> \<Longrightarrow> mutation_by C B dialect d d'"
| deleteInventoryRepository: "\<lbrakk>C c tn; DeleteInventoryRepository c i d = Inr d'\<rbrakk> \<Longrightarrow> mutation_by C B dialect d d'"
| createInventoryItemMovement:
    "\<lbrakk>C c tn; CreateInventoryItemMovement meanwhile dialect c ty un em input d = Inr (m, d');
      \<forall>n x. (mutation_by C B dialect)\<^sup>*\<^sup>* x (meanwhile n x)\<rbrakk> \<Longrightarrow> mutation_by C B dialect d d'"
| updateInventoryItemMovement:
    "\<lbrakk>C c tn; UpdateInventoryItemMovement c ty un i h d = Inr d'\<rbrakk> \<Longrightarrow> mutation_by C B dialect d d'"
| executeInventoryItemMovement:
    "\<lbrakk>C c tn; ExecuteInventoryItemMovement meanwhile dialect c i d = Inr d';
      \<forall>n x. (mutation_by C B dialect)\<^sup>*\<^sup>* x (meanwhile n x)\<rbrakk> \<Longrightarrow> mutation_by C B dialect d d'"
| deleteInventoryItemMovement:
    "\<lbrakk>C c tn; DeleteInventoryItemMovement meanwhile dialect c i d = Inr d';
      \<forall>n x. (mutation_by C B dialect)\<^sup>*\<^sup>* x (meanwhile n x)\<rbrakk> \<Longrightarrow> mutation_by C B dialect d d'"
| createInventoryRepositoryMovement:
    "\<lbrakk>C c tn; CreateInventoryRepositoryMovement dialect c ty un env env' input' d = Inr (mv, d');
      \<forall>x. (mutation_by C B dialect)\<^sup>*\<^sup>* x (env x); \<forall>x. (mutation_by C B dialect)\<^sup>*\<^sup>* x (env' x)\<rbrakk>
     \<Longrightarrow> mutation_by C B dialect d d'"
| updateInventoryRepositoryMovement:
    "\<lbrakk>C c tn; UpdateInventoryRepositoryMovement c ty un i h d = Inr d'\<rbrakk> \<Longrightarrow> mutation_by C B dialect d d'"
| executeInventoryRepositoryMovement:
    "\<lbrakk>C c tn; ExecuteInventoryRepositoryMovement meanwhile dialect c i d = Inr d';
      \<forall>n x. (mutation_by C B dialect)\<^sup>*\<^sup>* x (meanwhile n x)\<rbrakk> \<Longrightarrow> mutation_by C B dialect d d'"
| deleteInventoryRepositoryMovement:
    "\<lbrakk>C c tn; DeleteInventoryRepositoryMovement dialect c env env' i d = Inr d';
      \<forall>x. (mutation_by C B dialect)\<^sup>*\<^sup>* x (env x); \<forall>x. (mutation_by C B dialect)\<^sup>*\<^sup>* x (env' x)\<rbrakk>
     \<Longrightarrow> mutation_by C B dialect d d'"
| createInventoryCollectionMovement:
    "\<lbrakk>C c tn; CreateInventoryCollectionMovement dialect c ty tys un envs envs' handler positions d = Inr (out, d');
      \<forall>n x. (mutation_by C B dialect)\<^sup>*\<^sup>* x (envs n x); \<forall>n x. (mutation_by C B dialect)\<^sup>*\<^sup>* x (envs' n x)\<rbrakk>
     \<Longrightarrow> mutation_by C B dialect d d'"
| updateInventoryCollectionMovement:
    "\<lbrakk>C c tn; UpdateInventoryCollectionMovement c ty un i clear h d = Inr d'\<rbrakk> \<Longrightarrow> mutation_by C B dialect d d'"
| deleteInventoryCollection: "\<lbrakk>C c tn; DeleteInventoryCollection c i d = Inr d'\<rbrakk> \<Longrightarrow> mutation_by C B dialect d d'"
| deleteInventoryStock: "\<lbrakk>C c tn; DeleteInventoryStock c itm i d = Inr d'\<rbrakk> \<Longrightarrow> mutation_by C B dialect d d'"
| rebuildInventoryStock:
    "\<lbrakk>C c t; MutationTenantID c = Inr tn; B tn; RebuildInventoryStock meanwhile dialect c authenticated isAdmin sync d = Inr d';
      \<forall>n x. (mutation_by C B dialect)\<^sup>*\<^sup>* x (meanwhile n x)\<rbrakk> \<Longrightarrow> mutation_by C B dialect d d'"

text \<open>A mutation of any caller; the ledgers of \<open>T\<close> may be rebuilt.\<close>

abbreviation mutation :: "uuid set \<Rightarrow> db_dialect \<Rightarrow> db \<Rightarrow> db \<Rightarrow> bool" where
  "mutation T \<equiv> mutation_by any_ctx (\<lambda>tn. tn \<in> T)"

text \<open>
  A relation kept by the stock service, and by every write of the other mutations. A caller
  that may act for a tenant may act for the one its mutations pick; the edges of a repository have passed the
  ownership check on the database they are written to.
\<close>

locale inventory = service +
  assumes C_single: "C c t \<Longrightarrow> MutationTenantID c = Inr tn \<Longrightarrow> C c tn"
    and R_newItem: "C c t \<Longrightarrow> item_Create c il save d = Inr d' \<Longrightarrow> R d d'"
    and R_saveItem: "C c t \<Longrightarrow> item_UpdateSave c i cM cT cS il il' save d = Inr d' \<Longrightarrow> R d d'"
    and R_deleteItem: "C c t \<Longrightarrow> item_SoftDelete c i d = Inr d' \<Longrightarrow> R d d'"
    and R_newRepository:
      "\<lbrakk>C c tn; validateRepositoryEdgeOwnership c d tn oT oS (cri_edges ci) = Inr ();
        repository_Create c ci save d = Inr d'\<rbrakk> \<Longrightarrow> R d d'"
    and R_saveRepository:
      "\<lbrakk>C c tn; validateRepositoryEdgeOwnership c d tn oT oS (uri_edges ui) = Inr ();
        repository_UpdateSave c i ui save d = Inr d'\<rbrakk> \<Longrightarrow> R d d'"
    and R_deleteRepository: "C c t \<Longrightarrow> repository_Update c i (\<lambda>r. r\<lparr>r_deleted_at := at\<rparr>) d = Inr d' \<Longrightarrow> R d d'"
    and R_itemHandler: "C c t \<Longrightarrow> itemMovement_UpdateSave c i h d = Inr d' \<Longrightarrow> R d d'"
    and R_repositoryHandler:
      "C c t \<Longrightarrow> repositoryMovement_Update c i (\<lambda>m. m\<lparr>rm_handler := updateHandler h (rm_handler m)\<rparr>) d = Inr d' \<Longrightarrow> R d d'"
    and R_collectionHandler: "C c t \<Longrightarrow> collection_UpdateSave c i h d = Inr d' \<Longrightarrow> R d d'"
begin

lemma R_item_resolvers:
  assumes c: "C c t"
  shows "CreateInventoryItem c ty un oI oS oT save il d = Inr d' \<Longrightarrow> R d d'"
    and "UpdateInventoryItem c ty un oI oS oT save i cM cT cS il il' d = Inr d' \<Longrightarrow> R d d'"
    and "DeleteInventoryItem c i d = Inr d' \<Longrightarrow> R d d'"
  by (auto simp: CreateInventoryItem_def UpdateInventoryItem_def DeleteInventoryItem_def Let_def
      split: option.splits sum.splits if_splits intro: R_newItem [OF c] R_saveItem [OF c] R_deleteItem [OF c])

lemma R_repository_resolvers:
  assumes c: "C c t"
  shows "CreateInventoryRepository c ty un oT oS save ci d = Inr d' \<Longrightarrow> R d d'"
    and "UpdateInventoryRepository c ty un oT oS save i ui d = Inr d' \<Longrightarrow> R d d'"
    and "DeleteInventoryRepository c i d = Inr d' \<Longrightarrow> R d d'"
proof -
  show "R d d'" if "CreateInventoryRepository c ty un oT oS save ci d = Inr d'"
  proof -
    from that obtain tn where "MutationTenantID c = Inr tn"
      and run: "validateRepositoryEdgeOwnership c d tn oT oS (cri_edges ci) = Inr ()"
        "repository_Create c ci save d = Inr d'"
      by (auto simp: CreateInventoryRepository_def split: option.splits sum.splits)
    from C_single [OF c this(1)] run show ?thesis by (rule R_newRepository)
  qed
  show "R d d'" if "UpdateInventoryRepository c ty un oT oS save i ui d = Inr d'"
  proof -
    from that obtain tn where "MutationTenantID c = Inr tn"
      and run: "validateRepositoryEdgeOwnership c d tn oT oS (uri_edges ui) = Inr ()"
        "repository_UpdateSave c i ui save d = Inr d'"
      by (auto simp: UpdateInventoryRepository_def split: option.splits sum.splits)
    from C_single [OF c this(1)] run show ?thesis by (rule R_saveRepository)
  qed
  show "R d d'" if "DeleteInventoryRepository c i d = Inr d'"
    using that by (auto simp: DeleteInventoryRepository_def split: option.splits sum.splits if_splits
        intro: R_deleteRepository [OF c])
qed

lemma R_handler_resolvers:
  assumes c: "C c t"
  shows "UpdateInventoryItemMovement c ty un i h d = Inr d' \<Longrightarrow> R d d'"
    and "UpdateInventoryRepositoryMovement c ty un i h d = Inr d' \<Longrightarrow> R d d'"
    and "UpdateInventoryCollectionMovement c ty un i clear h d = Inr d' \<Longrightarrow> R d d'"
  by (auto simp: UpdateInventoryItemMovement_def UpdateInventoryRepositoryMovement_def
      UpdateInventoryCollectionMovement_def Let_def split: option.splits sum.splits if_splits
      intro: R_itemHandler [OF c] R_repositoryHandler [OF c] R_collectionHandler [OF c])

lemma R_InsertRows: "C c t \<Longrightarrow> InsertRows c rows d = Inr d' \<Longrightarrow> R d d'"
  by (auto simp: InsertRows_def wrapOCC_def split: sum.splits intro: R_chunked)

lemma R_DeleteInventoryStock: "C c t \<Longrightarrow> DeleteInventoryStock c itm i d = Inr d' \<Longrightarrow> R d d'"
  by (auto simp: DeleteInventoryStock_def Let_def split: sum.splits if_splits
      intro: R_trans [OF R_InsertRows R_transactions])

lemma R_star_mutation:
  assumes "(\<lambda>a b. mutation_by C B dialect a b \<and> R a b)\<^sup>*\<^sup>* x y"
  shows "R x y"
  using assms by induction (auto intro: R_refl R_trans)

lemma R_meanwhile:
  assumes "\<forall>n x. (\<lambda>a b. mutation_by C B dialect a b \<and> R a b)\<^sup>*\<^sup>* x (meanwhile n x)"
  shows "R x (meanwhile n x)"
  using assms by (blast intro: R_star_mutation)

lemma R_mutation: "mutation_by C B dialect d d' \<Longrightarrow> R d d'"
proof (induction rule: mutation_by.induct)
  case (createInventoryItemMovement c tn meanwhile ty un em input d m d')
  from createInventoryItemMovement(2) obtain tenantID where tenant: "MutationTenantID c = Inr tenantID"
    and run: "CreateItemMovement meanwhile dialect c tenantID input un em d = Inr (m, d')"
    by (auto simp: CreateInventoryItemMovement_def split: option.splits sum.splits)
  show ?case
    by (rule R_CreateItemMovement [OF C_single [OF createInventoryItemMovement(1) tenant] run
          R_meanwhile [OF createInventoryItemMovement(3)]])
next
  case (executeInventoryItemMovement c tn meanwhile i d d')
  then obtain tenantID where run: "ExecuteItemMovement meanwhile dialect c i tenantID d = Inr d'"
    by (auto simp: ExecuteInventoryItemMovement_def split: sum.splits)
  show ?case
    by (rule R_ExecuteItemMovement [OF executeInventoryItemMovement(1) run R_meanwhile [OF executeInventoryItemMovement(3)]])
next
  case (deleteInventoryItemMovement c tn meanwhile i d d')
  then obtain tenantID where run: "DeleteItemMovement meanwhile dialect c i tenantID d = Inr d'"
    by (auto simp: DeleteInventoryItemMovement_def split: sum.splits)
  show ?case
    by (rule R_DeleteItemMovement [OF deleteInventoryItemMovement(1) run R_meanwhile [OF deleteInventoryItemMovement(3)]])
next
  case (createInventoryRepositoryMovement c tn ty un env env' input' d mv d')
  then have "R x (env x)" "R x (env' x)" for x by (blast intro: R_star_mutation)+
  with createInventoryRepositoryMovement(1,2) show ?case
    by (auto simp: CreateInventoryRepositoryMovement_def split: option.splits sum.splits
        intro: R_CreateRepositoryMovement)
next
  case (executeInventoryRepositoryMovement c tn meanwhile i d d')
  then obtain tenantID where run: "ExecuteRepositoryMovement meanwhile dialect c i tenantID d = Inr d'"
    by (auto simp: ExecuteInventoryRepositoryMovement_def split: sum.splits)
  show ?case
    by (rule R_ExecuteRepositoryMovement [OF executeInventoryRepositoryMovement(1) run
          R_meanwhile [OF executeInventoryRepositoryMovement(3)]])
next
  case (deleteInventoryRepositoryMovement c tn env env' i d d')
  then have "R x (env x)" "R x (env' x)" for x by (blast intro: R_star_mutation)+
  with deleteInventoryRepositoryMovement(1,2) show ?case
    by (auto simp: DeleteInventoryRepositoryMovement_def split: sum.splits intro: R_DeleteRepositoryMovement)
next
  case (createInventoryCollectionMovement c tn ty tys un envs envs' handler positions d out d')
  then have env: "R x (envs n x)" "R x (envs' n x)" for n x by (blast intro: R_star_mutation)+
  from createInventoryCollectionMovement(2) obtain tenantID where
    tenant: "MutationTenantID c = Inr tenantID" and
    run: "CreateCollectionMovement dialect c
      \<lparr>cc_id = c_uuid c (writes d), cc_handler = handler, cc_positions = positions, cc_tenant = tenantID\<rparr>
      un envs envs' d = Inr (out, d')"
    by (auto simp: CreateInventoryCollectionMovement_def split: option.splits sum.splits)
  from C_single [OF createInventoryCollectionMovement(1) tenant] show ?case
    by (intro R_CreateCollectionMovement [OF _ run env]) simp
next
  case (rebuildInventoryStock c t tn meanwhile authenticated isAdmin sync d d')
  from rebuildInventoryStock(2,4) have run: "RebuildStockTable meanwhile dialect c tn d = Inr d'"
    by (auto simp: RebuildInventoryStock_def RequireRole_def split: sum.splits if_splits)
  show ?case
    by (rule R_RebuildStockTable [OF C_single [OF rebuildInventoryStock(1,2)] rebuildInventoryStock(3) run
          R_meanwhile [OF rebuildInventoryStock(5)]])
next
  case (deleteInventoryCollection c tn i d d')
  then show ?case by (auto simp: DeleteInventoryCollection_def intro: R_DeleteCollection)
qed (blast intro: R_item_resolvers R_repository_resolvers R_handler_resolvers R_DeleteInventoryStock)+

lemma R_mutations: "(mutation_by C B dialect)\<^sup>*\<^sup>* d d' \<Longrightarrow> R d d'"
  by (induction rule: rtranclp_induct) (auto intro: R_refl R_trans R_mutation)

end

text \<open>What the writes to items, repositories and handlers leave alone.\<close>

lemma write_items:
  shows "item_Create c il save d = Inr d' \<Longrightarrow> stocks d' = stocks d \<and> item_movements d' = item_movements d"
    and "item_UpdateSave c i cM cT cS il il' save d = Inr d' \<Longrightarrow> stocks d' = stocks d \<and> item_movements d' = item_movements d"
    and "item_SoftDelete c i d = Inr d' \<Longrightarrow> stocks d' = stocks d \<and> item_movements d' = item_movements d"
    and "itemMovement_UpdateSave c i h d = Inr d' \<Longrightarrow> stocks d' = stocks d"
    and "collection_UpdateSave c i h d = Inr d' \<Longrightarrow> stocks d' = stocks d \<and> item_movements d' = item_movements d"
  by (auto simp: item_Create_def item_UpdateSave_def item_addEdges_def item_SoftDelete_def
      itemMovement_UpdateSave_def collection_UpdateSave_def tick_def Let_def
      split: sum.splits if_splits option.splits)

lemma write_edges:
  shows "repository_addEdges i l d = Inr d' \<Longrightarrow> stocks d' = stocks d \<and> item_movements d' = item_movements d"
    and "repository_clearEdges i k l d = Inr d' \<Longrightarrow> stocks d' = stocks d \<and> item_movements d' = item_movements d"
  using repository_addEdges_Inr(4,5) repository_clearEdges_Inr(4,5) by blast+

lemma write_repositories:
  shows "repository_Create c ci save d = Inr d' \<Longrightarrow> stocks d' = stocks d \<and> item_movements d' = item_movements d"
    and "repository_UpdateSave c i ui save d = Inr d' \<Longrightarrow> stocks d' = stocks d \<and> item_movements d' = item_movements d"
    and "repository_Update c i f d = Inr d' \<Longrightarrow> stocks d' = stocks d \<and> item_movements d' = item_movements d"
  by (auto simp: repository_Create_def repository_UpdateSave_def repository_Update_def tick_def Let_def
      dest!: write_edges split: sum.splits if_splits option.splits)

lemma handler_movements_step:
  assumes "itemMovement_UpdateSave c i h d = Inr d'"
  shows "movements_step d d'"
proof -
  from assms obtain ms where
    "update_where (\<lambda>m. im_id m = i \<and> mutable c (im_tenant m) (im_deleted_at m))
       (\<lambda>m. m\<lparr>im_handler := updateHandler h (im_handler m)\<rparr>) (item_movements d) = Inr ms"
    and "item_movements d' = ms"
    by (auto simp: itemMovement_UpdateSave_def tick_def split: sum.splits if_splits)
  then show ?thesis by (rule movements_step_update) (auto simp: movement_kept_def mutable_def)
qed

interpretation ledger: inventory any_ctx "ledger_step T" "\<lambda>tn. tn \<in> T" for T
  by unfold_locales (auto intro: ledger_step_same dest: write_items write_repositories write_stocks(6))

interpretation movements: inventory any_ctx movements_step any_tenant
  by unfold_locales
    (auto intro: movements_step_same handler_movements_step dest: write_items write_repositories write_item_movements(4))


section \<open>Served requests\<close>

text \<open>With the right to rebuild any ledger, a caller can do whatever it could without.\<close>

lemma mutation_more:
  assumes "mutation_by C B dialect d d'" and "\<And>tn. B tn \<Longrightarrow> B' tn"
  shows "mutation_by C B' dialect d d'"
proof -
  have star: "(mutation_by C B' dialect)\<^sup>*\<^sup>* x y"
    if "(\<lambda>a b. mutation_by C B dialect a b \<and> mutation_by C B' dialect a b)\<^sup>*\<^sup>* x y" for x y
    using that by (rule rtranclp_mono [THEN predicate2D, rotated]) blast
  show ?thesis
    using assms(1) by (induction rule: mutation_by.induct) (blast intro: mutation_by.intros star assms(2))+
qed

lemma mutations_any:
  "(mutation_by C B dialect)\<^sup>*\<^sup>* d d' \<Longrightarrow> (mutation_by C any_tenant dialect)\<^sup>*\<^sup>* d d'"
  by (erule rtranclp_mono [THEN predicate2D, rotated]) (blast intro: mutation_more)

text \<open>The service's data moves along whole mutations; aborted attempts leave no trace in it.\<close>

definition data_step :: "('app \<Rightarrow> 'app \<Rightarrow> bool) \<Rightarrow> ('app, 'h) world \<Rightarrow> ('app, 'h) world \<Rightarrow> bool" where
  "data_step Q w w' \<longleftrightarrow> Q\<^sup>*\<^sup>* (app w) (app w')"

interpretation data: committer "Q\<^sup>*\<^sup>*" "data_step Q" for Q :: "'app \<Rightarrow> 'app \<Rightarrow> bool"
  by unfold_locales (auto simp: data_step_def)

text \<open>
  C5: clients reach the tables through the middleware, and yet the tables only move along whole
  successful mutations of the service, all of them: whatever requests are served, with retries, OCC
  conflicts, rolled back attempts, replays and other requests in between, the data ends where some sequence of
  mutations leads. So the index of the ledger holds, no counter is negative, the ledger of every tenant
  outside \<open>T\<close>, the tenants whose stock is rebuilt, has only grown, and no movement is lost or changes its
  terms.
\<close>
theorem served_mutations:
  assumes "(served (mutation T dialect)\<^sup>*\<^sup>* cfg)\<^sup>*\<^sup>* w w'"
  shows "(mutation T dialect)\<^sup>*\<^sup>* (app w) (app w')
    \<and> (ledger_ok (stocks (app w)) \<longrightarrow> ledger_ok (stocks (app w')))
    \<and> (nonneg_rows (stocks (app w)) \<longrightarrow> nonneg_rows (stocks (app w')))
    \<and> (\<exists>rows. ledger_outside T (app w') = ledger_outside T (app w) @ rows)
    \<and> (movements_ok (item_movements (app w)) \<longrightarrow> movements_ok (item_movements (app w')))
    \<and> (\<forall>m \<in> set (item_movements (app w)). \<exists>m' \<in> set (item_movements (app w')). movement_kept m m')"
proof -
  have run: "(mutation T dialect)\<^sup>*\<^sup>* (app w) (app w')"
    using data.R_requests [OF assms] by (simp add: data_step_def)
  then have "(mutation_by any_ctx any_tenant dialect)\<^sup>*\<^sup>* (app w) (app w')" by (rule mutations_any)
  from ledger.R_mutations [OF run] movements.R_mutations [OF this] run show ?thesis
    by (auto simp: ledger_step_def movements_step_def)
qed

text \<open>
  Movement 500 is executed by a request with an Idempotency-Key; the first attempt meets an OCC
  conflict and its writes are rolled back.
\<close>

definition exExecute :: "nat \<Rightarrow> db \<Rightarrow> nat gql_response option \<times> db \<times> string list" where
  "exExecute k d =
     (case ExecuteInventoryItemMovement undisturbed Postgres exCtx 500 d of
        Inl e \<Rightarrow> (Some \<lparr>resp_data = None, resp_errors = [exConflict]\<rparr>, d, [])
      | Inr d' \<Rightarrow>
          if k = 0 then (Some \<lparr>resp_data = None, resp_errors = [exConflict]\<rparr>, d', [''lost''])
          else (Some \<lparr>resp_data = Some k, resp_errors = []\<rparr>, d', [''notify'']))"

definition exExecuteRequest :: "(db, nat, string) gql_request" where
  "exExecuteRequest =
     \<lparr>header = [65],
      oc = Some \<lparr>op_kind = Mutation, op_name = ''Run'', op_selections = [Field ''executeInventoryItemMovement''], op_fragments = []\<rparr>,
      auth = Some (1, 7), checksum = Inr 99, retries = None, replica = [], lookup_err = None,
      race_begin_err = (\<lambda>_. None), race_err = (\<lambda>_. None), begin_err = (\<lambda>_. None), insert_err = (\<lambda>_. None), mark_err = (\<lambda>_. None),
      commit_err = (\<lambda>_. None), clock = (\<lambda>k. int k), resolve = exExecute, others = (\<lambda>_ x. x)\<rparr>"

definition exStockWorld :: "(db, string) world" where
  "exStockWorld = \<lparr>app = exDb, keys = [], fired = [], history = []\<rparr>"

definition exStockServed :: "(db, string) world" where
  "exStockServed = fst (snd (InterceptOperation exConfig exExecuteRequest exStockWorld))"

lemma exStockServed_served: "served (mutation {} Postgres)\<^sup>*\<^sup>* exConfig exStockWorld exStockServed"
proof (rule served.serve)
  show "InterceptOperation exConfig exExecuteRequest exStockWorld =
      (fst (InterceptOperation exConfig exExecuteRequest exStockWorld), exStockServed,
       snd (snd (InterceptOperation exConfig exExecuteRequest exStockWorld)))"
    by (simp add: exStockServed_def)
  have "(mutation {} Postgres)\<^sup>*\<^sup>* d d'" if "ExecuteInventoryItemMovement undisturbed Postgres exCtx 500 d = Inr d'" for d d'
    using mutation_by.executeInventoryItemMovement [of any_ctx, OF TrueI that] by blast
  moreover have "\<not> fst (exemptFromTx (noTxOperations exConfig) (mutationFields exExecuteRequest))" by code_simp
  ultimately show "resolvers_keep (mutation {} Postgres)\<^sup>*\<^sup>* exConfig exExecuteRequest"
    by (auto simp: resolvers_keep_def exExecuteRequest_def exExecute_def split: sum.splits if_splits)
qed (simp add: exExecuteRequest_def)

theorem served_mutations_witness:
  "(mutation {} Postgres)\<^sup>*\<^sup>* exDb (app exStockServed) \<and> ledger_ok (stocks (app exStockServed))
   \<and> length (stocks (app exStockServed)) = 8 \<and> length (history exStockServed) = 1"
proof -
  have "app exStockWorld = exDb" "ledger_ok (stocks exDb)" "length (stocks (app exStockServed)) = 8"
    "length (history exStockServed) = 1"
    by (simp add: exStockWorld_def, code_simp+)
  with served_mutations [OF r_into_rtranclp [of "served (mutation {} Postgres)\<^sup>*\<^sup>* exConfig", OF exStockServed_served]]
  show ?thesis by auto
qed

end
