(* ===== verification/TenantIsolation.thy ===== *)
theory TenantIsolation
  imports InventoryRequests
begin

text \<open>
  Tenants share every table. The mutations of the callers of some tenants leave the rows of all
  other tenants as they are: the query filters and mutation filters of the tenant mixin, the tenant
  hook of a create, the tenant the stored procedure is given and the ownership check of the edges see to it,
  write by write. The UPDATEs of the edges pass no filter, so what they meet must be known from the
  links of the rows.
\<close>

text \<open>A caller that has selected one tenant and is not the system user.\<close>

definition acts_for :: "ctx \<Rightarrow> uuid \<Rightarrow> bool" where
  "acts_for c tn \<longleftrightarrow> c_tenants c = [tn] \<and> c_mutationTenant c = tn \<and> \<not> c_system c"

definition callers_of :: "uuid set \<Rightarrow> ctx \<Rightarrow> uuid \<Rightarrow> bool" where
  "callers_of T c t \<longleftrightarrow> t \<in> T \<and> acts_for c t"

text \<open>The rows of tenants outside \<open>T\<close>, table by table.\<close>

definition foreign_rows :: "('a \<Rightarrow> uuid) \<Rightarrow> uuid set \<Rightarrow> 'a list \<Rightarrow> 'a list" where
  "foreign_rows tenant T rows = filter (\<lambda>x. tenant x \<notin> T) rows"

definition foreign_kept :: "uuid set \<Rightarrow> db \<Rightarrow> db \<Rightarrow> bool" where
  "foreign_kept T d d' \<longleftrightarrow>
     foreign_rows i_tenant T (items d') = foreign_rows i_tenant T (items d)
     \<and> foreign_rows r_tenant T (repositories d') = foreign_rows r_tenant T (repositories d)
     \<and> foreign_rows s_tenant T (stocks d') = foreign_rows s_tenant T (stocks d)
     \<and> foreign_rows im_tenant T (item_movements d') = foreign_rows im_tenant T (item_movements d)
     \<and> foreign_rows rm_tenant T (repository_movements d') = foreign_rows rm_tenant T (repository_movements d)
     \<and> foreign_rows cm_tenant T (collection_movements d') = foreign_rows cm_tenant T (collection_movements d)
     \<and> foreign_rows t_tenant T (transactions d') = foreign_rows t_tenant T (transactions d)"

text \<open>
  Identifiers are the primary keys of their tables, and the links that the edges write, the parent of a
  repository and the source of a repository movement, stay among the tenants outside \<open>T\<close>.
\<close>

definition ids_distinct :: "db \<Rightarrow> bool" where
  "ids_distinct d \<longleftrightarrow> distinct (map r_id (repositories d)) \<and> distinct (map rm_id (repository_movements d))"

definition foreign_ids :: "uuid set \<Rightarrow> db \<Rightarrow> uuid set" where
  "foreign_ids T d = insert 0 (r_id ` set (foreign_rows r_tenant T (repositories d)))"

definition well_linked :: "uuid set \<Rightarrow> db \<Rightarrow> bool" where
  "well_linked T d \<longleftrightarrow> ids_distinct d
     \<and> list_all (\<lambda>r. r_parent r \<in> foreign_ids T d) (foreign_rows r_tenant T (repositories d))
     \<and> list_all (\<lambda>m. rm_from m \<in> foreign_ids T d) (foreign_rows rm_tenant T (repository_movements d))"

definition isolated :: "uuid set \<Rightarrow> db \<Rightarrow> db \<Rightarrow> bool" where
  "isolated T d d' \<longleftrightarrow> (well_linked T d \<longrightarrow> well_linked T d' \<and> foreign_kept T d d')"

lemma isolated_refl [simp]: "isolated T d d"
  by (simp add: isolated_def foreign_kept_def)

lemma isolated_trans: "isolated T a b \<Longrightarrow> isolated T b c \<Longrightarrow> isolated T a c"
  by (simp add: isolated_def foreign_kept_def)

text \<open>Foreign rows that stay also keep their links, so only the identifiers are left to look at.\<close>

lemma isolatedI:
  assumes "well_linked T d \<Longrightarrow> foreign_kept T d d'" and "well_linked T d \<Longrightarrow> ids_distinct d'"
  shows "isolated T d d'"
  using assms unfolding isolated_def by (simp add: well_linked_def foreign_ids_def foreign_kept_def)

lemma isolated_kept: "foreign_kept T d d' \<Longrightarrow> (ids_distinct d \<Longrightarrow> ids_distinct d') \<Longrightarrow> isolated T d d'"
  by (rule isolatedI) (simp_all add: well_linked_def)

lemma foreign_rows_append [simp]: "foreign_rows f T (xs @ ys) = foreign_rows f T xs @ foreign_rows f T ys"
  by (simp add: foreign_rows_def)

lemma foreign_rows_none: "(\<And>y. y \<in> set ys \<Longrightarrow> f y \<in> T) \<Longrightarrow> foreign_rows f T ys = []"
  by (simp add: foreign_rows_def filter_empty_conv)

lemma foreign_rows_single [simp]: "f y \<in> T \<Longrightarrow> foreign_rows f T [y] = []"
  by (simp add: foreign_rows_def)

text \<open>An update that picks rows of \<open>T\<close> and keeps their tenant.\<close>

lemma foreign_rows_update:
  assumes "update_where p g rows = Inr rows'"
    and "\<And>x. p x \<Longrightarrow> tenant x \<in> T" and "\<And>x. tenant (g x) = tenant x"
  shows "foreign_rows tenant T rows' = foreign_rows tenant T rows"
proof -
  from assms(1) have "rows' = map (\<lambda>x. if p x then g x else x) rows"
    by (auto simp: update_where_def split: if_splits)
  moreover have "foreign_rows tenant T (map (\<lambda>x. if p x then g x else x) rows) = foreign_rows tenant T rows"
    using assms(2,3) by (induction rows) (auto simp: foreign_rows_def)
  ultimately show ?thesis by simp
qed

lemma callers_of_mutable: "callers_of T c t \<Longrightarrow> mutable c tenant deleted \<Longrightarrow> tenant \<in> T"
  by (auto simp: callers_of_def acts_for_def mutable_def)

lemma callers_of_hook: "callers_of T c t \<Longrightarrow> TenantIDMutationHook c explicit = Inr tenant \<Longrightarrow> tenant \<in> T"
  by (auto simp: callers_of_def acts_for_def TenantIDMutationHook_def split: option.splits if_splits)

text \<open>Any change of rows that leaves the foreign ones alone.\<close>

lemma foreign_rows_map:
  assumes "\<And>x. tenant (f x) = tenant x" and "\<And>x. x \<in> set rows \<Longrightarrow> tenant x \<notin> T \<Longrightarrow> f x = x"
  shows "foreign_rows tenant T (map f rows) = foreign_rows tenant T rows"
  using assms(2) by (induction rows) (simp_all add: foreign_rows_def assms(1))

section \<open>The writes of the stock service\<close>

text \<open>Inserts write the caller's tenant.\<close>

lemma stock_CreateBulk_foreign:
  assumes "callers_of T c t" and "stock_CreateBulk c rows d = Inr d'"
  shows "foreign_kept T d d'"
proof -
  have "s_tenant s \<in> T" if "s \<in> set rows" for s
    using assms that
    by (auto simp: stock_CreateBulk_def stock_check_all_Inr callers_of_def acts_for_def split: sum.splits)
  with stock_CreateBulk_Inr [OF assms(2)] show ?thesis
    by (simp add: foreign_kept_def foreign_rows_none)
qed

lemma transaction_CreateBulk_foreign:
  assumes "callers_of T c t" and "transaction_CreateBulk c ts d = Inr d'"
  shows "foreign_kept T d d'"
proof -
  have owned: "t_tenant x \<in> T"
    if "foldRes (\<lambda>t _. case TenantIDMutationHook c (Some (t_tenant t)) of
               Inl e \<Rightarrow> Inl e
             | Inr _ \<Rightarrow> if t_quantity t < 0 then Inl ErrValidation else Inr ()) ts u = Inr v"
      and "x \<in> set ts" for x u v
    using that assms(1)
    by (induction ts arbitrary: u)
      (auto simp: TenantIDMutationHook_def callers_of_def acts_for_def split: sum.splits if_splits)
  from assms(2) show ?thesis
    by (auto simp: transaction_CreateBulk_def foreign_kept_def tick_def dest: owned
        intro!: foreign_rows_none split: sum.splits)
qed

lemma create_foreign:
  assumes c: "callers_of T c t"
  shows "itemMovement_Create c input d = Inr (m, d') \<Longrightarrow> foreign_kept T d d'"
    and "repositoryMovement_Create c input' d = Inr (mv, d') \<Longrightarrow> foreign_kept T d d'"
    and "collection_Create c dto d = Inr d' \<Longrightarrow> foreign_kept T d d'"
    and "item_Create c il save d = Inr d' \<Longrightarrow> foreign_kept T d d'"
  by (auto simp: itemMovement_Create_def repositoryMovement_Create_def collection_Create_def
      item_Create_def item_addEdges_def new_item_movement_def new_repository_movement_def
      foreign_kept_def tick_def Let_def intro!: foreign_rows_none callers_of_hook [OF c]
      split: sum.splits if_splits option.splits)

lemma procRows_tenant: "s \<in> set (procRows d t input i F W) \<Longrightarrow> s_tenant s = t"
  by (auto simp: procRows_def procStockRow_def Let_def)

lemma procStore_foreign:
  assumes "im_tenant mv \<in> T" and "\<And>s. s \<in> set rows \<Longrightarrow> s_tenant s \<in> T" and "procStore mv rows d = Inr d'"
  shows "foreign_kept T d d'"
  using procStore_Inr(2,3,5-9) [OF assms(3)] assms(1,2) by (simp add: foreign_kept_def foreign_rows_none)

text \<open>The filters of the updates and deletes pick rows of the caller's tenant.\<close>

lemma update_foreign:
  assumes c: "callers_of T c t"
  shows "itemMovement_SetExecuted c i d = Inr d' \<Longrightarrow> foreign_kept T d d'"
    and "itemMovement_SoftDelete c i d = Inr d' \<Longrightarrow> foreign_kept T d d'"
    and "repository_SetParent c i p d = Inr d' \<Longrightarrow> foreign_kept T d d'"
    and "collection_SoftDelete c i d = Inr d' \<Longrightarrow> foreign_kept T d d'"
    and "item_SoftDelete c i d = Inr d' \<Longrightarrow> foreign_kept T d d'"
    and "item_UpdateSave c i cM cT cS il il' save d = Inr d' \<Longrightarrow> foreign_kept T d d'"
    and "itemMovement_UpdateSave c i h d = Inr d' \<Longrightarrow> foreign_kept T d d'"
    and "collection_UpdateSave c i h d = Inr d' \<Longrightarrow> foreign_kept T d d'"
    and "rewindRepositoryMovement c mov d = Inr d' \<Longrightarrow> foreign_kept T d d'"
    and "\<lbrakk>\<And>x. rm_tenant (g x) = rm_tenant x; repositoryMovement_Update c i g d = Inr d'\<rbrakk> \<Longrightarrow> foreign_kept T d d'"
    and "\<lbrakk>\<And>x. r_tenant (k x) = r_tenant x; repository_Update c i k d = Inr d'\<rbrakk> \<Longrightarrow> foreign_kept T d d'"
  by (auto simp: itemMovement_SetExecuted_def itemMovement_SoftDelete_def repository_SetParent_def
      collection_SoftDelete_def item_SoftDelete_def item_UpdateSave_def item_addEdges_def itemMovement_UpdateSave_def
      collection_UpdateSave_def rewindRepositoryMovement_def repositoryMovement_Update_def repository_Update_def
      foreign_kept_def tick_def elim!: foreign_rows_update dest: callers_of_mutable [OF c]
      split: sum.splits if_splits option.splits)

lemma delete_foreign: "callers_of T c t \<Longrightarrow> foreign_kept T d (stock_DeleteTenant c t d)"
  by (auto simp: foreign_kept_def foreign_rows_def stock_DeleteTenant_def tick_def callers_of_def intro: filter_cong)

text \<open>No write makes two rows share an identifier.\<close>

lemma update_row_ids:
  "update_where p g rows = Inr rows' \<Longrightarrow> (\<And>x. key (g x) = key x) \<Longrightarrow> map key rows' = map key rows"
  by (auto simp: update_where_def split: if_splits)

lemma ids_same: "\<lbrakk>repositories d' = repositories d; repository_movements d' = repository_movements d; ids_distinct d\<rbrakk> \<Longrightarrow> ids_distinct d'"
  by (simp add: ids_distinct_def)

lemma write_ids_same:
  shows "stock_CreateBulk c rows d = Inr d' \<Longrightarrow> ids_distinct d \<Longrightarrow> ids_distinct d'"
    and "transaction_CreateBulk c ts d = Inr d' \<Longrightarrow> ids_distinct d \<Longrightarrow> ids_distinct d'"
    and "itemMovement_Create c input d = Inr (m, d') \<Longrightarrow> ids_distinct d \<Longrightarrow> ids_distinct d'"
    and "collection_Create c dto d = Inr d' \<Longrightarrow> ids_distinct d \<Longrightarrow> ids_distinct d'"
    and "item_Create c il save d = Inr d' \<Longrightarrow> ids_distinct d \<Longrightarrow> ids_distinct d'"
    and "procStore im rows d = Inr d' \<Longrightarrow> ids_distinct d \<Longrightarrow> ids_distinct d'"
    and "itemMovement_SetExecuted c i d = Inr d' \<Longrightarrow> ids_distinct d \<Longrightarrow> ids_distinct d'"
    and "itemMovement_SoftDelete c i d = Inr d' \<Longrightarrow> ids_distinct d \<Longrightarrow> ids_distinct d'"
    and "collection_SoftDelete c i d = Inr d' \<Longrightarrow> ids_distinct d \<Longrightarrow> ids_distinct d'"
    and "item_SoftDelete c i d = Inr d' \<Longrightarrow> ids_distinct d \<Longrightarrow> ids_distinct d'"
    and "item_UpdateSave c i cM cT cS il il' save d = Inr d' \<Longrightarrow> ids_distinct d \<Longrightarrow> ids_distinct d'"
    and "itemMovement_UpdateSave c i h d = Inr d' \<Longrightarrow> ids_distinct d \<Longrightarrow> ids_distinct d'"
    and "collection_UpdateSave c i h d = Inr d' \<Longrightarrow> ids_distinct d \<Longrightarrow> ids_distinct d'"
    and "ids_distinct d \<Longrightarrow> ids_distinct (stock_DeleteTenant c t d)"
  by (auto simp: stock_CreateBulk_def transaction_CreateBulk_def itemMovement_Create_def collection_Create_def
      item_Create_def item_addEdges_def procStore_def itemMovement_SetExecuted_def itemMovement_SoftDelete_def
      collection_SoftDelete_def item_SoftDelete_def item_UpdateSave_def itemMovement_UpdateSave_def
      collection_UpdateSave_def stock_DeleteTenant_def tick_def Let_def ids_distinct_def
      split: sum.splits if_splits option.splits)

lemma write_ids:
  shows "repositoryMovement_Create c input' d = Inr (mv, d') \<Longrightarrow> ids_distinct d \<Longrightarrow> ids_distinct d'"
    and "\<lbrakk>\<And>x. rm_id (g x) = rm_id x; repositoryMovement_Update c i g d = Inr d'; ids_distinct d\<rbrakk> \<Longrightarrow> ids_distinct d'"
    and "repository_SetParent c i p d = Inr d' \<Longrightarrow> ids_distinct d \<Longrightarrow> ids_distinct d'"
    and "rewindRepositoryMovement c mov d = Inr d' \<Longrightarrow> ids_distinct d \<Longrightarrow> ids_distinct d'"
    and "\<lbrakk>\<And>x. r_id (k x) = r_id x; repository_Update c i k d = Inr d'; ids_distinct d\<rbrakk> \<Longrightarrow> ids_distinct d'"
proof -
  show "ids_distinct d'" if "repositoryMovement_Create c input' d = Inr (mv, d')" "ids_distinct d"
  proof -
    have "repositories d' = repositories d"
      using that(1) by (auto simp: repositoryMovement_Create_def tick_def Let_def split: sum.splits if_splits)
    with repositoryMovement_Create_Inr [OF that(1)] that(2) show ?thesis by (auto simp: ids_distinct_def)
  qed
  show "ids_distinct d'" if "\<And>x. rm_id (g x) = rm_id x" "repositoryMovement_Update c i g d = Inr d'" "ids_distinct d"
    using that by (auto simp: repositoryMovement_Update_def ids_distinct_def tick_def dest: update_row_ids [where key = rm_id]
        split: sum.splits)
  show "ids_distinct d'" if "repository_SetParent c i p d = Inr d'" "ids_distinct d"
    using that by (auto simp: repository_SetParent_def ids_distinct_def tick_def dest: update_row_ids [where key = r_id]
        split: sum.splits)
  show "ids_distinct d'" if "rewindRepositoryMovement c mov d = Inr d'" "ids_distinct d"
    using that by (auto simp: rewindRepositoryMovement_def ids_distinct_def tick_def dest: update_row_ids [where key = r_id]
        split: sum.splits)
  show "ids_distinct d'" if "\<And>x. r_id (k x) = r_id x" "repository_Update c i k d = Inr d'" "ids_distinct d"
    using that by (auto simp: repository_Update_def ids_distinct_def tick_def dest: update_row_ids [where key = r_id]
        split: sum.splits)
qed

section \<open>The edges of a repository\<close>

text \<open>An identifier that a tenant of \<open>T\<close> owns is no foreign row's.\<close>

lemma owned_not_foreign:
  assumes "ids_distinct d" and "tn \<in> T"
  shows "\<lbrakk>r \<in> set (repositories d); r_id r \<in> tenantRepositories d tn\<rbrakk> \<Longrightarrow> r_tenant r \<in> T"
    and "\<lbrakk>m \<in> set (repository_movements d); rm_id m \<in> tenantRepositoryMovements d tn\<rbrakk> \<Longrightarrow> rm_tenant m \<in> T"
  using assms by (auto simp: ids_distinct_def tenantRepositories_def tenantRepositoryMovements_def distinct_map dest: inj_onD)

lemma addEdges_isolated:
  assumes run: "repository_addEdges i l d = Inr d'" and linked: "well_linked T d"
    and kids: "\<And>r. \<lbrakk>r \<in> set (repositories d); r_id r \<in> set (l_children l)\<rbrakk> \<Longrightarrow> r_tenant r \<in> T"
    and movs: "\<And>m. \<lbrakk>m \<in> set (repository_movements d); rm_id m \<in> set (l_repositoryMovementFrom l)\<rbrakk> \<Longrightarrow> rm_tenant m \<in> T"
  shows "well_linked T d' \<and> foreign_kept T d d'"
proof -
  note inr = repository_addEdges_Inr [OF run]
  have "foreign_rows r_tenant T (repositories d') = foreign_rows r_tenant T (repositories d)"
    unfolding inr(1) by (rule foreign_rows_map) (auto simp: set_r_parent_def dest: kids)
  moreover have "foreign_rows rm_tenant T (repository_movements d') = foreign_rows rm_tenant T (repository_movements d)"
    unfolding inr(2) by (rule foreign_rows_map) (auto simp: set_rm_from_def dest: movs)
  ultimately have kept: "foreign_kept T d d'" by (simp add: foreign_kept_def inr(3-7))
  have "map r_id (repositories d') = map r_id (repositories d)" "map rm_id (repository_movements d') = map rm_id (repository_movements d)"
    by (simp_all add: inr(1,2) set_r_parent_def set_rm_from_def)
  then have "ids_distinct d'" using linked by (simp add: ids_distinct_def well_linked_def)
  with isolatedI [of T d d'] kept linked show ?thesis by (simp add: isolated_def)
qed

text \<open>What hangs off a row of \<open>T\<close> is not foreign, and detaching a row that has no link changes nothing.\<close>

lemma foreign_link:
  assumes linked: "well_linked T d" and r: "r \<in> set (repositories d)" "r_tenant r \<in> T" and i: "i \<in> foreign_ids T d" "i = r_id r"
  shows "i = 0"
proof (rule ccontr)
  assume "i \<noteq> 0"
  with i obtain q where q: "q \<in> set (repositories d)" "r_tenant q \<notin> T" "r_id q = r_id r"
    by (auto simp: foreign_ids_def foreign_rows_def)
  then have "q = r" using linked r(1) by (auto simp: well_linked_def ids_distinct_def distinct_map dest: inj_onD)
  with q(2) r(2) show False by simp
qed

lemma clearEdges_isolated:
  assumes run: "repository_clearEdges i k l d = Inr d'" and linked: "well_linked T d"
    and r: "r \<in> set (repositories d)" "r_tenant r \<in> T" "r_id r = i"
  shows "well_linked T d' \<and> foreign_kept T d d'"
proof -
  note inr = repository_clearEdges_Inr [OF run]
  have "foreign_rows r_tenant T (repositories d') = foreign_rows r_tenant T (repositories d)"
    unfolding inr(1)
  proof (rule foreign_rows_map)
    fix x assume x: "x \<in> set (repositories d)" "r_tenant x \<notin> T"
    then have "r_parent x \<in> foreign_ids T d" using linked by (auto simp: well_linked_def list_all_iff foreign_rows_def)
    with foreign_link [OF linked r(1,2)] r(3)
    show "(if detached r_id r_parent i (k_children k) (l_children l) x then set_r_parent 0 x else x) = x"
      by (auto simp: detached_def set_r_parent_def)
  qed (simp add: set_r_parent_def)
  moreover have "foreign_rows rm_tenant T (repository_movements d') = foreign_rows rm_tenant T (repository_movements d)"
    unfolding inr(2)
  proof (rule foreign_rows_map)
    fix x assume x: "x \<in> set (repository_movements d)" "rm_tenant x \<notin> T"
    then have "rm_from x \<in> foreign_ids T d" using linked by (auto simp: well_linked_def list_all_iff foreign_rows_def)
    with foreign_link [OF linked r(1,2)] r(3)
    show "(if detached rm_id rm_from i (k_repositoryMovementFrom k) (l_repositoryMovementFrom l) x then set_rm_from 0 x else x) = x"
      by (auto simp: detached_def set_rm_from_def)
  qed (simp add: set_rm_from_def)
  ultimately have kept: "foreign_kept T d d'" by (simp add: foreign_kept_def inr(3-7))
  have "map r_id (repositories d') = map r_id (repositories d)" "map rm_id (repository_movements d') = map rm_id (repository_movements d)"
    by (simp_all add: inr(1,2) set_r_parent_def set_rm_from_def)
  then have "ids_distinct d'" using linked by (simp add: ids_distinct_def well_linked_def)
  with isolatedI [of T d d'] kept linked show ?thesis by (simp add: isolated_def)
qed

lemma repository_Create_isolated:
  assumes c: "callers_of T c tn" and val: "validateRepositoryEdgeOwnership c d tn oT oS (cri_edges ci) = Inr ()"
    and run: "repository_Create c ci save d = Inr d'"
  shows "isolated T d d'"
  unfolding isolated_def
proof
  assume linked: "well_linked T d"
  then have ids: "ids_distinct d" by (simp add: well_linked_def)
  from run obtain t where t: "TenantIDMutationHook c None = Inr t"
    and fresh: "\<forall>r \<in> set (repositories d). r_id r \<noteq> c_uuid c (writes d)"
    and edges: "repository_addEdges (c_uuid c (writes d)) (cri_links ci)
      (tick (d\<lparr>repositories := repositories d @ [new_repository c d t ci]\<rparr>)) = Inr d'"
    by (auto simp: repository_Create_def new_repository_def Let_def list_ex_iff split: sum.splits if_splits option.splits)
  let ?n = "new_repository c d t ci" and ?d = "tick (d\<lparr>repositories := repositories d @ [new_repository c d t ci]\<rparr>)"
  from callers_of_hook [OF c t] have tT: "r_tenant ?n \<in> T" by (simp add: new_repository_def)
  have "isolated T d ?d"
  proof (rule isolated_kept)
    show "foreign_kept T d ?d" using tT by (simp add: foreign_kept_def tick_def foreign_rows_none)
    show "ids_distinct ?d" if "ids_distinct d"
      using that fresh by (auto simp: ids_distinct_def tick_def new_repository_def)
  qed
  with linked have step: "well_linked T ?d \<and> foreign_kept T d ?d" by (simp add: isolated_def)
  have tn: "tn \<in> T" using c by (simp add: callers_of_def)
  have owned: "set (l_children (cri_links ci)) \<subseteq> tenantRepositories d tn"
    "set (l_repositoryMovementFrom (cri_links ci)) \<subseteq> tenantRepositoryMovements d tn"
    using edges_owned [OF val, of UNIV UNIV] by (auto simp: cri_edges_def Let_def)
  have "well_linked T d' \<and> foreign_kept T ?d d'"
  proof (rule addEdges_isolated [OF edges])
    show "r_tenant r \<in> T" if "r \<in> set (repositories ?d)" "r_id r \<in> set (l_children (cri_links ci))" for r
      using that tT owned(1) owned_not_foreign(1) [OF ids tn] by (auto simp: tick_def)
    show "rm_tenant m \<in> T" if "m \<in> set (repository_movements ?d)" "rm_id m \<in> set (l_repositoryMovementFrom (cri_links ci))" for m
      using that owned(2) owned_not_foreign(2) [OF ids tn] by (auto simp: tick_def)
  qed (use step in blast)
  with step show "well_linked T d' \<and> foreign_kept T d d'" by (simp add: foreign_kept_def)
qed

lemma tenant_ids_map:
  assumes "\<And>x. key (f x) = key x" and "\<And>x. tenant (f x) = tenant x"
  shows "key ` {x \<in> set (map f rows). tenant x = tn} = key ` {x \<in> set rows. tenant x = tn}"
proof -
  have "{x \<in> set (map f rows). tenant x = tn} = f ` {x \<in> set rows. tenant x = tn}" using assms(2) by auto
  then show ?thesis by (simp add: image_image assms(1))
qed

lemma repository_UpdateSave_isolated:
  assumes c: "callers_of T c tn" and val: "validateRepositoryEdgeOwnership c d tn oT oS (uri_edges ui) = Inr ()"
    and run: "repository_UpdateSave c i ui save d = Inr d'"
  shows "isolated T d d'"
  unfolding isolated_def
proof
  assume linked: "well_linked T d"
  let ?f = "\<lambda>r. r\<lparr>r_parent := updateParent ui (r_parent r)\<rparr>"
  from run obtain d1 d2 where up: "repository_Update c i ?f d = Inr d1"
    and clear: "repository_clearEdges i (uri_clears ui) (uri_remove ui) d1 = Inr d2"
    and add: "repository_addEdges i (without_removed (uri_add ui) (uri_remove ui)) d2 = Inr d'"
    by (auto simp: repository_UpdateSave_def split: option.splits sum.splits)
  have "isolated T d d1"
    using up by (intro isolated_kept update_foreign(11) [OF c]) (auto elim: write_ids(5) [rotated])
  with linked have one: "well_linked T d1 \<and> foreign_kept T d d1" by (simp add: isolated_def)
  note rows = repository_Update_Inr [OF up]
  from rows(2) obtain r where r: "r \<in> set (repositories d)" "r_id r = i" "r_tenant r \<in> T"
    using callers_of_mutable [OF c] by blast
  then have "?f r \<in> set (repositories d1) \<or> r \<in> set (repositories d1)" unfolding rows(1) by force
  then obtain q where q: "q \<in> set (repositories d1)" "r_tenant q \<in> T" "r_id q = i" using r(2,3) by auto
  from clearEdges_isolated [OF clear _ q] one have two: "well_linked T d2 \<and> foreign_kept T d1 d2" by blast
  have tn: "tn \<in> T" using c by (simp add: callers_of_def)
  have owned: "set (l_children (uri_add ui)) \<subseteq> tenantRepositories d tn"
    "set (l_repositoryMovementFrom (uri_add ui)) \<subseteq> tenantRepositoryMovements d tn"
    using edges_owned [OF val, of UNIV UNIV] by (auto simp: uri_edges_def Let_def)
  have "tenantRepositories d1 tn = tenantRepositories d tn"
    unfolding tenantRepositories_def rows(1) by (rule tenant_ids_map) simp_all
  moreover have "tenantRepositories d2 tn = tenantRepositories d1 tn"
    unfolding tenantRepositories_def repository_clearEdges_Inr(1) [OF clear]
    by (rule tenant_ids_map) (simp_all add: set_r_parent_def)
  moreover have "tenantRepositoryMovements d2 tn = tenantRepositoryMovements d tn"
    unfolding tenantRepositoryMovements_def repository_clearEdges_Inr(2) [OF clear] rows(6)
    by (rule tenant_ids_map) (simp_all add: set_rm_from_def)
  ultimately have owned2: "set (l_children (uri_add ui)) \<subseteq> tenantRepositories d2 tn"
    "set (l_repositoryMovementFrom (uri_add ui)) \<subseteq> tenantRepositoryMovements d2 tn" using owned by simp_all
  from two have ids2: "ids_distinct d2" by (simp add: well_linked_def)
  have "well_linked T d' \<and> foreign_kept T d2 d'"
  proof (rule addEdges_isolated [OF add])
    show "well_linked T d2" using two by blast
    show "r_tenant r \<in> T"
      if "r \<in> set (repositories d2)" "r_id r \<in> set (l_children (without_removed (uri_add ui) (uri_remove ui)))" for r
      using owned_not_foreign(1) [OF ids2 tn that(1)] that(2) owned2(1) by auto
    show "rm_tenant m \<in> T" if "m \<in> set (repository_movements d2)"
      "rm_id m \<in> set (l_repositoryMovementFrom (without_removed (uri_add ui) (uri_remove ui)))" for m
      using owned_not_foreign(2) [OF ids2 tn that(1)] that(2) owned2(2) by auto
  qed
  with one two show "well_linked T d' \<and> foreign_kept T d d'" by (simp add: foreign_kept_def)
qed

interpretation isolation: inventory "callers_of T" "isolated T" any_tenant for T
proof
  show "isolated T d d" for d by simp
  show "isolated T d d1 \<Longrightarrow> isolated T d1 d2 \<Longrightarrow> isolated T d d2" for d d1 d2
    by (rule isolated_trans)
  show "callers_of T c tn \<Longrightarrow> callers_of T (WithDeferredUnderflow c) tn" for c tn
    by (simp add: callers_of_def acts_for_def WithDeferredUnderflow_def)
  show "callers_of T c tn \<Longrightarrow> callers_of T (showDeletedCtx c) tn" for c tn
    by (simp add: callers_of_def acts_for_def showDeletedCtx_def)
  show "callers_of T c t \<Longrightarrow> MutationTenantID c = Inr tn \<Longrightarrow> callers_of T c tn" for c t tn
    by (auto simp: callers_of_def acts_for_def MutationTenantID_def)
  show "isolated T d d'" if "callers_of T c tn" "im_tenant mv = tn" "isolated T d d1"
    "procStore mv (procRows d tn input (im_id mv) F W) d1 = Inr d'" for c tn mv d d1 input F W d'
  proof (rule isolated_trans [OF that(3)])
    have tn: "tn \<in> T" using that(1) by (simp add: callers_of_def)
    show "isolated T d1 d'"
      using procStore_foreign [OF _ _ that(4), of T] tn that(2) procRows_tenant
      by (intro isolated_kept write_ids_same(6) [OF that(4)]) auto
  qed
  show "isolated T d d'" if "callers_of T c t" "repositoryMovement_Update c i (\<lambda>m. m\<lparr>rm_executed := True, rm_executed_at := at\<rparr>) d = Inr d'"
    for c t i at d d'
    using that by (intro isolated_kept update_foreign(10) [OF that(1) _ that(2)]) (auto elim: write_ids(2) [rotated])
  show "isolated T d d'" if "callers_of T c t" "repositoryMovement_Update c i (\<lambda>m. m\<lparr>rm_deleted_at := at, rm_deleted_by := u\<rparr>) d = Inr d'"
    for c t i at u d d'
    using that by (intro isolated_kept update_foreign(10) [OF that(1) _ that(2)]) (auto elim: write_ids(2) [rotated])
  show "isolated T d d'" if "callers_of T c t" "repositoryMovement_Update c i (\<lambda>m. m\<lparr>rm_handler := updateHandler h (rm_handler m)\<rparr>) d = Inr d'"
    for c t i h d d'
    using that by (intro isolated_kept update_foreign(10) [OF that(1) _ that(2)]) (auto elim: write_ids(2) [rotated])
  show "isolated T d d'" if "callers_of T c t" "repository_Update c i (\<lambda>r. r\<lparr>r_deleted_at := at\<rparr>) d = Inr d'"
    for c t i at d d'
    using that by (intro isolated_kept update_foreign(11) [OF that(1) _ that(2)]) (auto elim: write_ids(5) [rotated])
qed (blast intro: isolated_kept stock_CreateBulk_foreign transaction_CreateBulk_foreign create_foreign update_foreign(1-9)
  delete_foreign write_ids_same write_ids(1,3,4) repository_Create_isolated repository_UpdateSave_isolated)+

section \<open>Isolation\<close>

text \<open>What a tenant has in the database.\<close>

definition tenant_db :: "uuid \<Rightarrow> db \<Rightarrow> db" where
  "tenant_db tn d =
     \<lparr>items = filter (\<lambda>x. i_tenant x = tn) (items d),
      repositories = filter (\<lambda>x. r_tenant x = tn) (repositories d),
      stocks = filter (\<lambda>x. s_tenant x = tn) (stocks d),
      item_movements = filter (\<lambda>x. im_tenant x = tn) (item_movements d),
      repository_movements = filter (\<lambda>x. rm_tenant x = tn) (repository_movements d),
      collection_movements = filter (\<lambda>x. cm_tenant x = tn) (collection_movements d),
      transactions = filter (\<lambda>x. t_tenant x = tn) (transactions d), writes = 0\<rparr>"

lemma foreign_rows_tenant:
  assumes "foreign_rows f T xs = foreign_rows f T ys" and "tn \<notin> T"
  shows "filter (\<lambda>x. f x = tn) xs = filter (\<lambda>x. f x = tn) ys"
proof -
  have "filter (\<lambda>x. f x = tn) zs = filter (\<lambda>x. f x = tn) (foreign_rows f T zs)" for zs
    using assms(2) by (induction zs) (auto simp: foreign_rows_def)
  with assms(1) show ?thesis by metis
qed

lemma tenant_rows_kept:
  assumes "(mutation_by (callers_of T) any_tenant dialect)\<^sup>*\<^sup>* d d'" and "well_linked T d" and "tn \<notin> T"
  shows "tenant_db tn d' = tenant_db tn d"
  using isolation.R_mutations [OF assms(1)] assms(2)
  by (auto simp: tenant_db_def isolated_def foreign_kept_def dest: foreign_rows_tenant [OF _ assms(3)])

text \<open>
  C4: tenants cannot touch each other. Whatever mutations of the service the callers of a set of tenants run, in
  any number and order, on either database path, with whatever edges, rebuilds included and interleaved
  between the statements of the handlers, every row that any other tenant has in any of the seven tables
  is still there and unchanged, and no row has been added to it. Identifiers are unique and the parents and
  movement sources of the other tenants' rows are their own, which the mutations keep so.
\<close>
theorem tenant_isolation:
  assumes "(mutation_by (callers_of T) any_tenant dialect)\<^sup>*\<^sup>* d d'" and "well_linked T d" and "tn \<notin> T"
  shows "tenant_db tn d' = tenant_db tn d \<and> well_linked T d'"
  using tenant_rows_kept [OF assms] isolation.R_mutations [OF assms(1)] assms(2) by (simp add: isolated_def)

text \<open>
  Tenant 2 shares the tables and has the repositories 90 and, below it, 91. Tenant 1 detaches bin 13
  from shelf 11 and executes its movement 500.
\<close>

definition exShared :: db where
  "exShared = exDb\<lparr>stocks := zero_stock\<lparr>s_tenant := 2, s_repository := 90, s_item := 91, quantity := 4\<rparr> # stocks exDb,
     repositories := (exRepo 90 0 False)\<lparr>r_tenant := 2\<rparr> # (exRepo 91 90 False)\<lparr>r_tenant := 2\<rparr> # repositories exDb\<rparr>"

lemma exShared_linked: "well_linked {1} exShared"
  by code_simp

lemma exCtx_acts: "acts_for exCtx 1"
  by code_simp

lemma exShared_executes:
  obtains d' where "ExecuteInventoryItemMovement undisturbed Postgres exCtx 500 exShared = Inr d'"
    and "tenant_db 1 d' \<noteq> tenant_db 1 exShared"
proof -
  let ?r = "ExecuteInventoryItemMovement undisturbed Postgres exCtx 500 exShared"
  have "case ?r of Inl _ \<Rightarrow> False
    | Inr d' \<Rightarrow> length (stocks (tenant_db 1 d')) \<noteq> length (stocks (tenant_db 1 exShared))"
    by code_simp
  then obtain d' where run: "?r = Inr d'"
    and "length (stocks (tenant_db 1 d')) \<noteq> length (stocks (tenant_db 1 exShared))"
    by (auto split: sum.splits)
  from this(2) have "tenant_db 1 d' \<noteq> tenant_db 1 exShared" by auto
  with run that show ?thesis by blast
qed

theorem tenant_isolation_witness:
  "\<exists>d1 d'. exUpdateRepo 11 exDetach exShared = Inr d1 \<and> ExecuteInventoryItemMovement undisturbed Postgres exCtx 500 exShared = Inr d'
     \<and> tenant_db 2 d1 = tenant_db 2 exShared \<and> tenant_db 2 d' = tenant_db 2 exShared
     \<and> length (repositories (tenant_db 2 d1)) = 2 \<and> tenant_db 1 d' \<noteq> tenant_db 1 exShared"
proof -
  obtain d' where run: "ExecuteInventoryItemMovement undisturbed Postgres exCtx 500 exShared = Inr d'"
    and diff: "tenant_db 1 d' \<noteq> tenant_db 1 exShared" by (rule exShared_executes)
  have "succeeds (exUpdateRepo 11 exDetach exShared)" by code_simp
  then obtain d1 where up: "exUpdateRepo 11 exDetach exShared = Inr d1" by (rule succeedsE)
  have c: "callers_of {1} exCtx 1" using exCtx_acts by (simp add: callers_of_def)
  have "mutation_by (callers_of {1}) any_tenant Postgres exShared d'"
    by (rule mutation_by.executeInventoryItemMovement [where C = "callers_of {1}", OF c run]) simp
  note kept' = tenant_isolation [OF r_into_rtranclp [of "mutation_by (callers_of {1}) any_tenant Postgres", OF this] exShared_linked, of 2]
  have "mutation_by (callers_of {1}) any_tenant Postgres exShared d1"
    by (rule mutation_by.updateInventoryRepository [where C = "callers_of {1}", OF c up [unfolded exUpdateRepo_def]])
  note kept = tenant_isolation [OF r_into_rtranclp [of "mutation_by (callers_of {1}) any_tenant Postgres", OF this] exShared_linked, of 2]
  have "length (repositories (tenant_db 2 exShared)) = 2" by code_simp
  with kept kept' run up diff show ?thesis by simp
qed

end
