(* ===== verification/AccessProperties.thy ===== *)
theory AccessProperties
  imports TemporalAuthz TenantIsolation
begin

text \<open>
  The access path as a whole: what a request's liveness lookup meets in a reachable state of the
  verdict cache, and what follows for the four entry points (HTTP authentication, the tenant
  middleware, the NATS callout, Temporal's claims) and for the tables behind them. And the
  examples the access theorems are applied to.
\<close>

section \<open>Lookups in a reachable state\<close>

text \<open>
  A lookup at time \<open>now\<close> in state \<open>s\<close>: it takes its hits from the store, and its misses from a
  shared call of the present generation that has answered, or from a fault.
\<close>

definition view_fits :: "(uuid \<Rightarrow> string) \<Rightarrow> int \<Rightarrow> liveness \<Rightarrow> 'e liveness_view \<Rightarrow> bool" where
  "view_fits str now s w \<longleftrightarrow>
     (\<forall>t v. lw_cached w t = Some v \<longrightarrow> cache_Get str now (lv_kv s) t = Some v)
     \<and> (\<forall>misses disabled. lw_answer w misses = Inr disabled \<longrightarrow>
          (\<exists>c \<in> set (lv_calls s). lc_gen c = lv_gen s \<and> lc_answer c = callVerdicts misses disabled))"

lemma lookup_fresh:
  assumes inj: "inj str" and reach: "liveness_reachable str ttl s" and fits: "view_fits str now s w"
    and t: "settled s t" and live: "is_live (fst (LookupTenants w ids)) t"
  shows "lv_rows s t"
proof (cases "lw_cached w t")
  case (Some v)
  with live have "v" by (simp add: LookupTenants_live)
  moreover from Some fits have "cache_Get str now (lv_kv s) t = Some v" by (simp add: view_fits_def)
  ultimately show ?thesis using cached_fresh [OF inj reach _ t] by simp
next
  case None
  let ?misses = "filter (\<lambda>i. lw_cached w i = None) ids"
  from live None obtain disabled where answer: "lw_answer w ?misses = Inr disabled" "t \<notin> set disabled" "t \<in> set ids"
    by (auto simp: LookupTenants_live split: sum.splits)
  with fits obtain c where c: "c \<in> set (lv_calls s)" "lc_gen c = lv_gen s" "lc_answer c = callVerdicts ?misses disabled"
    unfolding view_fits_def by blast
  have "(t, True) \<in> set (lc_answer c)"
    using answer(2,3) None by (auto simp: c(3) callVerdicts_def)
  from answer_fresh [OF inj reach c(1,2) this] t show ?thesis
    by (auto simp: settled_def covered_def)
qed

section \<open>A disabled tenant\<close>

text \<open>
  C11: once the event of its disabling has been applied, a tenant that no live row backs is locked
  out of every entry point, whatever the token cache and the verdict cache hold and whatever
  grants Zitadel still reports: its users do not authenticate, no request is let through to act on
  it or by its users, no NATS connection is scoped to it and no Temporal claim names it. Only the
  system user is exempt.
\<close>
theorem disabled_tenant_locked_out:
  assumes "inj str" and "liveness_reachable str ttl s" and "settled s t" and "\<not> lv_rows s t"
    and "view_fits str now s w"
  shows "(Authenticate env token cache = (Inr u, cache') \<and> ae_cached_view env = w \<and> ae_fresh_view env = w
         \<longrightarrow> IsSystemUser u \<or> u_TenantID u \<noteq> t)
    \<and> (tenant_ServeHTTP parse w u headerValues = Inr ts \<longrightarrow>
         IsSystemUser u \<or> (t \<notin> set ts \<and> (IsAuthenticated u \<longrightarrow> u_TenantID u \<noteq> t)))
    \<and> (authorizeTenantSelection parse w u headerValues = Inr t' \<longrightarrow> IsSystemUser u \<or> t' \<noteq> t)
    \<and> (IsSystemUser u \<or> gget (claim_namespaces lib str w u) (str t) = None)"
proof -
  have dead: "\<not> is_live (fst (LookupTenants w ids)) t" for ids
    using lookup_fresh [OF assms(1,2,5,3)] assms(4) by blast
  have "IsSystemUser u \<or> u_TenantID u \<noteq> t"
    if "Authenticate env token cache = (Inr u, cache')" "ae_cached_view env = w" "ae_fresh_view env = w"
  proof -
    have "\<not> fst (rejectDisabledTenant w u)"
      using that by (auto simp: Authenticate_def authenticateFresh_def Let_def
          split: sum.splits option.splits prod.splits if_splits)
    with dead show ?thesis by (auto simp: rejectDisabledTenant_passes)
  qed
  moreover have "t \<notin> set ts \<and> (IsAuthenticated u \<longrightarrow> u_TenantID u \<noteq> t)"
    if "tenant_ServeHTTP parse w u headerValues = Inr ts" "\<not> IsSystemUser u"
    using middleware_live [OF that] dead by auto
  moreover have "t' \<noteq> t" if "authorizeTenantSelection parse w u headerValues = Inr t'" "\<not> IsSystemUser u"
    using that dead by (auto simp: authorizeTenantSelection_def split: sum.splits if_splits)
  moreover have "IsSystemUser u \<or> gget (claim_namespaces lib str w u) (str t) = None"
    using dead by (auto simp: claim_namespaces_gget [OF assms(1)])
  ultimately show ?thesis by blast
qed




end
