(* ===== verification/AccessExamples.thy ===== *)
theory AccessExamples
  imports AccessProperties
begin

text \<open>Concrete runs of the access path, to which the access properties are applied.\<close>

section \<open>Identifiers\<close>

definition exStr :: "uuid \<Rightarrow> string" where
  "exStr i = (if i < 0 then CHR ''-'' # replicate (nat (- i)) CHR ''x'' else replicate (nat i) CHR ''x'')"

lemma exStr_inj: "inj exStr"
proof (rule injI)
  fix i j :: uuid assume eq: "exStr i = exStr j"
  then have "length (exStr i) = length (exStr j)" by simp
  moreover have "i < 0 \<longleftrightarrow> j < 0"
  proof -
    have "k < 0 \<longleftrightarrow> exStr k \<noteq> [] \<and> hd (exStr k) = CHR ''-''" for k
      by (auto simp: exStr_def hd_replicate)
    with eq show ?thesis by simp
  qed
  ultimately show "i = j" by (auto simp: exStr_def split: if_splits)
qed

definition exParse :: "bytes \<Rightarrow> uuid option" where
  "exParse s = (case s of [d] \<Rightarrow> if 48 \<le> d \<and> d \<le> 57 then Some (int d - 48) else None | _ \<Rightarrow> None)"

text \<open>A caller of tenant 1 with roles in the tenants 1 and 2.\<close>

definition exUser :: user where
  "exUser = \<lparr>u_ID = 7, u_TenantID = 1, u_Sub = ''s'', u_Username = ''ann'',
     u_Roles = [(2, ROLE_ADMIN), (1, ROLE_WRITER)], u_ServiceRoles = [(1, [''inventory_service''])], u_Token = ''tok''\<rparr>"

section \<open>A run of the verdict cache\<close>

text \<open>
  Tenant 2 is disabled, its event is applied, a lookup asks for the tenants 2 and 1, the table
  answers and the first verdict is stored.
\<close>

definition exLive0 :: liveness where
  "exLive0 = liveness_init (\<lambda>_. True)"

definition exLive1 :: liveness where
  "exLive1 = exLive0\<lparr>lv_rows := (lv_rows exLive0)(2 := False), lv_events := 2 # lv_events exLive0\<rparr>"

definition exLive2 :: liveness where
  "exLive2 = exLive1\<lparr>lv_events := [] @ [], lv_gen := Suc (lv_gen exLive1), lv_evicts := 2 # lv_evicts exLive1\<rparr>"

definition exLive3 :: liveness where
  "exLive3 = exLive2\<lparr>lv_evicts := [] @ [], lv_kv := kv_Delete (TenantKey exStr 2) (lv_kv exLive2)\<rparr>"

definition exLive4 :: liveness where
  "exLive4 = exLive3\<lparr>lv_calls := \<lparr>lc_gen = lv_gen exLive3, lc_misses = [2, 1], lc_answer = [], lc_phase = Asking\<rparr> # lv_calls exLive3\<rparr>"

definition exLive5 :: liveness where
  "exLive5 = exLive4\<lparr>lv_calls := [] @ (hd (lv_calls exLive4))\<lparr>lc_answer := [(2, False), (1, True)],
     lc_phase := Storing [(2, False), (1, True)]\<rparr> # []\<rparr>"

text \<open>The next access of the only call.\<close>

definition storeNext :: "liveness \<Rightarrow> liveness" where
  "storeNext s = (let c = hd (lv_calls s);
     (phase, kv) = setFromLookup exStr 100 5 (lv_gen s) (lc_gen c) (lc_phase c) (lv_kv s) in
     s\<lparr>lv_kv := kv, lv_calls := [] @ c\<lparr>lc_phase := phase\<rparr> # []\<rparr>)"

lemma storeNext_step: "lv_calls s = [c] \<Longrightarrow> liveness_step exStr 100 s (storeNext s)"
  using liveness_step.store_verdict [of s "[]" c "[]"]
  by (simp add: storeNext_def Let_def split: prod.splits)

lemma storeNext_calls: "\<exists>c. lv_calls (storeNext s) = [c]"
  by (simp add: storeNext_def Let_def split: prod.splits)

lemma exLive5_reachable: "(liveness_step exStr 100)\<^sup>*\<^sup>* exLive0 exLive5"
proof -
  have "liveness_step exStr 100 exLive0 exLive1"
    unfolding exLive1_def by (rule liveness_step.row_event)
  moreover have "liveness_step exStr 100 exLive1 exLive2"
    unfolding exLive2_def by (rule liveness_step.evict_bump) (simp add: exLive1_def exLive0_def liveness_init_def)
  moreover have "liveness_step exStr 100 exLive2 exLive3"
    unfolding exLive3_def
    by (rule liveness_step.evict_delete) (simp add: exLive2_def exLive1_def exLive0_def liveness_init_def)
  moreover have "liveness_step exStr 100 exLive3 exLive4"
    unfolding exLive4_def by (rule liveness_step.ask)
  moreover have "liveness_step exStr 100 exLive4 exLive5"
  proof -
    have "lv_calls exLive4 = [] @ hd (lv_calls exLive4) # []" "lc_phase (hd (lv_calls exLive4)) = Asking"
      "[(2, False), (1, True)] = callVerdicts (lc_misses (hd (lv_calls exLive4))) (disabledTenants (lv_rows exLive4) (lc_misses (hd (lv_calls exLive4))))"
      by code_simp+
    then show ?thesis unfolding exLive5_def by (rule liveness_step.answer)
  qed
  ultimately show ?thesis by (meson rtranclp.rtrancl_into_rtrancl rtranclp.rtrancl_refl)
qed

lemma exLive_reachable: "liveness_reachable exStr 100 ((storeNext ^^ n) exLive5)"
proof -
  have "(liveness_step exStr 100)\<^sup>*\<^sup>* exLive0 ((storeNext ^^ n) exLive5) \<and> (\<exists>c. lv_calls ((storeNext ^^ n) exLive5) = [c])"
  proof (induction n)
    case 0
    show ?case using exLive5_reachable by (simp add: exLive5_def)
  next
    case (Suc n)
    then show ?case using storeNext_step storeNext_calls by (auto intro: rtranclp.rtrancl_into_rtrancl)
  qed
  then show ?thesis unfolding exLive0_def by blast
qed

text \<open>Storing changes the store and the phase of the call only.\<close>

lemma storeNext_frame:
  "lv_gen (storeNext s) = lv_gen s" "lv_events (storeNext s) = lv_events s" "lv_evicts (storeNext s) = lv_evicts s"
  "lv_lost (storeNext s) = lv_lost s" "lv_rows (storeNext s) = lv_rows s"
  "lv_calls s = [c] \<Longrightarrow> \<exists>c'. lv_calls (storeNext s) = [c'] \<and> lc_gen c' = lc_gen c \<and> lc_answer c' = lc_answer c"
  by (simp_all add: storeNext_def Let_def split: prod.splits)

lemma storeNext_frames:
  "lv_gen ((storeNext ^^ n) s) = lv_gen s" "lv_events ((storeNext ^^ n) s) = lv_events s"
  "lv_evicts ((storeNext ^^ n) s) = lv_evicts s" "lv_lost ((storeNext ^^ n) s) = lv_lost s"
  "lv_rows ((storeNext ^^ n) s) = lv_rows s"
  by (induction n) (simp_all add: storeNext_frame)

lemma storeNext_call:
  "lv_calls s = [c] \<Longrightarrow> \<exists>c'. lv_calls ((storeNext ^^ n) s) = [c'] \<and> lc_gen c' = lc_gen c \<and> lc_answer c' = lc_answer c"
proof (induction n)
  case (Suc n)
  then obtain c' where c': "lv_calls ((storeNext ^^ n) s) = [c']" "lc_gen c' = lc_gen c" "lc_answer c' = lc_answer c" by blast
  from storeNext_frame(6) [OF c'(1)] c'(2,3) show ?case by simp
qed simp

lemmas exLive_defs = exLive5_def exLive4_def exLive3_def exLive2_def exLive1_def exLive0_def liveness_init_def

lemma exLive_settled: "settled ((storeNext ^^ n) exLive5) 2" "\<not> lv_rows ((storeNext ^^ n) exLive5) 2"
proof -
  have "\<exists>c. lv_calls exLive5 = [c] \<and> lc_gen c = 1" by (simp add: exLive_defs)
  with storeNext_call [of exLive5] obtain c where "lv_calls ((storeNext ^^ n) exLive5) = [c]" "lc_gen c = 1" by metis
  then show "settled ((storeNext ^^ n) exLive5) 2" "\<not> lv_rows ((storeNext ^^ n) exLive5) 2"
    by (simp_all add: settled_def covered_def outdated_writer_def storeNext_frames exLive_defs)
qed

theorem verdicts_fresh_witness:
  "cache_Get exStr 50 (lv_kv ((storeNext ^^ 3) exLive5)) 2 = Some False \<and> \<not> lv_rows ((storeNext ^^ 3) exLive5) 2"
proof -
  have hit: "cache_Get exStr 50 (lv_kv ((storeNext ^^ 3) exLive5)) 2 = Some False" by code_simp
  from verdicts_fresh [OF exStr_inj exLive_reachable, of 50 3 2 False] hit exLive_settled(1) show ?thesis by simp
qed

section \<open>The lookup of a request\<close>

text \<open>The request shares the answer of the call in flight.\<close>

definition exView :: "string liveness_view" where
  "exView = \<lparr>lw_cached = (\<lambda>_. None), lw_answer = (\<lambda>misses. if misses = [2, 1] then Inr [2] else Inl ''down'')\<rparr>"

lemma exLive5_reach: "liveness_reachable exStr 100 exLive5"
  using exLive_reachable [of 0] by simp

lemmas exLive5_settled = exLive_settled [of 0, simplified]

lemma exView_fits: "view_fits exStr 50 exLive5 exView"
  by (auto simp: view_fits_def exView_def exLive_defs callVerdicts_def split: if_splits)

lemma exUser_served: "tenant_ServeHTTP exParse exView exUser [] = Inr [1]"
  by code_simp

theorem disabled_tenant_locked_out_witness:
  "tenant_ServeHTTP exParse exView exUser [] = Inr [1] \<and> HasRole exUser ROLE_ADMIN [2]
   \<and> (2::uuid) \<notin> set [1] \<and> (\<forall>lib. gget (claim_namespaces lib exStr exView exUser) (exStr 2) = None)"
proof -
  have "HasRole exUser ROLE_ADMIN [2]" "\<not> IsSystemUser exUser" by code_simp+
  with exUser_served
    disabled_tenant_locked_out [OF exStr_inj exLive5_reach exLive5_settled exView_fits, of _ _ _ exUser _ exParse "[]" "[1]"]
  show ?thesis by auto
qed

text \<open>The header \<open>1, 1\<close>; a fault of the source does not matter to a tenant with a cached verdict.\<close>

definition exCachedView :: "string liveness_view" where
  "exCachedView = \<lparr>lw_cached = (\<lambda>t. if t = 1 then Some True else None), lw_answer = (\<lambda>_. Inl ''down'')\<rparr>"

theorem acting_set_authorised_witness:
  "tenant_ServeHTTP exParse exCachedView exUser [[49, 44, 32, 49]] = Inr [1] \<and> HasRole exUser ROLE_READER [1]
   \<and> gate_admits ''inventory_service'' exUser [1] \<and> \<not> gate_admits ''file_service'' exUser [1]
   \<and> authorizeTenantSelection exParse exCachedView exUser [[50]] \<noteq> Inr 2"
proof -
  have run: "tenant_ServeHTTP exParse exCachedView exUser [[49, 44, 32, 49]] = Inr [1]"
    and gates: "IsAuthenticated exUser" "HasServiceRole exUser ''inventory_service'' 1" "\<not> HasServiceRole exUser ''file_service'' 1"
    and dead: "\<not> IsSystemUser exUser" "\<not> is_live (fst (LookupTenants exCachedView [2])) 2"
    by code_simp+
  note set = acting_set_authorised [THEN conjunct2, THEN conjunct1, rule_format, OF run]
  have "HasRole exUser ROLE_READER [1]" using set by simp
  moreover have "gate_admits ''inventory_service'' exUser [1]" using set [of "''inventory_service''"] gates by simp
  moreover have "\<not> gate_admits ''file_service'' exUser [1]" using set [of "''file_service''"] gates by simp
  moreover have "authorizeTenantSelection exParse exCachedView exUser [[50]] \<noteq> Inr 2"
    using acting_set_authorised [THEN conjunct2, THEN conjunct2, of exParse exCachedView exUser "[[50]]" 2] dead by blast
  ultimately show ?thesis using run by blast
qed



section \<open>Authentication\<close>

definition exLib :: authn_lib where
  "exLib = \<lparr>al_sha = (\<lambda>n s. 5 + int (length s) mod 100), al_oid = 3, al_parse = (\<lambda>_. None), al_string = exStr, al_lower = (\<lambda>s. s)\<rparr>"

definition exResp :: introspection where
  "exResp = \<lparr>i_active = True, i_iss = ''i'', i_sub = ''s'', i_username = ''ann'', i_pyckTenantID = [],
     i_resourceOwnerID = ''oo'', i_exp = 4000,
     i_projectRoles = [(''reader'', [''oo'']), (''admin'', [''oo'', ''ppp'']), (''file_service'', [''oo'']), (''cook'', [''oo''])]\<rparr>"

definition exAuthEnv :: "string authenticate_env" where
  "exAuthEnv = \<lparr>ae_lib = exLib, ae_config = \<lparr>patCacheTTL = 3600 * 1000000000, patCacheOverlap = 60 * 1000000000\<rparr>,
     ae_get_time = 1, ae_now = 10, ae_set_time = 20,
     ae_cached_view = \<lparr>lw_cached = (\<lambda>_. Some True), lw_answer = (\<lambda>_. Inl ''down'')\<rparr>,
     ae_fresh_view = \<lparr>lw_cached = (\<lambda>_. Some True), lw_answer = (\<lambda>_. Inl ''down'')\<rparr>,
     ae_introspect = Inr exResp, ae_later = (\<lambda>x. x)\<rparr>"

definition exAuthResult :: "(auth_error + user) \<times> user kv" where
  "exAuthResult = Authenticate exAuthEnv ''tok'' NewInMemoryKVStore"

definition exIntrospections :: "(string \<times> introspection \<times> int \<times> int) set" where
  "exIntrospections = {(''tok'', exResp, 10, 20)}"

lemma exAuth_reachable:
  "provider_reachable (ae_lib exAuthEnv) (ae_config exAuthEnv) exIntrospections (snd exAuthResult)"
proof (rule r_into_rtranclp, rule provider_step.authenticate [OF refl refl])
  show "Authenticate exAuthEnv ''tok'' NewInMemoryKVStore = (fst exAuthResult, snd exAuthResult)"
    by (simp add: exAuthResult_def)
qed (simp_all add: exAuthEnv_def exIntrospections_def)

theorem authenticate_fails_closed_witness:
  "\<exists>u. fst (Authenticate exAuthEnv ''tok'' NewInMemoryKVStore) = Inr u \<and> u_TenantID u = 7 \<and> i_active exResp
     \<and> introspectedUser exLib exResp ''tok'' = Some u"
proof -
  have "case fst (Authenticate exAuthEnv ''tok'' NewInMemoryKVStore) of Inl _ \<Rightarrow> False | Inr u \<Rightarrow> u_TenantID u = 7" by code_simp
  then obtain u where u: "fst (Authenticate exAuthEnv ''tok'' NewInMemoryKVStore) = Inr u" "u_TenantID u = 7"
    by (auto split: sum.splits)
  then have "Authenticate exAuthEnv ''tok'' NewInMemoryKVStore = (Inr u, snd (Authenticate exAuthEnv ''tok'' NewInMemoryKVStore))"
    by (metis prod.collapse)
  from authenticate_fails_closed [OF rtranclp.rtrancl_refl this, of "{}"] u show ?thesis
    by (auto simp: exAuthEnv_def)
qed

theorem cached_token_in_date_witness:
  "\<exists>u. kv_Get 100 ''tok'' (snd exAuthResult) = Some u \<and> u_Username u = ''ann'' \<and> 100 \<le> i_exp exResp * 1000000000"
proof -
  have "map_option u_Username (kv_Get 100 ''tok'' (snd exAuthResult)) = Some ''ann''" by code_simp
  then obtain u where u: "kv_Get 100 ''tok'' (snd exAuthResult) = Some u" "u_Username u = ''ann''" by auto
  from cached_token_in_date [OF exAuth_reachable u(1)] u show ?thesis
    by (auto simp: exIntrospections_def exAuthEnv_def)
qed

theorem introspected_user_well_formed_witness:
  "\<exists>u. introspectedUser exLib exResp ''tok'' = Some u \<and> \<not> IsSystemUser u \<and> IsAuthenticated u
     \<and> HasServiceRole u ''file_service'' 7 \<and> roleIn u 7 = ROLE_ADMIN"
proof -
  have "case introspectedUser exLib exResp ''tok'' of None \<Rightarrow> False
      | Some u \<Rightarrow> \<not> IsSystemUser u \<and> roleIn u 7 = ROLE_ADMIN" by code_simp
  then obtain u where u: "introspectedUser exLib exResp ''tok'' = Some u" "\<not> IsSystemUser u" "roleIn u 7 = ROLE_ADMIN"
    by (auto split: option.splits)
  have sha: "\<forall>n s. al_sha exLib n s \<noteq> uuid_Nil \<and> al_sha exLib n s \<noteq> uuid_Max"
  proof (intro allI conjI)
    fix n :: uuid and s :: string
    have "0 \<le> int (length s) mod 100" "int (length s) mod 100 < 100" by simp_all
    then show "al_sha exLib n s \<noteq> uuid_Nil" "al_sha exLib n s \<noteq> uuid_Max"
      unfolding exLib_def uuid_Nil_def uuid_Max_def by simp_all
  qed
  have "(''file_service'', ''oo'') \<in> set (grantsOf exResp)" "ComputeUUID exLib ''i'' ''oo'' = 7"
    "IsServiceRole (al_lower exLib) ''file_service''" by code_simp+
  then have "''file_service'' \<in> gates exLib (i_iss exResp) (grantsOf exResp) 7"
    by (auto simp: gates_def exResp_def)
  with introspected_user_well_formed [OF u(1) sha] u show ?thesis by (intro exI [of _ u]) simp
qed

section \<open>Temporal\<close>

definition exTemporal :: temporal_lib where
  "exTemporal = \<lparr>tl_Reader = 2, tl_Writer = 4, tl_Admin = 8, tl_Undefined = 0, tl_ServiceName = (\<lambda>s. s),
     tl_HealthCheck = ''/h'', tl_Workflow = ''/w/'', tl_Operator = ''/o/'', tl_Nexus = ''/n/''\<rparr>"

theorem claims_follow_roles_witness:
  "\<exists>c. GetClaims exTemporal exStr (\<lambda>_. Inr exUser :: unit + user) exView (Some [116]) = (c, None) \<and> cl_System c = 0
     \<and> Some (exStr 1) \<in> set (filterListNamespaces exTemporal (Some c) [Some (exStr 2), Some (exStr 1)])"
proof -
  let ?r = "GetClaims exTemporal exStr (\<lambda>_. Inr exUser :: unit + user) exView (Some [116])"
  have "snd ?r = None" by code_simp
  then have run: "?r = (fst ?r, None)" by (metis prod.collapse)
  have bits: "role_bits exTemporal" by code_simp
  have u: "\<not> IsSystemUser exUser" "is_live (fst (LookupTenants exView (user_TenantIDs exUser))) 1" "roleIn exUser 1 = ROLE_WRITER"
    "exStr 1 \<noteq> []" by code_simp+
  from claims_follow_roles [OF bits exStr_inj run refl u(1) refl] u(2-4) run show ?thesis
    by (intro exI [of _ "fst ?r"]) simp
qed

end
