(* ===== verification/Outbox.thy ===== *)
theory Outbox
  imports DbErrors "HOL-Library.Product_Lexorder"
begin

text \<open>
  The transactional outbox: backend/common/events/outbox_helpers.go (the SQL on the table
  event_outbox), outbox_handler.go (the poller) and outbox_janitor.go. A request inserts its
  events as rows of one transaction group; pollers publish the groups to the broker and mark
  the rows; what cannot be published is dead-lettered.

  The broker is the list of what it has accepted. Publishing takes its outcome from the
  environment: accepted or not, and the error the publisher sees (an accepted message may be
  reported as failed when the acknowledgement is lost). Times are nanoseconds. The textual form
  of a UUID and the topic a payload is dead-lettered to (JSON) are parameters. The labels of the
  metrics and the log lines are left out.
\<close>

section \<open>The table\<close>

type_synonym outbox_payload = "nat list"

record outbox_row =
  o_id :: uuid
  o_transaction :: uuid
  o_created_at :: time
  o_topic :: string
  o_payload :: outbox_payload
  o_entityType :: "string option"
  o_retry_count :: nat
  o_next_retry_at :: "time option"
  o_last_error :: "string option"
  o_published_at :: "time option"
  o_dead_at :: "time option"

definition GetEntityType :: "outbox_row \<Rightarrow> string" where
  "GetEntityType r = (case o_entityType r of Some t \<Rightarrow> t | None \<Rightarrow> ''unknown'')"

definition openRow :: "outbox_row \<Rightarrow> bool" where
  "openRow r \<longleftrightarrow> o_published_at r = None \<and> o_dead_at r = None"

definition heldBack :: "nat \<Rightarrow> time \<Rightarrow> outbox_row \<Rightarrow> bool" where
  "heldBack maxRetries now r \<longleftrightarrow>
     o_retry_count r < maxRetries \<and> (case o_next_retry_at r of None \<Rightarrow> False | Some t \<Rightarrow> now < t)"

text \<open>Step 1 of the selector. The order of groups with the same oldest event is left to the database.\<close>

definition selectTransactionIDsQuery :: "nat \<Rightarrow> nat \<Rightarrow> time \<Rightarrow> outbox_row list \<Rightarrow> uuid list" where
  "selectTransactionIDsQuery batchSize maxRetries now rows =
     (let open_rows = filter openRow rows;
          group = (\<lambda>t. filter (\<lambda>r. o_transaction r = t) open_rows);
          exhausted = (\<lambda>t. list_ex (\<lambda>r. o_retry_count r \<ge> maxRetries) (group t));
          noneHeldBack = (\<lambda>t. \<not> list_ex (heldBack maxRetries now) (group t))
      in take batchSize
           (sort_key (\<lambda>t. Min (o_created_at ` set (group t)))
              (filter (\<lambda>t. exhausted t \<or> noneHeldBack t) (remdups (map o_transaction open_rows)))))"

text \<open>Step 2: the open rows of the groups, except those another transaction has locked.\<close>

definition selectRowsQuery :: "uuid list \<Rightarrow> uuid set \<Rightarrow> outbox_row list \<Rightarrow> outbox_row list" where
  "selectRowsQuery transactionIDs locked rows =
     sort_key (\<lambda>r. (o_transaction r, o_created_at r))
       (filter (\<lambda>r. o_transaction r \<in> set transactionIDs \<and> openRow r \<and> o_id r \<notin> locked) rows)"

definition update_rows :: "(outbox_row \<Rightarrow> bool) \<Rightarrow> (outbox_row \<Rightarrow> outbox_row) \<Rightarrow> outbox_row list \<Rightarrow> outbox_row list" where
  "update_rows p f rows = map (\<lambda>r. if p r then f r else r) rows"

definition claimQuery :: "uuid list \<Rightarrow> time \<Rightarrow> outbox_row list \<Rightarrow> outbox_row list" where
  "claimQuery ids leaseUntil =
     update_rows (\<lambda>r. o_id r \<in> set ids \<and> openRow r) (\<lambda>r. r\<lparr>o_next_retry_at := Some leaseUntil\<rparr>)"

definition markPublishedQuery :: "uuid \<Rightarrow> time \<Rightarrow> outbox_row list \<Rightarrow> outbox_row list" where
  "markPublishedQuery i now =
     update_rows (\<lambda>r. o_id r = i)
       (\<lambda>r. r\<lparr>o_published_at := Some now, o_last_error := None, o_next_retry_at := None\<rparr>)"

definition second :: time where
  "second = 1000000000"

definition backoff :: "nat \<Rightarrow> time" where
  "backoff retryCount = min (2 ^ retryCount) 3600 * second"

definition markFailedQuery :: "uuid \<Rightarrow> string \<Rightarrow> time \<Rightarrow> outbox_row list \<Rightarrow> outbox_row list" where
  "markFailedQuery i errMsg now =
     update_rows (\<lambda>r. o_id r = i)
       (\<lambda>r. r\<lparr>o_retry_count := Suc (o_retry_count r), o_last_error := Some errMsg,
            o_next_retry_at := Some (now + backoff (o_retry_count r))\<rparr>)"

definition markTransactionDeadQuery :: "uuid \<Rightarrow> string \<Rightarrow> time \<Rightarrow> outbox_row list \<Rightarrow> outbox_row list" where
  "markTransactionDeadQuery transactionID reason now =
     update_rows (\<lambda>r. o_transaction r = transactionID \<and> openRow r)
       (\<lambda>r. r\<lparr>o_dead_at := Some now, o_last_error := Some reason\<rparr>)"

definition selectDeadRowsQuery :: "nat \<Rightarrow> uuid set \<Rightarrow> outbox_row list \<Rightarrow> outbox_row list" where
  "selectDeadRowsQuery batchSize locked rows =
     take batchSize (sort_key o_created_at
       (filter (\<lambda>r. o_dead_at r \<noteq> None \<and> o_published_at r = None \<and> o_id r \<notin> locked) rows))"

definition deleteByIDsQuery :: "uuid list \<Rightarrow> outbox_row list \<Rightarrow> outbox_row list" where
  "deleteByIDsQuery ids = filter (\<lambda>r. o_id r \<notin> set ids)"

definition pruneBatchQuery :: "time \<Rightarrow> nat \<Rightarrow> uuid set \<Rightarrow> outbox_row list \<Rightarrow> uuid list" where
  "pruneBatchQuery cutoff limit locked rows =
     take limit (map o_id (filter (\<lambda>r. (case o_published_at r of None \<Rightarrow> False | Some t \<Rightarrow> t < cutoff)
       \<and> o_id r \<notin> locked) rows))"

section \<open>Publishing\<close>

record outbox_config =
  serviceName :: string
  batchSize :: nat
  maxRetries :: nat
  claimLease :: time
  uuidString :: "uuid \<Rightarrow> string"
  deadLetterTopic :: "outbox_payload \<Rightarrow> string option"

record message =
  m_topic :: string
  m_payload :: outbox_payload
  m_msgID :: string

text \<open>What one call of the publisher does: is the message stored, and which error is reported.\<close>

type_synonym publish_outcome = "bool \<times> string option"

datatype outbox_mark =
    markPublished uuid
  | markFailed uuid string
  | markDead uuid string nat

definition defaultClaimLease :: time where
  "defaultClaimLease = 30 * second"

definition leaseOf :: "outbox_config \<Rightarrow> time" where
  "leaseOf cfg = (if claimLease cfg \<le> 0 then defaultClaimLease else claimLease cfg)"

definition buildMessageID :: "outbox_config \<Rightarrow> outbox_row \<Rightarrow> string" where
  "buildMessageID cfg r = serviceName cfg @ ''-'' @ uuidString cfg (o_transaction r) @ ''-'' @ uuidString cfg (o_id r)"

definition deadLetterMsgID :: "outbox_config \<Rightarrow> outbox_row \<Rightarrow> string" where
  "deadLetterMsgID cfg r = ''dlq-'' @ buildMessageID cfg r"

definition deadReason :: "outbox_config \<Rightarrow> outbox_row \<Rightarrow> string" where
  "deadReason cfg r = ''entry '' @ uuidString cfg (o_id r) @ '' exceeded max retries ('' @ decimal (maxRetries cfg) @ '')''"

definition PublishRaw :: "publish_outcome \<Rightarrow> message \<Rightarrow> message list \<Rightarrow> string option \<times> message list" where
  "PublishRaw oc msg sent = (snd oc, if fst oc then sent @ [msg] else sent)"

definition publishEntry :: "outbox_config \<Rightarrow> publish_outcome \<Rightarrow> outbox_row \<Rightarrow> message list \<Rightarrow> outbox_mark \<times> message list" where
  "publishEntry cfg oc entry sent =
     (case PublishRaw oc \<lparr>m_topic = o_topic entry, m_payload = o_payload entry, m_msgID = buildMessageID cfg entry\<rparr> sent of
        (None, sent) \<Rightarrow> (markPublished (o_id entry), sent)
      | (Some err, sent) \<Rightarrow> (markFailed (o_id entry) err, sent))"

text \<open>
  One group: \<open>out\<close> is the outcome of publishing an entry. The first failure ends the group, an
  entry without retries left dead-letters what is left of it.
\<close>

fun publishGroup ::
  "outbox_config \<Rightarrow> (outbox_row \<Rightarrow> publish_outcome) \<Rightarrow> outbox_row list \<Rightarrow> outbox_mark list \<Rightarrow> message list
     \<Rightarrow> outbox_mark list \<times> message list"
where
  "publishGroup cfg out [] marks sent = (marks, sent)"
| "publishGroup cfg out (entry # entries) marks sent =
     (if o_retry_count entry \<ge> maxRetries cfg
      then (marks @ [markDead (o_transaction entry) (deadReason cfg entry) (Suc (length entries))], sent)
      else case publishEntry cfg (out entry) entry sent of
             (markFailed i err, sent) \<Rightarrow> (marks @ [markFailed i err], sent)
           | (mark, sent) \<Rightarrow> publishGroup cfg out entries (marks @ [mark]) sent)"

definition publishTransactionGroup ::
  "outbox_config \<Rightarrow> (outbox_row \<Rightarrow> publish_outcome) \<Rightarrow> outbox_row list \<Rightarrow> message list \<Rightarrow> outbox_mark list \<times> message list"
where
  "publishTransactionGroup cfg out entries = publishGroup cfg out entries []"

definition groupByTransaction :: "outbox_row list \<Rightarrow> (uuid, outbox_row list) gomap" where
  "groupByTransaction entries =
     fold (\<lambda>e groups. gput (o_transaction e) (ggetd [] groups (o_transaction e) @ [e]) groups) entries []"

definition publishEntries ::
  "outbox_config \<Rightarrow> (outbox_row \<Rightarrow> publish_outcome) \<Rightarrow> (uuid, outbox_row list) gomap \<Rightarrow> message list
     \<Rightarrow> outbox_mark list \<times> message list"
where
  "publishEntries cfg out groups sent =
     fold (\<lambda>(_, entries) (marks, sent).
         case publishTransactionGroup cfg out entries sent of (ms, sent) \<Rightarrow> (marks @ ms, sent))
       groups ([], sent)"

definition applyMark :: "time \<Rightarrow> outbox_mark \<Rightarrow> outbox_row list \<Rightarrow> outbox_row list" where
  "applyMark now mark rows =
     (case mark of
        markPublished i \<Rightarrow> markPublishedQuery i now rows
      | markFailed i err \<Rightarrow> markFailedQuery i err now rows
      | markDead t reason _ \<Rightarrow> markTransactionDeadQuery t reason now rows)"

definition persistMarks :: "time \<Rightarrow> outbox_mark list \<Rightarrow> outbox_row list \<Rightarrow> outbox_row list" where
  "persistMarks now marks rows = fold (applyMark now) marks rows"

text \<open>The entries a mark counts for: published, retried, dropped.\<close>

definition recordMarkMetrics :: "outbox_mark list \<Rightarrow> nat \<times> nat \<times> nat" where
  "recordMarkMetrics marks =
     fold (\<lambda>m (p, r, d). case m of markPublished _ \<Rightarrow> (Suc p, r, d) | markFailed _ _ \<Rightarrow> (p, Suc r, d)
       | markDead _ _ n \<Rightarrow> (p, r, d + n)) marks (0, 0, 0)"

text \<open>The first phase: select, lease, commit.\<close>

definition claimEntries :: "outbox_config \<Rightarrow> time \<Rightarrow> outbox_row list \<Rightarrow> outbox_row list \<Rightarrow> outbox_row list" where
  "claimEntries cfg now entries rows =
     (if entries = [] then rows else claimQuery (map o_id entries) (now + leaseOf cfg) rows)"

definition fetchPendingEntries :: "outbox_config \<Rightarrow> time \<Rightarrow> outbox_row list \<Rightarrow> outbox_row list \<times> outbox_row list" where
  "fetchPendingEntries cfg now rows =
     (let entries = selectRowsQuery (selectTransactionIDsQuery (batchSize cfg) (maxRetries cfg) now rows) {} rows
      in (entries, claimEntries cfg now entries rows))"

text \<open>The three phases of a poller that no other one interferes with and whose transactions commit.\<close>

definition processOutbox ::
  "outbox_config \<Rightarrow> (outbox_row \<Rightarrow> publish_outcome) \<Rightarrow> time \<Rightarrow> time \<Rightarrow> outbox_row list \<times> message list
     \<Rightarrow> outbox_row list \<times> message list"
where
  "processOutbox cfg out now now' st =
     (let (entries, rows) = fetchPendingEntries cfg now (fst st) in
      if entries = [] then st
      else let (marks, sent) = publishEntries cfg out (groupByTransaction entries) (snd st)
           in (persistMarks now' marks rows, sent))"

section \<open>Dead letters and pruning\<close>

fun publishDeadLetters ::
  "outbox_config \<Rightarrow> (outbox_row \<Rightarrow> publish_outcome) \<Rightarrow> outbox_row list \<Rightarrow> message list \<Rightarrow> outbox_row list \<times> message list"
where
  "publishDeadLetters cfg out [] sent = ([], sent)"
| "publishDeadLetters cfg out (row # rows) sent =
     (case deadLetterTopic cfg (o_payload row) of
        None \<Rightarrow> publishDeadLetters cfg out rows sent
      | Some topic \<Rightarrow>
          (case PublishRaw (out row) \<lparr>m_topic = topic, m_payload = o_payload row, m_msgID = deadLetterMsgID cfg row\<rparr> sent of
             (Some err, sent) \<Rightarrow> publishDeadLetters cfg out rows sent
           | (None, sent) \<Rightarrow>
               (case publishDeadLetters cfg out rows sent of (acked, sent) \<Rightarrow> (row # acked, sent))))"

text \<open>A failed COMMIT leaves the table as it was; what the broker has accepted stays.\<close>

definition drainDeadLetters ::
  "outbox_config \<Rightarrow> (outbox_row \<Rightarrow> publish_outcome) \<Rightarrow> uuid set \<Rightarrow> bool \<Rightarrow> outbox_row list \<times> message list
     \<Rightarrow> outbox_row list \<times> message list"
where
  "drainDeadLetters cfg out locked commits st =
     (let (acked, sent) = publishDeadLetters cfg out (selectDeadRowsQuery (batchSize cfg) locked (fst st)) (snd st)
      in (if commits then deleteByIDsQuery (map o_id acked) (fst st) else fst st, sent))"

text \<open>
  \<open>Sweep\<close>: batches until one comes back short. Before batch \<open>k\<close> other replicas, pollers and emitters have
  changed the table by \<open>meanwhile k\<close>; \<open>locked k\<close> are the rows whose locks they hold, which the batch skips.
  \<open>fails k\<close> is a cancelled context, before the batch or in the pause in front of it, or an error of its
  statement, \<open>unread k\<close> an error in reading its row count. The result is the number of rows deleted, the error if
  any, and the table. The loop has no bound of its own: \<open>None\<close> would be a sweep that does not end.
\<close>

partial_function (option) Sweep ::
  "(nat \<Rightarrow> outbox_row list \<Rightarrow> outbox_row list) \<Rightarrow> (nat \<Rightarrow> uuid set) \<Rightarrow> (nat \<Rightarrow> string option) \<Rightarrow> (nat \<Rightarrow> string option)
     \<Rightarrow> nat \<Rightarrow> time \<Rightarrow> nat \<Rightarrow> outbox_row list \<Rightarrow> nat \<Rightarrow> ((nat \<times> string option) \<times> outbox_row list) option"
where
  "Sweep meanwhile locked fails unread k cutoff batch rows pruned =
     (case fails k of
        Some e \<Rightarrow> Some ((pruned, Some e), rows)
      | None \<Rightarrow>
          let rows = meanwhile k rows;
              rows' = deleteByIDsQuery (pruneBatchQuery cutoff batch (locked k) rows) rows;
              n = length rows - length rows'
          in case unread k of
               Some e \<Rightarrow> Some ((pruned, Some e), rows')
             | None \<Rightarrow>
                 if n < batch then Some ((pruned + n, None), rows')
                 else Sweep meanwhile locked fails unread (Suc k) cutoff batch rows' (pruned + n))"

end
