(* ===== verification/OutboxSystem.thy ===== *)
theory OutboxSystem
  imports Outbox
begin

text \<open>
  The outbox as a concurrent system: any number of pollers (a timer and a NOTIFY listener per
  replica) interleave between the statements of fetching, between two publishes, and before the
  marks are persisted; each can fail or die at any point. The database transactions are atomic
  except that a fetch reads twice: the groups to take, then their rows.
\<close>

section \<open>Steps\<close>

text \<open>What a poller holds in memory.\<close>

datatype poller =
    Idle
  | Selected "uuid list"
  | Publishing "outbox_row list list" "outbox_mark list"

text \<open>
  Besides the table and the broker, the history: the rows ever inserted, the entries the broker
  has accepted, and those it has accepted as dead letters.
\<close>

record outbox =
  table :: "outbox_row list"
  broker :: "message list"
  pollers :: "nat \<Rightarrow> poller"
  inserted :: "outbox_row list"
  accepted :: "uuid list"
  drained :: "uuid list"

definition message_of :: "outbox_config \<Rightarrow> outbox_row \<Rightarrow> message" where
  "message_of cfg r = \<lparr>m_topic = o_topic r, m_payload = o_payload r, m_msgID = buildMessageID cfg r\<rparr>"

text \<open>One call of the publisher inside the loops of publishEntries and publishTransactionGroup.\<close>

fun publishStep ::
  "outbox_config \<Rightarrow> publish_outcome \<Rightarrow> outbox_row list list \<Rightarrow> outbox_mark list \<Rightarrow> message list
     \<Rightarrow> outbox_row list list \<times> outbox_mark list \<times> message list \<times> uuid list"
where
  "publishStep cfg oc [] marks sent = ([], marks, sent, [])"
| "publishStep cfg oc ([] # gs) marks sent = (gs, marks, sent, [])"
| "publishStep cfg oc ((e # es) # gs) marks sent =
     (if o_retry_count e \<ge> maxRetries cfg
      then (gs, marks @ [markDead (o_transaction e) (deadReason cfg e) (Suc (length es))], sent, [])
      else case publishEntry cfg oc e sent of
             (markFailed i err, sent) \<Rightarrow> (gs, marks @ [markFailed i err], sent, if fst oc then [o_id e] else [])
           | (mark, sent) \<Rightarrow> (es # gs, marks @ [mark], sent, if fst oc then [o_id e] else []))"

text \<open>A message that is acknowledged is stored.\<close>

definition outcome_ok :: "publish_outcome \<Rightarrow> bool" where
  "outcome_ok oc \<longleftrightarrow> (snd oc = None \<longrightarrow> fst oc)"

definition whole_groups :: "uuid set \<Rightarrow> outbox_row list \<Rightarrow> bool" where
  "whole_groups L rows \<longleftrightarrow>
     (\<forall>a \<in> set rows. \<forall>b \<in> set rows. o_transaction a = o_transaction b \<and> openRow a \<and> openRow b \<longrightarrow>
        (o_id a \<in> L \<longleftrightarrow> o_id b \<in> L))"

text \<open>
  The rows of one transaction are inserted together, with timestamps of their own. With
  \<open>whole\<close>, a fetch finds the open rows of a group locked all or none.
\<close>

inductive outbox_step :: "outbox_config \<Rightarrow> bool \<Rightarrow> outbox \<Rightarrow> outbox \<Rightarrow> bool" for cfg whole where
  insert: "\<lbrakk>\<forall>r \<in> set rows. o_transaction r = t \<and> o_retry_count r = 0 \<and> o_next_retry_at r = None \<and> openRow r;
      distinct (map o_id rows); distinct (map o_created_at rows);
      \<forall>r \<in> set rows. \<forall>i \<in> set (inserted s). o_id r \<noteq> o_id i; \<forall>i \<in> set (inserted s). o_transaction i \<noteq> t\<rbrakk> \<Longrightarrow>
    outbox_step cfg whole s (s\<lparr>table := table s @ rows, inserted := inserted s @ rows\<rparr>)"
| select: "pollers s p = Idle \<Longrightarrow>
    outbox_step cfg whole s
      (s\<lparr>pollers := (pollers s)(p := Selected (selectTransactionIDsQuery (batchSize cfg) (maxRetries cfg) now (table s)))\<rparr>)"
| fetch: "\<lbrakk>pollers s p = Selected ids; entries = selectRowsQuery ids locked (table s);
      whole \<Longrightarrow> whole_groups locked (table s); mset gs = mset (map snd (groupByTransaction entries))\<rbrakk> \<Longrightarrow>
    outbox_step cfg whole s
      (s\<lparr>table := claimEntries cfg now entries (table s), pollers := (pollers s)(p := Publishing gs [])\<rparr>)"
| publish: "\<lbrakk>pollers s p = Publishing gs marks; gs \<noteq> []; outcome_ok oc;
      publishStep cfg oc gs marks (broker s) = (gs', marks', sent', new)\<rbrakk> \<Longrightarrow>
    outbox_step cfg whole s
      (s\<lparr>broker := sent', accepted := accepted s @ new, pollers := (pollers s)(p := Publishing gs' marks')\<rparr>)"
| persist: "pollers s p = Publishing [] marks \<Longrightarrow>
    outbox_step cfg whole s (s\<lparr>table := persistMarks now marks (table s), pollers := (pollers s)(p := Idle)\<rparr>)"
| abort: "outbox_step cfg whole s (s\<lparr>pollers := (pollers s)(p := Idle)\<rparr>)"
| drain: "\<lbrakk>\<forall>r. outcome_ok (out r); drainDeadLetters cfg out locked commits (table s, broker s) = (table', sent')\<rbrakk> \<Longrightarrow>
    outbox_step cfg whole s
      (s\<lparr>table := table', broker := sent',
         drained := drained s @ (if commits
           then map o_id (fst (publishDeadLetters cfg out (selectDeadRowsQuery (batchSize cfg) locked (table s)) (broker s)))
           else [])\<rparr>)"
| prune: "outbox_step cfg whole s
      (s\<lparr>table := deleteByIDsQuery (pruneBatchQuery cutoff batch locked (table s)) (table s)\<rparr>)"

definition outbox_start :: outbox where
  "outbox_start = \<lparr>table = [], broker = [], pollers = (\<lambda>_. Idle), inserted = [], accepted = [], drained = []\<rparr>"

lemma publishEntry_cases:
  "publishEntry cfg oc e sent =
     ((case snd oc of None \<Rightarrow> markPublished (o_id e) | Some err \<Rightarrow> markFailed (o_id e) err),
      (if fst oc then sent @ [message_of cfg e] else sent))"
  by (simp add: publishEntry_def PublishRaw_def message_of_def split: option.splits)

section \<open>Groups\<close>

lemma groupByTransaction_fold:
  "gget (fold (\<lambda>e groups. gput (o_transaction e) (ggetd [] groups (o_transaction e) @ [e]) groups) es m) t =
     (if filter (\<lambda>e. o_transaction e = t) es = [] then gget m t
      else Some (ggetd [] m t @ filter (\<lambda>e. o_transaction e = t) es))"
  by (induction es arbitrary: m) (auto simp: filter_empty_conv ggetd_def)

lemma groupByTransaction_ok: "gmap_ok (groupByTransaction es)"
  unfolding groupByTransaction_def
  by (rule fold_invariant [of es "\<lambda>_. True" gmap_ok]) auto

lemma groupByTransaction_group:
  assumes "g \<in> set (map snd (groupByTransaction es))"
  shows "\<exists>t. g = filter (\<lambda>e. o_transaction e = t) es"
proof -
  from assms obtain t where "(t, g) \<in> set (groupByTransaction es)" by auto
  then have "gget (groupByTransaction es) t = Some g"
    using groupByTransaction_ok [of es] by (simp add: gmap_ok_def gget_def)
  then have "g = filter (\<lambda>e. o_transaction e = t) es"
    unfolding groupByTransaction_def groupByTransaction_fold by (simp split: if_splits)
  then show ?thesis by blast
qed

section \<open>The invariant\<close>

text \<open>What an update never changes of a row.\<close>

definition same_entry :: "outbox_row \<Rightarrow> outbox_row \<Rightarrow> bool" where
  "same_entry a b \<longleftrightarrow> o_id a = o_id b \<and> o_transaction a = o_transaction b \<and> o_created_at a = o_created_at b
     \<and> o_topic a = o_topic b \<and> o_payload a = o_payload b"

definition earlier :: "outbox_row \<Rightarrow> outbox_row \<Rightarrow> bool" where
  "earlier a b \<longleftrightarrow> o_transaction a = o_transaction b \<and> o_created_at a < o_created_at b"

definition closed_group :: "outbox_row list \<Rightarrow> uuid \<Rightarrow> bool" where
  "closed_group rows t \<longleftrightarrow> (\<forall>r \<in> set rows. o_transaction r = t \<longrightarrow> \<not> openRow r)"

definition history_ok :: "outbox_row list \<Rightarrow> bool" where
  "history_ok ins \<longleftrightarrow> distinct (map o_id ins)
     \<and> (\<forall>a \<in> set ins. \<forall>b \<in> set ins. o_transaction a = o_transaction b \<and> o_created_at a = o_created_at b \<longrightarrow> a = b)"

text \<open>
  Every row comes from an insert; a published one has been accepted, one that is gone has been
  accepted or drained, and a group with a dead or drained row is closed.
\<close>

definition table_ok :: "outbox_row list \<Rightarrow> uuid list \<Rightarrow> uuid list \<Rightarrow> outbox_row list \<Rightarrow> bool" where
  "table_ok ins acc drn rows \<longleftrightarrow>
     (\<forall>r \<in> set rows. \<exists>i \<in> set ins. same_entry i r)
     \<and> (\<forall>r \<in> set rows. o_published_at r \<noteq> None \<longrightarrow> o_id r \<in> set acc)
     \<and> (\<forall>r \<in> set rows. o_dead_at r \<noteq> None \<longrightarrow> closed_group rows (o_transaction r))
     \<and> (\<forall>i \<in> set ins. o_id i \<in> o_id ` set rows \<or> o_id i \<in> set acc
          \<or> (o_id i \<in> set drn \<and> closed_group rows (o_transaction i)))"

text \<open>What a poller still holds: sorted groups, with nothing skipped that is not accepted yet.\<close>

definition group_held :: "bool \<Rightarrow> outbox_row list \<Rightarrow> uuid list \<Rightarrow> outbox_row list \<Rightarrow> bool" where
  "group_held whole ins acc g \<longleftrightarrow> (\<forall>x \<in> set g. \<exists>i \<in> set ins. same_entry i x)
     \<and> (whole \<longrightarrow> sorted_wrt earlier g
        \<and> (\<forall>x \<in> set g. \<forall>i \<in> set ins. earlier i x \<longrightarrow> o_id i \<in> set acc \<or> o_id i \<in> o_id ` set g))"

definition mark_ok :: "uuid list \<Rightarrow> outbox_mark \<Rightarrow> bool" where
  "mark_ok acc m \<longleftrightarrow> (case m of markPublished i \<Rightarrow> i \<in> set acc | _ \<Rightarrow> True)"

definition poller_ok :: "bool \<Rightarrow> outbox_row list \<Rightarrow> uuid list \<Rightarrow> poller \<Rightarrow> bool" where
  "poller_ok whole ins acc p \<longleftrightarrow> (case p of
     Publishing gs marks \<Rightarrow> (\<forall>g \<in> set gs. group_held whole ins acc g) \<and> (\<forall>m \<in> set marks. mark_ok acc m)
   | _ \<Rightarrow> True)"

text \<open>The first time an entry is accepted, every earlier one of its group has been.\<close>

definition ordered :: "bool \<Rightarrow> outbox_row list \<Rightarrow> uuid list \<Rightarrow> bool" where
  "ordered whole ins acc \<longleftrightarrow> (whole \<longrightarrow> (\<forall>i \<in> set ins. \<forall>j \<in> set ins.
     earlier i j \<and> o_id j \<in> set acc \<longrightarrow> o_id i \<in> set (takeWhile (\<lambda>k. k \<noteq> o_id j) acc)))"

lemma same_entry_refl [simp]: "same_entry a a"
  by (simp add: same_entry_def)

lemma earlier_cong: "same_entry a a' \<Longrightarrow> same_entry b b' \<Longrightarrow> earlier a b \<longleftrightarrow> earlier a' b'"
  by (auto simp: same_entry_def earlier_def)

text \<open>An update of the table that only closes rows.\<close>

lemma table_ok_map:
  assumes ok: "table_ok ins acc drn rows"
    and same: "\<And>r. same_entry r (f r)" and open_mono: "\<And>r. openRow (f r) \<Longrightarrow> openRow r"
    and pub: "\<And>r. r \<in> set rows \<Longrightarrow> o_published_at (f r) \<noteq> None \<Longrightarrow> o_id r \<in> set acc"
    and dead: "\<And>r. r \<in> set rows \<Longrightarrow> o_dead_at (f r) \<noteq> None \<Longrightarrow>
      o_dead_at r \<noteq> None \<or> closed_group (map f rows) (o_transaction r)"
  shows "table_ok ins acc drn (map f rows)"
proof -
  have tx: "o_transaction (f r) = o_transaction r" "o_id (f r) = o_id r" for r
    using same [of r] by (simp_all add: same_entry_def)
  have closed: "closed_group (map f rows) t" if "closed_group rows t" for t
    using that open_mono by (auto simp: closed_group_def tx)
  have trans: "same_entry i (f r)" if "same_entry i r" for i r
    using that same [of r] by (simp add: same_entry_def)
  show ?thesis
    unfolding table_ok_def
  proof (intro conjI ballI impI)
    fix q assume "q \<in> set (map f rows)"
    then obtain r where r: "r \<in> set rows" "q = f r" by auto
    from ok r(1) obtain i where "i \<in> set ins" "same_entry i r" unfolding table_ok_def by blast
    with trans r(2) show "\<exists>i \<in> set ins. same_entry i q" by blast
    show "o_id q \<in> set acc" if "o_published_at q \<noteq> None" using pub [OF r(1)] that r(2) tx by simp
    show "closed_group (map f rows) (o_transaction q)" if "o_dead_at q \<noteq> None"
      using dead [OF r(1)] that r ok closed tx by (auto simp: table_ok_def)
  next
    fix i assume "i \<in> set ins"
    with ok have "o_id i \<in> o_id ` set rows \<or> o_id i \<in> set acc \<or> (o_id i \<in> set drn \<and> closed_group rows (o_transaction i))"
      by (auto simp: table_ok_def)
    moreover have "o_id ` set (map f rows) = o_id ` set rows" by (auto simp: tx image_iff)
    ultimately show "o_id i \<in> o_id ` set (map f rows) \<or> o_id i \<in> set acc
        \<or> (o_id i \<in> set drn \<and> closed_group (map f rows) (o_transaction i))"
      using closed by auto
  qed
qed

lemma table_ok_update:
  assumes "table_ok ins acc drn rows"
    and "\<And>r. same_entry r (f r) \<and> (openRow (f r) \<longrightarrow> openRow r)"
    and "\<And>r. r \<in> set rows \<Longrightarrow> p r \<Longrightarrow> o_published_at (f r) \<noteq> None \<Longrightarrow> o_id r \<in> set acc"
    and "\<And>r. o_dead_at (f r) = o_dead_at r"
  shows "table_ok ins acc drn (update_rows p f rows)"
  unfolding update_rows_def
proof (rule table_ok_map [OF assms(1)])
  show "o_id r \<in> set acc" if "r \<in> set rows" "o_published_at (if p r then f r else r) \<noteq> None" for r
    using assms(1,3) that by (auto simp: table_ok_def split: if_splits)
qed (use assms(2,4) in \<open>auto split: if_splits\<close>)

lemma table_ok_mark:
  assumes "table_ok ins acc drn rows" and "mark_ok acc m"
  shows "table_ok ins acc drn (applyMark now m rows)"
proof (cases m)
  case (markPublished i)
  with assms show ?thesis
    by (auto simp: applyMark_def markPublishedQuery_def mark_ok_def same_entry_def openRow_def intro!: table_ok_update)
next
  case (markFailed i err)
  have "o_id r \<in> set acc" if "r \<in> set rows" "o_published_at r \<noteq> None" for r
    using assms(1) that unfolding table_ok_def by blast
  with markFailed assms(1) show ?thesis
    by (auto simp: applyMark_def markFailedQuery_def same_entry_def openRow_def intro!: table_ok_update)
next
  case (markDead t reason n)
  let ?f = "\<lambda>r. if o_transaction r = t \<and> openRow r then r\<lparr>o_dead_at := Some now, o_last_error := Some reason\<rparr> else r"
  have "table_ok ins acc drn (map ?f rows)"
  proof (rule table_ok_map [OF assms(1)])
    show "o_id r \<in> set acc" if "r \<in> set rows" "o_published_at (?f r) \<noteq> None" for r
      using assms(1) that by (auto simp: table_ok_def split: if_splits)
    show "o_dead_at r \<noteq> None \<or> closed_group (map ?f rows) (o_transaction r)"
      if "r \<in> set rows" "o_dead_at (?f r) \<noteq> None" for r
      using that by (auto simp: closed_group_def openRow_def split: if_splits)
  qed (auto simp: same_entry_def openRow_def split: if_splits)
  with markDead show ?thesis by (simp add: applyMark_def markTransactionDeadQuery_def update_rows_def)
qed

lemma table_ok_persist:
  "table_ok ins acc drn rows \<Longrightarrow> \<forall>m \<in> set marks. mark_ok acc m \<Longrightarrow> table_ok ins acc drn (persistMarks now marks rows)"
  unfolding persistMarks_def by (induction marks arbitrary: rows) (auto intro: table_ok_mark)


lemma history_unique: "history_ok ins \<Longrightarrow> a \<in> set ins \<Longrightarrow> b \<in> set ins \<Longrightarrow> o_id a = o_id b \<Longrightarrow> a = b"
  by (auto simp: history_ok_def distinct_map dest: inj_onD)

lemma table_entry:
  assumes "history_ok ins" and "table_ok ins acc drn rows" and "i \<in> set ins" "r \<in> set rows" "o_id r = o_id i"
  shows "same_entry i r"
proof -
  from assms(2,4) obtain j where j: "j \<in> set ins" "same_entry j r" unfolding table_ok_def by blast
  then have "o_id j = o_id i" using assms(5) by (simp add: same_entry_def)
  from history_unique [OF assms(1) j(1) assms(3) this] j(2) show ?thesis by simp
qed

text \<open>Deleting rows: published ones, or dead ones the broker has taken.\<close>

lemma table_ok_delete:
  assumes hist: "history_ok ins" and ok: "table_ok ins acc drn rows"
    and gone: "\<And>r. r \<in> set rows \<Longrightarrow> o_id r \<in> set ids \<Longrightarrow>
      o_id r \<in> set acc \<or> (o_id r \<in> set drn' \<and> closed_group rows (o_transaction r))"
    and drn: "set drn \<subseteq> set drn'"
  shows "table_ok ins acc drn' (deleteByIDsQuery ids rows)"
proof -
  let ?rows = "deleteByIDsQuery ids rows"
  have sub: "set ?rows \<subseteq> set rows" by (auto simp: deleteByIDsQuery_def)
  have closed: "closed_group ?rows t" if "closed_group rows t" for t
    using that sub unfolding closed_group_def by blast
  have one: "o_id i \<in> o_id ` set ?rows \<or> o_id i \<in> set acc \<or> (o_id i \<in> set drn' \<and> closed_group ?rows (o_transaction i))"
    if i: "i \<in> set ins" for i
  proof (cases "o_id i \<in> o_id ` set rows")
    case True
    then obtain r where r: "r \<in> set rows" "o_id r = o_id i" by auto
    have t: "o_transaction r = o_transaction i" using table_entry [OF hist ok i r] by (simp add: same_entry_def)
    show ?thesis
    proof (cases "o_id r \<in> set ids")
      case True
      from gone [OF r(1) True] r(2) t closed show ?thesis by auto
    next
      case False
      with r have "r \<in> set ?rows" by (simp add: deleteByIDsQuery_def)
      with r(2) show ?thesis by (metis image_eqI)
    qed
  next
    case False
    with ok i have "o_id i \<in> set acc \<or> (o_id i \<in> set drn \<and> closed_group rows (o_transaction i))"
      unfolding table_ok_def by blast
    with closed drn show ?thesis by blast
  qed
  show ?thesis
    unfolding table_ok_def
  proof (intro conjI ballI impI)
    fix r assume "r \<in> set ?rows"
    with sub have r: "r \<in> set rows" by blast
    from ok r show "\<exists>i \<in> set ins. same_entry i r" unfolding table_ok_def by blast
    from ok r show "o_id r \<in> set acc" if "o_published_at r \<noteq> None" using that unfolding table_ok_def by blast
    from ok r closed show "closed_group ?rows (o_transaction r)" if "o_dead_at r \<noteq> None"
      using that unfolding table_ok_def by blast
  next
    fix i assume i: "i \<in> set ins"
    show "o_id i \<in> o_id ` set ?rows \<or> o_id i \<in> set acc \<or> (o_id i \<in> set drn' \<and> closed_group ?rows (o_transaction i))"
      by (rule one [OF i])
  qed
qed


lemma table_ok_insert:
  assumes ok: "table_ok ins acc drn rows" and new: "\<forall>r \<in> set news. o_transaction r = t \<and> openRow r"
    and fresh: "\<forall>i \<in> set ins. o_transaction i \<noteq> t"
  shows "table_ok (ins @ news) acc drn (rows @ news)"
proof -
  have old: "o_transaction r \<noteq> t" if "r \<in> set rows" for r
  proof -
    from ok that obtain i where "i \<in> set ins" "same_entry i r" unfolding table_ok_def by blast
    with fresh show ?thesis unfolding same_entry_def by metis
  qed
  have closed: "closed_group (rows @ news) u" if "closed_group rows u" "u \<noteq> t" for u
    using that new by (auto simp: closed_group_def)
  show ?thesis
    unfolding table_ok_def
  proof (intro conjI ballI impI)
    fix r assume r: "r \<in> set (rows @ news)"
    show "\<exists>i \<in> set (ins @ news). same_entry i r"
    proof (cases "r \<in> set rows")
      case True
      with ok obtain i where "i \<in> set ins" "same_entry i r" unfolding table_ok_def by blast
      then show ?thesis by auto
    qed (use r in \<open>auto intro: bexI [of _ r]\<close>)
    show "o_id r \<in> set acc" if p: "o_published_at r \<noteq> None"
    proof -
      have "r \<in> set rows" using r new p by (auto simp: openRow_def)
      with ok p show ?thesis unfolding table_ok_def by blast
    qed
    show "closed_group (rows @ news) (o_transaction r)" if d: "o_dead_at r \<noteq> None"
    proof -
      have "r \<in> set rows" using r new d by (auto simp: openRow_def)
      with ok d old closed show ?thesis unfolding table_ok_def by blast
    qed
  next
    fix i assume "i \<in> set (ins @ news)"
    then consider "i \<in> set ins" | "i \<in> set news" by auto
    then show "o_id i \<in> o_id ` set (rows @ news) \<or> o_id i \<in> set acc \<or> (o_id i \<in> set drn \<and> closed_group (rows @ news) (o_transaction i))"
    proof cases
      case 1
      with ok have "o_id i \<in> o_id ` set rows \<or> o_id i \<in> set acc \<or> (o_id i \<in> set drn \<and> closed_group rows (o_transaction i))"
        unfolding table_ok_def by blast
      with closed fresh 1 show ?thesis by auto
    qed auto
  qed
qed

lemma table_ok_mono:
  assumes "table_ok ins acc drn rows" and "set acc \<subseteq> set acc'" "set drn \<subseteq> set drn'"
  shows "table_ok ins acc' drn' rows"
  using assms unfolding table_ok_def by blast

lemma sorted_distinct_wrt:
  "sorted (map f xs) \<Longrightarrow> distinct xs \<Longrightarrow> sorted_wrt (\<lambda>x y. f x \<le> f y \<and> x \<noteq> y) xs"
  by (induction xs) auto

text \<open>A fetch takes whole groups, so nothing earlier is missing from what it returns.\<close>

lemma fetched_group:
  assumes hist: "history_ok ins" and ok: "table_ok ins acc drn rows" and ids: "distinct (map o_id rows)"
    and whole: "whole \<Longrightarrow> whole_groups L rows" and g: "g \<in> set (map snd (groupByTransaction (selectRowsQuery ids L rows)))"
  shows "group_held whole ins acc g"
proof -
  let ?E = "selectRowsQuery ids L rows"
  from groupByTransaction_group [OF g] obtain t where t: "g = filter (\<lambda>e. o_transaction e = t) ?E" by blast
  have mem: "x \<in> set g \<longleftrightarrow> x \<in> set rows \<and> o_transaction x = t \<and> t \<in> set ids \<and> openRow x \<and> o_id x \<notin> L" for x
    by (auto simp: t selectRowsQuery_def)
  have "sorted_wrt earlier g"
  proof (rule sorted_wrt_mono_rel)
    have "sorted (map (\<lambda>r. (o_transaction r, o_created_at r)) g)"
      unfolding t selectRowsQuery_def by (rule sorted_filter) (rule sorted_sort_key)
    moreover have "distinct g" using ids by (simp add: t selectRowsQuery_def distinct_map)
    ultimately show "sorted_wrt (\<lambda>x y. (o_transaction x, o_created_at x) \<le> (o_transaction y, o_created_at y) \<and> x \<noteq> y) g"
      by (rule sorted_distinct_wrt)
    fix x y assume xy: "x \<in> set g" "y \<in> set g"
      "(o_transaction x, o_created_at x) \<le> (o_transaction y, o_created_at y) \<and> x \<noteq> y"
    then have tx: "o_transaction x = t" "o_transaction y = t" "x \<in> set rows" "y \<in> set rows" by (simp_all add: mem)
    with ok obtain i j where ij: "i \<in> set ins" "same_entry i x" "j \<in> set ins" "same_entry j y"
      unfolding table_ok_def by metis
    have "o_created_at x \<noteq> o_created_at y"
    proof
      assume "o_created_at x = o_created_at y"
      with ij tx hist have "i = j" unfolding history_ok_def same_entry_def by metis
      with ij have "o_id x = o_id y" by (simp add: same_entry_def)
      with ids tx(3,4) have "x = y" by (auto simp: distinct_map dest: inj_onD)
      with xy(3) show False by simp
    qed
    with xy(3) tx show "earlier x y" by (auto simp: earlier_def less_eq_prod_def)
  qed
  moreover have "\<exists>i \<in> set ins. same_entry i x" if "x \<in> set g" for x
    using that ok unfolding mem table_ok_def by blast
  moreover have "o_id i \<in> set acc \<or> o_id i \<in> o_id ` set g" if w: whole and x: "x \<in> set g" and i: "i \<in> set ins" and e: "earlier i x" for x i
  proof -
    from x have xr: "x \<in> set rows" "openRow x" "o_transaction x = t" "t \<in> set ids" "o_id x \<notin> L" by (simp_all add: mem)
    have it: "o_transaction i = t" using e xr(3) by (simp add: earlier_def)
    have "\<not> closed_group rows t" using xr by (auto simp: closed_group_def)
    with ok i it have "o_id i \<in> o_id ` set rows \<or> o_id i \<in> set acc" unfolding table_ok_def by blast
    moreover have "o_id i \<in> set acc \<or> o_id i \<in> o_id ` set g" if r: "r \<in> set rows" "o_id r = o_id i" for r
    proof (cases "openRow r")
      case True
      have rt: "o_transaction r = t" using table_entry [OF hist ok i r] it by (simp add: same_entry_def)
      with whole [OF w] r(1) xr True have "o_id r \<notin> L" unfolding whole_groups_def by metis
      with r rt xr(4) True have "r \<in> set g" by (simp add: mem)
      with r(2) show ?thesis by (metis image_eqI)
    next
      case False
      have rt: "o_transaction r = t" using table_entry [OF hist ok i r] it by (simp add: same_entry_def)
      with ok r(1) \<open>\<not> closed_group rows t\<close> have "o_dead_at r = None" unfolding table_ok_def by metis
      with False have "o_published_at r \<noteq> None" by (simp add: openRow_def)
      with ok r show ?thesis unfolding table_ok_def by metis
    qed
    ultimately show ?thesis by auto
  qed
  ultimately show ?thesis unfolding group_held_def by blast
qed


section \<open>Reachable states\<close>

definition outbox_ok :: "bool \<Rightarrow> outbox \<Rightarrow> bool" where
  "outbox_ok whole s \<longleftrightarrow> history_ok (inserted s) \<and> distinct (map o_id (table s))
     \<and> o_id ` set (table s) \<subseteq> o_id ` set (inserted s)
     \<and> table_ok (inserted s) (accepted s) (drained s) (table s)
     \<and> (\<forall>p. poller_ok whole (inserted s) (accepted s) (pollers s p))
     \<and> ordered whole (inserted s) (accepted s)
     \<and> set (accepted s) \<subseteq> o_id ` set (inserted s)"

lemma poller_ok_mono:
  assumes "poller_ok whole ins acc p" and "set acc \<subseteq> set acc'"
  shows "poller_ok whole ins acc' p"
  using assms by (fastforce simp: poller_ok_def group_held_def mark_ok_def split: poller.splits outbox_mark.splits)

lemma publishStep_ok:
  assumes run: "publishStep cfg oc gs marks sent = (gs', marks', sent', new)" and oc: "outcome_ok oc" and ne: "gs \<noteq> []"
    and ok: "poller_ok whole ins acc (Publishing gs marks)" and ord: "ordered whole ins acc" and hist: "history_ok ins"
    and sub: "set acc \<subseteq> o_id ` set ins"
  shows "poller_ok whole ins (acc @ new) (Publishing gs' marks') \<and> ordered whole ins (acc @ new) \<and> set (acc @ new) \<subseteq> o_id ` set ins"
proof (cases gs)
  case (Cons g rest)
  show ?thesis
  proof (cases g)
    case Nil
    with Cons run ok ord sub show ?thesis by (auto simp: poller_ok_def)
  next
    case (Cons e es)
    note gs = \<open>gs = g # rest\<close> Cons
    have held: "group_held whole ins acc (e # es)" and rest: "\<forall>g \<in> set rest. group_held whole ins acc g"
      and marks: "\<forall>m \<in> set marks. mark_ok acc m" using ok gs by (simp_all add: poller_ok_def)
    from held obtain i where i: "i \<in> set ins" "same_entry i e" by (auto simp: group_held_def)
    have before: "o_id j \<in> set acc" if w: whole and j: "j \<in> set ins" "earlier j i" for j
    proof -
      have je: "earlier j e" using j(2) i(2) earlier_cong [of j j i e] by simp
      with held j(1) w have "o_id j \<in> set acc \<or> o_id j \<in> o_id ` set (e # es)" by (simp add: group_held_def)
      moreover have "o_id j \<noteq> o_id x" if x: "x \<in> set (e # es)" for x
      proof
        assume id: "o_id j = o_id x"
        from held x obtain k where k: "k \<in> set ins" "same_entry k x" by (auto simp: group_held_def)
        then have "o_id k = o_id j" using id by (simp add: same_entry_def)
        from history_unique [OF hist k(1) j(1) this] have "k = j" .
        with k(2) je have "o_created_at x < o_created_at e" by (simp add: earlier_def same_entry_def)
        moreover have "x = e \<or> earlier e x" using held x w by (auto simp: group_held_def)
        ultimately show False by (auto simp: earlier_def)
      qed
      ultimately show ?thesis by auto
    qed
    have ord': "ordered whole ins (acc @ [o_id e])"
      unfolding ordered_def
    proof (intro impI ballI)
      fix a b assume w: whole and ab: "a \<in> set ins" "b \<in> set ins" "earlier a b \<and> o_id b \<in> set (acc @ [o_id e])"
      show "o_id a \<in> set (takeWhile (\<lambda>k. k \<noteq> o_id b) (acc @ [o_id e]))"
      proof (cases "o_id b \<in> set acc")
        case True
        with ab w ord have "o_id a \<in> set (takeWhile (\<lambda>k. k \<noteq> o_id b) acc)" unfolding ordered_def by blast
        with True show ?thesis by (simp add: takeWhile_append1 [of "o_id b"])
      next
        case False
        with ab(3) have "o_id b = o_id i" using i(2) by (simp add: same_entry_def)
        from history_unique [OF hist ab(2) i(1) this] have "b = i" .
        with before [OF w ab(1)] ab(3) have "o_id a \<in> set acc" by simp
        moreover have "takeWhile (\<lambda>k. k \<noteq> o_id b) (acc @ [o_id e]) = acc @ takeWhile (\<lambda>k. k \<noteq> o_id b) [o_id e]"
          using False by (intro takeWhile_append2) auto
        ultimately show ?thesis by simp
      qed
    qed
    have "o_id e = o_id i" using i(2) by (simp add: same_entry_def)
    then have sub': "set (acc @ [o_id e]) \<subseteq> o_id ` set ins" using sub i(1) by simp
    have new: "new = [] \<or> new = [o_id e]"
      using run gs by (auto simp: publishEntry_cases split: if_splits option.splits)
    have acc': "ordered whole ins (acc @ new) \<and> set (acc @ new) \<subseteq> o_id ` set ins" using new ord ord' sub sub' by auto
    have up: "group_held whole ins (acc @ new) g" if "group_held whole ins acc g" for g
      using that by (auto simp: group_held_def)
    have marks': "\<forall>m \<in> set marks. mark_ok (acc @ new) m" using marks by (auto simp: mark_ok_def split: outbox_mark.splits)
    show ?thesis
    proof (cases "o_retry_count e < maxRetries cfg \<and> snd oc = None")
      case True
      with oc run gs have r: "gs' = es # rest" "marks' = marks @ [markPublished (o_id e)]" "new = [o_id e]"
        by (auto simp: publishEntry_cases outcome_ok_def)
      have "group_held whole ins (acc @ new) es"
        using held r(3) by (auto simp: group_held_def)
      with r up rest marks' acc' show ?thesis by (simp add: poller_ok_def mark_ok_def)
    next
      case False
      with run gs have "gs' = rest \<and> (\<exists>m. marks' = marks @ [m] \<and> mark_ok (acc @ new) m)"
        by (auto simp: publishEntry_cases mark_ok_def split: if_splits option.splits)
      with up rest marks' acc' show ?thesis by (auto simp: poller_ok_def)
    qed
  qed
qed (use ne in simp)

end
