(* ===== verification/OutboxProperties.thy ===== *)
theory OutboxProperties
  imports OutboxSystem "HOL-Library.Sublist"
begin

text \<open>
  What the outbox guarantees with any number of concurrent pollers, crashes, lost
  acknowledgements and rolled back transactions, and where its comments promise more.
\<close>

section \<open>Every step keeps the invariant\<close>

lemma update_ids [simp]: "(\<And>r. o_id (f r) = o_id r) \<Longrightarrow> map o_id (update_rows p f rows) = map o_id rows"
  by (simp add: update_rows_def)

lemma mark_ids [simp]: "map o_id (applyMark now m rows) = map o_id rows"
  by (cases m) (simp_all add: applyMark_def markPublishedQuery_def markFailedQuery_def markTransactionDeadQuery_def)

lemma persist_ids [simp]: "map o_id (persistMarks now marks rows) = map o_id rows"
  unfolding persistMarks_def by (induction marks arbitrary: rows) simp_all

lemma claim_ids [simp]: "map o_id (claimEntries cfg now entries rows) = map o_id rows"
  by (simp add: claimEntries_def claimQuery_def)

lemma delete_ids: "distinct (map o_id rows) \<Longrightarrow> distinct (map o_id (deleteByIDsQuery ids rows))"
  by (simp add: deleteByIDsQuery_def distinct_map_filter)

lemma table_ok_claim:
  assumes "table_ok ins acc drn rows"
  shows "table_ok ins acc drn (claimEntries cfg now entries rows)"
proof -
  have "o_id r \<in> set acc" if "r \<in> set rows" "o_published_at r \<noteq> None" for r
    using assms that unfolding table_ok_def by blast
  with assms show ?thesis
    by (auto simp: claimEntries_def claimQuery_def same_entry_def openRow_def intro!: table_ok_update)
qed

lemma ids_set: "map o_id rows' = map o_id rows \<Longrightarrow> o_id ` set rows' = o_id ` set rows"
  by (metis list.set_map)

lemma publishDeadLetters_acked: "set (fst (publishDeadLetters cfg out rows sent)) \<subseteq> set rows"
proof (induction rows arbitrary: sent)
  case (Cons row rows)
  have IH: "set (fst (publishDeadLetters cfg out rows u)) \<subseteq> insert row (set rows)" for u
    using Cons.IH [of u] by blast
  have "set (fst (publishDeadLetters cfg out (row # rows) sent)) \<subseteq> insert row (set (fst (publishDeadLetters cfg out rows u)))"
    if "publishDeadLetters cfg out (row # rows) sent = (case publishDeadLetters cfg out rows u of (acked, v) \<Rightarrow> (row # acked, v))
      \<or> publishDeadLetters cfg out (row # rows) sent = publishDeadLetters cfg out rows u" for u
    using that by (auto split: prod.splits)
  moreover have "\<exists>u. publishDeadLetters cfg out (row # rows) sent = (case publishDeadLetters cfg out rows u of (acked, v) \<Rightarrow> (row # acked, v))
      \<or> publishDeadLetters cfg out (row # rows) sent = publishDeadLetters cfg out rows u"
    by (auto simp: PublishRaw_def split: option.splits)
  ultimately obtain u where
    "set (fst (publishDeadLetters cfg out (row # rows) sent)) \<subseteq> insert row (set (fst (publishDeadLetters cfg out rows u)))"
    by blast
  with IH [of u] show ?case by auto
qed simp

lemma table_ok_drain:
  assumes hist: "history_ok ins" and ok: "table_ok ins acc drn rows"
    and acked: "acked = fst (publishDeadLetters cfg out (selectDeadRowsQuery b locked rows) sent)"
    and drn': "set drn' = set drn \<union> o_id ` set acked" and ids: "distinct (map o_id rows)"
  shows "table_ok ins acc drn' (deleteByIDsQuery (map o_id acked) rows)"
proof (rule table_ok_delete [OF hist ok])
  fix r assume r: "r \<in> set rows" "o_id r \<in> set (map o_id acked)"
  then obtain a where a: "a \<in> set acked" "o_id a = o_id r" by auto
  from a(1) publishDeadLetters_acked have "a \<in> set (selectDeadRowsQuery b locked rows)" unfolding acked by blast
  then have "a \<in> set rows" "o_dead_at a \<noteq> None" by (auto simp: selectDeadRowsQuery_def dest!: in_set_takeD)
  moreover from this r(1) a(2) ids have "a = r" by (auto simp: distinct_map dest: inj_onD)
  ultimately have "closed_group rows (o_transaction r)" using ok unfolding table_ok_def by blast
  moreover have "o_id r \<in> set drn'" unfolding drn' using a by (metis UnI2 image_eqI)
  ultimately show "o_id r \<in> set acc \<or> (o_id r \<in> set drn' \<and> closed_group rows (o_transaction r))" by blast
qed (use drn' in blast)

lemma table_ok_prune:
  assumes hist: "history_ok ins" and ok: "table_ok ins acc drn rows" and ids: "distinct (map o_id rows)"
  shows "table_ok ins acc drn (deleteByIDsQuery (pruneBatchQuery cutoff b locked rows) rows)"
proof (rule table_ok_delete [OF hist ok])
  fix r assume r: "r \<in> set rows" "o_id r \<in> set (pruneBatchQuery cutoff b locked rows)"
  then obtain q where q: "q \<in> set rows" "o_id q = o_id r" "o_published_at q \<noteq> None"
    by (auto simp: pruneBatchQuery_def dest!: in_set_takeD split: option.splits)
  with r(1) ids have "q = r" by (auto simp: distinct_map dest: inj_onD)
  with q ok have "o_id r \<in> set acc" unfolding table_ok_def by blast
  then show "o_id r \<in> set acc \<or> (o_id r \<in> set drn \<and> closed_group rows (o_transaction r))" by blast
qed simp

lemma history_ok_insert:
  assumes "history_ok ins" and "\<forall>r \<in> set rows. o_transaction r = t" "distinct (map o_id rows)" "distinct (map o_created_at rows)"
    and "\<forall>r \<in> set rows. \<forall>i \<in> set ins. o_id r \<noteq> o_id i" "\<forall>i \<in> set ins. o_transaction i \<noteq> t"
  shows "history_ok (ins @ rows)"
proof -
  have "a = b" if "a \<in> set rows" "b \<in> set rows" "o_created_at a = o_created_at b" for a b
    using assms(4) that by (auto simp: distinct_map dest: inj_onD)
  moreover have "a = b" if "a \<in> set ins" "b \<in> set ins" "o_transaction a = o_transaction b" "o_created_at a = o_created_at b" for a b
    using assms(1) that unfolding history_ok_def by blast
  ultimately have "\<forall>a \<in> set (ins @ rows). \<forall>b \<in> set (ins @ rows).
      o_transaction a = o_transaction b \<and> o_created_at a = o_created_at b \<longrightarrow> a = b"
    using assms(2,6) by (metis Un_iff set_append)
  moreover have "o_id ` set ins \<inter> o_id ` set rows = {}" using assms(5) by force
  then have "distinct (map o_id (ins @ rows))"
    using assms(1,3) by (simp add: history_ok_def)
  ultimately show ?thesis unfolding history_ok_def by blast
qed

lemma poller_ok_insert:
  assumes "poller_ok whole ins acc p" and "\<forall>r \<in> set rows. o_transaction r = t" "\<forall>i \<in> set ins. o_transaction i \<noteq> t"
  shows "poller_ok whole (ins @ rows) acc p"
proof -
  have "group_held whole (ins @ rows) acc g" if "group_held whole ins acc g" for g
  proof -
    have "\<not> earlier i x" if i: "i \<in> set rows" and x: "x \<in> set g" for i x
    proof -
      from \<open>group_held whole ins acc g\<close> x obtain j where "j \<in> set ins" "same_entry j x" unfolding group_held_def by blast
      then have "o_transaction x \<noteq> t" using assms(3) unfolding same_entry_def by metis
      with assms(2) i show ?thesis by (auto simp: earlier_def)
    qed
    with that show ?thesis unfolding group_held_def by (metis Un_iff set_append)
  qed
  with assms(1) show ?thesis by (auto simp: poller_ok_def split: poller.splits)
qed

lemma ordered_insert:
  assumes "ordered whole ins acc" and "set acc \<subseteq> o_id ` set ins" and "\<forall>r \<in> set rows. o_transaction r = t"
    and "\<forall>r \<in> set rows. \<forall>i \<in> set ins. o_id r \<noteq> o_id i" "\<forall>i \<in> set ins. o_transaction i \<noteq> t"
  shows "ordered whole (ins @ rows) acc"
  unfolding ordered_def
proof (intro impI ballI)
  fix a b assume w: whole and ab: "a \<in> set (ins @ rows)" "b \<in> set (ins @ rows)" "earlier a b \<and> o_id b \<in> set acc"
  then have b: "b \<in> set ins" using assms(2,4) by auto
  moreover have "o_transaction a = o_transaction b" using ab(3) by (simp add: earlier_def)
  ultimately have "a \<in> set ins" using ab(1) assms(3,5) by (metis Un_iff set_append)
  with b ab(3) w assms(1) show "o_id a \<in> set (takeWhile (\<lambda>k. k \<noteq> o_id b) acc)" unfolding ordered_def by blast
qed

lemma outbox_step_ok:
  assumes "outbox_step cfg whole s s'" and ok: "outbox_ok whole s"
  shows "outbox_ok whole s'"
  using assms(1)
proof cases
  case (insert rows t)
  have "poller_ok whole (inserted s @ rows) (accepted s) (pollers s p)" for p
    using ok insert poller_ok_insert [of whole "inserted s" "accepted s" "pollers s p" rows t] unfolding outbox_ok_def by blast
  moreover have "table_ok (inserted s @ rows) (accepted s) (drained s) (table s @ rows)"
    using ok insert by (intro table_ok_insert [of _ _ _ _ _ t]) (auto simp: outbox_ok_def)
  moreover have "ordered whole (inserted s @ rows) (accepted s)"
    using ok insert by (intro ordered_insert [of _ _ _ _ t]) (auto simp: outbox_ok_def)
  moreover have "history_ok (inserted s @ rows)"
    using ok insert by (intro history_ok_insert [of _ _ t]) (auto simp: outbox_ok_def)
  moreover have "distinct (map o_id (table s @ rows))"
    using ok insert by (fastforce simp: outbox_ok_def)
  ultimately show ?thesis using ok insert(1) by (auto simp: outbox_ok_def)
next
  case (select p now)
  then show ?thesis using ok by (simp add: outbox_ok_def poller_ok_def)
next
  case (fetch p ids entries locked gs now)
  have "group_held whole (inserted s) (accepted s) g" if "g \<in> set gs" for g
  proof (rule fetched_group)
    show "g \<in> set (map snd (groupByTransaction (selectRowsQuery ids locked (table s))))"
      using that fetch(3,5) by (metis mset_eq_setD)
  qed (use ok fetch(4) in \<open>auto simp: outbox_ok_def\<close>)
  then have "poller_ok whole (inserted s) (accepted s) (Publishing gs [])" by (simp add: poller_ok_def)
  with ok fetch(1) show ?thesis
    by (simp add: outbox_ok_def table_ok_claim ids_set [OF claim_ids])
next
  case (publish p gs marks oc gs' marks' sent' new)
  have "poller_ok whole (inserted s) (accepted s) (Publishing gs marks)" using ok publish(2) by (metis outbox_ok_def)
  with publishStep_ok [OF publish(5,4,3)] ok
  have st: "poller_ok whole (inserted s) (accepted s @ new) (Publishing gs' marks')" "ordered whole (inserted s) (accepted s @ new)"
    "set (accepted s @ new) \<subseteq> o_id ` set (inserted s)" unfolding outbox_ok_def by blast+
  have "poller_ok whole (inserted s) (accepted s @ new) (pollers s q)" for q
    using ok poller_ok_mono [of whole "inserted s" "accepted s" "pollers s q" "accepted s @ new"] by (simp add: outbox_ok_def)
  moreover have "table_ok (inserted s) (accepted s @ new) (drained s) (table s)"
    using ok table_ok_mono [of "inserted s" "accepted s" "drained s" "table s" "accepted s @ new" "drained s"]
    by (simp add: outbox_ok_def)
  ultimately show ?thesis using ok st publish(1) by (simp add: outbox_ok_def)
next
  case (persist p marks now)
  have "poller_ok whole (inserted s) (accepted s) (Publishing [] marks)" using ok persist(2) by (metis outbox_ok_def)
  then have "\<forall>m \<in> set marks. mark_ok (accepted s) m" by (simp add: poller_ok_def)
  with ok persist(1) show ?thesis
    by (simp add: outbox_ok_def table_ok_persist ids_set [OF persist_ids] poller_ok_def)
next
  case (abort p)
  then show ?thesis using ok by (simp add: outbox_ok_def poller_ok_def)
next
  case (drain out locked commits table' sent')
  let ?acked = "fst (publishDeadLetters cfg out (selectDeadRowsQuery (batchSize cfg) locked (table s)) (broker s))"
  have t': "table' = (if commits then deleteByIDsQuery (map o_id ?acked) (table s) else table s)"
    using drain(3) by (auto simp: drainDeadLetters_def Let_def split: prod.splits)
  have "table_ok (inserted s) (accepted s) (drained s @ map o_id ?acked) (deleteByIDsQuery (map o_id ?acked) (table s))"
    using ok by (intro table_ok_drain [OF _ _ refl]) (auto simp: outbox_ok_def)
  moreover have "o_id ` set (deleteByIDsQuery ids (table s)) \<subseteq> o_id ` set (inserted s)" for ids
    using ok by (auto simp: deleteByIDsQuery_def outbox_ok_def)
  ultimately show ?thesis using ok by (cases commits) (simp_all add: drain(1) t' outbox_ok_def delete_ids)
next
  case (prune cutoff batch locked)
  have "o_id ` set (deleteByIDsQuery ids (table s)) \<subseteq> o_id ` set (inserted s)" for ids
    using ok by (auto simp: deleteByIDsQuery_def outbox_ok_def)
  with ok prune(1) show ?thesis by (simp add: outbox_ok_def delete_ids table_ok_prune)
qed


section \<open>What the broker has\<close>

definition dead_message_of :: "outbox_config \<Rightarrow> string \<Rightarrow> outbox_row \<Rightarrow> message" where
  "dead_message_of cfg topic r = \<lparr>m_topic = topic, m_payload = o_payload r, m_msgID = deadLetterMsgID cfg r\<rparr>"

text \<open>
  The accepted entries are a subsequence of the broker's messages, and every drained entry has
  its dead letter there.
\<close>

definition delivered :: "outbox_config \<Rightarrow> outbox_row list \<Rightarrow> message list \<Rightarrow> uuid list \<Rightarrow> bool" where
  "delivered cfg ins sent acc \<longleftrightarrow>
     (\<exists>rs. map o_id rs = acc \<and> set rs \<subseteq> set ins \<and> subseq (map (message_of cfg) rs) sent)"

definition dead_lettered :: "outbox_config \<Rightarrow> outbox_row list \<Rightarrow> message list \<Rightarrow> uuid list \<Rightarrow> bool" where
  "dead_lettered cfg ins sent drn \<longleftrightarrow>
     (\<forall>k \<in> set drn. \<exists>i \<in> set ins. o_id i = k \<and>
        (\<exists>topic. deadLetterTopic cfg (o_payload i) = Some topic \<and> dead_message_of cfg topic i \<in> set sent))"

definition broker_ok :: "outbox_config \<Rightarrow> outbox \<Rightarrow> bool" where
  "broker_ok cfg s \<longleftrightarrow> delivered cfg (inserted s) (broker s) (accepted s)
     \<and> dead_lettered cfg (inserted s) (broker s) (drained s)"

lemma message_of_same: "same_entry a b \<Longrightarrow> message_of cfg b = message_of cfg a"
  by (simp add: message_of_def buildMessageID_def same_entry_def)

lemma dead_message_of_same: "same_entry a b \<Longrightarrow> dead_message_of cfg topic b = dead_message_of cfg topic a"
  by (simp add: dead_message_of_def deadLetterMsgID_def buildMessageID_def same_entry_def)

lemma delivered_mono:
  assumes "delivered cfg ins sent acc" and "set ins \<subseteq> set ins'"
  shows "delivered cfg ins' (sent @ extra) acc"
proof -
  from assms(1) obtain rs where "map o_id rs = acc" "set rs \<subseteq> set ins" "subseq (map (message_of cfg) rs) sent"
    unfolding delivered_def by blast
  with assms(2) show ?thesis unfolding delivered_def by (intro exI [of _ rs]) auto
qed

lemma delivered_accept:
  assumes "delivered cfg ins sent acc" and "i \<in> set ins"
  shows "delivered cfg ins (sent @ [message_of cfg i]) (acc @ [o_id i])"
proof -
  from assms(1) obtain rs where "map o_id rs = acc" "set rs \<subseteq> set ins" "subseq (map (message_of cfg) rs) sent"
    unfolding delivered_def by blast
  with assms(2) show ?thesis
    unfolding delivered_def by (intro exI [of _ "rs @ [i]"]) (simp add: list_emb_append_mono)
qed

lemma dead_lettered_mono:
  "dead_lettered cfg ins sent drn \<Longrightarrow> set ins \<subseteq> set ins' \<Longrightarrow> set sent \<subseteq> set sent' \<Longrightarrow> dead_lettered cfg ins' sent' drn"
  unfolding dead_lettered_def by (meson subsetD)

lemma publishStep_sent:
  assumes "publishStep cfg oc gs marks sent = (gs', marks', sent', new)"
  shows "(new = [] \<and> sent' = sent) \<or> (\<exists>e es rest. gs = (e # es) # rest \<and> new = [o_id e] \<and> sent' = sent @ [message_of cfg e])"
  using assms
  by (cases "(cfg, oc, gs, marks, sent)" rule: publishStep.cases)
    (auto simp: publishEntry_cases split: if_splits option.splits)

lemma publishDeadLetters_sent:
  assumes "\<forall>r. outcome_ok (out r)" and "publishDeadLetters cfg out rows sent = (acked, sent')"
  shows "(\<exists>extra. sent' = sent @ extra) \<and> (\<forall>r \<in> set acked. r \<in> set rows \<and>
    (\<exists>topic. deadLetterTopic cfg (o_payload r) = Some topic \<and> dead_message_of cfg topic r \<in> set sent'))"
  using assms(2)
proof (induction rows arbitrary: sent acked sent')
  case (Cons row rows)
  show ?case
  proof (cases "deadLetterTopic cfg (o_payload row)")
    case None
    with Cons.prems Cons.IH [of sent acked sent'] show ?thesis by auto
  next
    case (Some topic)
    let ?m = "dead_message_of cfg topic row"
    let ?sent = "if fst (out row) then sent @ [?m] else sent"
    show ?thesis
    proof (cases "snd (out row)")
      case None
      with assms(1) have ok: "fst (out row)" by (auto simp: outcome_ok_def)
      with None Some Cons.prems obtain rest where
        rest: "publishDeadLetters cfg out rows ?sent = (rest, sent')" and acked: "acked = row # rest"
        by (auto simp: PublishRaw_def dead_message_of_def split: prod.splits)
      from Cons.IH [OF rest] ok Some acked show ?thesis by auto
    next
      case (Some err)
      with \<open>deadLetterTopic cfg (o_payload row) = Some topic\<close> Cons.prems
      have rest: "publishDeadLetters cfg out rows ?sent = (acked, sent')"
        by (auto simp: PublishRaw_def dead_message_of_def)
      from Cons.IH [OF rest] show ?thesis by (auto split: if_splits)
    qed
  qed
qed simp

lemma broker_step_ok:
  assumes "outbox_step cfg whole s s'" and ok: "outbox_ok whole s" and broker: "broker_ok cfg s"
  shows "broker_ok cfg s'"
  using assms(1)
proof cases
  case (insert rows t)
  with broker delivered_mono [of cfg "inserted s" "broker s" "accepted s" "inserted s @ rows" "[]"] show ?thesis
    by (auto simp: broker_ok_def elim: dead_lettered_mono)
next
  case (publish p gs marks oc gs' marks' sent' new)
  have held: "poller_ok whole (inserted s) (accepted s) (Publishing gs marks)" using ok publish(2) by (metis outbox_ok_def)
  from publishStep_sent [OF publish(5)] show ?thesis
  proof
    assume "new = [] \<and> sent' = broker s"
    with broker publish(1) show ?thesis by (simp add: broker_ok_def)
  next
    assume "\<exists>e es rest. gs = (e # es) # rest \<and> new = [o_id e] \<and> sent' = broker s @ [message_of cfg e]"
    then obtain e es rest where e: "gs = (e # es) # rest" "new = [o_id e]" "sent' = broker s @ [message_of cfg e]" by blast
    from held e(1) obtain i where i: "i \<in> set (inserted s)" "same_entry i e" by (auto simp: poller_ok_def group_held_def)
    then have same: "o_id e = o_id i" "message_of cfg e = message_of cfg i" 
      using message_of_same [OF i(2)] by (simp_all add: same_entry_def)
    have "delivered cfg (inserted s) sent' (accepted s @ new)"
      using broker delivered_accept [OF _ i(1)] by (simp add: broker_ok_def e(2,3) same)
    moreover have "dead_lettered cfg (inserted s) sent' (drained s)"
      using broker dead_lettered_mono [of cfg "inserted s" "broker s" "drained s" "inserted s" sent']
      by (auto simp: broker_ok_def e(3))
    ultimately show ?thesis by (simp add: broker_ok_def publish(1))
  qed
next
  case (drain out locked commits table' sent')
  let ?rows = "selectDeadRowsQuery (batchSize cfg) locked (table s)"
  obtain acked sent1 where run: "publishDeadLetters cfg out ?rows (broker s) = (acked, sent1)" by fastforce
  from drain(3) run have sent': "sent' = sent1" by (auto simp: drainDeadLetters_def Let_def)
  from publishDeadLetters_sent [OF drain(2) run] obtain extra where extra: "sent' = broker s @ extra"
    and acked: "\<forall>r \<in> set acked. r \<in> set ?rows \<and> (\<exists>topic. deadLetterTopic cfg (o_payload r) = Some topic
      \<and> dead_message_of cfg topic r \<in> set sent')" unfolding sent' by blast
  have "dead_lettered cfg (inserted s) sent' (map o_id acked)"
    unfolding dead_lettered_def
  proof
    fix k assume "k \<in> set (map o_id acked)"
    then obtain r where r: "r \<in> set acked" "o_id r = k" by auto
    then have "r \<in> set (table s)" using acked by (auto simp: selectDeadRowsQuery_def dest!: in_set_takeD)
    with ok obtain i where i: "i \<in> set (inserted s)" "same_entry i r" unfolding outbox_ok_def table_ok_def by blast
    then have "o_id i = k" "o_payload i = o_payload r" using r by (simp_all add: same_entry_def)
    moreover from acked r(1) obtain topic where
      "deadLetterTopic cfg (o_payload r) = Some topic" "dead_message_of cfg topic r \<in> set sent'" by blast
    ultimately show "\<exists>i \<in> set (inserted s). o_id i = k \<and> (\<exists>topic. deadLetterTopic cfg (o_payload i) = Some topic
        \<and> dead_message_of cfg topic i \<in> set sent')"
      using i(1) dead_message_of_same [OF i(2), of cfg topic] by auto
  qed
  moreover have "dead_lettered cfg (inserted s) sent' (drained s)"
    using broker extra by (auto simp: broker_ok_def elim: dead_lettered_mono)
  moreover have "delivered cfg (inserted s) sent' (accepted s)"
    using broker delivered_mono [of cfg "inserted s" "broker s" "accepted s" "inserted s" extra]
    by (simp add: broker_ok_def extra)
  ultimately show ?thesis
    using drain(1) run by (auto simp: broker_ok_def dead_lettered_def)
qed (use broker in \<open>simp_all add: broker_ok_def\<close>)

lemma reachable_ok:
  assumes "(outbox_step cfg whole)\<^sup>*\<^sup>* outbox_start s"
  shows "outbox_ok whole s \<and> broker_ok cfg s"
  using assms
proof (induction rule: rtranclp_induct)
  case base
  show ?case
    by (simp add: outbox_ok_def broker_ok_def outbox_start_def history_ok_def table_ok_def poller_ok_def ordered_def
        delivered_def dead_lettered_def)
next
  case (step s s')
  then show ?case by (blast intro: outbox_step_ok broker_step_ok)
qed


section \<open>Order and loss\<close>

text \<open>
  C8: when fetches find the groups unlocked or wholly locked, then whatever crashes, failures and
  lost acknowledgements happen: the entries the broker has accepted are, in that order, a
  subsequence of its messages, and an entry is accepted for the first time only after every
  entry of its transaction that was created before it.
\<close>

theorem accepted_in_order:
  assumes "(outbox_step cfg True)\<^sup>*\<^sup>* outbox_start s"
  shows "(\<exists>rs. map o_id rs = accepted s \<and> set rs \<subseteq> set (inserted s) \<and> subseq (map (message_of cfg) rs) (broker s))
    \<and> (\<forall>i \<in> set (inserted s). \<forall>j \<in> set (inserted s).
        o_transaction i = o_transaction j \<and> o_created_at i < o_created_at j \<and> o_id j \<in> set (accepted s) \<longrightarrow>
        o_id i \<in> set (takeWhile (\<lambda>k. k \<noteq> o_id j) (accepted s)))"
  using reachable_ok [OF assms]
  by (simp add: outbox_ok_def broker_ok_def delivered_def ordered_def earlier_def)

text \<open>
  C14: no event is lost, whatever is locked, fails or crashes: an inserted row is still in the
  table and not marked published, or the broker has its message, or it has its dead letter.
\<close>

theorem no_event_lost:
  assumes "(outbox_step cfg whole)\<^sup>*\<^sup>* outbox_start s" and "i \<in> set (inserted s)"
  shows "(\<exists>r \<in> set (table s). same_entry i r \<and> o_published_at r = None)
    \<or> message_of cfg i \<in> set (broker s)
    \<or> (\<exists>topic. deadLetterTopic cfg (o_payload i) = Some topic \<and> dead_message_of cfg topic i \<in> set (broker s))"
proof -
  have ok: "outbox_ok whole s" and broker: "broker_ok cfg s" using reachable_ok [OF assms(1)] by simp_all
  from ok have hist: "history_ok (inserted s)" and tab: "table_ok (inserted s) (accepted s) (drained s) (table s)"
    by (simp_all add: outbox_ok_def)
  have sent: "message_of cfg i \<in> set (broker s)" if k: "o_id i \<in> set (accepted s)"
  proof -
    from broker obtain rs where rs: "map o_id rs = accepted s" "set rs \<subseteq> set (inserted s)"
      "subseq (map (message_of cfg) rs) (broker s)" unfolding broker_ok_def delivered_def by blast
    from k rs(1) obtain r where r: "r \<in> set rs" "o_id r = o_id i" by (metis image_iff list.set_map)
    with rs(2) have "r \<in> set (inserted s)" by blast
    from history_unique [OF hist this assms(2) r(2)] r(1) have "i \<in> set rs" by simp
    then have "message_of cfg i \<in> set (map (message_of cfg) rs)" by simp
    from list_emb_set [OF rs(3) this] show ?thesis by blast
  qed
  have dead: "\<exists>topic. deadLetterTopic cfg (o_payload i) = Some topic \<and> dead_message_of cfg topic i \<in> set (broker s)"
    if k: "o_id i \<in> set (drained s)"
  proof -
    from broker k obtain j topic where j: "j \<in> set (inserted s)" "o_id j = o_id i"
      "deadLetterTopic cfg (o_payload j) = Some topic" "dead_message_of cfg topic j \<in> set (broker s)"
      unfolding broker_ok_def dead_lettered_def by blast
    from history_unique [OF hist j(1) assms(2) j(2)] j(3,4) show ?thesis by blast
  qed
  consider "o_id i \<in> o_id ` set (table s)" | "o_id i \<in> set (accepted s)" | "o_id i \<in> set (drained s)"
    using tab assms(2) unfolding table_ok_def by blast
  then show ?thesis
  proof cases
    case 1
    then obtain r where r: "r \<in> set (table s)" "o_id r = o_id i" by auto
    show ?thesis
    proof (cases "o_published_at r")
      case None
      with r table_entry [OF hist tab assms(2) r] show ?thesis by blast
    next
      case (Some t)
      with tab r have "o_id i \<in> set (accepted s)" unfolding table_ok_def by (metis option.distinct(1))
      with sent show ?thesis by blast
    qed
  qed (use sent dead in blast)+
qed

end
