(* ===== verification/OutboxDelivery.thy ===== *)
theory OutboxDelivery
  imports OutboxProperties
begin

text \<open>
  One poller on its own: the loops of its three phases are runs of the steps of OutboxSystem, the
  lease keeps a claimed group from being selected again, a round whose publishes succeed delivers
  every selected group, and the janitor deletes exactly the published rows that are old enough.
  Runs with two pollers show where the comments of the code promise more than it does.
\<close>

section \<open>The loops and their steps\<close>

text \<open>The steps of one poller with given outcomes.\<close>

inductive publish_one ::
  "outbox_config \<Rightarrow> (outbox_row \<Rightarrow> publish_outcome)
     \<Rightarrow> outbox_row list list \<times> outbox_mark list \<times> message list
     \<Rightarrow> outbox_row list list \<times> outbox_mark list \<times> message list \<Rightarrow> bool" for cfg out where
  "publishStep cfg (case g of [] \<Rightarrow> (True, None) | e # _ \<Rightarrow> out e) (g # gs) marks sent = (gs', marks', sent', new)
     \<Longrightarrow> publish_one cfg out (g # gs, marks, sent) (gs', marks', sent')"

lemma publishGroup_steps:
  "(publish_one cfg out)\<^sup>*\<^sup>* (es # gs, ms @ marks, sent)
     (case publishGroup cfg out es marks sent of (marks', sent') \<Rightarrow> (gs, ms @ marks', sent'))"
proof (induction cfg out es marks sent rule: publishGroup.induct)
  case (1 cfg out marks sent)
  have "publish_one cfg out ([] # gs, ms @ marks, sent) (gs, ms @ marks, sent)"
    by (rule publish_one.intros) simp
  then show ?case by auto
next
  case (2 cfg out e es marks sent)
  show ?case
  proof (cases "maxRetries cfg \<le> o_retry_count e \<or> snd (out e) \<noteq> None")
    case True
    have "publish_one cfg out ((e # es) # gs, ms @ marks, sent)
        (case publishGroup cfg out (e # es) marks sent of (marks', sent') \<Rightarrow> (gs, ms @ marks', sent'))"
      by (cases "publishGroup cfg out (e # es) marks sent", simp,
          rule publish_one.intros [where new = "if maxRetries cfg \<le> o_retry_count e \<or> \<not> fst (out e) then [] else [o_id e]"])
        (use True in \<open>auto simp: publishEntry_cases split: option.splits if_splits\<close>)
    then show ?thesis by (rule r_into_rtranclp)
  next
    case False
    then have pub: "publishEntry cfg (out e) e sent = (markPublished (o_id e), if fst (out e) then sent @ [message_of cfg e] else sent)"
      by (simp add: publishEntry_cases)
    have "publish_one cfg out ((e # es) # gs, ms @ marks, sent)
        (es # gs, ms @ marks @ [markPublished (o_id e)], if fst (out e) then sent @ [message_of cfg e] else sent)"
      by (rule publish_one.intros) (use False pub in auto)
    moreover from 2(1) [OF _ pub [symmetric] refl] False
    have "(publish_one cfg out)\<^sup>*\<^sup>*
        (es # gs, ms @ marks @ [markPublished (o_id e)], if fst (out e) then sent @ [message_of cfg e] else sent)
        (case publishGroup cfg out (e # es) marks sent of (marks', sent') \<Rightarrow> (gs, ms @ marks', sent'))"
      using pub by simp
    ultimately show ?thesis by (rule converse_rtranclp_into_rtranclp)
  qed
qed

text \<open>
  C23: the publish phase refines the concurrent model: from the fetched groups and no marks, its
  nested loops over groups and entries perform a run of the single publish steps that ends with
  nothing left to publish and exactly the marks and messages the loops return.
\<close>

theorem publish_refines:
  "(publish_one cfg out)\<^sup>*\<^sup>* (map snd groups, [], sent)
     (case publishEntries cfg out groups sent of (marks, sent') \<Rightarrow> ([], marks, sent'))"
proof -
  have "(publish_one cfg out)\<^sup>*\<^sup>* (map snd groups, marks, sent)
      (case fold (\<lambda>(_, entries) (marks, sent). case publishTransactionGroup cfg out entries sent of
           (ms, sent) \<Rightarrow> (marks @ ms, sent)) groups (marks, sent) of (marks, sent') \<Rightarrow> ([], marks, sent'))" for marks sent
  proof (induction groups arbitrary: marks sent)
    case (Cons g groups)
    obtain t es where g: "g = (t, es)" by fastforce
    obtain ms sent1 where r: "publishTransactionGroup cfg out es sent = (ms, sent1)" by fastforce
    have "(publish_one cfg out)\<^sup>*\<^sup>* (es # map snd groups, marks, sent) (map snd groups, marks @ ms, sent1)"
      using publishGroup_steps [of cfg out es "map snd groups" marks "[]" sent] r
      by (simp add: publishTransactionGroup_def)
    with Cons.IH [of "marks @ ms" sent1] show ?case by (auto simp: g r intro: rtranclp_trans)
  qed simp
  then show ?thesis by (simp add: publishEntries_def)
qed

section \<open>Which groups are selected\<close>

definition group_of :: "uuid \<Rightarrow> outbox_row list \<Rightarrow> outbox_row list" where
  "group_of t rows = filter (\<lambda>r. o_transaction r = t) (filter openRow rows)"

lemma selected_group:
  assumes "t \<in> set (selectTransactionIDsQuery b m now rows)"
  shows "group_of t rows \<noteq> []
    \<and> (list_ex (\<lambda>r. o_retry_count r \<ge> m) (group_of t rows) \<or> \<not> list_ex (heldBack m now) (group_of t rows))"
  using assms
  by (auto simp: selectTransactionIDsQuery_def Let_def group_of_def filter_empty_conv dest!: in_set_takeD)

lemma list_ex_map_eq: "list_ex P (map f xs) = list_ex (\<lambda>x. P (f x)) xs"
  by (induction xs) auto

lemma insort_key_map: "(\<And>x. k (f x) = k x) \<Longrightarrow> insort_key k (f x) (map f xs) = map f (insort_key k x xs)"
  by (induction xs) auto

lemma sort_key_map: "(\<And>x. k (f x) = k x) \<Longrightarrow> sort_key k (map f xs) = map f (sort_key k xs)"
  by (induction xs) (auto simp: insort_key_map)

lemma selectRowsQuery_map:
  assumes "\<And>r. same_entry r (f r)" and "\<And>r. openRow (f r) = openRow r"
  shows "selectRowsQuery ids L (map f rows) = map f (selectRowsQuery ids L rows)"
proof -
  have f: "o_id (f r) = o_id r" "o_transaction (f r) = o_transaction r" "o_created_at (f r) = o_created_at r" for r
    using assms(1) [of r] by (simp_all add: same_entry_def)
  show ?thesis
    by (simp add: selectRowsQuery_def filter_map o_def f assms(2) sort_key_map [where f = f])
qed

lemma group_of_mem: "r \<in> set (group_of t rows) \<longleftrightarrow> r \<in> set rows \<and> openRow r \<and> o_transaction r = t"
  by (auto simp: group_of_def)

lemma claimEntries_map:
  "claimEntries cfg now entries rows =
     map (\<lambda>r. if o_id r \<in> o_id ` set entries \<and> openRow r then r\<lparr>o_next_retry_at := Some (now + leaseOf cfg)\<rparr> else r) rows"
  by (simp add: claimEntries_def claimQuery_def update_rows_def)

lemma claimed_group:
  "group_of t (claimEntries cfg now entries rows) =
     map (\<lambda>r. if o_id r \<in> o_id ` set entries \<and> openRow r then r\<lparr>o_next_retry_at := Some (now + leaseOf cfg)\<rparr> else r)
       (group_of t rows)"
  by (simp add: claimEntries_map group_of_def filter_map o_def)
    (auto simp: openRow_def intro!: arg_cong [where f = "map _"] filter_cong)

text \<open>
  C19: until the lease of a claim runs out, no poller that starts selecting takes a group of the
  claimed rows unless one of its rows has no retries left; but a poller that had selected the
  group before still fetches the same rows: the second query does not look at the lease.
\<close>

theorem lease_respected:
  assumes "e \<in> set (selectRowsQuery ids L rows)"
    and "\<forall>r \<in> set rows. openRow r \<and> o_transaction r = o_transaction e \<longrightarrow> o_retry_count r < maxRetries cfg"
    and "now' < now + leaseOf cfg"
  shows "o_transaction e \<notin> set (selectTransactionIDsQuery b (maxRetries cfg) now'
      (claimEntries cfg now (selectRowsQuery ids L rows) rows))
    \<and> map o_id (selectRowsQuery ids L (claimEntries cfg now (selectRowsQuery ids L rows) rows))
      = map o_id (selectRowsQuery ids L rows)"
proof (intro conjI notI)
  let ?t = "o_transaction e" and ?E = "selectRowsQuery ids L rows"
  let ?f = "\<lambda>r. if o_id r \<in> o_id ` set ?E \<and> openRow r then r\<lparr>o_next_retry_at := Some (now + leaseOf cfg)\<rparr> else r"
  from assms(1) have e: "e \<in> set rows" "openRow e" by (auto simp: selectRowsQuery_def)
  assume "?t \<in> set (selectTransactionIDsQuery b (maxRetries cfg) now' (claimEntries cfg now ?E rows))"
  from selected_group [OF this, unfolded claimed_group list_ex_map_eq]
  have "list_ex (\<lambda>r. maxRetries cfg \<le> o_retry_count (?f r)) (group_of ?t rows)
      \<or> \<not> list_ex (\<lambda>r. heldBack (maxRetries cfg) now' (?f r)) (group_of ?t rows)"
    by blast
  moreover have "\<not> list_ex (\<lambda>r. maxRetries cfg \<le> o_retry_count (?f r)) (group_of ?t rows)"
    using assms(2) by (auto simp: list_ex_iff group_of_mem not_le)
  moreover have "heldBack (maxRetries cfg) now' (?f e)"
    using assms e by (auto simp: heldBack_def)
  then have "list_ex (\<lambda>r. heldBack (maxRetries cfg) now' (?f r)) (group_of ?t rows)"
    using e unfolding list_ex_iff by (metis group_of_mem)
  ultimately show False by blast
next
  let ?E = "selectRowsQuery ids L rows"
  let ?f = "\<lambda>r. if o_id r \<in> o_id ` set ?E \<and> openRow r then r\<lparr>o_next_retry_at := Some (now + leaseOf cfg)\<rparr> else r"
  have "selectRowsQuery ids L (claimEntries cfg now ?E rows) = map ?f ?E"
    unfolding claimEntries_map by (rule selectRowsQuery_map) (auto simp: same_entry_def openRow_def)
  then show "map o_id (selectRowsQuery ids L (claimEntries cfg now ?E rows)) = map o_id ?E"
    by simp
qed


section \<open>A round that succeeds\<close>

lemma publishGroup_acc:
  "publishGroup cfg out es marks sent =
     (marks @ fst (publishGroup cfg out es [] []), sent @ snd (publishGroup cfg out es [] []))"
proof (induction es arbitrary: marks sent)
  case (Cons e es)
  show ?case
  proof (cases "maxRetries cfg \<le> o_retry_count e \<or> snd (out e) \<noteq> None")
    case True
    then show ?thesis by (auto simp: publishEntry_cases split: option.splits)
  next
    case False
    let ?m = "markPublished (o_id e)" and ?u = "if fst (out e) then [message_of cfg e] else []"
    have step: "publishGroup cfg out (e # es) ms us = publishGroup cfg out es (ms @ [?m]) (us @ ?u)" for ms us
      using False by (auto simp: publishEntry_cases)
    show ?thesis
      unfolding step Cons.IH [of "marks @ [?m]"] Cons.IH [of "[] @ [?m]"] by simp
  qed
qed simp

lemma publishEntries_acc:
  "publishEntries cfg out groups sent =
     (concat (map (\<lambda>g. fst (publishGroup cfg out (snd g) [] [])) groups),
      sent @ concat (map (\<lambda>g. snd (publishGroup cfg out (snd g) [] [])) groups))"
proof -
  have "fold (\<lambda>(_, entries) (marks, sent). case publishTransactionGroup cfg out entries sent of
           (ms, sent) \<Rightarrow> (marks @ ms, sent)) groups (marks, sent) =
      (marks @ concat (map (\<lambda>g. fst (publishGroup cfg out (snd g) [] [])) groups),
       sent @ concat (map (\<lambda>g. snd (publishGroup cfg out (snd g) [] [])) groups))" for marks sent
  proof (induction groups arbitrary: marks sent)
    case (Cons g groups)
    obtain t es where g: "g = (t, es)" by fastforce
    have "publishTransactionGroup cfg out es sent =
        (fst (publishGroup cfg out es [] []), sent @ snd (publishGroup cfg out es [] []))"
      unfolding publishTransactionGroup_def by (subst publishGroup_acc) simp
    then show ?case by (simp add: g Cons.IH)
  qed simp
  from this [of "[]"] show ?thesis by (simp add: publishEntries_def)
qed

lemma publishGroup_all:
  assumes "\<forall>e \<in> set es. out e = (True, None) \<and> o_retry_count e < maxRetries cfg"
  shows "publishGroup cfg out es marks sent = (marks @ map (\<lambda>e. markPublished (o_id e)) es, sent @ map (message_of cfg) es)"
  using assms by (induction es arbitrary: marks sent) (auto simp: publishEntry_cases)

lemma sort_key_same_order:
  assumes "\<forall>x \<in> set xs. \<forall>y \<in> set xs. (f x \<le> f y) = (g x \<le> g y)"
  shows "sort_key f xs = sort_key g xs"
proof -
  have ins: "insort_key f x ys = insort_key g x ys" if "\<forall>y \<in> set ys. (f x \<le> f y) = (g x \<le> g y)" for x ys
    using that by (induction ys) auto
  show ?thesis using assms by (induction xs) (auto simp: ins)
qed

lemma selected_rows_of_group:
  assumes "t \<in> set ids"
  shows "filter (\<lambda>r. o_transaction r = t) (selectRowsQuery ids {} rows) = sort_key o_created_at (group_of t rows)"
proof -
  have "filter (\<lambda>r. o_transaction r = t) (selectRowsQuery ids {} rows)
      = sort_key (\<lambda>r. (o_transaction r, o_created_at r)) (group_of t rows)"
    using assms unfolding selectRowsQuery_def filter_sort group_of_def
    by (auto intro!: arg_cong [where f = "sort_key _"] filter_cong)
  also have "\<dots> = sort_key o_created_at (group_of t rows)"
    by (rule sort_key_same_order) (auto simp: group_of_mem less_eq_prod_def)
  finally show ?thesis .
qed

lemma groupByTransaction_get:
  "e \<in> set es \<Longrightarrow> (o_transaction e, filter (\<lambda>r. o_transaction r = o_transaction e) es) \<in> set (groupByTransaction es)"
proof -
  assume "e \<in> set es"
  then have "gget (groupByTransaction es) (o_transaction e) = Some (filter (\<lambda>r. o_transaction r = o_transaction e) es)"
    unfolding groupByTransaction_def groupByTransaction_fold by (auto simp: filter_empty_conv ggetd_def gget_def)
  then show ?thesis by (auto simp: gget_def dest: map_of_SomeD)
qed

lemma update_rows_mem: "r \<in> set rows \<Longrightarrow> (if p r then f r else r) \<in> set (update_rows p f rows)"
  by (auto simp: update_rows_def)

lemma applyMark_row:
  assumes "r \<in> set rows"
  shows "\<exists>r' \<in> set (applyMark now m rows). same_entry r r'
    \<and> (m = markPublished (o_id r) \<or> o_published_at r = Some now \<longrightarrow> o_published_at r' = Some now)"
  by (cases m; simp add: applyMark_def markPublishedQuery_def markFailedQuery_def markTransactionDeadQuery_def;
      rule bexI [OF _ update_rows_mem [OF assms]]; simp add: same_entry_def)

lemma persist_published:
  assumes "r \<in> set rows" and "markPublished (o_id r) \<in> set marks \<or> o_published_at r = Some now"
  shows "\<exists>r' \<in> set (persistMarks now marks rows). same_entry r r' \<and> o_published_at r' = Some now"
  using assms
proof (induction marks arbitrary: rows r)
  case Nil
  then show ?case by (intro bexI [of _ r]) (simp_all add: persistMarks_def)
next
  case (Cons m marks)
  from applyMark_row [OF Cons.prems(1), of now m] obtain r1 where r1: "r1 \<in> set (applyMark now m rows)" "same_entry r r1"
    "m = markPublished (o_id r) \<or> o_published_at r = Some now \<longrightarrow> o_published_at r1 = Some now" by blast
  have "markPublished (o_id r1) \<in> set marks \<or> o_published_at r1 = Some now"
    using Cons.prems(2) r1(2,3) by (auto simp: same_entry_def)
  from Cons.IH [OF r1(1) this] r1(2) show ?case by (auto simp: persistMarks_def same_entry_def)
qed

text \<open>
  C30: a group the poller selects, none of whose rows has run out of retries and whose publishes
  succeed, is delivered by that round: the broker gets its messages one after the other in the
  order of creation, and every one of its rows is marked published, whatever becomes of the
  other groups of the batch.
\<close>

theorem selected_group_delivered:
  assumes sel: "t \<in> set (selectTransactionIDsQuery (batchSize cfg) (maxRetries cfg) now rows)"
    and good: "\<forall>r \<in> set rows. openRow r \<and> o_transaction r = t \<longrightarrow> out r = (True, None) \<and> o_retry_count r < maxRetries cfg"
    and run: "processOutbox cfg out now now' (rows, sent) = (rows', sent')"
  shows "(\<exists>xs ys. sent' = xs @ map (message_of cfg) (sort_key o_created_at (group_of t rows)) @ ys)
    \<and> (\<forall>r \<in> set rows. openRow r \<and> o_transaction r = t \<longrightarrow>
        (\<exists>r' \<in> set rows'. same_entry r r' \<and> o_published_at r' = Some now'))"
proof -
  let ?E = "selectRowsQuery (selectTransactionIDsQuery (batchSize cfg) (maxRetries cfg) now rows) {} rows"
  let ?g = "sort_key o_created_at (group_of t rows)"
  let ?gs = "groupByTransaction ?E"
  from selected_group [OF sel] obtain e where e: "e \<in> set (group_of t rows)" by (cases "group_of t rows") auto
  then have eE: "e \<in> set ?E" "o_transaction e = t" using sel by (auto simp: group_of_mem selectRowsQuery_def)
  have g: "(t, ?g) \<in> set ?gs"
    using groupByTransaction_get [OF eE(1)] unfolding eE(2) selected_rows_of_group [OF sel] .
  have ne: "?E \<noteq> []" using eE(1) by auto
  have pub: "publishGroup cfg out ?g [] [] = (map (\<lambda>e. markPublished (o_id e)) ?g, map (message_of cfg) ?g)"
    using good by (subst publishGroup_all) (auto simp: group_of_mem)
  let ?marks = "concat (map (\<lambda>g. fst (publishGroup cfg out (snd g) [] [])) ?gs)"
  from run ne have sent': "sent' = sent @ concat (map (\<lambda>g. snd (publishGroup cfg out (snd g) [] [])) ?gs)"
    and rows': "rows' = persistMarks now' ?marks (claimEntries cfg now ?E rows)"
    by (auto simp: processOutbox_def fetchPendingEntries_def publishEntries_acc Let_def)
  obtain as bs where split: "?gs = as @ (t, ?g) # bs" using g by (meson split_list)
  have "\<exists>xs ys. sent' = xs @ map (message_of cfg) ?g @ ys"
    unfolding sent' split by (auto simp: pub) (metis append.assoc)
  moreover have "\<exists>r' \<in> set rows'. same_entry r r' \<and> o_published_at r' = Some now'"
    if r: "r \<in> set rows" "openRow r \<and> o_transaction r = t" for r
  proof -
    let ?r = "if o_id r \<in> o_id ` set ?E \<and> openRow r then r\<lparr>o_next_retry_at := Some (now + leaseOf cfg)\<rparr> else r"
    have same: "same_entry r ?r" by (simp add: same_entry_def)
    have "?r \<in> set (claimEntries cfg now ?E rows)" using r(1) unfolding claimEntries_map by auto
    moreover have "markPublished (o_id ?r) \<in> set ?marks"
      using r pub unfolding split by (auto simp: group_of_mem)
    ultimately have "\<exists>r' \<in> set rows'. same_entry ?r r' \<and> o_published_at r' = Some now'"
      unfolding rows' by (blast intro: persist_published)
    with same show ?thesis unfolding same_entry_def by metis
  qed
  ultimately show ?thesis by blast
qed


section \<open>The janitor\<close>

definition old_row :: "time \<Rightarrow> outbox_row \<Rightarrow> bool" where
  "old_row cutoff r \<longleftrightarrow> (case o_published_at r of None \<Rightarrow> False | Some t \<Rightarrow> t < cutoff)"

lemma filter_not_taken:
  assumes "distinct (map f xs)"
  shows "filter (\<lambda>x. f x \<notin> set (take n (map f xs))) xs = drop n xs"
proof -
  let ?P = "\<lambda>x. f x \<notin> set (take n (map f xs))"
  have "set (take n (map f xs)) \<inter> set (drop n (map f xs)) = {}" using assms by (rule set_take_disj_set_drop_if_distinct) simp
  then have "\<forall>x \<in> set (drop n xs). ?P x" by (auto simp: take_map drop_map)
  moreover have "\<forall>x \<in> set (take n xs). \<not> ?P x" by (auto simp: take_map)
  ultimately have "filter ?P (take n xs @ drop n xs) = drop n xs" by (simp only: filter_append) simp
  then show ?thesis by simp
qed

lemma prune_batch:
  fixes rows cutoff batch locked
  defines "rows' \<equiv> deleteByIDsQuery (pruneBatchQuery cutoff batch locked rows) rows"
    and "P \<equiv> \<lambda>r. old_row cutoff r \<and> o_id r \<notin> locked"
  assumes ids: "distinct (map o_id rows)"
  shows "filter P rows' = drop batch (filter P rows)"
    and "filter (\<lambda>r. \<not> P r) rows' = filter (\<lambda>r. \<not> P r) rows"
    and "length rows - length rows' = min batch (length (filter P rows))"
    and "distinct (map o_id rows')"
proof -
  let ?olds = "filter P rows"
  have victims: "pruneBatchQuery cutoff batch locked rows = take batch (map o_id ?olds)"
    by (simp add: pruneBatchQuery_def P_def old_row_def)
  have distinct: "distinct (map o_id ?olds)" using ids by (simp add: distinct_map_filter)
  show olds: "filter P rows' = drop batch ?olds"
    unfolding rows'_def victims deleteByIDsQuery_def
    using filter_not_taken [OF distinct, of batch] by (simp add: conj_commute)
  show others: "filter (\<lambda>r. \<not> P r) rows' = filter (\<lambda>r. \<not> P r) rows"
    unfolding rows'_def victims deleteByIDsQuery_def filter_filter
  proof (rule filter_cong [OF refl])
    fix r assume r: "r \<in> set rows"
    have "P r" if "o_id r \<in> set (take batch (map o_id ?olds))"
      using that r ids by (auto simp: distinct_map dest!: in_set_takeD dest: inj_onD)
    then show "(o_id r \<notin> set (take batch (map o_id ?olds)) \<and> \<not> P r) = (\<not> P r)" by blast
  qed
  have "length xs = length (filter P xs) + length (filter (\<lambda>r. \<not> P r) xs)" for xs
    by (induction xs) auto
  from this [of rows] this [of rows'] show "length rows - length rows' = min batch (length ?olds)"
    by (simp add: olds others)
  show "distinct (map o_id rows')" unfolding rows'_def by (rule delete_ids [OF ids])
qed

text \<open>What a batch leaves: rows that are not old, and if it comes back short, no old row that is not locked.\<close>

lemma prune_batch_rows:
  fixes rows cutoff batch locked
  defines "rows' \<equiv> deleteByIDsQuery (pruneBatchQuery cutoff batch locked rows) rows"
  assumes ids: "distinct (map o_id rows)"
  shows "r \<in> set rows \<Longrightarrow> \<not> old_row cutoff r \<Longrightarrow> r \<in> set rows'"
    and "length rows - length rows' < batch \<Longrightarrow> r \<in> set rows' \<Longrightarrow> old_row cutoff r \<Longrightarrow> o_id r \<in> locked"
    and "length rows' \<le> length rows"
    and "length (filter (old_row cutoff) rows') + (length rows - length rows') = length (filter (old_row cutoff) rows)"
proof -
  note batch = prune_batch [OF ids, where cutoff = cutoff and batch = batch and locked = locked, folded rows'_def]
  let ?P = "\<lambda>r. old_row cutoff r \<and> o_id r \<notin> locked"
  show "r \<in> set rows'" if "r \<in> set rows" "\<not> old_row cutoff r"
  proof -
    have "r \<in> set (filter (\<lambda>r. \<not> ?P r) rows)" using that by simp
    then show ?thesis unfolding batch(2) [symmetric] by simp
  qed
  show "o_id r \<in> locked" if "length rows - length rows' < batch" "r \<in> set rows'" "old_row cutoff r"
  proof (rule ccontr)
    assume "o_id r \<notin> locked"
    with that have "r \<in> set (filter ?P rows')" by simp
    moreover have "filter ?P rows' = []" using that(1) batch(1,3) by simp
    ultimately show False by simp
  qed
  show len: "length rows' \<le> length rows" by (simp add: rows'_def deleteByIDsQuery_def)
  have keep: "filter (\<lambda>r. \<not> old_row cutoff r) rows' = filter (\<lambda>r. \<not> old_row cutoff r) rows"
  proof -
    have "filter (\<lambda>r. \<not> old_row cutoff r) xs = filter (\<lambda>r. \<not> old_row cutoff r) (filter (\<lambda>r. \<not> ?P r) xs)" for xs
      unfolding filter_filter by (rule filter_cong) auto
    with batch(2) show ?thesis by metis
  qed
  have "length xs = length (filter (old_row cutoff) xs) + length (filter (\<lambda>r. \<not> old_row cutoff r) xs)" for xs
    by (induction xs) auto
  from this [of rows] this [of rows'] keep len
  show "length (filter (old_row cutoff) rows') + (length rows - length rows') = length (filter (old_row cutoff) rows)" by simp
qed

text \<open>What the other users of the table may do while a sweep runs: identifiers stay unique and no row turns old.\<close>

definition no_older :: "time \<Rightarrow> (nat \<Rightarrow> outbox_row list \<Rightarrow> outbox_row list) \<Rightarrow> bool" where
  "no_older cutoff meanwhile \<longleftrightarrow> (\<forall>k rows. distinct (map o_id rows) \<longrightarrow> distinct (map o_id (meanwhile k rows))
     \<and> length (filter (old_row cutoff) (meanwhile k rows)) \<le> length (filter (old_row cutoff) rows))"

lemma Sweep_ends:
  assumes "0 < batch" and quiet: "no_older cutoff meanwhile" and "distinct (map o_id rows)"
  shows "\<exists>n err rows' j. Sweep meanwhile locked fails unread k cutoff batch rows pruned = Some ((pruned + n, err), rows')
    \<and> n \<le> length (filter (old_row cutoff) rows)
    \<and> (\<forall>r \<in> set rows. \<not> old_row cutoff r \<and> (\<forall>k rs. r \<in> set rs \<longrightarrow> r \<in> set (meanwhile k rs)) \<longrightarrow> r \<in> set rows')
    \<and> (case err of None \<Rightarrow> \<forall>r \<in> set rows'. old_row cutoff r \<longrightarrow> o_id r \<in> locked j
        | Some e \<Rightarrow> fails j = Some e \<or> unread j = Some e)
    \<and> ((\<forall>k rs. meanwhile k rs = rs) \<and> (\<forall>k. unread k = None)
        \<longrightarrow> length rows' \<le> length rows \<and> n = length rows - length rows')" (is "\<exists>n err rows' j. ?Q rows k pruned n err rows' j")
  using assms(3)
proof (induction "length (filter (old_row cutoff) rows)" arbitrary: rows k pruned rule: less_induct)
  case less
  let ?rows = "meanwhile k rows"
  let ?rows' = "deleteByIDsQuery (pruneBatchQuery cutoff batch (locked k) ?rows) ?rows"
  let ?n = "length ?rows - length ?rows'"
  note run = Sweep.simps [of meanwhile locked fails unread k cutoff batch rows pruned]
  from quiet less.prems have mid: "distinct (map o_id ?rows)"
    "length (filter (old_row cutoff) ?rows) \<le> length (filter (old_row cutoff) rows)" by (simp_all add: no_older_def)
  note batch = prune_batch_rows [OF mid(1), where cutoff = cutoff and batch = batch and locked = "locked k"]
  have few: "?n \<le> length (filter (old_row cutoff) rows)" using batch(4) mid(2) by linarith
  have alone: "length ?rows' \<le> length rows \<and> ?n = length rows - length ?rows'" if "\<forall>k rs. meanwhile k rs = rs"
    using batch(3) that by simp
  show ?case
  proof (cases "fails k")
    case (Some e)
    then have "?Q rows k pruned 0 (Some e) rows k" by (simp add: run)
    then show ?thesis by blast
  next
    case None
    show ?thesis
    proof (cases "unread k")
      case (Some e)
      with None batch(1) have "?Q rows k pruned 0 (Some e) ?rows' k" by (simp add: run Let_def) (metis option.distinct(1))
      then show ?thesis by blast
    next
      case read: None
      show ?thesis
      proof (cases "?n < batch")
        case True
        then have "?Q rows k pruned ?n None ?rows' k"
          using None read batch(1,2) few alone by (auto simp: run Let_def)
        then show ?thesis by blast
      next
        case False
        then have smaller: "length (filter (old_row cutoff) ?rows') < length (filter (old_row cutoff) rows)"
          using batch(4) mid(2) assms(1) by linarith
        have "distinct (map o_id ?rows')" by (rule prune_batch(4) [OF mid(1)])
        from less.hyps [OF smaller this, of "Suc k" "pruned + ?n"] obtain n err rows' j
          where rest: "?Q ?rows' (Suc k) (pruned + ?n) n err rows' j" by blast
        have "Sweep meanwhile locked fails unread k cutoff batch rows pruned = Some ((pruned + (?n + n), err), rows')"
          using rest None read False by (subst run) (simp add: Let_def add.assoc)
        moreover have "?n + n \<le> length (filter (old_row cutoff) rows)" using rest batch(4) mid(2) by linarith
        moreover have "\<forall>r \<in> set rows. \<not> old_row cutoff r \<and> (\<forall>k rs. r \<in> set rs \<longrightarrow> r \<in> set (meanwhile k rs)) \<longrightarrow> r \<in> set rows'"
          using rest batch(1) by blast
        moreover have "length rows' \<le> length rows \<and> ?n + n = length rows - length rows'"
          if "\<forall>k rs. meanwhile k rs = rs" "\<forall>k. unread k = None"
        proof -
          have "length rows' \<le> length ?rows' \<and> n = length ?rows' - length rows'" using rest that by blast
          with alone [OF that(1)] show ?thesis by linarith
        qed
        ultimately have "?Q rows k pruned (?n + n) err rows' j" using rest by blast
        then show ?thesis by blast
      qed
    qed
  qed
qed

text \<open>
  C35: a sweep of the janitor ends, whatever rows other users of the table lock, insert, mark or delete
  between its batches, as long as no row turns older than the cutoff meanwhile. It deletes no row that is
  not a published one older than the cutoff, and at most as many as there are. Without an error the last
  batch left such a row only if it was locked then; an error is one that occurred. Undisturbed, it reports how many
  rows it has deleted.
\<close>

theorem sweep_prunes:
  assumes "0 < batch" and "no_older cutoff meanwhile" and "distinct (map o_id rows)"
  shows "\<exists>n err rows' j. Sweep meanwhile locked fails unread 0 cutoff batch rows 0 = Some ((n, err), rows')
    \<and> n \<le> length (filter (old_row cutoff) rows)
    \<and> (\<forall>r \<in> set rows. \<not> old_row cutoff r \<and> (\<forall>k rs. r \<in> set rs \<longrightarrow> r \<in> set (meanwhile k rs)) \<longrightarrow> r \<in> set rows')
    \<and> (case err of None \<Rightarrow> \<forall>r \<in> set rows'. old_row cutoff r \<longrightarrow> o_id r \<in> locked j
        | Some e \<Rightarrow> fails j = Some e \<or> unread j = Some e)
    \<and> ((\<forall>k rs. meanwhile k rs = rs) \<and> (\<forall>k. unread k = None)
        \<longrightarrow> length rows' \<le> length rows \<and> n = length rows - length rows')"
  using Sweep_ends [OF assms, of locked fails unread 0 0] by simp

end
