(* ===== verification/OutboxExamples.thy ===== *)
theory OutboxExamples
  imports OutboxDelivery
begin

text \<open>
  Concrete runs of the outbox: the witnesses of the properties of OutboxProperties and
  OutboxDelivery, and the runs in which the service does something other than its comments say.
\<close>

section \<open>How long an entry is retried\<close>

text \<open>The entry fails \<open>n\<close> times, each time at the end of the backoff the failure before it has set.\<close>

fun retried :: "uuid \<Rightarrow> nat \<Rightarrow> time \<Rightarrow> outbox_row list \<Rightarrow> time \<times> outbox_row list" where
  "retried i 0 t rows = (t, rows)"
| "retried i (Suc n) t rows =
     (let rows' = markFailedQuery i ''timeout'' t rows in
      case rows' of
        [] \<Rightarrow> (t, rows')
      | r # _ \<Rightarrow> retried i n (case o_next_retry_at r of None \<Rightarrow> t | Some u \<Rightarrow> u) rows')"

text \<open>
  With the default of 15 retries an entry is given up 11295 s, a little over three hours, after
  its first failure: the wait of an hour that the fifteenth failure sets is never waited for,
  because a group with an exhausted row is selected at once.
\<close>

theorem dead_letter_span:
  assumes "openRow r" and "o_retry_count r = 0" and "retried (o_id r) 14 t [r] = (u, rows)"
  shows "u = t + 11295 * second"
    and "selectTransactionIDsQuery 1 15 u (markFailedQuery (o_id r) ''timeout'' u rows) = [o_transaction r]"
proof -
  have step: "retried i (Suc n) t [r] = retried i n (t + backoff (o_retry_count r))
      [r\<lparr>o_retry_count := Suc (o_retry_count r), o_last_error := Some ''timeout'',
         o_next_retry_at := Some (t + backoff (o_retry_count r))\<rparr>]" if "o_id r = i" for i n t and r :: outbox_row
    using that by (simp add: markFailedQuery_def update_rows_def Let_def)
  have fourteen: "(14::nat) = Suc (Suc (Suc (Suc (Suc (Suc (Suc (Suc (Suc (Suc (Suc (Suc (Suc (Suc 0)))))))))))))" by simp
  have "retried (o_id r) 14 t [r] = (t + 11295 * second,
      [r\<lparr>o_retry_count := 14, o_last_error := Some ''timeout'', o_next_retry_at := Some (t + 11295 * second)\<rparr>])"
    using assms(2) by (subst fourteen) (simp add: step backoff_def second_def del: retried.simps(2))
  with assms(3) have u: "u = t + 11295 * second" and rows: "rows =
      [r\<lparr>o_retry_count := 14, o_last_error := Some ''timeout'', o_next_retry_at := Some (t + 11295 * second)\<rparr>]"
    by auto
  show "u = t + 11295 * second" by (rule u)
  show "selectTransactionIDsQuery 1 15 u (markFailedQuery (o_id r) ''timeout'' u rows) = [o_transaction r]"
    using assms(1)
    by (simp add: rows markFailedQuery_def update_rows_def selectTransactionIDsQuery_def openRow_def)
qed

section \<open>Two pollers\<close>

definition boxCfg :: outbox_config where
  "boxCfg = \<lparr>serviceName = ''inventory'', batchSize = 10, maxRetries = 15, claimLease = 0,
     uuidString = (\<lambda>i. decimal (nat i)), deadLetterTopic = (\<lambda>_. Some ''dlq'')\<rparr>"

definition boxRow :: "uuid \<Rightarrow> time \<Rightarrow> outbox_row" where
  "boxRow i at = \<lparr>o_id = i, o_transaction = 7, o_created_at = at, o_topic = ''create'', o_payload = [nat i],
     o_entityType = None, o_retry_count = 0, o_next_retry_at = None, o_last_error = None,
     o_published_at = None, o_dead_at = None\<rparr>"

definition boxPollers :: "poller \<Rightarrow> poller \<Rightarrow> nat \<Rightarrow> poller" where
  "boxPollers p q k = (if k = 0 then p else if k = 1 then q else Idle)"

lemma boxPollers_simps [simp]:
  "boxPollers p q 0 = p" "boxPollers p q (Suc 0) = q" "(boxPollers p q)(0 := p') = boxPollers p' q"
  "(boxPollers p q)(Suc 0 := q') = boxPollers p q'"
  by (auto simp: boxPollers_def)

lemma boxPollers_idle: "boxPollers Idle Idle = (\<lambda>_. Idle)"
  by (auto simp: boxPollers_def)

definition boxState :: "outbox_row list \<Rightarrow> poller \<Rightarrow> poller \<Rightarrow> uuid list \<Rightarrow> message list \<Rightarrow> outbox" where
  "boxState rows p q acc ms = \<lparr>table = rows, broker = ms, pollers = boxPollers p q,
     inserted = [boxRow 1 10, boxRow 2 20], accepted = acc, drained = []\<rparr>"

abbreviation boxRows :: "outbox_row list" where
  "boxRows \<equiv> [boxRow 1 10, boxRow 2 20]"

definition boxLeased :: "outbox_row \<Rightarrow> outbox_row" where
  "boxLeased r = r\<lparr>o_next_retry_at := Some (100 + 30 * second)\<rparr>"

lemma boxSelected: "selectTransactionIDsQuery 10 15 100 boxRows = [7]"
  by code_simp

lemma box_insert: "outbox_step boxCfg whole outbox_start (boxState boxRows Idle Idle [] [])"
  using outbox_step.insert [where rows = boxRows and t = 7 and s = outbox_start and cfg = boxCfg and whole = whole]
  by (simp add: outbox_start_def boxState_def boxRow_def openRow_def boxPollers_idle)

lemma box_select:
  "outbox_step boxCfg whole (boxState boxRows Idle q acc ms) (boxState boxRows (Selected [7]) q acc ms)"
  "outbox_step boxCfg whole (boxState boxRows p Idle acc ms) (boxState boxRows p (Selected [7]) acc ms)"
  using outbox_step.select [where s = "boxState boxRows Idle q acc ms" and p = 0 and cfg = boxCfg and whole = whole and now = 100]
    outbox_step.select [where s = "boxState boxRows p Idle acc ms" and p = 1 and cfg = boxCfg and whole = whole and now = 100]
  by (simp_all add: boxState_def boxCfg_def boxSelected)


lemma box_fetch:
  "selectRowsQuery [7] {} boxRows = boxRows" "selectRowsQuery [7] {} (map boxLeased boxRows) = map boxLeased boxRows"
  "selectRowsQuery [7] {1} boxRows = [boxRow 2 20]" "selectRowsQuery [7] {2} boxRows = [boxRow 1 10]"
  "map snd (groupByTransaction boxRows) = [boxRows]"
  "map snd (groupByTransaction (map boxLeased boxRows)) = [map boxLeased boxRows]"
  "map snd (groupByTransaction [boxRow 2 20]) = [[boxRow 2 20]]"
  "claimEntries boxCfg 100 boxRows boxRows = map boxLeased boxRows"
  "claimEntries boxCfg 100 (map boxLeased boxRows) (map boxLeased boxRows) = map boxLeased boxRows"
  by code_simp+

lemma box_fetch_first:
  "outbox_step boxCfg whole (boxState boxRows (Selected [7]) q acc ms)
     (boxState (map boxLeased boxRows) (Publishing [boxRows] []) q acc ms)"
  using outbox_step.fetch [where s = "boxState boxRows (Selected [7]) q acc ms" and p = 0 and cfg = boxCfg
      and whole = whole and now = 100 and locked = "{}" and ids = "[7]", OF _ refl _ refl]
  by (simp add: boxState_def box_fetch whole_groups_def del: list.map)

lemma box_fetch_second:
  "outbox_step boxCfg whole (boxState (map boxLeased boxRows) p (Selected [7]) acc ms)
     (boxState (map boxLeased boxRows) p (Publishing [map boxLeased boxRows] []) acc ms)"
  using outbox_step.fetch [where s = "boxState (map boxLeased boxRows) p (Selected [7]) acc ms" and p = 1 and cfg = boxCfg
      and whole = whole and now = 100 and locked = "{}" and ids = "[7]", OF _ refl _ refl]
  by (simp add: boxState_def box_fetch whole_groups_def del: list.map)

lemma box_fetch_split:
  "outbox_step boxCfg False (boxState boxRows (Selected [7]) q acc ms)
     (boxState [boxRow 1 10, boxLeased (boxRow 2 20)] (Publishing [[boxRow 2 20]] []) q acc ms)"
proof -
  have "claimEntries boxCfg 100 [boxRow 2 20] boxRows = [boxRow 1 10, boxLeased (boxRow 2 20)]" by code_simp
  then show ?thesis
    using outbox_step.fetch [where s = "boxState boxRows (Selected [7]) q acc ms" and p = 0 and cfg = boxCfg
        and whole = False and now = 100 and locked = "{1}" and ids = "[7]", OF _ refl _ refl]
    by (simp add: boxState_def box_fetch del: list.map)
qed

text \<open>In these runs the broker holds the messages of the accepted entries and nothing else.\<close>

abbreviation boxAccepted :: "outbox_row list \<Rightarrow> poller \<Rightarrow> poller \<Rightarrow> uuid list \<Rightarrow> outbox" where
  "boxAccepted rows p q acc \<equiv> boxState rows p q acc (map (\<lambda>i. message_of boxCfg (boxRow i (10 * i))) acc)"

lemma box_publish:
  assumes "r = boxRow i (10 * i) \<or> r = boxLeased (boxRow i (10 * i))"
  shows "outbox_step boxCfg whole (boxAccepted rows (Publishing ((r # es) # gs) marks) q acc)
      (boxAccepted rows (Publishing (es # gs) (marks @ [markPublished i])) q (acc @ [i]))" (is ?first)
    and "outbox_step boxCfg whole (boxAccepted rows p (Publishing ((r # es) # gs) marks) acc)
      (boxAccepted rows p (Publishing (es # gs) (marks @ [markPublished i])) (acc @ [i]))" (is ?second)
proof -
  have run: "publishStep boxCfg (True, None) ((r # es) # gs) marks ms =
      (es # gs, marks @ [markPublished i], ms @ [message_of boxCfg (boxRow i (10 * i))], [i])" for ms
    using assms by (auto simp: publishEntry_cases boxRow_def boxLeased_def boxCfg_def message_of_def buildMessageID_def)
  let ?s = "boxAccepted rows (Publishing ((r # es) # gs) marks) q acc"
  show ?first
    using outbox_step.publish [where s = ?s and p = 0 and oc = "(True, None)" and cfg = boxCfg and whole = whole] run
    by (simp add: boxState_def outcome_ok_def)
  let ?s = "boxAccepted rows p (Publishing ((r # es) # gs) marks) acc"
  show ?second
    using outbox_step.publish [where s = ?s and p = 1 and oc = "(True, None)" and cfg = boxCfg and whole = whole] run
    by (simp add: boxState_def outcome_ok_def)
qed

lemma box_selected:
  "(outbox_step boxCfg whole)\<^sup>*\<^sup>* outbox_start (boxState boxRows (Selected [7]) (Selected [7]) [] [])"
  using box_insert box_select by (meson rtranclp.intros)

text \<open>
  Both pollers select the group before either has claimed it; the second fetch ignores the lease
  of the first, and both publish the rows.
\<close>

definition boxRace :: outbox where
  "boxRace = boxAccepted (map boxLeased boxRows) (Publishing [[]] [markPublished 1, markPublished 2])
     (Publishing [[]] [markPublished 1, markPublished 2]) [1, 1, 2, 2]"

theorem lease_race: "(outbox_step boxCfg whole)\<^sup>*\<^sup>* outbox_start boxRace"
proof -
  let ?L = "map boxLeased boxRows"
  note [trans] = rtranclp.rtrancl_into_rtrancl [where r = "outbox_step boxCfg whole"]
  note box_selected
  also have "outbox_step boxCfg whole (boxState boxRows (Selected [7]) (Selected [7]) [] [])
      (boxState ?L (Publishing [boxRows] []) (Selected [7]) [] [])" by (rule box_fetch_first)
  also have "outbox_step boxCfg whole \<dots> (boxAccepted ?L (Publishing [boxRows] []) (Publishing [?L] []) [])"
    using box_fetch_second [of whole "Publishing [boxRows] []" "[]" "[]"] by simp
  also have "outbox_step boxCfg whole \<dots>
      (boxAccepted ?L (Publishing [[boxRow 2 20]] [markPublished 1]) (Publishing [?L] []) [1])"
    using box_publish(1) [where i = 1 and r = "boxRow 1 10" and acc = "[]" and marks = "[]" and gs = "[]" and es = "[boxRow 2 20]"] by simp
  also have "outbox_step boxCfg whole \<dots>
      (boxAccepted ?L (Publishing [[boxRow 2 20]] [markPublished 1]) (Publishing [[boxLeased (boxRow 2 20)]] [markPublished 1]) [1, 1])"
    using box_publish(2) [where i = 1 and r = "boxLeased (boxRow 1 10)" and acc = "[1]" and marks = "[]" and gs = "[]"
        and es = "[boxLeased (boxRow 2 20)]"] by simp
  also have "outbox_step boxCfg whole \<dots>
      (boxAccepted ?L (Publishing [[]] [markPublished 1, markPublished 2]) (Publishing [[boxLeased (boxRow 2 20)]] [markPublished 1]) [1, 1, 2])"
    using box_publish(1) [where i = 2 and r = "boxRow 2 20" and acc = "[1, 1]" and marks = "[markPublished 1]" and gs = "[]" and es = "[]"]
    by simp
  also have "outbox_step boxCfg whole \<dots> boxRace"
    using box_publish(2) [where i = 2 and r = "boxLeased (boxRow 2 20)" and acc = "[1, 1, 2]" and marks = "[markPublished 1]"
        and gs = "[]" and es = "[]"] unfolding boxRace_def by simp
  finally show ?thesis .
qed

text \<open>
  A poller that finds the first row of a group locked by another one publishes the second row
  before the first.
\<close>

theorem split_group_reorders:
  "\<exists>s. (outbox_step boxCfg False)\<^sup>*\<^sup>* outbox_start s \<and> inserted s = boxRows \<and> accepted s = [2]
    \<and> broker s = [message_of boxCfg (boxRow 2 20)] \<and> earlier (boxRow 1 10) (boxRow 2 20)"
proof -
  note [trans] = rtranclp.rtrancl_into_rtrancl [where r = "outbox_step boxCfg False"]
  let ?rows = "[boxRow 1 10, boxLeased (boxRow 2 20)]"
  note box_selected
  also have "outbox_step boxCfg False (boxState boxRows (Selected [7]) (Selected [7]) [] [])
      (boxAccepted ?rows (Publishing [[boxRow 2 20]] []) (Selected [7]) [])" using box_fetch_split by simp
  also have "outbox_step boxCfg False \<dots> (boxAccepted ?rows (Publishing [[]] [markPublished 2]) (Selected [7]) [2])"
    using box_publish(1) [where i = 2 and r = "boxRow 2 20" and acc = "[]" and marks = "[]" and gs = "[]" and es = "[]"] by simp
  finally show ?thesis
    by (rule exI [where x = "boxAccepted ?rows (Publishing [[]] [markPublished 2]) (Selected [7]) [2]", OF conjI])
      (simp add: boxState_def earlier_def boxRow_def)
qed

section \<open>The properties at concrete inputs\<close>


lemma accepted_in_order_witness:
  "(outbox_step boxCfg True)\<^sup>*\<^sup>* outbox_start boxRace \<and> accepted boxRace = [1, 1, 2, 2]
    \<and> o_id (boxRow 1 10) \<in> set (takeWhile (\<lambda>k. k \<noteq> o_id (boxRow 2 20)) (accepted boxRace))"
proof (intro conjI)
  have rows: "boxRow 1 10 \<in> set (inserted boxRace)" "boxRow 2 20 \<in> set (inserted boxRace)" "accepted boxRace = [1, 1, 2, 2]"
    by (simp_all add: boxRace_def boxState_def)
  have "o_transaction (boxRow 1 10) = o_transaction (boxRow 2 20) \<and> o_created_at (boxRow 1 10) < o_created_at (boxRow 2 20)
      \<and> o_id (boxRow 2 20) \<in> set (accepted boxRace)" unfolding rows(3) by (simp add: boxRow_def)
  then show "o_id (boxRow 1 10) \<in> set (takeWhile (\<lambda>k. k \<noteq> o_id (boxRow 2 20)) (accepted boxRace))"
    using accepted_in_order [OF lease_race] rows(1,2) by blast
  show "accepted boxRace = [1, 1, 2, 2]" by (rule rows(3))
qed (rule lease_race)

lemma no_event_lost_witness:
  "(outbox_step boxCfg False)\<^sup>*\<^sup>* outbox_start boxRace \<and> boxRow 2 20 \<in> set (inserted boxRace)
    \<and> ((\<exists>r \<in> set (table boxRace). same_entry (boxRow 2 20) r \<and> o_published_at r = None)
       \<or> message_of boxCfg (boxRow 2 20) \<in> set (broker boxRace)
       \<or> (\<exists>topic. deadLetterTopic boxCfg (o_payload (boxRow 2 20)) = Some topic
            \<and> dead_message_of boxCfg topic (boxRow 2 20) \<in> set (broker boxRace)))"
proof -
  have i: "boxRow 2 20 \<in> set (inserted boxRace)" by (simp add: boxRace_def boxState_def)
  from lease_race i no_event_lost [OF lease_race i] show ?thesis by blast
qed

lemma lease_respected_witness:
  "selectTransactionIDsQuery 10 15 100 boxRows = [7]
    \<and> 7 \<notin> set (selectTransactionIDsQuery 10 15 200 (claimEntries boxCfg 100 (selectRowsQuery [7] {} boxRows) boxRows))"
proof
  have "o_transaction (boxRow 1 10) = 7" "maxRetries boxCfg = 15" by (simp_all add: boxRow_def boxCfg_def)
  moreover have "boxRow 1 10 \<in> set (selectRowsQuery [7] {} boxRows)" unfolding box_fetch by simp
  moreover have "\<forall>r \<in> set boxRows. openRow r \<and> o_transaction r = o_transaction (boxRow 1 10) \<longrightarrow> o_retry_count r < maxRetries boxCfg"
    by (simp add: boxRow_def boxCfg_def)
  moreover have "200 < 100 + leaseOf boxCfg" by (simp add: leaseOf_def boxCfg_def defaultClaimLease_def second_def)
  ultimately show "7 \<notin> set (selectTransactionIDsQuery 10 15 200 (claimEntries boxCfg 100 (selectRowsQuery [7] {} boxRows) boxRows))"
    using lease_respected [of "boxRow 1 10" "[7]" "{}" boxRows boxCfg 200 100 10] by simp
qed (rule boxSelected)

lemma selected_group_delivered_witness:
  "\<exists>rows' xs ys. processOutbox boxCfg (\<lambda>_. (True, None)) 100 101 (boxRows, [])
      = (rows', xs @ map (message_of boxCfg) (sort_key o_created_at (group_of 7 boxRows)) @ ys)
    \<and> (\<exists>r' \<in> set rows'. same_entry (boxRow 2 20) r' \<and> o_published_at r' = Some 101)"
proof -
  obtain rows' sent' where run: "processOutbox boxCfg (\<lambda>_. (True, None)) 100 101 (boxRows, []) = (rows', sent')" by fastforce
  have sel: "7 \<in> set (selectTransactionIDsQuery (batchSize boxCfg) (maxRetries boxCfg) 100 boxRows)"
    using boxSelected by (simp add: boxCfg_def)
  have good: "\<forall>r \<in> set boxRows. openRow r \<and> o_transaction r = 7 \<longrightarrow>
      (True, None) = (True, None :: string option) \<and> o_retry_count r < maxRetries boxCfg"
    by (simp add: boxRow_def boxCfg_def)
  have "boxRow 2 20 \<in> set boxRows \<and> openRow (boxRow 2 20) \<and> o_transaction (boxRow 2 20) = 7"
    by (simp add: boxRow_def openRow_def)
  with selected_group_delivered [OF sel good run] run show ?thesis by blast
qed

definition boxPublished :: "outbox_row list" where
  "boxPublished = [(boxRow 1 10)\<lparr>o_published_at := Some 5\<rparr>, boxRow 2 20, (boxRow 3 30)\<lparr>o_published_at := Some 50\<rparr>,
     (boxRow 4 40)\<lparr>o_published_at := Some 6\<rparr>]"

text \<open>Row 4 is locked by another replica; row 2 is not published and row 3 is too young.\<close>

lemma sweep_prunes_witness:
  "\<exists>n err rows'. Sweep (\<lambda>_ rows. rows) (\<lambda>_. {4}) (\<lambda>_. None) (\<lambda>_. None) 0 40 1 boxPublished 0 = Some ((n, err), rows')
    \<and> err = None \<and> n = length boxPublished - length rows' \<and> boxRow 2 20 \<in> set rows'
    \<and> (\<forall>r \<in> set rows'. old_row 40 r \<longrightarrow> o_id r = 4)"
proof -
  have d: "distinct (map o_id boxPublished)" by (simp add: boxPublished_def boxRow_def)
  have q: "no_older 40 (\<lambda>_ rows. rows)" by (simp add: no_older_def)
  from sweep_prunes [OF _ q d, of 1 "\<lambda>_. {4}" "\<lambda>_. None" "\<lambda>_. None"] obtain n err rows' where
    run: "Sweep (\<lambda>_ rows. rows) (\<lambda>_. {4}) (\<lambda>_. None) (\<lambda>_. None) 0 40 1 boxPublished 0 = Some ((n, err), rows')"
    and n: "n = length boxPublished - length rows'"
    and kept: "\<forall>r \<in> set boxPublished. \<not> old_row 40 r \<longrightarrow> r \<in> set rows'"
    and rest: "case err of None \<Rightarrow> \<forall>r \<in> set rows'. old_row 40 r \<longrightarrow> o_id r \<in> {4} | Some e \<Rightarrow> None = Some e \<or> None = Some e"
    by auto
  have "boxRow 2 20 \<in> set boxPublished" "\<not> old_row 40 (boxRow 2 20)" by (simp_all add: boxPublished_def boxRow_def old_row_def)
  with kept have "boxRow 2 20 \<in> set rows'" by blast
  with run n rest show ?thesis by (cases err) auto
qed

end
