(* ===== verification/Topic.thy ===== *)
theory Topic
  imports Prelude
begin

text \<open>
  common/events/topic: the subjects events are published and subscribed under, their printing,
  parsing and matching. A string is the list of its runes; of the standard library's Unicode
  tables only what lies beyond ASCII is an argument, and so are \<open>uuid.UUID.String\<close> and
  \<open>uuid.Parse\<close>. A Go interface value holds a topic struct or a pointer to one.
\<close>

section \<open>Strings\<close>

type_synonym gostring = "nat list"

definition runes :: "string \<Rightarrow> gostring" where
  "runes s = map of_char s"

record text_lib =
  tx_lower :: "nat \<Rightarrow> nat"
  tx_space :: "nat \<Rightarrow> bool"
  tx_string :: "uuid \<Rightarrow> gostring"
  tx_parse :: "gostring \<Rightarrow> uuid option"

definition rune_ToLower :: "text_lib \<Rightarrow> nat \<Rightarrow> nat" where
  "rune_ToLower lib r = (if r < 128 then if 65 \<le> r \<and> r \<le> 90 then r + 32 else r else tx_lower lib r)"

definition rune_IsSpace :: "text_lib \<Rightarrow> nat \<Rightarrow> bool" where
  "rune_IsSpace lib r = (if r < 128 then (9 \<le> r \<and> r \<le> 13) \<or> r = 32 else tx_space lib r)"

definition strings_ToLower :: "text_lib \<Rightarrow> gostring \<Rightarrow> gostring" where
  "strings_ToLower lib s = map (rune_ToLower lib) s"

definition strings_TrimSpace :: "text_lib \<Rightarrow> gostring \<Rightarrow> gostring" where
  "strings_TrimSpace lib s =
     rev (dropWhile (rune_IsSpace lib) (rev (dropWhile (rune_IsSpace lib) s)))"

fun strings_Join :: "gostring list \<Rightarrow> gostring \<Rightarrow> gostring" where
  "strings_Join [] sep = []"
| "strings_Join [p] sep = p"
| "strings_Join (p # ps) sep = p @ sep @ strings_Join ps sep"

section \<open>Tokens\<close>

definition escapeTopicToken :: "text_lib \<Rightarrow> gostring \<Rightarrow> gostring" where
  "escapeTopicToken lib token =
     map (\<lambda>r. if (97 \<le> r \<and> r \<le> 122) \<or> (48 \<le> r \<and> r \<le> 57) then r else 45)
       (strings_ToLower lib (strings_TrimSpace lib token))"

definition unescapeTopicToken :: "gostring \<Rightarrow> gostring" where
  "unescapeTopicToken token = token"

text \<open>The two dynamic types the tokens have.\<close>

datatype token = TokenUUID uuid | TokenString gostring

fun formatTopicPart :: "text_lib \<Rightarrow> token \<Rightarrow> gostring" where
  "formatTopicPart lib (TokenUUID v) =
     (if v = uuid_Nil then [42] else strings_ToLower lib (tx_string lib v))"
| "formatTopicPart lib (TokenString v) =
     (if v = [] then [42] else escapeTopicToken lib (strings_ToLower lib v))"

definition formatTopic :: "text_lib \<Rightarrow> token list \<Rightarrow> gostring" where
  "formatTopic lib tokens = strings_Join (map (formatTopicPart lib) tokens) [46]"

definition NormalizeToken :: "text_lib \<Rightarrow> gostring \<Rightarrow> gostring" where
  "NormalizeToken lib s = formatTopicPart lib (TokenString s)"

definition lit :: "string \<Rightarrow> token" where
  "lit s = TokenString (runes s)"

definition DefaultStreamName :: gostring where
  "DefaultStreamName = runes ''pyck''"

definition getStreamName :: "gostring \<Rightarrow> gostring" where
  "getStreamName streamName = (if streamName = [] then DefaultStreamName else streamName)"

definition parseUUIDOrWildcard :: "text_lib \<Rightarrow> gostring \<Rightarrow> uuid option" where
  "parseUUIDOrWildcard lib s = (if s = [42] then Some uuid_Nil else tx_parse lib s)"

datatype topic_error = ErrInvalidTopic | ErrUnknownTopicType | ErrInvalidUUID | ErrAmbiguousTopic

text \<open>A subject that may be subscribed to.\<close>

fun subscriptionTokens :: "bool \<Rightarrow> gostring list \<Rightarrow> bool" where
  "subscriptionTokens saw [] = True"
| "subscriptionTokens saw (tok # tokens) =
     (if tok = [] \<or> saw \<or> (\<exists>r \<in> set tok. r \<in> {32, 9, 10, 13, 12}) then False
      else if tok = [62] then (if tokens \<noteq> [] then False else subscriptionTokens True tokens)
      else if tok = [42] then subscriptionTokens saw tokens
      else if 42 \<in> set tok \<or> 62 \<in> set tok then False
      else subscriptionTokens saw tokens)"

definition IsValidSubscriptionSubject :: "gostring \<Rightarrow> bool" where
  "IsValidSubscriptionSubject subject \<longleftrightarrow>
     subject \<noteq> [] \<and> 0 \<notin> set subject \<and> subscriptionTokens False (strings_Split 46 subject)"

section \<open>The topic structs\<close>

record custom_event_topic =
  ce_StreamName :: gostring

record tenant_custom_event_topic =
  tc_StreamName :: gostring
  tc_TenantID :: uuid
  tc_EventType :: gostring
  tc_EntityID :: uuid
  tc_OperationName :: gostring

record mutation_event_topic =
  me_StreamName :: gostring
  me_TenantID :: uuid
  me_ServiceName :: gostring
  me_SchemaName :: gostring
  me_EntityID :: uuid
  me_OperationName :: gostring

record mutation_event_with_reply_topic =
  mr_StreamName :: gostring
  mr_TenantID :: uuid
  mr_ServiceName :: gostring
  mr_SchemaName :: gostring
  mr_EntityID :: uuid
  mr_OperationName :: gostring

record dead_letter_event_topic =
  dl_StreamName :: gostring
  dl_TenantID :: uuid
  dl_ServiceName :: gostring
  dl_SchemaName :: gostring
  dl_EntityID :: uuid
  dl_OperationName :: gostring

record update_event_topic =
  ue_StreamName :: gostring
  ue_TenantID :: uuid
  ue_ServiceName :: gostring
  ue_SchemaName :: gostring
  ue_EntityID :: uuid
  ue_OperationName :: gostring
  ue_AttributeName :: gostring

record workflow_event_topic =
  we_StreamName :: gostring
  we_TenantID :: uuid
  we_WorkflowID :: uuid
  we_WorkflowName :: gostring

record temporal_state_change_topic =
  ts_StreamName :: gostring
  ts_Namespace :: gostring
  ts_TaskQueue :: gostring
  ts_WorkflowTypeName :: gostring
  ts_WorkflowID :: gostring
  ts_RunID :: gostring
  ts_Status :: gostring

datatype topic =
    CustomEventTopic custom_event_topic
  | TenantCustomEventTopic tenant_custom_event_topic
  | MutationEventTopic mutation_event_topic
  | MutationEventWithReplyTopic mutation_event_with_reply_topic
  | DeadLetterEventTopic dead_letter_event_topic
  | UpdateEventTopic update_event_topic
  | WorkflowEventTopic workflow_event_topic
  | TemporalWorkflowStateChangeTopic temporal_state_change_topic

text \<open>A value of the interface \<open>Topic\<close>: the struct or a pointer to it.\<close>

datatype topic_value = TopicStruct topic | TopicPointer topic

primrec topic_of :: "topic_value \<Rightarrow> topic" where
  "topic_of (TopicStruct t) = t"
| "topic_of (TopicPointer t) = t"

section \<open>Printing\<close>

definition CustomEventTopic_String :: "text_lib \<Rightarrow> custom_event_topic \<Rightarrow> gostring" where
  "CustomEventTopic_String lib t = formatTopic lib
    [TokenString (getStreamName (ce_StreamName t)), lit ''custom-events'']"

definition TenantCustomEventTopic_String :: "text_lib \<Rightarrow> tenant_custom_event_topic \<Rightarrow> gostring" where
  "TenantCustomEventTopic_String lib t = formatTopic lib
    [TokenString (getStreamName (tc_StreamName t)), TokenUUID (tc_TenantID t), lit ''custom'',
     TokenString (tc_EventType t), TokenUUID (tc_EntityID t), TokenString (tc_OperationName t)]"

definition MutationEventTopic_String :: "text_lib \<Rightarrow> mutation_event_topic \<Rightarrow> gostring" where
  "MutationEventTopic_String lib t = formatTopic lib
    [TokenString (getStreamName (me_StreamName t)), TokenUUID (me_TenantID t), lit ''crud'',
     TokenString (me_ServiceName t), TokenString (me_SchemaName t), TokenUUID (me_EntityID t),
     TokenString (me_OperationName t)]"

definition MutationEventWithReplyTopic_String :: "text_lib \<Rightarrow> mutation_event_with_reply_topic \<Rightarrow> gostring" where
  "MutationEventWithReplyTopic_String lib t = formatTopic lib
    [lit ''request'', lit ''reply'', TokenString (getStreamName (mr_StreamName t)),
     TokenUUID (mr_TenantID t), lit ''crud'', TokenString (mr_ServiceName t),
     TokenString (mr_SchemaName t), TokenUUID (mr_EntityID t), TokenString (mr_OperationName t)]"

definition DeadLetterEventTopic_String :: "text_lib \<Rightarrow> dead_letter_event_topic \<Rightarrow> gostring" where
  "DeadLetterEventTopic_String lib t = formatTopic lib
    [TokenString (getStreamName (dl_StreamName t)), TokenUUID (dl_TenantID t), lit ''dlq'',
     TokenString (dl_ServiceName t), TokenString (dl_SchemaName t), TokenUUID (dl_EntityID t),
     TokenString (dl_OperationName t)]"

definition UpdateEventTopic_String :: "text_lib \<Rightarrow> update_event_topic \<Rightarrow> gostring" where
  "UpdateEventTopic_String lib t = formatTopic lib
    [TokenString (getStreamName (ue_StreamName t)), TokenUUID (ue_TenantID t), lit ''crud'',
     TokenString (ue_ServiceName t), TokenString (ue_SchemaName t), TokenUUID (ue_EntityID t),
     TokenString (ue_OperationName t), TokenString (ue_AttributeName t)]"

definition WorkflowEventTopic_String :: "text_lib \<Rightarrow> workflow_event_topic \<Rightarrow> gostring" where
  "WorkflowEventTopic_String lib t = formatTopic lib
    [TokenString (getStreamName (we_StreamName t)), TokenUUID (we_TenantID t), lit ''workflows'',
     TokenUUID (we_WorkflowID t), TokenString (we_WorkflowName t)]"

definition TemporalWorkflowStateChangeTopic_String :: "text_lib \<Rightarrow> temporal_state_change_topic \<Rightarrow> gostring" where
  "TemporalWorkflowStateChangeTopic_String lib t = formatTopic lib
    [TokenString (getStreamName (ts_StreamName t)), TokenString (ts_Namespace t), lit ''temporal'',
     TokenString (ts_TaskQueue t), TokenString (ts_WorkflowTypeName t),
     TokenString (ts_WorkflowID t), TokenString (ts_RunID t), TokenString (ts_Status t)]"

fun topic_String :: "text_lib \<Rightarrow> topic \<Rightarrow> gostring" where
  "topic_String lib (CustomEventTopic t) = CustomEventTopic_String lib t"
| "topic_String lib (TenantCustomEventTopic t) = TenantCustomEventTopic_String lib t"
| "topic_String lib (MutationEventTopic t) = MutationEventTopic_String lib t"
| "topic_String lib (MutationEventWithReplyTopic t) = MutationEventWithReplyTopic_String lib t"
| "topic_String lib (DeadLetterEventTopic t) = DeadLetterEventTopic_String lib t"
| "topic_String lib (UpdateEventTopic t) = UpdateEventTopic_String lib t"
| "topic_String lib (WorkflowEventTopic t) = WorkflowEventTopic_String lib t"
| "topic_String lib (TemporalWorkflowStateChangeTopic t) = TemporalWorkflowStateChangeTopic_String lib t"

definition topic_Valid :: "text_lib \<Rightarrow> topic \<Rightarrow> bool" where
  "topic_Valid lib t \<longleftrightarrow> IsValidSubscriptionSubject (topic_String lib t)"

section \<open>Tenants of topics\<close>

text \<open>\<open>GetTenantID\<close> of a state change reads the namespace; an empty one is a wildcard.\<close>

definition parseNamespace :: "text_lib \<Rightarrow> gostring \<Rightarrow> topic_error + uuid" where
  "parseNamespace lib ns =
     (case parseUUIDOrWildcard lib ns of None \<Rightarrow> Inl ErrInvalidUUID | Some tenantID \<Rightarrow> Inr tenantID)"

definition TemporalWorkflowStateChangeTopic_GetTenantID ::
  "text_lib \<Rightarrow> temporal_state_change_topic \<Rightarrow> topic_error + uuid"
where
  "TemporalWorkflowStateChangeTopic_GetTenantID lib t =
     (if ts_Namespace t = [] then Inr uuid_Nil else parseNamespace lib (ts_Namespace t))"

text \<open>\<open>GetTenantID\<close> of what implements \<open>TenantProvider\<close>; \<open>None\<close> for what does not.\<close>

fun GetTenantID :: "text_lib \<Rightarrow> topic \<Rightarrow> (topic_error + uuid) option" where
  "GetTenantID lib (CustomEventTopic t) = None"
| "GetTenantID lib (TenantCustomEventTopic t) = Some (Inr (tc_TenantID t))"
| "GetTenantID lib (MutationEventTopic t) = Some (Inr (me_TenantID t))"
| "GetTenantID lib (MutationEventWithReplyTopic t) = Some (Inr (mr_TenantID t))"
| "GetTenantID lib (DeadLetterEventTopic t) = Some (Inr (dl_TenantID t))"
| "GetTenantID lib (UpdateEventTopic t) = Some (Inr (ue_TenantID t))"
| "GetTenantID lib (WorkflowEventTopic t) = Some (Inr (we_TenantID t))"
| "GetTenantID lib (TemporalWorkflowStateChangeTopic t) = Some (TemporalWorkflowStateChangeTopic_GetTenantID lib t)"

fun SetTenantID :: "text_lib \<Rightarrow> uuid \<Rightarrow> topic \<Rightarrow> topic" where
  "SetTenantID lib tenantID (CustomEventTopic t) = CustomEventTopic t"
| "SetTenantID lib tenantID (TenantCustomEventTopic t) = TenantCustomEventTopic (t\<lparr>tc_TenantID := tenantID\<rparr>)"
| "SetTenantID lib tenantID (MutationEventTopic t) = MutationEventTopic (t\<lparr>me_TenantID := tenantID\<rparr>)"
| "SetTenantID lib tenantID (MutationEventWithReplyTopic t) = MutationEventWithReplyTopic (t\<lparr>mr_TenantID := tenantID\<rparr>)"
| "SetTenantID lib tenantID (DeadLetterEventTopic t) = DeadLetterEventTopic (t\<lparr>dl_TenantID := tenantID\<rparr>)"
| "SetTenantID lib tenantID (UpdateEventTopic t) = UpdateEventTopic (t\<lparr>ue_TenantID := tenantID\<rparr>)"
| "SetTenantID lib tenantID (WorkflowEventTopic t) = WorkflowEventTopic (t\<lparr>we_TenantID := tenantID\<rparr>)"
| "SetTenantID lib tenantID (TemporalWorkflowStateChangeTopic t) =
     TemporalWorkflowStateChangeTopic (t\<lparr>ts_Namespace := tx_string lib tenantID\<rparr>)"

text \<open>The setters have pointer receivers, so only pointers are \<open>TenantProvider\<close>s.\<close>

primrec TenantProvider :: "text_lib \<Rightarrow> topic_value \<Rightarrow> (topic_error + uuid) option" where
  "TenantProvider lib (TopicStruct t) = None"
| "TenantProvider lib (TopicPointer t) = GetTenantID lib t"

section \<open>Matching\<close>

definition matchesString :: "gostring \<Rightarrow> gostring \<Rightarrow> bool" where
  "matchesString pattern v \<longleftrightarrow> pattern = [] \<or> pattern = [42] \<or> pattern = v"

definition matchesUUID :: "uuid \<Rightarrow> uuid \<Rightarrow> bool" where
  "matchesUUID pattern v \<longleftrightarrow> pattern = uuid_Nil \<or> pattern = v"

text \<open>The arguments are what \<open>GetStreamName\<close> and \<open>GetTenantID\<close> return.\<close>

definition matchesStream :: "gostring \<Rightarrow> gostring \<Rightarrow> bool" where
  "matchesStream aStream bStream \<longleftrightarrow> aStream = [] \<or> aStream = [42] \<or> aStream = bStream"

definition matchesTenant :: "topic_error + uuid \<Rightarrow> topic_error + uuid \<Rightarrow> bool" where
  "matchesTenant a b \<longleftrightarrow>
     (case (a, b) of (Inr aTenant, Inr bTenant) \<Rightarrow> aTenant = uuid_Nil \<or> aTenant = bTenant | _ \<Rightarrow> False)"

definition CustomEventTopic_Matches :: "custom_event_topic \<Rightarrow> topic_value \<Rightarrow> bool" where
  "CustomEventTopic_Matches t other \<longleftrightarrow>
     (case topic_of other of
        CustomEventTopic otherTopic \<Rightarrow>
          matchesStream (getStreamName (ce_StreamName t)) (getStreamName (ce_StreamName otherTopic))
      | _ \<Rightarrow> False)"

definition TenantCustomEventTopic_Matches :: "tenant_custom_event_topic \<Rightarrow> topic_value \<Rightarrow> bool" where
  "TenantCustomEventTopic_Matches t other \<longleftrightarrow>
     (case topic_of other of
        TenantCustomEventTopic otherTopic \<Rightarrow>
          matchesStream (getStreamName (tc_StreamName t)) (getStreamName (tc_StreamName otherTopic))
          \<and> matchesTenant (Inr (tc_TenantID t)) (Inr (tc_TenantID otherTopic))
          \<and> matchesString (tc_EventType t) (tc_EventType otherTopic)
          \<and> matchesUUID (tc_EntityID t) (tc_EntityID otherTopic)
          \<and> matchesString (tc_OperationName t) (tc_OperationName otherTopic)
      | _ \<Rightarrow> False)"

definition MutationEventTopic_Matches :: "mutation_event_topic \<Rightarrow> topic_value \<Rightarrow> bool" where
  "MutationEventTopic_Matches t other \<longleftrightarrow>
     (case topic_of other of
        MutationEventTopic otherTopic \<Rightarrow>
          matchesStream (getStreamName (me_StreamName t)) (getStreamName (me_StreamName otherTopic))
          \<and> matchesTenant (Inr (me_TenantID t)) (Inr (me_TenantID otherTopic))
          \<and> matchesString (me_ServiceName t) (me_ServiceName otherTopic)
          \<and> matchesString (me_SchemaName t) (me_SchemaName otherTopic)
          \<and> matchesUUID (me_EntityID t) (me_EntityID otherTopic)
          \<and> matchesString (me_OperationName t) (me_OperationName otherTopic)
      | _ \<Rightarrow> False)"

definition MutationEventWithReplyTopic_Matches :: "mutation_event_with_reply_topic \<Rightarrow> topic_value \<Rightarrow> bool" where
  "MutationEventWithReplyTopic_Matches t other \<longleftrightarrow>
     (case topic_of other of
        MutationEventWithReplyTopic otherTopic \<Rightarrow>
          matchesStream (getStreamName (mr_StreamName t)) (getStreamName (mr_StreamName otherTopic))
          \<and> matchesTenant (Inr (mr_TenantID t)) (Inr (mr_TenantID otherTopic))
          \<and> matchesString (mr_ServiceName t) (mr_ServiceName otherTopic)
          \<and> matchesString (mr_SchemaName t) (mr_SchemaName otherTopic)
          \<and> matchesUUID (mr_EntityID t) (mr_EntityID otherTopic)
          \<and> matchesString (mr_OperationName t) (mr_OperationName otherTopic)
      | _ \<Rightarrow> False)"

definition DeadLetterEventTopic_Matches :: "dead_letter_event_topic \<Rightarrow> topic_value \<Rightarrow> bool" where
  "DeadLetterEventTopic_Matches t other \<longleftrightarrow>
     (case topic_of other of
        DeadLetterEventTopic otherTopic \<Rightarrow>
          matchesStream (getStreamName (dl_StreamName t)) (getStreamName (dl_StreamName otherTopic))
          \<and> matchesTenant (Inr (dl_TenantID t)) (Inr (dl_TenantID otherTopic))
          \<and> matchesString (dl_ServiceName t) (dl_ServiceName otherTopic)
          \<and> matchesString (dl_SchemaName t) (dl_SchemaName otherTopic)
          \<and> matchesUUID (dl_EntityID t) (dl_EntityID otherTopic)
          \<and> matchesString (dl_OperationName t) (dl_OperationName otherTopic)
      | _ \<Rightarrow> False)"

definition UpdateEventTopic_Matches :: "update_event_topic \<Rightarrow> topic_value \<Rightarrow> bool" where
  "UpdateEventTopic_Matches t other \<longleftrightarrow>
     (case topic_of other of
        UpdateEventTopic otherTopic \<Rightarrow>
          matchesStream (getStreamName (ue_StreamName t)) (getStreamName (ue_StreamName otherTopic))
          \<and> matchesTenant (Inr (ue_TenantID t)) (Inr (ue_TenantID otherTopic))
          \<and> matchesString (ue_ServiceName t) (ue_ServiceName otherTopic)
          \<and> matchesString (ue_SchemaName t) (ue_SchemaName otherTopic)
          \<and> matchesUUID (ue_EntityID t) (ue_EntityID otherTopic)
          \<and> matchesString (ue_OperationName t) (ue_OperationName otherTopic)
          \<and> matchesString (ue_AttributeName t) (ue_AttributeName otherTopic)
      | _ \<Rightarrow> False)"

definition WorkflowEventTopic_Matches :: "workflow_event_topic \<Rightarrow> topic_value \<Rightarrow> bool" where
  "WorkflowEventTopic_Matches t other \<longleftrightarrow>
     (case topic_of other of
        WorkflowEventTopic otherTopic \<Rightarrow>
          matchesStream (getStreamName (we_StreamName t)) (getStreamName (we_StreamName otherTopic))
          \<and> matchesTenant (Inr (we_TenantID t)) (Inr (we_TenantID otherTopic))
          \<and> matchesUUID (we_WorkflowID t) (we_WorkflowID otherTopic)
          \<and> matchesString (we_WorkflowName t) (we_WorkflowName otherTopic)
      | _ \<Rightarrow> False)"

definition TemporalWorkflowStateChangeTopic_Matches :: "temporal_state_change_topic \<Rightarrow> topic_value \<Rightarrow> bool" where
  "TemporalWorkflowStateChangeTopic_Matches t other \<longleftrightarrow>
     (case topic_of other of
        TemporalWorkflowStateChangeTopic otherTopic \<Rightarrow>
          matchesStream (getStreamName (ts_StreamName t)) (getStreamName (ts_StreamName otherTopic))
          \<and> matchesString (ts_Namespace t) (ts_Namespace otherTopic)
          \<and> matchesString (ts_TaskQueue t) (ts_TaskQueue otherTopic)
          \<and> matchesString (ts_WorkflowTypeName t) (ts_WorkflowTypeName otherTopic)
          \<and> matchesString (ts_WorkflowID t) (ts_WorkflowID otherTopic)
          \<and> matchesString (ts_RunID t) (ts_RunID otherTopic)
          \<and> matchesString (ts_Status t) (ts_Status otherTopic)
      | _ \<Rightarrow> False)"

fun topic_Matches :: "topic \<Rightarrow> topic_value \<Rightarrow> bool" where
  "topic_Matches (CustomEventTopic t) other = CustomEventTopic_Matches t other"
| "topic_Matches (TenantCustomEventTopic t) other = TenantCustomEventTopic_Matches t other"
| "topic_Matches (MutationEventTopic t) other = MutationEventTopic_Matches t other"
| "topic_Matches (MutationEventWithReplyTopic t) other = MutationEventWithReplyTopic_Matches t other"
| "topic_Matches (DeadLetterEventTopic t) other = DeadLetterEventTopic_Matches t other"
| "topic_Matches (UpdateEventTopic t) other = UpdateEventTopic_Matches t other"
| "topic_Matches (WorkflowEventTopic t) other = WorkflowEventTopic_Matches t other"
| "topic_Matches (TemporalWorkflowStateChangeTopic t) other = TemporalWorkflowStateChangeTopic_Matches t other"

section \<open>Patterns and factories\<close>

datatype TopicType =
    TopicTypeUnknown | TopicTypeCustomEvent | TopicTypeMutationEvent | TopicTypeDeadLetterEvent
  | TopicTypeMutationEventWithReply | TopicTypeUpdateEvent | TopicTypeWorkflowEvent
  | TopicTypeTemporalWorkflowStateChangeEvent | TopicTypeTenantCustomEvent

fun topic_Type :: "topic \<Rightarrow> TopicType" where
  "topic_Type (CustomEventTopic _) = TopicTypeCustomEvent"
| "topic_Type (TenantCustomEventTopic _) = TopicTypeTenantCustomEvent"
| "topic_Type (MutationEventTopic _) = TopicTypeMutationEvent"
| "topic_Type (MutationEventWithReplyTopic _) = TopicTypeMutationEventWithReply"
| "topic_Type (DeadLetterEventTopic _) = TopicTypeDeadLetterEvent"
| "topic_Type (UpdateEventTopic _) = TopicTypeUpdateEvent"
| "topic_Type (WorkflowEventTopic _) = TopicTypeWorkflowEvent"
| "topic_Type (TemporalWorkflowStateChangeTopic _) = TopicTypeTemporalWorkflowStateChangeEvent"

datatype fieldType = FieldTypeString | FieldTypeUUID

datatype topicToken = TopicToken (tk_field: string) (tk_isLiteral: bool) (tk_fieldType: fieldType)

datatype field_value = FieldString gostring | FieldUUID uuid

record fieldBuilder =
  fb_fields :: "(string, field_value) gomap"
  fb_err :: "topic_error option"

definition newFieldBuilder :: "(string, field_value) gomap \<Rightarrow> fieldBuilder" where
  "newFieldBuilder vals = \<lparr>fb_fields = vals, fb_err = None\<rparr>"

definition getString :: "string \<Rightarrow> fieldBuilder \<Rightarrow> gostring \<times> fieldBuilder" where
  "getString key b =
     (case fb_err b of
        Some _ \<Rightarrow> ([], b)
      | None \<Rightarrow>
          (case gget (fb_fields b) key of
             Some (FieldString v) \<Rightarrow> (unescapeTopicToken v, b)
           | _ \<Rightarrow> ([], b\<lparr>fb_err := Some ErrInvalidTopic\<rparr>)))"

definition getUUID :: "string \<Rightarrow> fieldBuilder \<Rightarrow> uuid \<times> fieldBuilder" where
  "getUUID key b =
     (case fb_err b of
        Some _ \<Rightarrow> (uuid_Nil, b)
      | None \<Rightarrow>
          (case gget (fb_fields b) key of
             Some (FieldUUID v) \<Rightarrow> (v, b)
           | _ \<Rightarrow> (uuid_Nil, b\<lparr>fb_err := Some ErrInvalidTopic\<rparr>)))"

type_synonym topicFactory = "text_lib \<Rightarrow> (string, field_value) gomap \<Rightarrow> topic_error + topic"

text \<open>\<open>return topic, b.err\<close>.\<close>

definition factoryResult :: "topic \<Rightarrow> fieldBuilder \<Rightarrow> topic_error + topic" where
  "factoryResult t b = (case fb_err b of None \<Rightarrow> Inr t | Some err \<Rightarrow> Inl err)"

definition customEventPattern :: "topicToken list" where
  "customEventPattern =
    [TopicToken ''stream'' False FieldTypeString,
     TopicToken ''custom-events'' True FieldTypeString]"

definition customEventFactory :: topicFactory where
  "customEventFactory lib vals =
     (let (v0, b0) = getString ''stream'' (newFieldBuilder vals) in
      factoryResult (CustomEventTopic \<lparr>ce_StreamName = v0\<rparr>) b0)"

definition tenantCustomEventPattern :: "topicToken list" where
  "tenantCustomEventPattern =
    [TopicToken ''stream'' False FieldTypeString,
     TopicToken ''tenant'' False FieldTypeUUID,
     TopicToken ''custom'' True FieldTypeString,
     TopicToken ''type'' False FieldTypeString,
     TopicToken ''entity'' False FieldTypeUUID,
     TopicToken ''operation'' False FieldTypeString]"

definition tenantCustomEventFactory :: topicFactory where
  "tenantCustomEventFactory lib vals =
     (let (v0, b0) = getString ''stream'' (newFieldBuilder vals);
          (v1, b1) = getUUID ''tenant'' b0;
          (v2, b2) = getString ''type'' b1;
          (v3, b3) = getUUID ''entity'' b2;
          (v4, b4) = getString ''operation'' b3 in
      factoryResult (TenantCustomEventTopic \<lparr>tc_StreamName = v0, tc_TenantID = v1, tc_EventType = v2, tc_EntityID = v3, tc_OperationName = v4\<rparr>) b4)"

definition mutationEventPattern :: "topicToken list" where
  "mutationEventPattern =
    [TopicToken ''stream'' False FieldTypeString,
     TopicToken ''tenant'' False FieldTypeUUID,
     TopicToken ''crud'' True FieldTypeString,
     TopicToken ''service'' False FieldTypeString,
     TopicToken ''schema'' False FieldTypeString,
     TopicToken ''entity'' False FieldTypeUUID,
     TopicToken ''operation'' False FieldTypeString]"

definition mutationEventFactory :: topicFactory where
  "mutationEventFactory lib vals =
     (let (v0, b0) = getString ''stream'' (newFieldBuilder vals);
          (v1, b1) = getUUID ''tenant'' b0;
          (v2, b2) = getString ''service'' b1;
          (v3, b3) = getString ''schema'' b2;
          (v4, b4) = getUUID ''entity'' b3;
          (v5, b5) = getString ''operation'' b4 in
      factoryResult (MutationEventTopic \<lparr>me_StreamName = v0, me_TenantID = v1, me_ServiceName = v2, me_SchemaName = v3, me_EntityID = v4, me_OperationName = v5\<rparr>) b5)"

definition mutationEventWithReplyPattern :: "topicToken list" where
  "mutationEventWithReplyPattern =
    [TopicToken ''request'' True FieldTypeString,
     TopicToken ''reply'' True FieldTypeString,
     TopicToken ''stream'' False FieldTypeString,
     TopicToken ''tenant'' False FieldTypeUUID,
     TopicToken ''crud'' True FieldTypeString,
     TopicToken ''service'' False FieldTypeString,
     TopicToken ''schema'' False FieldTypeString,
     TopicToken ''entity'' False FieldTypeUUID,
     TopicToken ''operation'' False FieldTypeString]"

definition mutationEventWithReplyFactory :: topicFactory where
  "mutationEventWithReplyFactory lib vals =
     (let (v0, b0) = getString ''stream'' (newFieldBuilder vals);
          (v1, b1) = getUUID ''tenant'' b0;
          (v2, b2) = getString ''service'' b1;
          (v3, b3) = getString ''schema'' b2;
          (v4, b4) = getUUID ''entity'' b3;
          (v5, b5) = getString ''operation'' b4 in
      factoryResult (MutationEventWithReplyTopic \<lparr>mr_StreamName = v0, mr_TenantID = v1, mr_ServiceName = v2, mr_SchemaName = v3, mr_EntityID = v4, mr_OperationName = v5\<rparr>) b5)"

definition updateEventPattern :: "topicToken list" where
  "updateEventPattern =
    [TopicToken ''stream'' False FieldTypeString,
     TopicToken ''tenant'' False FieldTypeUUID,
     TopicToken ''crud'' True FieldTypeString,
     TopicToken ''service'' False FieldTypeString,
     TopicToken ''schema'' False FieldTypeString,
     TopicToken ''entity'' False FieldTypeUUID,
     TopicToken ''operation'' False FieldTypeString,
     TopicToken ''attribute'' False FieldTypeString]"

definition updateEventFactory :: topicFactory where
  "updateEventFactory lib vals =
     (let (v0, b0) = getString ''stream'' (newFieldBuilder vals);
          (v1, b1) = getUUID ''tenant'' b0;
          (v2, b2) = getString ''service'' b1;
          (v3, b3) = getString ''schema'' b2;
          (v4, b4) = getUUID ''entity'' b3;
          (v5, b5) = getString ''operation'' b4;
          (v6, b6) = getString ''attribute'' b5 in
      factoryResult (UpdateEventTopic \<lparr>ue_StreamName = v0, ue_TenantID = v1, ue_ServiceName = v2, ue_SchemaName = v3, ue_EntityID = v4, ue_OperationName = v5, ue_AttributeName = v6\<rparr>) b6)"

definition workflowEventPattern :: "topicToken list" where
  "workflowEventPattern =
    [TopicToken ''stream'' False FieldTypeString,
     TopicToken ''tenant'' False FieldTypeUUID,
     TopicToken ''workflows'' True FieldTypeString,
     TopicToken ''workflowID'' False FieldTypeUUID,
     TopicToken ''workflowName'' False FieldTypeString]"

definition workflowEventFactory :: topicFactory where
  "workflowEventFactory lib vals =
     (let (v0, b0) = getString ''stream'' (newFieldBuilder vals);
          (v1, b1) = getUUID ''tenant'' b0;
          (v2, b2) = getUUID ''workflowID'' b1;
          (v3, b3) = getString ''workflowName'' b2 in
      factoryResult (WorkflowEventTopic \<lparr>we_StreamName = v0, we_TenantID = v1, we_WorkflowID = v2, we_WorkflowName = v3\<rparr>) b3)"

definition temporalWorkflowEventPattern :: "topicToken list" where
  "temporalWorkflowEventPattern =
    [TopicToken ''stream'' False FieldTypeString,
     TopicToken ''namespace'' False FieldTypeString,
     TopicToken ''temporal'' True FieldTypeString,
     TopicToken ''taskQueue'' False FieldTypeString,
     TopicToken ''workflowTypeName'' False FieldTypeString,
     TopicToken ''workflowID'' False FieldTypeString,
     TopicToken ''runID'' False FieldTypeString,
     TopicToken ''status'' False FieldTypeString]"

definition temporalWorkflowEventFactory :: topicFactory where
  "temporalWorkflowEventFactory lib vals =
     (let (v0, b0) = getString ''stream'' (newFieldBuilder vals);
          (v1, b1) = getString ''namespace'' b0;
          (v2, b2) = getString ''taskQueue'' b1;
          (v3, b3) = getString ''workflowTypeName'' b2;
          (v4, b4) = getString ''workflowID'' b3;
          (v5, b5) = getString ''runID'' b4;
          (v6, b6) = getString ''status'' b5 in
      case fb_err b6 of Some err \<Rightarrow> Inl err
      | None \<Rightarrow>
          (case parseNamespace lib v1 of Inl err \<Rightarrow> Inl err
           | Inr _ \<Rightarrow> Inr (TemporalWorkflowStateChangeTopic \<lparr>ts_StreamName = v0, ts_Namespace = v1, ts_TaskQueue = v2, ts_WorkflowTypeName = v3, ts_WorkflowID = v4, ts_RunID = v5, ts_Status = v6\<rparr>)))"

text \<open>A Go map; its order only shows in the text of an error.\<close>

definition knownTopics :: "(TopicType \<times> topicToken list \<times> topicFactory) list" where
  "knownTopics =
    [(TopicTypeCustomEvent, customEventPattern, customEventFactory),
     (TopicTypeTenantCustomEvent, tenantCustomEventPattern, tenantCustomEventFactory),
     (TopicTypeMutationEventWithReply, mutationEventWithReplyPattern, mutationEventWithReplyFactory),
     (TopicTypeUpdateEvent, updateEventPattern, updateEventFactory),
     (TopicTypeMutationEvent, mutationEventPattern, mutationEventFactory),
     (TopicTypeWorkflowEvent, workflowEventPattern, workflowEventFactory),
     (TopicTypeTemporalWorkflowStateChangeEvent, temporalWorkflowEventPattern, temporalWorkflowEventFactory)]"

section \<open>Parsing\<close>

definition fullWildcardIdx :: "gostring list \<Rightarrow> nat option" where
  "fullWildcardIdx parts =
     (if [62] \<in> set parts then Some (length (takeWhile (\<lambda>p. p \<noteq> [62]) parts)) else None)"

fun matchTokens ::
  "nat option \<Rightarrow> gostring list \<Rightarrow> nat \<Rightarrow> topicToken list \<Rightarrow> (string, gostring) gomap
     \<Rightarrow> (string, gostring) gomap option"
where
  "matchTokens w parts i [] vals = Some vals"
| "matchTokens w parts i (tok # toks) vals =
     (if (case w of None \<Rightarrow> False | Some n \<Rightarrow> n \<le> i)
      then matchTokens w parts (Suc i) toks (if tk_isLiteral tok then vals else gput (tk_field tok) [42] vals)
      else if length parts \<le> i then None
      else if tk_isLiteral tok
      then (if parts ! i \<noteq> runes (tk_field tok) \<and> parts ! i \<noteq> [42] \<and> parts ! i \<noteq> [62] then None
            else matchTokens w parts (Suc i) toks vals)
      else matchTokens w parts (Suc i) toks (gput (tk_field tok) (parts ! i) vals))"

definition matchesPattern :: "gostring \<Rightarrow> topicToken list \<Rightarrow> (string, gostring) gomap option" where
  "matchesPattern subject tokens =
     (let parts = strings_Split 46 subject; w = fullWildcardIdx parts in
      if (case w of
            Some n \<Rightarrow> n \<noteq> length parts - 1 \<or> length tokens < n + 1
          | None \<Rightarrow> length parts \<noteq> length tokens)
      then None
      else matchTokens w parts 0 tokens [])"

fun typedFields ::
  "text_lib \<Rightarrow> (string, gostring) gomap \<Rightarrow> topicToken list \<Rightarrow> (string, field_value) gomap
     \<Rightarrow> topic_error + (string, field_value) gomap"
where
  "typedFields lib stringFields [] acc = Inr acc"
| "typedFields lib stringFields (tok # toks) acc =
     (if tk_isLiteral tok then typedFields lib stringFields toks acc
      else case gget stringFields (tk_field tok) of
             None \<Rightarrow> typedFields lib stringFields toks acc
           | Some fieldValue \<Rightarrow>
               (case tk_fieldType tok of
                  FieldTypeString \<Rightarrow>
                    typedFields lib stringFields toks (gput (tk_field tok) (FieldString fieldValue) acc)
                | FieldTypeUUID \<Rightarrow>
                    (case parseUUIDOrWildcard lib fieldValue of
                       None \<Rightarrow> Inl ErrInvalidUUID
                     | Some parsed \<Rightarrow>
                         typedFields lib stringFields toks (gput (tk_field tok) (FieldUUID parsed) acc))))"

definition topicMatches :: "gostring \<Rightarrow> ((TopicType \<times> topicToken list \<times> topicFactory) \<times> (string, gostring) gomap) list" where
  "topicMatches subject =
     concat (map (\<lambda>spec. case matchesPattern subject (fst (snd spec)) of
        None \<Rightarrow> [] | Some vals \<Rightarrow> [(spec, vals)]) knownTopics)"

definition Parse :: "text_lib \<Rightarrow> gostring \<Rightarrow> topic_error + topic_value" where
  "Parse lib topic =
     (let subject = strings_TrimSpace lib topic in
      if subject = [] then Inl ErrInvalidTopic
      else case topicMatches subject of
             [] \<Rightarrow> Inl ErrUnknownTopicType
           | [((typ, tokens, factory), stringFields)] \<Rightarrow>
               (case typedFields lib stringFields tokens [] of
                  Inl err \<Rightarrow> Inl err
                | Inr vals \<Rightarrow>
                    (case factory lib vals of Inl err \<Rightarrow> Inl err | Inr t \<Rightarrow> Inr (TopicPointer t)))
           | _ \<Rightarrow> Inl ErrAmbiguousTopic)"

definition Validate :: "text_lib \<Rightarrow> gostring \<Rightarrow> topic_error option" where
  "Validate lib topic =
     (let subject = strings_TrimSpace lib topic in
      if subject = [] then Some ErrInvalidTopic
      else if list_ex (\<lambda>spec. matchesPattern subject (fst (snd spec)) \<noteq> None) knownTopics then None
      else Some ErrUnknownTopicType)"

definition patternOf :: "TopicType \<Rightarrow> topicToken list" where
  "patternOf typ = (case map_of knownTopics typ of None \<Rightarrow> [] | Some (tokens, _) \<Rightarrow> tokens)"

definition splitSubject :: "text_lib \<Rightarrow> gostring \<Rightarrow> topic_error + topicToken list \<times> gostring list" where
  "splitSubject lib subject =
     (case Parse lib subject of
        Inl err \<Rightarrow> Inl err
      | Inr v \<Rightarrow> Inr (patternOf (topic_Type (topic_of v)), strings_Split 46 (strings_TrimSpace lib subject)))"

definition tenantIndex :: "topicToken list \<Rightarrow> nat option" where
  "tenantIndex pattern =
     (let i = length (takeWhile (\<lambda>tok. tk_field tok \<noteq> ''tenant'' \<and> tk_field tok \<noteq> ''namespace'') pattern) in
      if i < length pattern then Some i else None)"

definition WithTenant :: "text_lib \<Rightarrow> gostring \<Rightarrow> uuid \<Rightarrow> topic_error + gostring" where
  "WithTenant lib subject tenantID =
     (case splitSubject lib subject of
        Inl err \<Rightarrow> Inl err
      | Inr (pattern, parts) \<Rightarrow>
          (case tenantIndex pattern of
             None \<Rightarrow> Inl ErrInvalidTopic
           | Some idx \<Rightarrow>
               (let last = length parts - 1;
                    parts' = (if parts ! last = [62] \<and> last \<le> idx
                      then take last parts @ replicate (idx + 1 - last) [42]
                        @ (if idx < length pattern - 1 then [[62]] else [])
                      else parts) in
                Inr (strings_Join (parts'[idx := tx_string lib tenantID]) [46]))))"

definition canonicalTenantID :: "text_lib \<Rightarrow> gostring \<Rightarrow> uuid option" where
  "canonicalTenantID lib s =
     (case tx_parse lib s of
        None \<Rightarrow> None
      | Some i \<Rightarrow> if i = uuid_Nil \<or> tx_string lib i \<noteq> s then None else Some i)"

definition ParseTenantNamespace :: "text_lib \<Rightarrow> gostring \<Rightarrow> uuid option" where
  "ParseTenantNamespace lib namespace = canonicalTenantID lib namespace"

fun matchableTokens :: "text_lib \<Rightarrow> topicToken list \<Rightarrow> gostring list \<Rightarrow> bool" where
  "matchableTokens lib [] parts = True"
| "matchableTokens lib (tok # toks) [] = True"
| "matchableTokens lib (tok # toks) (part # parts) =
     (if part = [62] then True
      else if tk_isLiteral tok \<or> tk_fieldType tok \<noteq> FieldTypeString \<or> part = [42] then matchableTokens lib toks parts
      else if escapeTopicToken lib part \<noteq> part then False
      else if tk_field tok = ''namespace'' \<and> part \<noteq> tx_string lib uuid_Nil \<and> ParseTenantNamespace lib part = None
      then False
      else matchableTokens lib toks parts)"

definition Matchable :: "text_lib \<Rightarrow> gostring \<Rightarrow> bool" where
  "Matchable lib subject =
     (case splitSubject lib subject of
        Inl _ \<Rightarrow> False
      | Inr (pattern, parts) \<Rightarrow> matchableTokens lib pattern parts)"

definition ParseTenantFromTopic :: "text_lib \<Rightarrow> gostring \<Rightarrow> topic_error + uuid list" where
  "ParseTenantFromTopic lib topic =
     (case Parse lib topic of
        Inl err \<Rightarrow> Inl err
      | Inr (TopicStruct (MutationEventTopic t)) \<Rightarrow>
          if me_TenantID t = uuid_Nil then Inl ErrInvalidTopic else Inr [me_TenantID t]
      | Inr _ \<Rightarrow> Inl ErrInvalidTopic)"

section \<open>Streams\<close>

definition AggregateStreamName :: "gostring \<Rightarrow> gostring" where
  "AggregateStreamName prefix = getStreamName prefix"

definition TenantStreamName :: "text_lib \<Rightarrow> gostring \<Rightarrow> uuid \<Rightarrow> gostring" where
  "TenantStreamName lib prefix tenantID = getStreamName prefix @ [45] @ tx_string lib tenantID"

definition TenantStreamSubjects :: "text_lib \<Rightarrow> gostring \<Rightarrow> uuid \<Rightarrow> gostring" where
  "TenantStreamSubjects lib prefix tenantID =
     formatTopic lib [TokenString (getStreamName prefix), TokenUUID tenantID] @ [46, 62]"

definition ParseTenantStreamName :: "text_lib \<Rightarrow> gostring \<Rightarrow> gostring \<Rightarrow> uuid option" where
  "ParseTenantStreamName lib prefix name =
     (let cut = getStreamName prefix @ [45] in
      if take (length cut) name = cut then canonicalTenantID lib (drop (length cut) name) else None)"

definition SystemStreamName :: "gostring \<Rightarrow> gostring" where
  "SystemStreamName prefix = getStreamName prefix @ runes ''-system''"

definition SystemStreamSubjects :: "text_lib \<Rightarrow> gostring \<Rightarrow> gostring" where
  "SystemStreamSubjects lib prefix = formatTopic lib [TokenString (SystemStreamName prefix)] @ [46, 62]"

end
