(* ===== verification/TopicLemmas.thy ===== *)
theory TopicLemmas
  imports Topic
begin

text \<open>
  How subjects print and parse: the tokens printing yields, splitting after joining, and what
  \<open>matchesPattern\<close> looks at, the tokens of a subject with a trailing \<open>>\<close> written out as \<open>*\<close>.
\<close>

section \<open>Tokens\<close>

definition token_rune :: "nat \<Rightarrow> bool" where
  "token_rune r \<longleftrightarrow> (97 \<le> r \<and> r \<le> 122) \<or> (48 \<le> r \<and> r \<le> 57) \<or> r = 45"

definition token_ok :: "gostring \<Rightarrow> bool" where
  "token_ok s \<longleftrightarrow> s \<noteq> [] \<and> list_all token_rune s"

text \<open>
  What \<open>google/uuid\<close> documents: the canonical form is lower-case hexadecimal digits and dashes,
  36 of them, and it parses back; the empty string does not parse.
\<close>

definition uuid_text :: "text_lib \<Rightarrow> bool" where
  "uuid_text lib \<longleftrightarrow> tx_parse lib [] = None \<and> (\<forall>u. tx_parse lib (tx_string lib u) = Some u
     \<and> 36 \<le> length (tx_string lib u) \<and> list_all token_rune (tx_string lib u))"

lemma uuid_textD:
  assumes "uuid_text lib"
  shows "tx_parse lib (tx_string lib u) = Some u" "36 \<le> length (tx_string lib u)" "token_ok (tx_string lib u)"
    "tx_string lib u = tx_string lib u' \<longleftrightarrow> u = u'" "tx_parse lib [] = None"
proof -
  have law: "tx_parse lib (tx_string lib v) = Some v \<and> 36 \<le> length (tx_string lib v) \<and> list_all token_rune (tx_string lib v)" for v
    using assms by (simp add: uuid_text_def)
  from assms show "tx_parse lib [] = None" by (simp add: uuid_text_def)
  from law show "tx_parse lib (tx_string lib u) = Some u" "36 \<le> length (tx_string lib u)" by simp_all
  show "token_ok (tx_string lib u)" using law [of u] by (auto simp: token_ok_def)
  show "tx_string lib u = tx_string lib u' \<longleftrightarrow> u = u'" using law by (metis option.inject)
qed

lemma token_rune_ToLower: "token_rune r \<Longrightarrow> rune_ToLower lib r = r"
  by (auto simp: token_rune_def rune_ToLower_def)

lemma token_rune_space: "token_rune r \<or> r \<in> {42, 46, 62} \<Longrightarrow> \<not> rune_IsSpace lib r"
  by (auto simp: token_rune_def rune_IsSpace_def)

lemma ToLower_token: "list_all token_rune s \<Longrightarrow> strings_ToLower lib s = s"
  by (induction s) (auto simp: strings_ToLower_def token_rune_ToLower)

definition trimmed :: "text_lib \<Rightarrow> gostring \<Rightarrow> bool" where
  "trimmed lib s \<longleftrightarrow> s = [] \<or> (\<not> rune_IsSpace lib (hd s) \<and> \<not> rune_IsSpace lib (last s))"

lemma TrimSpace_trimmed: "trimmed lib s \<Longrightarrow> strings_TrimSpace lib s = s"
proof (cases s)
  case (Cons a as)
  assume t: "trimmed lib s"
  with Cons have "dropWhile (rune_IsSpace lib) s = s" by (simp add: trimmed_def)
  moreover from t Cons have "dropWhile (rune_IsSpace lib) (rev s) = rev s"
    by (cases "rev s") (auto simp: trimmed_def hd_rev [symmetric])
  ultimately show ?thesis by (simp add: strings_TrimSpace_def)
qed (simp add: strings_TrimSpace_def)

lemma hd_dropWhile': "dropWhile P xs \<noteq> [] \<Longrightarrow> \<not> P (hd (dropWhile P xs))"
  by (rule hd_dropWhile)

lemma trimmed_TrimSpace: "trimmed lib (strings_TrimSpace lib s)"
proof -
  let ?P = "rune_IsSpace lib" and ?d = "dropWhile (rune_IsSpace lib) s"
  have "strings_TrimSpace lib s = [] \<or> \<not> ?P (last (strings_TrimSpace lib s))"
    unfolding strings_TrimSpace_def rev_is_Nil_conv last_rev using hd_dropWhile' [of ?P "rev ?d"] by blast
  moreover have "strings_TrimSpace lib s = [] \<or> \<not> ?P (hd (strings_TrimSpace lib s))"
  proof (cases "strings_TrimSpace lib s")
    case (Cons a as)
    obtain ys where ys: "rev ?d = ys @ dropWhile ?P (rev ?d)"
      by (metis takeWhile_dropWhile_id)
    then have "?d = strings_TrimSpace lib s @ rev ys"
      by (metis rev_append rev_rev_ident strings_TrimSpace_def)
    with Cons have "?d \<noteq> []" "hd ?d = a" by auto
    with hd_dropWhile' [of ?P s] Cons show ?thesis by simp
  qed simp
  ultimately show ?thesis by (auto simp: trimmed_def)
qed

lemma escape_token: "list_all token_rune s \<Longrightarrow> escapeTopicToken lib s = s"
proof -
  assume s: "list_all token_rune s"
  then have "trimmed lib s"
    by (auto simp: trimmed_def list_all_iff token_rune_space)
  with s have "escapeTopicToken lib s = map (\<lambda>r. if (97 \<le> r \<and> r \<le> 122) \<or> (48 \<le> r \<and> r \<le> 57) then r else 45) s"
    by (simp add: escapeTopicToken_def TrimSpace_trimmed ToLower_token)
  also have "\<dots> = s" by (rule map_idI) (use s in \<open>auto simp: list_all_iff token_rune_def\<close>)
  finally show ?thesis .
qed

lemma escape_runes: "list_all token_rune (escapeTopicToken lib s)"
  by (auto simp: escapeTopicToken_def list_all_iff token_rune_def)

lemma not_token_star: "\<not> token_rune 42" "\<not> token_rune 62" "\<not> token_rune 46"
  by (simp_all add: token_rune_def)

lemma token_ok_not [simp]: "token_ok s \<Longrightarrow> s \<noteq> [42]" "token_ok s \<Longrightarrow> s \<noteq> [62]" "token_ok s \<Longrightarrow> s \<noteq> []"
  "token_ok s \<Longrightarrow> 46 \<notin> set s"
  by (auto simp: token_ok_def not_token_star list_all_iff)

lemma format_token:
  "token_ok s \<Longrightarrow> formatTopicPart lib (TokenString s) = s"
  "formatTopicPart lib (TokenString []) = [42]"
  by (auto simp: token_ok_def ToLower_token escape_token)

lemma format_uuid:
  "uuid_text lib \<Longrightarrow> formatTopicPart lib (TokenUUID u) = (if u = uuid_Nil then [42] else tx_string lib u)"
  using uuid_textD(3) by (auto simp: token_ok_def ToLower_token)

lemma format_runes:
  assumes "uuid_text lib"
  shows "formatTopicPart lib tok = [42] \<or> list_all token_rune (formatTopicPart lib tok)"
  using uuid_textD(3) [OF assms] assms
  by (cases tok) (auto simp: escape_runes token_ok_def ToLower_token)

lemma format_parts:
  assumes "uuid_text lib"
  shows "46 \<notin> set (formatTopicPart lib tok)" "formatTopicPart lib tok \<noteq> [62]"
  using format_runes [OF assms, of tok] by (auto simp: list_all_iff not_token_star dest: spec [of _ 46])

lemma lit_token: "token_ok (runes s) \<Longrightarrow> formatTopicPart lib (lit s) = runes s"
  unfolding lit_def by (rule format_token)

text \<open>The literals of the patterns.\<close>

lemmas runes_eval = runes_def token_ok_def token_rune_def

lemma format_lits [simp]:
  "formatTopicPart lib (lit ''custom-events'') = runes ''custom-events''"
  "formatTopicPart lib (lit ''custom'') = runes ''custom''"
  "formatTopicPart lib (lit ''crud'') = runes ''crud''"
  "formatTopicPart lib (lit ''dlq'') = runes ''dlq''"
  "formatTopicPart lib (lit ''request'') = runes ''request''"
  "formatTopicPart lib (lit ''reply'') = runes ''reply''"
  "formatTopicPart lib (lit ''workflows'') = runes ''workflows''"
  "formatTopicPart lib (lit ''temporal'') = runes ''temporal''"
  by (rule lit_token, simp add: runes_eval)+

lemma stream_token: "s = [] \<or> token_ok s \<Longrightarrow> token_ok (getStreamName s)"
  by (auto simp: getStreamName_def DefaultStreamName_def runes_eval)

section \<open>Splitting\<close>

lemma strings_Split_nonempty [simp]: "strings_Split sep s \<noteq> []"
  by (induction s) (auto split: list.splits)

lemma strings_Split_token: "sep \<notin> set p \<Longrightarrow> strings_Split sep p = [p]"
  by (induction p) auto

lemma strings_Split_append: "sep \<notin> set p \<Longrightarrow> strings_Split sep (p @ sep # s) = p # strings_Split sep s"
  by (induction p) auto

lemma strings_Split_Join:
  "ps \<noteq> [] \<Longrightarrow> \<forall>p \<in> set ps. sep \<notin> set p \<Longrightarrow> strings_Split sep (strings_Join ps [sep]) = ps"
  by (induction ps "[sep]" rule: strings_Join.induct) (auto simp: strings_Split_token strings_Split_append)

lemma strings_Join_Cons: "ps \<noteq> [] \<Longrightarrow> strings_Join (p # ps) sep = p @ sep @ strings_Join ps sep"
  by (cases ps) auto

lemma strings_Split_parts: "p \<in> set (strings_Split sep s) \<Longrightarrow> sep \<notin> set p"
  by (induction s arbitrary: p) (auto split: list.splits if_splits)

lemma strings_Join_Split: "strings_Join (strings_Split sep s) [sep] = s"
proof (induction s)
  case (Cons b bs)
  then show ?case
    by (cases "strings_Split sep bs"; cases "tl (strings_Split sep bs)") (auto simp: strings_Join_Cons)
qed simp

lemma strings_Join_eq_Nil: "strings_Join ps [sep] = [] \<longleftrightarrow> ps = [] \<or> ps = [[]]"
  by (cases ps; cases "tl ps") auto

lemma hd_Join: "strings_Join (p # ps) [sep] \<noteq> [] \<Longrightarrow> hd (strings_Join (p # ps) [sep]) = (if p = [] then sep else hd p)"
  by (cases ps) auto

lemma last_Join: "ps \<noteq> [] \<Longrightarrow> strings_Join ps [sep] \<noteq> [] \<Longrightarrow>
    last (strings_Join ps [sep]) = (if last ps = [] then sep else last (last ps))"
  by (induction ps "[sep]" rule: strings_Join.induct) (auto simp: strings_Join_eq_Nil split: if_splits)

lemma trimmed_Join:
  assumes "ps \<noteq> []"
  shows "trimmed lib (strings_Join ps [46]) \<longleftrightarrow>
     (hd ps = [] \<or> \<not> rune_IsSpace lib (hd (hd ps))) \<and> (last ps = [] \<or> \<not> rune_IsSpace lib (last (last ps)))"
proof (cases "strings_Join ps [46] = []")
  case True
  with assms have "ps = [[]]" by (simp add: strings_Join_eq_Nil)
  then show ?thesis by (simp add: trimmed_def)
next
  case False
  with assms show ?thesis
    using hd_Join [of "hd ps" "tl ps" 46] last_Join [OF assms False] token_rune_space [of 46 lib]
    by (auto simp: trimmed_def)
qed

definition subjectParts :: "text_lib \<Rightarrow> gostring \<Rightarrow> gostring list" where
  "subjectParts lib s = strings_Split 46 (strings_TrimSpace lib s)"

lemma format_trimmed:
  assumes "uuid_text lib"
  shows "formatTopicPart lib tok = [] \<or> (\<not> rune_IsSpace lib (hd (formatTopicPart lib tok))
     \<and> \<not> rune_IsSpace lib (last (formatTopicPart lib tok)))"
  using format_runes [OF assms, of tok] by (auto simp: list_all_iff token_rune_space)

lemma TrimSpace_format: "uuid_text lib \<Longrightarrow> tokens \<noteq> [] \<Longrightarrow> strings_TrimSpace lib (formatTopic lib tokens) = formatTopic lib tokens"
  using format_trimmed [of lib "hd tokens"] format_trimmed [of lib "last tokens"]
  by (intro TrimSpace_trimmed) (auto simp: formatTopic_def trimmed_Join hd_map last_map)

lemma Split_format: "uuid_text lib \<Longrightarrow> tokens \<noteq> [] \<Longrightarrow> strings_Split 46 (formatTopic lib tokens) = map (formatTopicPart lib) tokens"
  unfolding formatTopic_def by (rule strings_Split_Join) (auto simp: format_parts)

section \<open>Patterns\<close>

text \<open>The tokens a pattern of \<open>n\<close> tokens is compared with.\<close>

definition expandParts :: "nat \<Rightarrow> gostring list \<Rightarrow> gostring list" where
  "expandParts n parts =
     (case fullWildcardIdx parts of None \<Rightarrow> parts | Some k \<Rightarrow> take k parts @ replicate (n - k) [42])"

definition partsFit :: "nat \<Rightarrow> gostring list \<Rightarrow> bool" where
  "partsFit n parts \<longleftrightarrow>
     (case fullWildcardIdx parts of
        None \<Rightarrow> length parts = n | Some k \<Rightarrow> k = length parts - 1 \<and> k < n)"

fun matchAll ::
  "topicToken list \<Rightarrow> gostring list \<Rightarrow> (string, gostring) gomap \<Rightarrow> (string, gostring) gomap option"
where
  "matchAll (tok # toks) (p # ps) m =
     (if tk_isLiteral tok
      then (if p \<noteq> runes (tk_field tok) \<and> p \<noteq> [42] \<and> p \<noteq> [62] then None else matchAll toks ps m)
      else matchAll toks ps (gput (tk_field tok) p m))"
| "matchAll [] ps m = Some m"
| "matchAll (tok # toks) [] m = None"

lemma matchTokens_None: "matchTokens None parts i toks m = matchAll toks (drop i parts) m"
proof (induction toks arbitrary: i m)
  case (Cons tok toks)
  show ?case
  proof (cases "i < length parts")
    case True
    then have "drop i parts = parts ! i # drop (Suc i) parts" by (simp add: Cons_nth_drop_Suc)
    with True Cons show ?thesis by simp
  qed simp
qed simp

lemma matchTokens_covered:
  "k \<le> i \<Longrightarrow> matchTokens (Some k) parts i toks m = matchAll toks (replicate (length toks) [42]) m"
  by (induction toks arbitrary: i m) auto

lemma matchTokens_Some:
  "i \<le> k \<Longrightarrow> k \<le> length parts \<Longrightarrow> k - i \<le> length toks \<Longrightarrow>
     matchTokens (Some k) parts i toks m = matchAll toks (drop i (take k parts) @ replicate (length toks - (k - i)) [42]) m"
proof (induction toks arbitrary: i m)
  case (Cons tok toks)
  show ?case
  proof (cases "i = k")
    case True
    then show ?thesis using matchTokens_covered [of k i parts "tok # toks" m] by simp
  next
    case False
    with Cons.prems have "drop i (take k parts) = parts ! i # drop (Suc i) (take k parts)"
      by (metis Cons_nth_drop_Suc le_neq_implies_less length_take min.absorb2 nth_take)
    with False Cons show ?thesis by (auto simp: Suc_diff_le diff_Suc_less)
  qed
qed simp

lemma length_takeWhile_found: "x \<in> set xs \<Longrightarrow> \<not> P x \<Longrightarrow> length (takeWhile P xs) < length xs"
  by (induction xs) auto

lemma matchesPattern_expand:
  "matchesPattern s toks =
     (if partsFit (length toks) (strings_Split 46 s)
      then matchAll toks (expandParts (length toks) (strings_Split 46 s)) [] else None)"
proof (cases "fullWildcardIdx (strings_Split 46 s)")
  case None
  then show ?thesis
    by (simp add: matchesPattern_def Let_def partsFit_def expandParts_def matchTokens_None)
next
  case (Some k)
  then have "k < length (strings_Split 46 s)"
    by (auto simp: fullWildcardIdx_def split: if_splits intro: length_takeWhile_found)
  with Some show ?thesis
    by (auto simp: matchesPattern_def Let_def partsFit_def expandParts_def matchTokens_Some)
qed

lemma topicMatches_filter:
  "topicMatches s = map (\<lambda>spec. (spec, the (matchesPattern s (fst (snd spec)))))
     (filter (\<lambda>spec. matchesPattern s (fst (snd spec)) \<noteq> None) knownTopics)"
proof -
  have "concat (map (\<lambda>spec. case matchesPattern s (fst (snd spec)) of None \<Rightarrow> [] | Some f \<Rightarrow> [(spec, f)]) xs) =
      map (\<lambda>spec. (spec, the (matchesPattern s (fst (snd spec)))))
        (filter (\<lambda>spec. matchesPattern s (fst (snd spec)) \<noteq> None) xs)"
    for xs :: "(TopicType \<times> topicToken list \<times> topicFactory) list"
    by (induction xs) auto
  then show ?thesis by (simp add: topicMatches_def)
qed

end
