(* ===== verification/TopicProperties.thy ===== *)
theory TopicProperties
  imports TopicLemmas
begin

text \<open>
  What the topics promise: what is printed parses back, a subscription topic matches exactly the
  events the broker would deliver for its subject, and \<open>WithTenant\<close> sets the tenant of a subject
  and nothing else.
\<close>

section \<open>Parsing what was printed\<close>

text \<open>What the string fields of a topic become in its subject.\<close>

definition printed :: "text_lib \<Rightarrow> gostring \<Rightarrow> gostring" where
  "printed lib s = formatTopicPart lib (TokenString s)"

definition printedStream :: "text_lib \<Rightarrow> gostring \<Rightarrow> gostring" where
  "printedStream lib s = printed lib (getStreamName s)"

fun printedTopic :: "text_lib \<Rightarrow> topic \<Rightarrow> topic" where
  "printedTopic lib (CustomEventTopic t) = CustomEventTopic \<lparr>ce_StreamName = printedStream lib (ce_StreamName t)\<rparr>"
| "printedTopic lib (TenantCustomEventTopic t) = TenantCustomEventTopic
     \<lparr>tc_StreamName = printedStream lib (tc_StreamName t), tc_TenantID = tc_TenantID t,
      tc_EventType = printed lib (tc_EventType t), tc_EntityID = tc_EntityID t,
      tc_OperationName = printed lib (tc_OperationName t)\<rparr>"
| "printedTopic lib (MutationEventTopic t) = MutationEventTopic
     \<lparr>me_StreamName = printedStream lib (me_StreamName t), me_TenantID = me_TenantID t,
      me_ServiceName = printed lib (me_ServiceName t), me_SchemaName = printed lib (me_SchemaName t),
      me_EntityID = me_EntityID t, me_OperationName = printed lib (me_OperationName t)\<rparr>"
| "printedTopic lib (MutationEventWithReplyTopic t) = MutationEventWithReplyTopic
     \<lparr>mr_StreamName = printedStream lib (mr_StreamName t), mr_TenantID = mr_TenantID t,
      mr_ServiceName = printed lib (mr_ServiceName t), mr_SchemaName = printed lib (mr_SchemaName t),
      mr_EntityID = mr_EntityID t, mr_OperationName = printed lib (mr_OperationName t)\<rparr>"
| "printedTopic lib (DeadLetterEventTopic t) = DeadLetterEventTopic
     \<lparr>dl_StreamName = printedStream lib (dl_StreamName t), dl_TenantID = dl_TenantID t,
      dl_ServiceName = printed lib (dl_ServiceName t), dl_SchemaName = printed lib (dl_SchemaName t),
      dl_EntityID = dl_EntityID t, dl_OperationName = printed lib (dl_OperationName t)\<rparr>"
| "printedTopic lib (UpdateEventTopic t) = UpdateEventTopic
     \<lparr>ue_StreamName = printedStream lib (ue_StreamName t), ue_TenantID = ue_TenantID t,
      ue_ServiceName = printed lib (ue_ServiceName t), ue_SchemaName = printed lib (ue_SchemaName t),
      ue_EntityID = ue_EntityID t, ue_OperationName = printed lib (ue_OperationName t),
      ue_AttributeName = printed lib (ue_AttributeName t)\<rparr>"
| "printedTopic lib (WorkflowEventTopic t) = WorkflowEventTopic
     \<lparr>we_StreamName = printedStream lib (we_StreamName t), we_TenantID = we_TenantID t,
      we_WorkflowID = we_WorkflowID t, we_WorkflowName = printed lib (we_WorkflowName t)\<rparr>"
| "printedTopic lib (TemporalWorkflowStateChangeTopic t) = TemporalWorkflowStateChangeTopic
     \<lparr>ts_StreamName = printedStream lib (ts_StreamName t), ts_Namespace = printed lib (ts_Namespace t),
      ts_TaskQueue = printed lib (ts_TaskQueue t), ts_WorkflowTypeName = printed lib (ts_WorkflowTypeName t),
      ts_WorkflowID = printed lib (ts_WorkflowID t), ts_RunID = printed lib (ts_RunID t),
      ts_Status = printed lib (ts_Status t)\<rparr>"

lemmas topic_String_defs =
  CustomEventTopic_String_def TenantCustomEventTopic_String_def MutationEventTopic_String_def
  MutationEventWithReplyTopic_String_def DeadLetterEventTopic_String_def UpdateEventTopic_String_def
  WorkflowEventTopic_String_def TemporalWorkflowStateChangeTopic_String_def

lemmas topic_pattern_defs =
  customEventPattern_def tenantCustomEventPattern_def mutationEventPattern_def
  mutationEventWithReplyPattern_def updateEventPattern_def workflowEventPattern_def temporalWorkflowEventPattern_def

lemmas topic_factory_defs =
  customEventFactory_def tenantCustomEventFactory_def mutationEventFactory_def
  mutationEventWithReplyFactory_def updateEventFactory_def workflowEventFactory_def temporalWorkflowEventFactory_def

lemmas topic_builder_defs = newFieldBuilder_def getString_def getUUID_def factoryResult_def unescapeTopicToken_def Let_def

lemma formatTopic_not_Nil: "2 \<le> length tokens \<Longrightarrow> formatTopic lib tokens \<noteq> []"
  by (cases tokens; cases "tl tokens") (auto simp: formatTopic_def strings_Join_eq_Nil)

lemma no_full_wildcard: "uuid_text lib \<Longrightarrow> fullWildcardIdx (map (formatTopicPart lib) tokens) = None"
  using format_parts(2) by (auto simp: fullWildcardIdx_def) metis

lemma matchesPattern_format:
  assumes "uuid_text lib" and "tokens \<noteq> []"
  shows "matchesPattern (formatTopic lib tokens) toks =
     (if length tokens = length toks then matchAll toks (map (formatTopicPart lib) tokens) [] else None)"
  using assms by (simp add: matchesPattern_expand Split_format partsFit_def expandParts_def no_full_wildcard)

lemma parse_uuid_token: "uuid_text lib \<Longrightarrow> parseUUIDOrWildcard lib (formatTopicPart lib (TokenUUID u)) = Some u"
  using uuid_textD(1,3) [of lib u] by (auto simp: parseUUIDOrWildcard_def format_uuid simp del: formatTopicPart.simps)

text \<open>
  C20: parsing inverts printing, token normalisation aside. Every topic but a dead letter parses
  from its own subject, never ambiguously, to a pointer to itself with its string fields as they
  are printed; a state change needs a namespace that reads as a tenant or is empty; a dead-letter
  subject is of no known type.
\<close>
theorem topic_round_trip:
  assumes lib: "uuid_text lib"
  shows "Parse lib (topic_String lib t) =
    (case t of
       DeadLetterEventTopic _ \<Rightarrow> Inl ErrUnknownTopicType
     | TemporalWorkflowStateChangeTopic s \<Rightarrow>
         (case parseNamespace lib (printed lib (ts_Namespace s)) of
            Inl err \<Rightarrow> Inl err | Inr _ \<Rightarrow> Inr (TopicPointer (printedTopic lib t)))
     | _ \<Rightarrow> Inr (TopicPointer (printedTopic lib t)))"
proof -
  note parse = Parse_def TrimSpace_format [OF lib] formatTopic_not_Nil topicMatches_def knownTopics_def
    topic_pattern_defs matchesPattern_format [OF lib] topic_String_defs
  note eval = topic_factory_defs topic_builder_defs parse_uuid_token [OF lib] printed_def printedStream_def
  show ?thesis
    by (cases t; simp add: parse runes_def del: formatTopicPart.simps; simp add: eval split: sum.split del: formatTopicPart.simps)
qed

section \<open>Matching\<close>

text \<open>
  How NATS matches a subject against a subscription (the rules \<open>IsValidSubscriptionSubject\<close> cites):
  \<open>*\<close> stands for one token, a final \<open>>\<close> for one or more.
\<close>

fun nats_match :: "gostring list \<Rightarrow> gostring list \<Rightarrow> bool" where
  "nats_match [] [] = True"
| "nats_match (p # ps) (x # xs) = ((p = [62] \<and> ps = []) \<or> ((p = [42] \<or> p = x) \<and> nats_match ps xs))"
| "nats_match _ _ = False"

definition delivers :: "gostring \<Rightarrow> gostring \<Rightarrow> bool" where
  "delivers subscription subject \<longleftrightarrow> nats_match (strings_Split 46 subscription) (strings_Split 46 subject)"

text \<open>A subscription: each field a token or left open. A published event: each field a token.\<close>

abbreviation open_ok :: "gostring \<Rightarrow> bool" where
  "open_ok s \<equiv> s = [] \<or> token_ok s"

fun subscription_topic :: "topic \<Rightarrow> bool" where
  "subscription_topic (CustomEventTopic t) = open_ok (ce_StreamName t)"
| "subscription_topic (TenantCustomEventTopic t) =
     (open_ok (tc_StreamName t) \<and> open_ok (tc_EventType t) \<and> open_ok (tc_OperationName t))"
| "subscription_topic (MutationEventTopic t) =
     (open_ok (me_StreamName t) \<and> open_ok (me_ServiceName t) \<and> open_ok (me_SchemaName t) \<and> open_ok (me_OperationName t))"
| "subscription_topic (MutationEventWithReplyTopic t) =
     (open_ok (mr_StreamName t) \<and> open_ok (mr_ServiceName t) \<and> open_ok (mr_SchemaName t) \<and> open_ok (mr_OperationName t))"
| "subscription_topic (DeadLetterEventTopic t) =
     (open_ok (dl_StreamName t) \<and> open_ok (dl_ServiceName t) \<and> open_ok (dl_SchemaName t) \<and> open_ok (dl_OperationName t))"
| "subscription_topic (UpdateEventTopic t) =
     (open_ok (ue_StreamName t) \<and> open_ok (ue_ServiceName t) \<and> open_ok (ue_SchemaName t)
      \<and> open_ok (ue_OperationName t) \<and> open_ok (ue_AttributeName t))"
| "subscription_topic (WorkflowEventTopic t) = (open_ok (we_StreamName t) \<and> open_ok (we_WorkflowName t))"
| "subscription_topic (TemporalWorkflowStateChangeTopic t) =
     (open_ok (ts_StreamName t) \<and> open_ok (ts_Namespace t) \<and> open_ok (ts_TaskQueue t)
      \<and> open_ok (ts_WorkflowTypeName t) \<and> open_ok (ts_WorkflowID t) \<and> open_ok (ts_RunID t) \<and> open_ok (ts_Status t))"

fun published_topic :: "topic \<Rightarrow> bool" where
  "published_topic (CustomEventTopic t) = open_ok (ce_StreamName t)"
| "published_topic (TenantCustomEventTopic t) =
     (open_ok (tc_StreamName t) \<and> tc_TenantID t \<noteq> uuid_Nil \<and> token_ok (tc_EventType t) \<and> tc_EntityID t \<noteq> uuid_Nil
      \<and> token_ok (tc_OperationName t))"
| "published_topic (MutationEventTopic t) =
     (open_ok (me_StreamName t) \<and> me_TenantID t \<noteq> uuid_Nil \<and> token_ok (me_ServiceName t) \<and> token_ok (me_SchemaName t)
      \<and> me_EntityID t \<noteq> uuid_Nil \<and> token_ok (me_OperationName t))"
| "published_topic (MutationEventWithReplyTopic t) =
     (open_ok (mr_StreamName t) \<and> mr_TenantID t \<noteq> uuid_Nil \<and> token_ok (mr_ServiceName t) \<and> token_ok (mr_SchemaName t)
      \<and> mr_EntityID t \<noteq> uuid_Nil \<and> token_ok (mr_OperationName t))"
| "published_topic (DeadLetterEventTopic t) =
     (open_ok (dl_StreamName t) \<and> dl_TenantID t \<noteq> uuid_Nil \<and> token_ok (dl_ServiceName t) \<and> token_ok (dl_SchemaName t)
      \<and> dl_EntityID t \<noteq> uuid_Nil \<and> token_ok (dl_OperationName t))"
| "published_topic (UpdateEventTopic t) =
     (open_ok (ue_StreamName t) \<and> ue_TenantID t \<noteq> uuid_Nil \<and> token_ok (ue_ServiceName t) \<and> token_ok (ue_SchemaName t)
      \<and> ue_EntityID t \<noteq> uuid_Nil \<and> token_ok (ue_OperationName t) \<and> token_ok (ue_AttributeName t))"
| "published_topic (WorkflowEventTopic t) =
     (open_ok (we_StreamName t) \<and> we_TenantID t \<noteq> uuid_Nil \<and> we_WorkflowID t \<noteq> uuid_Nil \<and> token_ok (we_WorkflowName t))"
| "published_topic (TemporalWorkflowStateChangeTopic t) =
     (open_ok (ts_StreamName t) \<and> token_ok (ts_Namespace t) \<and> token_ok (ts_TaskQueue t)
      \<and> token_ok (ts_WorkflowTypeName t) \<and> token_ok (ts_WorkflowID t) \<and> token_ok (ts_RunID t) \<and> token_ok (ts_Status t))"

lemmas topic_Matches_defs =
  CustomEventTopic_Matches_def TenantCustomEventTopic_Matches_def MutationEventTopic_Matches_def
  MutationEventWithReplyTopic_Matches_def DeadLetterEventTopic_Matches_def UpdateEventTopic_Matches_def
  WorkflowEventTopic_Matches_def TemporalWorkflowStateChangeTopic_Matches_def

lemma match_string_token:
  "open_ok p \<Longrightarrow> token_ok v \<Longrightarrow>
     (formatTopicPart lib (TokenString p) = [42] \<or> formatTopicPart lib (TokenString p) = formatTopicPart lib (TokenString v))
       \<longleftrightarrow> matchesString p v"
  by (auto simp: matchesString_def format_token simp del: formatTopicPart.simps)

lemma match_stream_token:
  assumes "open_ok p" and "open_ok v"
  shows "(formatTopicPart lib (TokenString (getStreamName p)) = [42] \<or>
      formatTopicPart lib (TokenString (getStreamName p)) = formatTopicPart lib (TokenString (getStreamName v)))
    \<longleftrightarrow> matchesStream (getStreamName p) (getStreamName v)"
  using stream_token [OF assms(1)] stream_token [OF assms(2)]
  by (auto simp: matchesStream_def format_token simp del: formatTopicPart.simps)

lemma match_uuid_token:
  "uuid_text lib \<Longrightarrow> v \<noteq> uuid_Nil \<Longrightarrow>
     (formatTopicPart lib (TokenUUID p) = [42] \<or> formatTopicPart lib (TokenUUID p) = formatTopicPart lib (TokenUUID v))
       \<longleftrightarrow> matchesUUID p v"
  using uuid_textD(3) [of lib] uuid_textD(4) [of lib] by (auto simp: matchesUUID_def format_uuid simp del: formatTopicPart.simps)

text \<open>
  C21: \<open>Matches\<close> decides what the broker delivers. For a subscription whose fields are tokens or
  left open and an event whose fields are tokens, the topics match exactly when NATS matches the
  subject of the one against the subject of the other, whatever their types and whether the event
  comes as a struct or a pointer.
\<close>
theorem matches_is_delivery:
  assumes lib: "uuid_text lib" and "subscription_topic a" and "published_topic (topic_of b)"
  shows "topic_Matches a b \<longleftrightarrow> delivers (topic_String lib a) (topic_String lib (topic_of b))"
proof -
  have tenant: "matchesTenant (Inr p) (Inr v) = matchesUUID p v" for p v
    by (simp add: matchesTenant_def matchesUUID_def)
  note tokens = match_string_token match_stream_token match_uuid_token [OF lib] tenant
  note subjects = delivers_def topic_String_defs Split_format [OF lib] topic_Matches_defs
  show ?thesis
    using assms(2,3) format_parts(2) [OF lib]
    by (cases a; cases "topic_of b"; simp add: subjects runes_def tokens del: formatTopicPart.simps)
qed

end
