(* ===== verification/TenantSubjects.thy ===== *)
theory TenantSubjects
  imports TopicProperties
begin

text \<open>\<open>WithTenant\<close>: the tenant of a subject is set and nothing else changes.\<close>

section \<open>What parsing depends on\<close>

lemma matchAll_defined:
  "matchAll toks ps m \<noteq> None \<longleftrightarrow> length toks \<le> length ps
     \<and> (\<forall>i < length toks. tk_isLiteral (toks ! i) \<longrightarrow> ps ! i \<in> {runes (tk_field (toks ! i)), [42], [62]})"
proof (induction toks ps m rule: matchAll.induct)
  case (1 tok toks p ps m)
  have split: "(\<forall>i < Suc n. Q i) \<longleftrightarrow> Q 0 \<and> (\<forall>i < n. Q (Suc i))" for n and Q :: "nat \<Rightarrow> bool"
    using less_Suc_eq_0_disj by auto
  show ?case using 1 by (auto simp: split)
qed auto

lemma filter_narrow:
  assumes "filter P xs = [x]" and "\<And>y. y \<in> set xs \<Longrightarrow> P' y \<Longrightarrow> P y" and "P' x"
  shows "filter P' xs = [x]"
proof -
  have "filter P' xs = filter P' (filter P xs)"
    using assms(2) by (simp add: filter_filter) (metis (mono_tags, lifting) filter_cong)
  with assms(1,3) show ?thesis by simp
qed

definition specMatches :: "gostring list \<Rightarrow> TopicType \<times> topicToken list \<times> topicFactory \<Rightarrow> bool" where
  "specMatches parts spec \<longleftrightarrow> partsFit (length (fst (snd spec))) parts
     \<and> matchAll (fst (snd spec)) (expandParts (length (fst (snd spec))) parts) [] \<noteq> None"

lemma matchesPattern_spec:
  "matchesPattern (strings_TrimSpace lib s) (fst (snd spec)) \<noteq> None \<longleftrightarrow> specMatches (subjectParts lib s) spec"
  by (auto simp: matchesPattern_expand specMatches_def subjectParts_def)

lemma topicMatches_spec:
  "topicMatches (strings_TrimSpace lib s) =
     map (\<lambda>spec. (spec, the (matchesPattern (strings_TrimSpace lib s) (fst (snd spec)))))
       (filter (specMatches (subjectParts lib s)) knownTopics)"
  unfolding topicMatches_filter matchesPattern_spec ..

text \<open>A subject parses when one pattern matches, to what its expanded tokens give there.\<close>

definition specParse :: "text_lib \<Rightarrow> TopicType \<times> topicToken list \<times> topicFactory \<Rightarrow> gostring list \<Rightarrow> topic_error + topic" where
  "specParse lib spec ps =
     (case typedFields lib (the (matchAll (fst (snd spec)) ps [])) (fst (snd spec)) [] of
        Inl err \<Rightarrow> Inl err | Inr vals \<Rightarrow> snd (snd spec) lib vals)"

lemma the_matchesPattern:
  "specMatches (subjectParts lib s) spec \<Longrightarrow>
     the (matchesPattern (strings_TrimSpace lib s) (fst (snd spec))) =
       the (matchAll (fst (snd spec)) (expandParts (length (fst (snd spec))) (subjectParts lib s)) [])"
  by (simp add: specMatches_def matchesPattern_expand subjectParts_def)

lemma Parse_spec:
  assumes "strings_TrimSpace lib s \<noteq> []" and one: "filter (specMatches (subjectParts lib s)) knownTopics = [spec]"
  shows "Parse lib s = (case specParse lib spec (expandParts (length (fst (snd spec))) (subjectParts lib s)) of
     Inl err \<Rightarrow> Inl err | Inr t \<Rightarrow> Inr (TopicPointer t))"
proof -
  from one have spec: "specMatches (subjectParts lib s) spec"
    by (metis (no_types, lifting) filter_eq_Cons_iff)
  obtain ty tokens factory where [simp]: "spec = (ty, tokens, factory)" by (cases spec) auto
  show ?thesis
    using assms the_matchesPattern [OF spec]
    by (simp add: Parse_def Let_def topicMatches_spec specParse_def split: sum.splits)
qed

lemma Parse_InrE:
  assumes "Parse lib s = Inr v"
  obtains spec t where "strings_TrimSpace lib s \<noteq> []" "filter (specMatches (subjectParts lib s)) knownTopics = [spec]"
    "specParse lib spec (expandParts (length (fst (snd spec))) (subjectParts lib s)) = Inr t" "v = TopicPointer t"
proof -
  from assms have ne: "strings_TrimSpace lib s \<noteq> []" by (auto simp: Parse_def Let_def)
  have "\<exists>spec. filter (specMatches (subjectParts lib s)) knownTopics = [spec]"
  proof (cases "filter (specMatches (subjectParts lib s)) knownTopics")
    case Nil
    with assms ne show ?thesis by (simp add: Parse_def Let_def topicMatches_spec)
  next
    case (Cons a as)
    with assms ne show ?thesis
      by (cases as; cases a) (auto simp: Parse_def Let_def topicMatches_spec)
  qed
  then obtain spec where one: "filter (specMatches (subjectParts lib s)) knownTopics = [spec]" by blast
  from assms Parse_spec [OF ne one] that [OF ne one] show ?thesis by (auto split: sum.splits)
qed

section \<open>The tokens of the result\<close>

lemma fullWildcardIdx_last: "[62] \<notin> set pre \<Longrightarrow> fullWildcardIdx (pre @ [[62]]) = Some (length pre)"
  by (induction pre) (auto simp: fullWildcardIdx_def)

lemma fullWildcardIdx_none: "[62] \<notin> set ps \<Longrightarrow> fullWildcardIdx ps = None"
  by (simp add: fullWildcardIdx_def)

lemma partsFit_cases:
  assumes "partsFit n parts" and "parts \<noteq> []"
  obtains (exact) "[62] \<notin> set parts" "length parts = n"
  | (openEnd) pre where "parts = pre @ [[62]]" "[62] \<notin> set pre" "length pre < n"
proof (cases "[62] \<in> set parts")
  case True
  define k where "k = length (takeWhile (\<lambda>p. p \<noteq> [62]) parts)"
  from True have k: "fullWildcardIdx parts = Some k" by (simp add: fullWildcardIdx_def k_def)
  with assms have len: "k = length parts - 1" "k < n" by (simp_all add: partsFit_def)
  have pre: "takeWhile (\<lambda>p. p \<noteq> [62]) parts = take k parts"
    unfolding k_def by (rule takeWhile_eq_take)
  have "parts ! k = [62]"
    unfolding k_def
    using nth_length_takeWhile [of "\<lambda>p. p \<noteq> [62]" parts] length_takeWhile_found [OF True, of "\<lambda>p. p \<noteq> [62]"] by blast
  moreover have "parts = take k parts @ [parts ! k]"
    using len(1) assms(2) by (metis append_butlast_last_id butlast_conv_take last_conv_nth)
  moreover have "[62] \<notin> set (take k parts)" unfolding pre [symmetric] by (auto dest: set_takeWhileD)
  moreover have "length (take k parts) < n" using len by simp
  ultimately show ?thesis using openEnd by metis
next
  case False
  with assms exact show ?thesis by (simp add: partsFit_def fullWildcardIdx_none)
qed

definition withTenantParts :: "gostring \<Rightarrow> nat \<Rightarrow> nat \<Rightarrow> gostring list \<Rightarrow> gostring list" where
  "withTenantParts tid idx n parts =
     (let last = length parts - 1 in
      (if parts ! last = [62] \<and> last \<le> idx
       then take last parts @ replicate (idx + 1 - last) [42] @ (if idx < n - 1 then [[62]] else [])
       else parts)[idx := tid])"

text \<open>Three shapes: no open end, one behind the tenant, one that covers it.\<close>

lemma withTenantParts_cases:
  assumes fit: "partsFit n parts" and ne: "parts \<noteq> []" and idx: "Suc idx < n"
  obtains (exact) "[62] \<notin> set parts" "length parts = n" "withTenantParts tid idx n parts = parts[idx := tid]"
  | (behind) pre where "parts = pre @ [[62]]" "[62] \<notin> set pre" "length pre < n" "idx < length pre"
      "withTenantParts tid idx n parts = pre[idx := tid] @ [[62]]"
  | (covered) pre where "parts = pre @ [[62]]" "[62] \<notin> set pre" "length pre \<le> idx"
      "withTenantParts tid idx n parts = pre @ replicate (idx - length pre) [42] @ [tid, [62]]"
  using fit ne
proof (cases rule: partsFit_cases)
  case exact
  then have "parts ! (length parts - 1) \<noteq> [62]"
    by (metis One_nat_def diff_Suc_less length_greater_0_conv ne nth_mem)
  with exact that(1) show ?thesis by (simp add: withTenantParts_def)
next
  case (openEnd pre)
  show ?thesis
  proof (cases "idx < length pre")
    case True
    with openEnd that(2) show ?thesis by (simp add: withTenantParts_def list_update_append)
  next
    case False
    then have "replicate (Suc idx - length pre) [42] = replicate (idx - length pre) [42::nat] @ [[42]]"
      by (simp add: Suc_diff_le replicate_append_same [symmetric])
    then have "(pre @ replicate (Suc idx - length pre) [42] @ [[62]])[idx := tid] =
        pre @ replicate (idx - length pre) [42] @ [tid, [62]]"
      using False by (simp add: list_update_append)
    moreover from idx have "idx < n - 1" by simp
    ultimately show ?thesis using False openEnd
      by (intro that(3) [of pre]) (simp_all add: withTenantParts_def)
  qed
qed

lemma expand_withTenant:
  assumes fit: "partsFit n parts" and ne: "parts \<noteq> []" and idx: "Suc idx < n" and tid: "tid \<noteq> [62]"
    and q: "partsFit q (withTenantParts tid idx n parts)"
  shows "partsFit q parts \<and> expandParts q (withTenantParts tid idx n parts) = (expandParts q parts)[idx := tid]"
  using fit ne idx
proof (cases rule: withTenantParts_cases [where tid = tid])
  case exact
  moreover from this tid have "[62] \<notin> set (parts[idx := tid])" using set_update_subset_insert [of parts idx tid] by auto
  ultimately show ?thesis using q by (simp add: partsFit_def expandParts_def fullWildcardIdx_none)
next
  case (behind pre)
  moreover from this tid have "[62] \<notin> set (pre[idx := tid])" using set_update_subset_insert [of pre idx tid] by auto
  ultimately show ?thesis using q
    by (simp add: partsFit_def expandParts_def fullWildcardIdx_last list_update_append)
next
  case (covered pre)
  have "[62] \<notin> set (pre @ replicate (idx - length pre) [42] @ [tid])" using covered(2) tid by auto
  from fullWildcardIdx_last [OF this] have k: "fullWildcardIdx (withTenantParts tid idx n parts) = Some (Suc idx)"
    using covered(3) by (simp add: covered(4))
  with q have "Suc idx < q" by (simp add: partsFit_def)
  moreover from this covered(3) have "replicate (q - length pre) [42] =
      replicate (idx - length pre) [42] @ [42] # replicate (q - Suc idx) [42::nat]"
    by (simp add: replicate_add [symmetric] replicate_Suc [symmetric] del: replicate_Suc)
  ultimately show ?thesis using covered k
    by (simp add: partsFit_def expandParts_def fullWildcardIdx_last list_update_append)
qed

lemma partsFit_withTenant:
  assumes fit: "partsFit n parts" and ne: "parts \<noteq> []" and idx: "Suc idx < n" and tid: "tid \<noteq> [62]"
  shows "partsFit n (withTenantParts tid idx n parts)"
  using fit ne idx
proof (cases rule: withTenantParts_cases [where tid = tid])
  case exact
  moreover from this tid have "[62] \<notin> set (parts[idx := tid])" using set_update_subset_insert [of parts idx tid] by auto
  ultimately show ?thesis by (simp add: partsFit_def fullWildcardIdx_none)
next
  case (behind pre)
  moreover from this tid have "[62] \<notin> set (pre[idx := tid])" using set_update_subset_insert [of pre idx tid] by auto
  ultimately show ?thesis by (simp add: partsFit_def fullWildcardIdx_last)
next
  case (covered pre)
  have "[62] \<notin> set (pre @ replicate (idx - length pre) [42] @ [tid])" using covered(2) tid by auto
  from fullWildcardIdx_last [OF this] covered(3,4) idx show ?thesis by (simp add: partsFit_def)
qed

section \<open>The topic of the result\<close>

lemma known_patterns:
  assumes "spec \<in> set knownTopics"
  shows known_literals: "tok \<in> set (fst (snd spec)) \<Longrightarrow> length (runes (tk_field tok)) < 36"
    and known_tenant: "tenantIndex (fst (snd spec)) = Some idx \<Longrightarrow> 0 < idx \<and> Suc idx < length (fst (snd spec))"
    and known_patternOf: "patternOf (fst spec) = fst (snd spec)"
  using assms
  by (auto simp: knownTopics_def topic_pattern_defs runes_def tenantIndex_def patternOf_def Let_def)

lemma specMatches_narrow:
  assumes known: "y \<in> set knownTopics" and fit: "partsFit n parts" "parts \<noteq> []" and idx: "Suc idx < n"
    and tid: "token_ok tid" "36 \<le> length tid" and y: "specMatches (withTenantParts tid idx n parts) y"
  shows "specMatches parts y"
proof -
  let ?q = "length (fst (snd y))" and ?toks = "fst (snd y)"
  from y have q: "partsFit ?q (withTenantParts tid idx n parts)" by (simp add: specMatches_def)
  from expand_withTenant [OF fit idx _ this] tid(1) have fit': "partsFit ?q parts"
    and exp: "expandParts ?q (withTenantParts tid idx n parts) = (expandParts ?q parts)[idx := tid]" by auto
  have "expandParts ?q parts ! i \<in> {runes (tk_field (?toks ! i)), [42], [62]}"
    if "i < ?q" "tk_isLiteral (?toks ! i)" "i < length (expandParts ?q parts)"
      "(expandParts ?q parts)[idx := tid] ! i \<in> {runes (tk_field (?toks ! i)), [42], [62]}" for i
    using that known_literals [OF known nth_mem [OF that(1)]] tid by (cases "i = idx") auto
  with y fit' show ?thesis
    unfolding specMatches_def exp matchAll_defined by auto
qed

lemma list_of_length: "length xs = Suc n \<longleftrightarrow> (\<exists>y ys. xs = y # ys \<and> length ys = n)"
  by (cases xs) auto

text \<open>Once a pattern matches, the typed fields can be read off its tokens.\<close>

fun tokenFields ::
  "text_lib \<Rightarrow> topicToken list \<Rightarrow> gostring list \<Rightarrow> (string, field_value) gomap \<Rightarrow> topic_error + (string, field_value) gomap"
where
  "tokenFields lib (tok # toks) (p # ps) acc =
     (if tk_isLiteral tok then tokenFields lib toks ps acc
      else case tk_fieldType tok of
             FieldTypeString \<Rightarrow> tokenFields lib toks ps (gput (tk_field tok) (FieldString p) acc)
           | FieldTypeUUID \<Rightarrow>
               (case parseUUIDOrWildcard lib p of
                  None \<Rightarrow> Inl ErrInvalidUUID
                | Some u \<Rightarrow> tokenFields lib toks ps (gput (tk_field tok) (FieldUUID u) acc)))"
| "tokenFields lib _ _ acc = Inr acc"

abbreviation variables :: "topicToken list \<Rightarrow> string list" where
  "variables toks \<equiv> map tk_field (filter (\<lambda>tok. \<not> tk_isLiteral tok) toks)"

lemma matchAll_other: "matchAll toks ps m = Some m' \<Longrightarrow> k \<notin> set (variables toks) \<Longrightarrow> gget m' k = gget m k"
  by (induction toks ps m rule: matchAll.induct) (auto split: if_splits)

lemma matchAll_fields:
  assumes "matchAll toks ps m = Some m'" and "distinct (variables toks)"
  shows "typedFields lib m' toks acc = tokenFields lib toks ps acc"
  using assms
proof (induction toks ps m arbitrary: acc rule: matchAll.induct)
  case (1 tok toks p ps m)
  show ?case
  proof (cases "tk_isLiteral tok")
    case True
    with 1 show ?thesis by (auto split: if_splits)
  next
    case False
    with 1 have "gget m' (tk_field tok) = Some p"
      using matchAll_other [of toks ps "gput (tk_field tok) p m" m' "tk_field tok"] by simp
    with False 1 show ?thesis by (auto split: fieldType.splits option.splits)
  qed
qed auto

lemma specParse_fields:
  assumes "spec \<in> set knownTopics" and "matchAll (fst (snd spec)) ps [] \<noteq> None"
  shows "specParse lib spec ps =
    (case tokenFields lib (fst (snd spec)) ps [] of Inl err \<Rightarrow> Inl err | Inr vals \<Rightarrow> snd (snd spec) lib vals)"
proof -
  have "distinct (variables (fst (snd spec)))"
    using assms(1) by (auto simp: knownTopics_def topic_pattern_defs)
  with assms(2) show ?thesis by (auto simp: specParse_def matchAll_fields)
qed

lemma tokenFields_tenant:
  assumes lib: "uuid_text lib" and known: "(ty, toks, factory) \<in> set knownTopics" and idx: "tenantIndex toks = Some idx"
    and len: "length ps = length toks"
    and t: "(case tokenFields lib toks ps [] of Inl err \<Rightarrow> Inl err | Inr vals \<Rightarrow> factory lib vals) = Inr t"
  shows "(case tokenFields lib toks (ps[idx := tx_string lib tid]) [] of Inl err \<Rightarrow> Inl err | Inr vals \<Rightarrow> factory lib vals)
       = Inr (SetTenantID lib tid t) \<and> topic_Type t = ty
    \<and> (\<exists>u. GetTenantID lib t = Some (Inr u) \<and> parseUUIDOrWildcard lib (ps ! idx) = Some u)"
proof -
  have parse: "parseUUIDOrWildcard lib (tx_string lib tid) = Some tid"
    using uuid_textD(1,3) [OF lib, of tid] by (auto simp: parseUUIDOrWildcard_def)
  have empty: "parseUUIDOrWildcard lib [] = None"
    using uuid_textD(5) [OF lib] by (simp add: parseUUIDOrWildcard_def)
  note pats = topic_pattern_defs topic_factory_defs topic_builder_defs tenantIndex_def
    TemporalWorkflowStateChangeTopic_GetTenantID_def parseNamespace_def
  from known idx len t show ?thesis
    unfolding knownTopics_def list.set insert_iff prod.inject
    by (elim disjE; clarsimp simp: pats list_of_length eval_nat_numeral parse empty split: option.splits)
qed

lemma specParse_tenant:
  assumes lib: "uuid_text lib" and known: "spec \<in> set knownTopics" and idx: "tenantIndex (fst (snd spec)) = Some idx"
    and ok: "matchAll (fst (snd spec)) ps [] \<noteq> None" "matchAll (fst (snd spec)) (ps[idx := tx_string lib tid]) [] \<noteq> None"
    and len: "length ps = length (fst (snd spec))" and t: "specParse lib spec ps = Inr t"
  shows "specParse lib spec (ps[idx := tx_string lib tid]) = Inr (SetTenantID lib tid t)"
    and "topic_Type t = fst spec"
    and "\<exists>u. GetTenantID lib t = Some (Inr u) \<and> parseUUIDOrWildcard lib (ps ! idx) = Some u"
  using tokenFields_tenant [OF lib, of "fst spec" "fst (snd spec)" "snd (snd spec)" idx ps t tid] known idx len t
  by (simp_all add: specParse_fields [OF known ok(1)] specParse_fields [OF known ok(2)])

lemma specParse_Type:
  assumes "spec \<in> set knownTopics" and "matchAll (fst (snd spec)) ps [] \<noteq> None" and "specParse lib spec ps = Inr t"
  shows "topic_Type t = fst spec"
  using assms(1) assms(3) [unfolded specParse_fields [OF assms(1,2)]]
  by (auto simp: knownTopics_def topic_factory_defs topic_builder_defs split: sum.splits option.splits field_value.splits)

lemma known_Type: "spec \<in> set knownTopics \<Longrightarrow> spec' \<in> set knownTopics \<Longrightarrow> fst spec = fst spec' \<Longrightarrow> spec = spec'"
  by (auto simp: knownTopics_def)

lemma partsFit_length: "partsFit n parts \<Longrightarrow> parts \<noteq> [] \<Longrightarrow> length (expandParts n parts) = n"
  by (erule partsFit_cases) (auto simp: expandParts_def fullWildcardIdx_none fullWildcardIdx_last)

text \<open>What \<open>WithTenant\<close> starts from.\<close>

lemma WithTenant_InrE:
  assumes "WithTenant lib s tid = Inr s'"
  obtains spec t idx where "spec \<in> set knownTopics" "strings_TrimSpace lib s \<noteq> []"
    "filter (specMatches (subjectParts lib s)) knownTopics = [spec]"
    "specParse lib spec (expandParts (length (fst (snd spec))) (subjectParts lib s)) = Inr t"
    "Parse lib s = Inr (TopicPointer t)" "tenantIndex (fst (snd spec)) = Some idx"
    "s' = strings_Join (withTenantParts (tx_string lib tid) idx (length (fst (snd spec))) (subjectParts lib s)) [46]"
proof -
  from assms obtain v where v: "Parse lib s = Inr v" by (auto simp: WithTenant_def splitSubject_def split: sum.splits)
  from Parse_InrE [OF v] obtain spec t where ne: "strings_TrimSpace lib s \<noteq> []"
    and one: "filter (specMatches (subjectParts lib s)) knownTopics = [spec]"
    and t: "specParse lib spec (expandParts (length (fst (snd spec))) (subjectParts lib s)) = Inr t" "v = TopicPointer t"
    by metis
  from one have spec: "spec \<in> set knownTopics" "specMatches (subjectParts lib s) spec"
    by (metis (no_types, lifting) filter_eq_Cons_iff in_set_conv_decomp)+
  then have "topic_Type t = fst spec" using t(1) by (auto simp: specMatches_def intro: specParse_Type)
  then have pat: "patternOf (topic_Type t) = fst (snd spec)" using known_patternOf [OF spec(1)] by simp
  from assms v t(2) obtain idx where idx: "tenantIndex (fst (snd spec)) = Some idx"
    by (auto simp: WithTenant_def splitSubject_def pat split: option.splits)
  with assms v t(2) have "s' = strings_Join (withTenantParts (tx_string lib tid) idx (length (fst (snd spec))) (subjectParts lib s)) [46]"
    by (simp add: WithTenant_def splitSubject_def pat withTenantParts_def subjectParts_def Let_def)
  with that [OF spec(1) ne one t(1)] v t(2) idx show ?thesis by blast
qed

text \<open>The result is trimmed, so its tokens are the ones written.\<close>

lemma subjectParts_ends:
  "hd (subjectParts lib s) = [] \<or> \<not> rune_IsSpace lib (hd (hd (subjectParts lib s)))"
  "last (subjectParts lib s) = [] \<or> \<not> rune_IsSpace lib (last (last (subjectParts lib s)))"
proof -
  have "trimmed lib (strings_Join (subjectParts lib s) [46])"
    by (simp add: subjectParts_def strings_Join_Split trimmed_TrimSpace)
  then show "hd (subjectParts lib s) = [] \<or> \<not> rune_IsSpace lib (hd (hd (subjectParts lib s)))"
    "last (subjectParts lib s) = [] \<or> \<not> rune_IsSpace lib (last (last (subjectParts lib s)))"
    by (simp_all add: trimmed_Join subjectParts_def)
qed

lemma withTenantParts_ends:
  assumes fit: "partsFit n parts" and ne: "parts \<noteq> []" and idx: "0 < idx" "Suc idx < n"
  shows "hd (withTenantParts tid idx n parts) \<in> {hd parts, [42]}
    \<and> last (withTenantParts tid idx n parts) \<in> {last parts, [62]}
    \<and> set (withTenantParts tid idx n parts) \<subseteq> insert tid (insert [42] (insert [62] (set parts)))
    \<and> 2 \<le> length (withTenantParts tid idx n parts)"
proof -
  have upd: "hd (xs[idx := tid]) = hd xs" for xs
    using idx(1) by (cases xs; cases idx) auto
  show ?thesis using fit ne idx(2)
  proof (cases rule: withTenantParts_cases [where tid = tid])
    case exact
    moreover from this idx ne have "last (parts[idx := tid]) = last parts"
      by (subst last_list_update) auto
    ultimately show ?thesis using upd idx set_update_subset_insert [of parts idx tid] by auto
  next
    case (behind pre)
    then show ?thesis using upd [of pre] idx set_update_subset_insert [of pre idx tid]
      by (auto simp: hd_append split: if_splits)
  next
    case (covered pre)
    then show ?thesis using idx by (cases "pre = []") (auto simp: hd_append hd_replicate)
  qed
qed

lemma withTenantParts_trimmed:
  assumes lib: "uuid_text lib" and fit: "partsFit n (subjectParts lib s)" and idx: "0 < idx" "Suc idx < n"
    and s': "s' = strings_Join (withTenantParts (tx_string lib tid) idx n (subjectParts lib s)) [46]"
  shows "strings_TrimSpace lib s' = s'" "s' \<noteq> []"
    "strings_Split 46 s' = withTenantParts (tx_string lib tid) idx n (subjectParts lib s)"
proof -
  let ?w = "withTenantParts (tx_string lib tid) idx n (subjectParts lib s)"
  have ne: "subjectParts lib s \<noteq> []" by (simp add: subjectParts_def)
  note ends = withTenantParts_ends [OF fit ne idx, of "tx_string lib tid"]
  then have w: "?w \<noteq> []" "?w \<noteq> [[]]" by auto
  have "hd ?w = [] \<or> \<not> rune_IsSpace lib (hd (hd ?w))" "last ?w = [] \<or> \<not> rune_IsSpace lib (last (last ?w))"
    using ends subjectParts_ends [of lib s] token_rune_space [of 42 lib] token_rune_space [of 62 lib] by force+
  then show "strings_TrimSpace lib s' = s'"
    unfolding s' by (intro TrimSpace_trimmed) (simp add: trimmed_Join w(1))
  show "s' \<noteq> []" unfolding s' using w by (simp add: strings_Join_eq_Nil)
  have "46 \<notin> set p" if "p \<in> set ?w" for p
  proof -
    from that ends have "p \<in> {tx_string lib tid, [42], [62]} \<or> p \<in> set (subjectParts lib s)" by blast
    then show ?thesis
      using strings_Split_parts [of p 46] token_ok_not(4) [OF uuid_textD(3) [OF lib, of tid]] by (auto simp: subjectParts_def)
  qed
  then show "strings_Split 46 s' = ?w" unfolding s' using w(1) by (intro strings_Split_Join) auto
qed

lemma subject_with_tenant:
  assumes lib: "uuid_text lib" and run: "WithTenant lib s tid = Inr s'"
  obtains spec t idx where "Parse lib s = Inr (TopicPointer t)" "Parse lib s' = Inr (TopicPointer (SetTenantID lib tid t))"
    "spec \<in> set knownTopics" "topic_Type t = fst spec" "tenantIndex (fst (snd spec)) = Some idx"
    "partsFit (length (fst (snd spec))) (subjectParts lib s)"
    "strings_Split 46 s' = withTenantParts (tx_string lib tid) idx (length (fst (snd spec))) (subjectParts lib s)"
    "\<exists>u. GetTenantID lib t = Some (Inr u)
       \<and> parseUUIDOrWildcard lib (expandParts (length (fst (snd spec))) (subjectParts lib s) ! idx) = Some u"
proof -
  from WithTenant_InrE [OF run] obtain spec t idx where known: "spec \<in> set knownTopics"
    and one: "filter (specMatches (subjectParts lib s)) knownTopics = [spec]"
    and t: "specParse lib spec (expandParts (length (fst (snd spec))) (subjectParts lib s)) = Inr t"
    and parse: "Parse lib s = Inr (TopicPointer t)" and index: "tenantIndex (fst (snd spec)) = Some idx"
    and s': "s' = strings_Join (withTenantParts (tx_string lib tid) idx (length (fst (snd spec))) (subjectParts lib s)) [46]"
    by metis
  let ?n = "length (fst (snd spec))" and ?parts = "subjectParts lib s" and ?tid = "tx_string lib tid"
  have ne: "?parts \<noteq> []" by (simp add: subjectParts_def)
  from one have spec: "specMatches ?parts spec" by (metis (no_types, lifting) filter_eq_Cons_iff)
  then have fit: "partsFit ?n ?parts" and all: "matchAll (fst (snd spec)) (expandParts ?n ?parts) [] \<noteq> None"
    by (simp_all add: specMatches_def)
  note idx = known_tenant [OF known index, THEN conjunct1] known_tenant [OF known index, THEN conjunct2]
  note tid = uuid_textD(3) [OF lib, of tid] uuid_textD(2) [OF lib, of tid]
  note s'_parts = withTenantParts_trimmed [OF lib fit idx s']
  then have parts': "subjectParts lib s' = withTenantParts ?tid idx ?n ?parts" by (simp add: subjectParts_def)
  have fit': "partsFit ?n (withTenantParts ?tid idx ?n ?parts)"
    by (rule partsFit_withTenant [OF fit ne idx(2)]) (use tid in auto)
  have exp: "expandParts ?n (withTenantParts ?tid idx ?n ?parts) = (expandParts ?n ?parts)[idx := ?tid]"
    using expand_withTenant [OF fit ne idx(2) _ fit'] tid(1) by auto
  note len = partsFit_length [OF fit ne]
  have variable: "\<not> tk_isLiteral (fst (snd spec) ! idx)"
    using known index by (auto simp: knownTopics_def topic_pattern_defs tenantIndex_def)
  have all': "matchAll (fst (snd spec)) ((expandParts ?n ?parts)[idx := ?tid]) [] \<noteq> None"
    using all variable unfolding matchAll_defined length_list_update by (metis nth_list_update_neq)
  have "filter (specMatches (subjectParts lib s')) knownTopics = [spec]"
    unfolding parts'
  proof (rule filter_narrow [OF one])
    show "specMatches (withTenantParts ?tid idx ?n ?parts) spec"
      using fit' all' by (simp add: specMatches_def exp)
  qed (rule specMatches_narrow [OF _ fit ne idx(2) tid])
  from Parse_spec [OF _ this] s'_parts(1,2)
  have "Parse lib s' = Inr (TopicPointer (SetTenantID lib tid t))"
    using specParse_tenant(1) [OF lib known index all all' len t] by (simp add: parts' exp)
  with that [OF parse _ known _ index fit s'_parts(3)] specParse_tenant(2,3) [OF lib known index all all' len t]
  show ?thesis by blast
qed

section \<open>What the result is delivered\<close>

text \<open>A published event; the namespace of a state change is a tenant's canonical form.\<close>

definition tenant_event :: "text_lib \<Rightarrow> topic \<Rightarrow> bool" where
  "tenant_event lib e \<longleftrightarrow> published_topic e
     \<and> (case e of
          TemporalWorkflowStateChangeTopic t \<Rightarrow> ParseTenantNamespace lib (ts_Namespace t) \<noteq> None
        | _ \<Rightarrow> True)"

lemma nats_match_exact:
  "[62] \<notin> set ps \<Longrightarrow> nats_match ps xs \<longleftrightarrow> list_all2 (\<lambda>p x. p = [42] \<or> p = x) ps xs"
  by (induction ps xs rule: nats_match.induct) auto

lemma nats_match_open:
  "length pre < length xs \<Longrightarrow>
     nats_match (pre @ [[62]]) xs \<longleftrightarrow> list_all2 (\<lambda>p x. p = [42] \<or> p = x) (pre @ replicate (length xs - length pre) [42]) xs"
proof (induction pre arbitrary: xs)
  case Nil
  have "list_all2 (\<lambda>p x. p = [42] \<or> p = x) (replicate (length xs) [42]) xs" by (induction xs) auto
  with Nil show ?case by (cases xs) auto
next
  case (Cons p pre)
  then show ?case by (cases xs) auto
qed

lemma nats_match_expand:
  "partsFit (length xs) parts \<Longrightarrow> parts \<noteq> [] \<Longrightarrow>
     nats_match parts xs \<longleftrightarrow> list_all2 (\<lambda>p x. p = [42] \<or> p = x) (expandParts (length xs) parts) xs"
  by (erule partsFit_cases) (auto simp: expandParts_def fullWildcardIdx_none fullWildcardIdx_last nats_match_exact nats_match_open)

lemma known_tenantIndex:
  "spec \<in> set knownTopics \<Longrightarrow>
     tenantIndex (fst (snd spec)) = (if fst spec = TopicTypeCustomEvent then None
       else Some (if fst spec = TopicTypeMutationEventWithReply then 3 else 1))
     \<and> fst spec \<noteq> TopicTypeDeadLetterEvent"
  by (auto simp: knownTopics_def topic_pattern_defs tenantIndex_def)

lemma known_length:
  "spec \<in> set knownTopics \<Longrightarrow> uuid_text lib \<Longrightarrow> fst spec = topic_Type e \<Longrightarrow>
     length (strings_Split 46 (topic_String lib e)) = length (fst (snd spec))"
  by (cases e; clarsimp simp: knownTopics_def; elim disjE;
      simp add: topic_String_defs Split_format topic_pattern_defs del: formatTopicPart.simps)

lemma event_tokens:
  assumes lib: "uuid_text lib" and e: "tenant_event lib e"
    and spec: "spec \<in> set knownTopics" "fst spec = topic_Type e" "tenantIndex (fst (snd spec)) = Some idx"
  shows "length (strings_Split 46 (topic_String lib e)) = length (fst (snd spec))"
    and "strings_Split 46 (topic_String lib e) ! idx = tx_string lib tid \<longleftrightarrow> GetTenantID lib e = Some (Inr tid)"
proof -
  have ns: "ns = tx_string lib tid \<longleftrightarrow> tx_parse lib ns = Some tid" if "ParseTenantNamespace lib ns \<noteq> None" for ns
  proof -
    from that obtain i where "tx_parse lib ns = Some i" "tx_string lib i = ns"
      by (auto simp: ParseTenantNamespace_def canonicalTenantID_def split: option.splits if_splits)
    with uuid_textD(1) [OF lib] show ?thesis by (metis option.inject)
  qed
  have idx: "idx = (if topic_Type e = TopicTypeMutationEventWithReply then 3 else 1)"
    and type: "topic_Type e \<notin> {TopicTypeCustomEvent, TopicTypeDeadLetterEvent}"
    using known_tenantIndex [OF spec(1)] spec(2,3) by (auto split: if_splits)
  note subject = topic_String_defs Split_format [OF lib]
  show "length (strings_Split 46 (topic_String lib e)) = length (fst (snd spec))"
    by (rule known_length [OF spec(1) lib spec(2)])
  show "strings_Split 46 (topic_String lib e) ! idx = tx_string lib tid \<longleftrightarrow> GetTenantID lib e = Some (Inr tid)"
  proof (cases e)
    case (TemporalWorkflowStateChangeTopic t)
    with e have "token_ok (ts_Namespace t)" "ParseTenantNamespace lib (ts_Namespace t) \<noteq> None"
      by (simp_all add: tenant_event_def)
    with ns [OF this(2)] TemporalWorkflowStateChangeTopic show ?thesis
      by (auto simp: idx subject format_token TemporalWorkflowStateChangeTopic_GetTenantID_def parseNamespace_def
          parseUUIDOrWildcard_def split: option.splits simp del: formatTopicPart.simps)
  qed (use e type uuid_textD(4) [OF lib] in \<open>simp_all add: idx subject format_uuid [OF lib] tenant_event_def
      del: formatTopicPart.simps\<close>)
qed

text \<open>
  What the broker delivers to a subject and to the same subject with the tenant replaced, token by
  token.
\<close>

lemma delivered_with_tenant:
  assumes lib: "uuid_text lib" and spec: "spec \<in> set knownTopics" "tenantIndex (fst (snd spec)) = Some idx"
    and e: "tenant_event lib e" "topic_Type e = fst spec"
    and n: "n = length (fst (snd spec))" and fit: "partsFit n (subjectParts lib s)" and fit': "partsFit n (strings_Split 46 s')"
    and exp: "expandParts n (strings_Split 46 s') = (expandParts n (subjectParts lib s))[idx := tx_string lib tid]"
  shows "delivers s' (topic_String lib e) \<longleftrightarrow> GetTenantID lib e = Some (Inr tid)
      \<and> (\<forall>i < n. i \<noteq> idx \<longrightarrow> expandParts n (subjectParts lib s) ! i \<in> {[42], strings_Split 46 (topic_String lib e) ! i})"
    and "delivers (strings_TrimSpace lib s) (topic_String lib e) \<longleftrightarrow>
      (\<forall>i < n. expandParts n (subjectParts lib s) ! i \<in> {[42], strings_Split 46 (topic_String lib e) ! i})"
proof -
  let ?x = "strings_Split 46 (topic_String lib e)" and ?parts = "subjectParts lib s"
  have ne: "?parts \<noteq> []" by (simp add: subjectParts_def)
  note len = partsFit_length [OF fit ne]
  have idx: "idx < n" using known_tenant [OF spec] n by simp
  note tokens = event_tokens [OF lib e(1) spec(1) e(2) [symmetric] spec(2)]
  have x: "length ?x = n" "?x ! idx = tx_string lib tid \<longleftrightarrow> GetTenantID lib e = Some (Inr tid)"
    using tokens n by simp_all
  have tid: "tx_string lib tid \<noteq> [42]" using uuid_textD(3) [OF lib, of tid] by auto
  have "delivers s' (topic_String lib e)
      \<longleftrightarrow> list_all2 (\<lambda>p y. p = [42] \<or> p = y) ((expandParts n ?parts)[idx := tx_string lib tid]) ?x"
    using nats_match_expand [of ?x "strings_Split 46 s'"] fit' by (simp add: delivers_def x(1) exp)
  also have "\<dots> \<longleftrightarrow> ?x ! idx = tx_string lib tid \<and> (\<forall>i < n. i \<noteq> idx \<longrightarrow> expandParts n ?parts ! i \<in> {[42], ?x ! i})"
    using idx tid len by (auto simp: list_all2_conv_all_nth x(1) nth_list_update)
  finally show "delivers s' (topic_String lib e) \<longleftrightarrow> GetTenantID lib e = Some (Inr tid)
      \<and> (\<forall>i < n. i \<noteq> idx \<longrightarrow> expandParts n ?parts ! i \<in> {[42], ?x ! i})" by (simp add: x(2))
  show "delivers (strings_TrimSpace lib s) (topic_String lib e) \<longleftrightarrow> (\<forall>i < n. expandParts n ?parts ! i \<in> {[42], ?x ! i})"
    using nats_match_expand [of ?x ?parts] fit ne len
    by (auto simp: delivers_def subjectParts_def x(1) list_all2_conv_all_nth)
qed

lemma open_tenant_token:
  assumes "i < length (expandParts n parts)" and "parseUUIDOrWildcard lib (expandParts n parts ! i) = Some uuid_Nil"
    and "\<forall>p \<in> set parts. tx_parse lib p \<noteq> Some uuid_Nil"
  shows "expandParts n parts ! i = [42]"
proof (rule ccontr)
  assume star: "expandParts n parts ! i \<noteq> [42]"
  have "expandParts n parts ! i \<in> set (expandParts n parts)" using assms(1) by simp
  moreover have "set (expandParts n parts) \<subseteq> insert [42] (set parts)"
    using set_take_subset [of _ parts] by (auto simp: expandParts_def split: option.splits)
  ultimately show False using star assms(2,3) by (auto simp: parseUUIDOrWildcard_def)
qed

text \<open>
  C29: \<open>WithTenant\<close> scopes a subscription to a tenant and does nothing else. The result parses to
  the topic of the subject with the tenant replaced. Of the events of the subject's type the broker
  delivers it those of that tenant only; it is delivered every event of the tenant the subject was;
  and when the subject left the tenant open, nothing more.
\<close>
theorem with_tenant_narrows:
  assumes lib: "uuid_text lib" and run: "WithTenant lib s tid = Inr s'"
  shows "\<exists>t. Parse lib s = Inr (TopicPointer t) \<and> Parse lib s' = Inr (TopicPointer (SetTenantID lib tid t))
    \<and> (\<forall>e. tenant_event lib e \<and> topic_Type e = topic_Type t \<longrightarrow>
         (delivers s' (topic_String lib e) \<longrightarrow> GetTenantID lib e = Some (Inr tid))
       \<and> (GetTenantID lib e = Some (Inr tid) \<and> delivers (strings_TrimSpace lib s) (topic_String lib e)
            \<longrightarrow> delivers s' (topic_String lib e))
       \<and> (GetTenantID lib t = Some (Inr uuid_Nil) \<and> (\<forall>p \<in> set (subjectParts lib s). tx_parse lib p \<noteq> Some uuid_Nil)
            \<and> delivers s' (topic_String lib e) \<longrightarrow> delivers (strings_TrimSpace lib s) (topic_String lib e)))"
proof -
  from subject_with_tenant [OF lib run] obtain spec t idx where parse: "Parse lib s = Inr (TopicPointer t)"
      "Parse lib s' = Inr (TopicPointer (SetTenantID lib tid t))"
    and spec: "spec \<in> set knownTopics" "topic_Type t = fst spec" "tenantIndex (fst (snd spec)) = Some idx"
    and fit: "partsFit (length (fst (snd spec))) (subjectParts lib s)"
    and s': "strings_Split 46 s' = withTenantParts (tx_string lib tid) idx (length (fst (snd spec))) (subjectParts lib s)"
    and u: "\<exists>u. GetTenantID lib t = Some (Inr u)
       \<and> parseUUIDOrWildcard lib (expandParts (length (fst (snd spec))) (subjectParts lib s) ! idx) = Some u"
    by metis
  let ?n = "length (fst (snd spec))" and ?parts = "subjectParts lib s" and ?tid = "tx_string lib tid"
  have ne: "?parts \<noteq> []" by (simp add: subjectParts_def)
  note idx = known_tenant [OF spec(1,3), THEN conjunct1] known_tenant [OF spec(1,3), THEN conjunct2]
  note len = partsFit_length [OF fit ne]
  have tid: "?tid \<noteq> [62]" "?tid \<noteq> [42]" using uuid_textD(3) [OF lib, of tid] by auto
  have fit': "partsFit ?n (strings_Split 46 s')"
    unfolding s' by (rule partsFit_withTenant [OF fit ne idx(2) tid(1)])
  have exp: "expandParts ?n (strings_Split 46 s') = (expandParts ?n ?parts)[idx := ?tid]"
    using expand_withTenant [OF fit ne idx(2) tid(1)] fit' unfolding s' by blast
  have "expandParts ?n ?parts ! idx = [42]"
    if "GetTenantID lib t = Some (Inr uuid_Nil)" "\<forall>p \<in> set ?parts. tx_parse lib p \<noteq> Some uuid_Nil"
    using open_tenant_token [of idx ?n ?parts lib] that u len idx by auto
  with delivered_with_tenant [OF lib spec(1,3) _ _ refl fit fit' exp] spec(2) parse idx show ?thesis
    by (intro exI [of _ t]) (simp, metis insertCI)
qed

end
