(* ===== verification/TopicExamples.thy ===== *)
theory TopicExamples
  imports TenantSubjects
begin

text \<open>
  The topic properties at concrete inputs, with an ASCII text library and a 36-rune spelling of
  identifiers: digits or letters that hold the sign, then the number in unary.
\<close>

definition exText :: text_lib where
  "exText = \<lparr>tx_lower = (\<lambda>r. r), tx_space = (\<lambda>_. False),
     tx_string = (\<lambda>u. replicate 36 (if u < 0 then 97 else 48) @ replicate (nat \<bar>u\<bar>) 49),
     tx_parse = (\<lambda>s. if length s < 36 \<or> drop 36 s \<noteq> replicate (length s - 36) 49 then None
       else if take 36 s = replicate 36 48 then Some (int (length s - 36))
       else if take 36 s = replicate 36 97 \<and> 36 < length s then Some (- int (length s - 36)) else None)\<rparr>"

lemma uuid_text_exText: "uuid_text exText"
proof -
  have "replicate 36 (97::nat) \<noteq> replicate 36 48" by (simp add: eval_nat_numeral)
  then show ?thesis
    by (auto simp: uuid_text_def exText_def list_all_iff token_rune_def)
qed

definition exMutation :: topic where
  "exMutation = MutationEventTopic \<lparr>me_StreamName = [], me_TenantID = 2, me_ServiceName = runes ''Inventory'',
     me_SchemaName = runes ''stock item'', me_EntityID = 1, me_OperationName = runes ''create''\<rparr>"

lemma topic_round_trip_witness:
  "Parse exText (topic_String exText exMutation) = Inr (TopicPointer (MutationEventTopic
     \<lparr>me_StreamName = runes ''pyck'', me_TenantID = 2, me_ServiceName = runes ''inventory'',
      me_SchemaName = runes ''stock-item'', me_EntityID = 1, me_OperationName = runes ''create''\<rparr>))"
  using topic_round_trip [OF uuid_text_exText, of exMutation]
  by (simp add: exMutation_def printed_def printedStream_def getStreamName_def DefaultStreamName_def runes_def
      escapeTopicToken_def strings_ToLower_def strings_TrimSpace_def rune_ToLower_def rune_IsSpace_def)

definition exSubscription :: topic where
  "exSubscription = MutationEventTopic \<lparr>me_StreamName = [], me_TenantID = 2, me_ServiceName = runes ''inventory'',
     me_SchemaName = [], me_EntityID = uuid_Nil, me_OperationName = []\<rparr>"

definition exEvent :: topic where
  "exEvent = MutationEventTopic \<lparr>me_StreamName = runes ''pyck'', me_TenantID = 2, me_ServiceName = runes ''inventory'',
     me_SchemaName = runes ''stock'', me_EntityID = 1, me_OperationName = runes ''create''\<rparr>"

lemma matches_is_delivery_witness:
  "delivers (topic_String exText exSubscription) (topic_String exText exEvent)"
proof -
  have "subscription_topic exSubscription" by (simp add: exSubscription_def runes_eval)
  moreover have "published_topic (topic_of (TopicStruct exEvent))"
    by (simp add: exEvent_def runes_eval uuid_Nil_def)
  moreover have "topic_Matches exSubscription (TopicStruct exEvent)"
    by (simp add: exSubscription_def exEvent_def MutationEventTopic_Matches_def matchesStream_def matchesTenant_def
        matchesString_def matchesUUID_def getStreamName_def DefaultStreamName_def runes_def)
  ultimately show ?thesis
    using matches_is_delivery [OF uuid_text_exText, of exSubscription "TopicStruct exEvent"] by simp
qed

definition exOpen :: gostring where
  "exOpen = runes ''request.reply.pyck.>''"

lemma exOpen_withTenant: "WithTenant exText exOpen 2 = Inr (runes ''request.reply.pyck.00000000000000000000000000000000000011.>'')"
  by code_simp

lemma with_tenant_narrows_witness:
  "\<exists>t. Parse exText exOpen = Inr (TopicPointer t)
    \<and> Parse exText (runes ''request.reply.pyck.00000000000000000000000000000000000011.>'') = Inr (TopicPointer (SetTenantID exText 2 t))"
  using with_tenant_narrows [OF uuid_text_exText exOpen_withTenant] by blast

end
