(* ===== verification/Spec2Isabelle.thy ===== *)
theory Spec2Isabelle
  imports TreeProperties LedgerProperties HandlerProperties CollectionProperties ReparentProperties
    RebuildProperties AccessExamples OutboxExamples TopicExamples
begin

text \<open>
  The core of pyck: the inventory stock service with the mutations that reach it
  (src/backend/inventory), the transaction and idempotency middleware every service runs
  (src/backend/common/gqltx, idempotency, db), the transactional outbox that publishes its events
  (src/backend/common/events) with the topics they are published under (common/events/topic), and
  the access control in front of all of it (src/backend/common/memkv, liveness, authn, tenant, gate,
  nats; src/backend/temporal/authz).

  THE PROGRAM. A request carries a token and tenant headers. Authentication introspects the token,
  or finds it cached, and asks the liveness cache whether the user's tenant still exists; the
  tenant middleware resolves the tenants the request acts on; the gate asks for the role of the
  service. The transaction middleware then runs the resolvers of a mutation in a database
  transaction, retries serialization failures and answers repeated Idempotency-Keys from the first
  response. Resolvers check their input and call the stock service; the ent layer below filters
  every row by tenant. Each write adds a row to the outbox, which pollers publish to the broker.

  The stock service: repositories form a tree per tenant. The stocks table is a ledger: a row is
  the stock of one item at one repository at one version, rows are only appended (a rebuild drops
  and rewrites the rows of a tenant), and the current row of a (repository, item) group is the one with the highest version. Item movements take a
  quantity from one repository to another; repository movements hang a repository with all it
  holds below another; collections group movements and order their execution. A movement is
  created (it reserves incoming and outgoing stock on the two parent chains), then executed
  (quantities move, reservations are released) or deleted (reservations are released). A
  request reads rows, computes new rows in Go maps, and inserts them with versions above those
  it read; the unique index over (tenant, repository, item, version) turns a lost race into an
  OCC conflict. On Postgres some of this happens in stored procedures.

  THEORIES, in the order of the code.
  Prelude: int64 with wrap-around, Go maps with their contract (locale go_map), error results,
    backend/common/std.
  Stock service. StockModel: the rows of backend/inventory/ent/schema, the errors of stock.go, the
    request context, and the state of a transaction: the record db, one list of rows per table.
    EntStore: the query filters and mutation hooks of backend/common/ent/mixin, validators and
    indexes of the schemas. Repositories: repositories.go, lowestCommonAncestor; chains of parents.
    ChainWalk, ExecutorWalk, SimulateWalk: the two recursive walks of impl.go,
    applyRepositoryStockDelta and simulateRepositoryStockMap; both are interpretations of locale
    chain_walk. Rollup: the invariant quantity = own quantity + quantities of the children, and the
    executor. Versions: stockVersionTracker; its two constructors are interpretations of locale
    version_seed. StockInsert: insertStockMap, sortStockCreates, chunks, loadStockRebaseSnapshot,
    rebasedStock, wrapOCCConflict of errors.go. AncestorLoader: ancestor_loader.go, both database
    paths. ItemMovements, ExecuteRollup, RepositoryMovements, Collections: the handlers of impl.go
    and deferred_underflow.go, the stored procedure create_item_movement_proc with its retry loop.
    Rebuild: RebuildStockTable. Lifecycle: one successful request as a step relation; locales
    stock_writer and service say what a relation must satisfy at every primitive write for all
    handlers to keep it, and are interpreted with the ledger relation and with the relations of the
    two movement tables. Properties: TreeProperties, LedgerProperties, HandlerProperties,
    CollectionProperties, ReparentProperties, RebuildProperties, this theory; Examples is the
    warehouse the witnesses evaluate.
  Inventory mutations (inventory/resolvers). InventoryMutations: mutations.resolvers.go,
    edge_validation.go and item_edge_validation.go, and the foreign keys that ent/gen writes for the
    edges of an input (repository_addEdges, repository_clearEdges, item_addEdges). MutationLemmas,
    TreeChanges, MutationProperties: what they check and keep. InventoryRequests: one successful
    mutation of any kind as a step relation (mutation_by), locale inventory, which extends service
    to it, and requests that come through the middleware. TenantIsolation: the interpretation that
    no caller changes a row of another tenant.
  Middleware. DbErrors: common/db/errors.go and retry-transactions.go. FieldNames: the top-level
    fields of a document, fragments included. Idempotency: the keys and their table. TxMiddleware:
    common/gqltx/middleware.go. Once, MiddlewareProperties: sequences of served requests.
  Outbox (common/events). Outbox: the queries, the publish loops and the janitor. OutboxSystem: any
    number of pollers, crashes and lost acknowledgements as a step relation. OutboxProperties,
    OutboxDelivery, OutboxExamples: the properties.
  Topics (common/events/topic). Topic: topic.go and stream.go, the eight topic types, printing,
    parsing, matching and tenant scoping. TopicLemmas: what printing and parsing do to a token.
    TopicProperties, TenantSubjects, TopicExamples: round trip, delivery, WithTenant.
  Access control. MemKV: memkv/store.go. Liveness: liveness.go, lookups, shared calls and evictions
    interleaved access by access; locale verdict_store is what it needs of the store. Authn: users,
    roles, introspection and the token cache of authn. TenantAccess: the tenant middleware, the gate
    and the NATS callout. TemporalAuthz: temporal/authz. AccessProperties, AccessExamples: the
    access path as a whole and its examples.

  HOW STATE AND EFFECTS ARE MODELLED. A handler is a function from the context, its input and the db
  to an error or a result with the new db. A failed request leaves the db as it was (the transaction
  is rolled back). Transactions run at READ COMMITTED, so between two statements of a handler other
  transactions commit, and the handler sees what they did: their effect is a function of the number
  of the statement and the db (others, meanwhile) or one for each of the two gaps that matter (env,
  env'), which the handlers of item movements, the stored procedure, the execution and the other
  handlers of repository movements, the collections and the rebuild take as arguments. In C1 it is
  undisturbed; in C2-C5 and C27 it is any sequence of mutations. A transaction that commits between
  two writes of a handler is given the state with the first of them in it, which Postgres would hide
  from it. The mutations of items and repositories, the updates of movements and collections,
  DeleteCollection and deleteInventoryStock run undisturbed. Clock and generated identifiers are functions of the context, indexed by the number
  of writes so far. Where the order of concurrent accesses is the point (the outbox pollers, the
  liveness cache) the code is a step relation whose steps are the single accesses, and the
  properties are about every state its runs reach. Code that is not under src/ is an argument:
  SHA-1, uuid.Parse and uuid.String, the introspection at Zitadel, the role bits and the base
  authorizer of Temporal, the broker's answers, JSON.

  WHAT IS SHOWN. Stock: executing keeps the rollup (C1); under all mutations, interleaved, the
  ledger and the movement table stay sound (C2, C3); the LCA is the least common ancestor (C26); the
  walks write exactly the rows they should, undo each other and fail only as stated (C6, C7, C9,
  C10); a repository movement never conflicts with itself (C12); a movement is created only within
  the stock the gate saw (C17) and a collection overdraws no source (C25); the rebuild replays
  events in an order that any sort by its comparison gives (C31) and both database paths load the
  same rows (C34). Beside these, examples show what the code admits: an item movement executed
  twice, or executed and deleted (executed_twice, executed_and_deleted), one created beyond the
  stock by the retry of the stored procedure (retry_overdraws), and cycles of parents closed by
  re-parenting, by an update or by attached children (reparenting_gets_stuck, update_parent_unsound,
  attached_children_cycle). Mutations: no caller touches a row of another tenant, edges and rebuilds
  included (C4), clients move the tables only along whole mutations (C5), the repository tree stays
  a forest under all inputs but two kinds (C13), items with stock are not deleted (C15), edges stay
  in the tenant (C16). Middleware: a key commits at most once (C36), a repeat is answered from the
  first response (C37), retryable failures within the budget do not reach the client (C39), only
  whole exempt documents skip the transaction (C40). Outbox: events are published in order (C8),
  none is lost (C14), leases hold (C19), the code's loops are runs of the concurrent model (C23),
  selected groups are delivered (C30), the janitor ends (C35). Topics: parsing inverts printing
  (C20), matching is what the broker delivers (C21), scoping to a tenant narrows a subscription to
  its events (C29). Access: a disabled tenant is locked out (C11) and its data frozen for tenant
  users (C27), because the verdict cache never serves what an applied event has overruled (C22);
  authentication fails closed (C24) and serves no outdated token (C38); users, acting sets and
  Temporal claims are what roles and liveness make them (C32, C18, C28); the token store evicts
  exactly a tenant's tokens (C33).

  FUEL. The recursive walks take walk_fuel, two more than the number of repositories loaded: on a
  chain that ends this is enough (C6, C7, C9, C10), and on one that does not end running out stands
  for Go's stack overflow. The recursive queries carry the code's own depth caps, 100 and 64; the
  theorems about loaded trees assume a tree within the cap. The sweep of the janitor is a partial
  function, of which C35 shows that it returns; the retry loop of the stored procedure counts down
  its fifty retries. All other recursion is structural or has a termination proof.

  NOT MODELLED. The generated ent and gqlgen code, but for the edges; item sets, replenishment
  orders, JSON patches and queries of the inventory service, which write no column of the model; the
  other services (management, workflow, picking, receiving, file, main data), which are CRUD
  resolvers over generated code or bindings to Temporal; the ent hook that builds outbox rows by
  reflection, stream set-up; the permissions and the token the NATS callout signs; the checksum of
  an operation, metrics, logging, timers and paging (a paged read is a read of the table); role
  checks of the mixins and free-form data columns. The uniqueness hook and the outbox emitter are
  parameters of the stock handlers.
\<close>

section \<open>Properties that span components\<close>

text \<open>
  C1: executing an item movement keeps the rollup of the ledger. If before the request every
  repository of the tenant's tree has as quantity its own quantity plus the quantities of its
  children, then it does so afterwards. Assumed: both trees above the ends are loaded within
  the depth cap, the item's ledger belongs to the tenant and has no soft-deleted row, virtual
  and real repositories do not mix on a chain, the counters have room for the quantity, and
  the moved stock lies at the source itself.
\<close>
theorem execute_keeps_rollup:
  assumes "ExecuteItemMovement undisturbed dialect c mv tn d = Inr d'" and "itemMovement_Get c d mv = Inr m"
    and "TenantIDQueryFilter c tn" and "ledger_ready d tn (im_item m)"
    and "tree_ready (tenantTree d tn False) (im_from m)" "tree_ready (tenantTree d tn False) (im_to m)"
    and "0 < im_quantity m" "fits64 (im_quantity m)"
    and "rollup_ready (tenantTree d tn False) (currentStock d tn (im_item m)) (im_quantity m)"
    and "\<not> isVirtual (tenantTree d tn False) (im_from m) \<Longrightarrow>
      im_quantity m \<le> own_quantity (currentStock d tn (im_item m) (im_from m))"
    and "rollup_ok (tenantTree d tn False) (currentStock d tn (im_item m))"
  shows "rollup_ok (tenantTree d' tn False) (currentStock d' tn (im_item m))"
  using assms by (rule ExecuteItemMovement_keeps_rollup)

theorem execute_keeps_rollup_witness:
  "\<exists>d'. ExecuteItemMovement undisturbed Postgres exCtx 500 1 exDb = Inr d' \<and> rollup_ok (tenantTree d' 1 False) (currentStock d' 1 5)"
proof -
  have "succeeds (ExecuteItemMovement undisturbed Postgres exCtx 500 1 exDb)" by code_simp
  then obtain d' where run: "ExecuteItemMovement undisturbed Postgres exCtx 500 1 exDb = Inr d'" by (rule succeedsE)
  have get: "itemMovement_Get exCtx exDb 500 = Inr exMovement" by code_simp
  have item: "im_item exMovement = 5" by code_simp
  have "rollup_ok (tenantTree d' 1 False) (currentStock d' 1 (im_item exMovement))"
  proof (rule execute_keeps_rollup [OF run get])
    show "TenantIDQueryFilter exCtx 1" "ledger_ready exDb 1 (im_item exMovement)"
      "tree_ready exTree (im_from exMovement)" "tree_ready exTree (im_to exMovement)"
      "0 < im_quantity exMovement" "fits64 (im_quantity exMovement)"
      "rollup_ready exTree (currentStock exDb 1 (im_item exMovement)) (im_quantity exMovement)"
      "im_quantity exMovement \<le> own_quantity (currentStock exDb 1 (im_item exMovement) (im_from exMovement))"
      "rollup_ok exTree (currentStock exDb 1 (im_item exMovement))"
      by code_simp+
  qed
  with run item show ?thesis by metis
qed

text \<open>
  C2: in every state that any sequence of successful mutations leads to, on either database path and with
  any other mutations committing between the statements of a handler, the unique index of the
  ledger holds and no row has a negative counter. The mutations include the rebuild, which drops the ledger
  of its tenant and writes it again: of the tenants \<open>T\<close> that may be rebuilt nothing else is said, and
  the ledger of every other tenant has only grown, so no row of it was changed or removed.
\<close>
theorem reachable_ledger:
  assumes "(mutation T dialect)\<^sup>*\<^sup>* d d'" and "ledger_ok (stocks d)" and "nonneg_rows (stocks d)"
  shows "ledger_ok (stocks d') \<and> nonneg_rows (stocks d')
    \<and> (\<exists>rows. filter (\<lambda>s. s_tenant s \<notin> T) (stocks d') = filter (\<lambda>s. s_tenant s \<notin> T) (stocks d) @ rows)"
  using ledger.R_mutations [OF assms(1)] assms(2,3) by (simp add: ledger_step_def ledger_outside_def)

text \<open>Tenant 1 is rebuilt, and the row of tenant 2 stays.\<close>

theorem reachable_ledger_witness:
  "\<exists>d'. mutation {1} Postgres exShared d' \<and> ledger_ok (stocks d')
     \<and> length (filter (\<lambda>s. s_tenant s \<notin> {1}) (stocks d')) \<ge> 1 \<and> length (stocks d') \<noteq> length (stocks exShared)"
proof -
  let ?run = "RebuildInventoryStock undisturbed Postgres exCtx True (\<lambda>_. True) False exShared"
  have "case ?run of Inl _ \<Rightarrow> False | Inr d' \<Rightarrow> length (stocks d') \<noteq> length (stocks exShared)" by code_simp
  then obtain d' where run: "?run = Inr d'" and len: "length (stocks d') \<noteq> length (stocks exShared)"
    by (auto split: sum.splits)
  have "MutationTenantID exCtx = Inr 1" by code_simp
  from mutation_by.rebuildInventoryStock [where C = any_ctx, OF TrueI this _ run] have r: "mutation {1} Postgres exShared d'"
    by simp
  have "ledger_ok (stocks exShared)" "nonneg_rows (stocks exShared)"
    "length (filter (\<lambda>s. s_tenant s \<notin> {1}) (stocks exShared)) = 1" by code_simp+
  with reachable_ledger [OF r_into_rtranclp, of "{1}", OF r] r len show ?thesis by auto
qed

text \<open>
  C3: whatever mutations are served, rebuilds included, with any other mutations committing between the
  statements of a handler, no item movement vanishes, the identifiers stay distinct, its item, ends,
  quantity and place in a collection are what they were, an executed one stays executed
  and a deleted one is frozen, so it is never executed after its deletion.
\<close>
theorem reachable_movements:
  assumes "(mutation_by any_ctx any_tenant dialect)\<^sup>*\<^sup>* d d'" and "movements_ok (item_movements d)"
  shows "movements_ok (item_movements d')
    \<and> (\<forall>m \<in> set (item_movements d). \<exists>m' \<in> set (item_movements d'). movement_kept m m')"
  using movements.R_mutations [OF assms(1)] assms(2) by (simp add: movements_step_def)

text \<open>Movement 500 is executed while another mutation executes it.\<close>

definition exExecutesToo :: "db \<Rightarrow> error + db" where
  "exExecutesToo = ExecuteInventoryItemMovement undisturbed Postgres exOther 500"

lemma exMeanwhile_mutation: "(mutation_by any_ctx any_tenant Postgres)\<^sup>*\<^sup>* x (exMeanwhile k exExecutesToo n x)"
proof (cases "exExecutesToo x")
  case (Inr d')
  from mutation_by.executeInventoryItemMovement [where C = any_ctx, OF TrueI this [unfolded exExecutesToo_def]] Inr
  show ?thesis by (auto simp: exMeanwhile_def)
qed (simp add: exMeanwhile_def)

theorem reachable_movements_witness:
  "\<exists>d'. mutation_by any_ctx any_tenant Postgres exDb d' \<and> movements_ok (item_movements d')
    \<and> (\<exists>m' \<in> set (item_movements d'). movement_kept exMovement m')"
proof -
  let ?run = "ExecuteInventoryItemMovement (exMeanwhile 0 exExecutesToo) Postgres exCtx 500 exDb"
  have "succeeds ?run" by code_simp
  then obtain d' where "?run = Inr d'" by (rule succeedsE)
  note r = mutation_by.executeInventoryItemMovement [where C = any_ctx and B = any_tenant, OF TrueI this]
  then have r: "mutation_by any_ctx any_tenant Postgres exDb d'" using exMeanwhile_mutation by blast
  have "movements_ok (item_movements exDb)" "exMovement \<in> set (item_movements exDb)" by code_simp+
  with reachable_movements [OF r_into_rtranclp [of "mutation_by any_ctx any_tenant Postgres", OF r]] r show ?thesis by blast
qed

end
